(* ===== verification/Prelude.thy ===== *)
theory Prelude
  imports "HOL-Library.Word" "HOL-Library.Monad_Syntax"
begin

text \<open>
  Shared vocabulary of the development: the C integer types of \<^verbatim>\<open>types.h\<close>, C string
  literals, checked accesses to C arrays, block writes into a byte memory, and the lemmas
  about them that every component uses.

  Two conventions run through all theories.  A C operation that can leave its object
  (an out-of-bounds access) has an \<open>option\<close> result and \<open>None\<close> is that undefined
  behaviour, so a theorem that concludes \<open>Some\<close> is also a memory-safety statement.  A
  region of memory that is written through a computed address (the text screens) is a
  total function from byte offsets to bytes, and safety is a frame statement about which
  offsets change.
\<close>

unbundle bit_operations_syntax

named_theorems op_defs \<open>definitions of operations, unfolded by the component proofs\<close>
named_theorems frame \<open>which parts of the state an operation leaves alone\<close>
named_theorems inv_intros \<open>every operation keeps the invariant of its component\<close>

type_synonym byte = "8 word"    \<comment> \<open>\<^verbatim>\<open>uint8_t\<close>, and the bits of \<^verbatim>\<open>int8_t\<close> and \<^verbatim>\<open>char\<close>\<close>
type_synonym u16 = "16 word"
type_synonym u32 = "32 word"
type_synonym cells = "int \<Rightarrow> byte"  \<comment> \<open>bytes addressed by their offset from a base pointer\<close>

section \<open>Characters and string literals\<close>

definition lit :: "string \<Rightarrow> byte list" where
  "lit s = map of_char s"

text \<open>The array a C string literal denotes: its characters and the closing NUL.\<close>

definition cstr :: "string \<Rightarrow> byte list" where
  "cstr s = lit s @ [0]"

lemma lit_simps [simp]: "lit [] = []" "lit (c # s) = of_char c # lit s"
  by (simp_all add: lit_def)

lemma length_lit [simp]: "length (lit s) = length s"
  by (simp add: lit_def)

abbreviation NL :: byte where "NL \<equiv> 10"     \<comment> \<open>\<^verbatim>\<open>'\n'\<close>\<close>
abbreviation CR :: byte where "CR \<equiv> 13"     \<comment> \<open>\<^verbatim>\<open>'\r'\<close>\<close>
abbreviation SPC :: byte where "SPC \<equiv> 32"   \<comment> \<open>\<^verbatim>\<open>' '\<close>\<close>

section \<open>Checked array accesses\<close>

definition aget :: "'a list \<Rightarrow> nat \<Rightarrow> 'a option" where
  "aget xs i = (if i < length xs then Some (xs ! i) else None)"

definition aset :: "'a list \<Rightarrow> nat \<Rightarrow> 'a \<Rightarrow> 'a list option" where
  "aset xs i v = (if i < length xs then Some (xs[i := v]) else None)"

lemma aget_in [simp]: "i < length xs \<Longrightarrow> aget xs i = Some (xs ! i)"
  by (simp add: aget_def)

lemma aset_in [simp]: "i < length xs \<Longrightarrow> aset xs i v = Some (xs[i := v])"
  by (simp add: aset_def)

lemma aget_SomeD: "aget xs i = Some v \<Longrightarrow> i < length xs \<and> v = xs ! i"
  by (auto simp: aget_def split: if_splits)

lemma aset_SomeD: "aset xs i v = Some ys \<Longrightarrow> i < length xs \<and> ys = xs[i := v]"
  by (auto simp: aset_def split: if_splits)

section \<open>Writing a run of bytes into a buffer\<close>

text \<open>\<open>overwrite ys xs\<close> is the buffer \<open>xs\<close> after the bytes \<open>ys\<close> have been stored from its
  first byte on; \<open>None\<close> when they do not fit.\<close>

definition overwrite :: "'a list \<Rightarrow> 'a list \<Rightarrow> 'a list option" where
  "overwrite ys xs = (if length ys \<le> length xs then Some (ys @ drop (length ys) xs) else None)"

lemma overwrite_fits [simp]:
  "length ys \<le> length xs \<Longrightarrow> overwrite ys xs = Some (ys @ drop (length ys) xs)"
  by (simp add: overwrite_def)

lemma overwrite_length: "overwrite ys xs = Some zs \<Longrightarrow> length zs = length xs"
  by (auto simp: overwrite_def split: if_splits)

section \<open>Updating a total memory\<close>

text \<open>A loop that stores \<open>v i\<close> at the address \<open>f i\<close> for each \<open>i\<close> of a list, where the
  addresses are distinct and the values do not depend on the memory.\<close>

lemma fold_upd_notin:
  "(\<forall>i \<in> set is. f i \<noteq> a) \<Longrightarrow> fold (\<lambda>i m. m(f i := v i)) is m a = m a"
  by (induction "is" arbitrary: m) auto

lemma fold_upd_in:
  "\<lbrakk>i \<in> set is; inj_on f (set is)\<rbrakk> \<Longrightarrow> fold (\<lambda>i m. m(f i := v i)) is m (f i) = v i"
proof (induction "is" arbitrary: m)
  case Nil
  then show ?case by simp
next
  case (Cons j js)
  show ?case
  proof (cases "i \<in> set js")
    case True
    with Cons show ?thesis by (simp add: inj_on_def)
  next
    case False
    with Cons.prems have "i = j" by simp
    moreover have "\<forall>k \<in> set js. f k \<noteq> f j"
      using Cons.prems False \<open>i = j\<close> by (auto simp: inj_on_def)
    ultimately show ?thesis
      using fold_upd_notin [of js f "f j" v "m(f j := v j)"] by (simp del: fun_upd_apply) simp
  qed
qed

text \<open>Copying \<open>n\<close> bytes between two memories, from their first byte on.\<close>

definition blit :: "int \<Rightarrow> (int \<Rightarrow> 'a) \<Rightarrow> (int \<Rightarrow> 'a) \<Rightarrow> (int \<Rightarrow> 'a)" where
  "blit n src dst = (\<lambda>a. if 0 \<le> a \<and> a < n then src a else dst a)"

lemma blit_in [simp]: "\<lbrakk>0 \<le> a; a < n\<rbrakk> \<Longrightarrow> blit n src dst a = src a"
  by (simp add: blit_def)

lemma blit_out [simp]: "\<not> (0 \<le> a \<and> a < n) \<Longrightarrow> blit n src dst a = dst a"
  by (auto simp: blit_def)

lemma blit_blit [simp]: "blit n (blit n src mid) dst = blit n src dst"
  by (auto simp: blit_def)

section \<open>List lemmas\<close>

lemma takeWhile_prefix_end:
  assumes "\<forall>c \<in> set xs. P c" and "\<not> P z"
  shows "takeWhile P (xs @ z # rest) = xs"
  using assms by (simp add: takeWhile_append2)

lemma find_index_least:
  "List.find P [m..<n] = Some i \<longleftrightarrow> m \<le> i \<and> i < n \<and> P i \<and> (\<forall>j. m \<le> j \<and> j < i \<longrightarrow> \<not> P j)"
    (is "?found \<longleftrightarrow> ?least")
proof
  assume ?found
  then obtain k where k: "k < n - m" "P (m + k)" "i = m + k" "\<forall>j<k. \<not> P (m + j)"
    by (auto simp: find_Some_iff)
  have "\<not> P j" if "m \<le> j" "j < i" for j
    using k that spec [OF k(4), of "j - m"] by simp
  with k show ?least by simp
next
  assume ?least
  then have "i - m < n - m \<and> P (m + (i - m)) \<and> i = m + (i - m) \<and> (\<forall>j<i - m. \<not> P (m + j))"
    by auto
  then show ?found by (auto simp: find_Some_iff)
qed

lemma find_index_None: "List.find P [m..<n] = None \<longleftrightarrow> (\<forall>i. m \<le> i \<and> i < n \<longrightarrow> \<not> P i)"
  by (auto simp: find_None_iff)

end
