(* ===== verification/CString.thy ===== *)
theory CString
  imports Prelude
begin

text \<open>
  The string functions of \<^verbatim>\<open>student-distrib/lib.c\<close>: \<^verbatim>\<open>strlen\<close>, \<^verbatim>\<open>strcpy\<close>, \<^verbatim>\<open>strncpy\<close>,
  \<^verbatim>\<open>strncmp\<close>, \<^verbatim>\<open>strrev\<close> and \<^verbatim>\<open>itoa\<close>.

  A pointer argument is the list of bytes from the pointer to the end of the object it
  points into; a read or a write past that end is \<open>None\<close>.  Lengths and counts are
  natural numbers: an object in a 32-bit address space has fewer than \<open>2\<^sup>3\<^sup>2\<close> bytes, so
  the \<^verbatim>\<open>uint32_t\<close> counters of the source do not wrap on it.  \<^verbatim>\<open>int8_t\<close> is \<^verbatim>\<open>char\<close>, which
  is signed here, so the difference \<^verbatim>\<open>strncmp\<close> returns is one of \<open>sint\<close> values.
\<close>

section \<open>The functions\<close>

fun strlen :: "byte list \<Rightarrow> nat option" where
  "strlen [] = None"
| "strlen (c # s) = (if c \<noteq> 0 then map_option Suc (strlen s) else Some 0)"

fun strcpy :: "byte list \<Rightarrow> byte list \<Rightarrow> byte list option" where
  "strcpy (d # dest) (c # src) =
     (if c \<noteq> 0 then map_option ((#) c) (strcpy dest src) else Some (0 # dest))"
| "strcpy _ _ = None"

text \<open>The second loop of \<^verbatim>\<open>strncpy\<close>, which fills the rest with NUL bytes.\<close>

fun strncpy_pad :: "byte list \<Rightarrow> nat \<Rightarrow> byte list option" where
  "strncpy_pad dest 0 = Some dest"
| "strncpy_pad (d # dest) (Suc n) = map_option ((#) 0) (strncpy_pad dest n)"
| "strncpy_pad [] (Suc n) = None"

text \<open>The loop test \<^verbatim>\<open>src[i] != '\0' && i < n\<close> reads the source before it compares the
  count, so the byte after the last copied one must exist too.\<close>

fun strncpy :: "byte list \<Rightarrow> byte list \<Rightarrow> nat \<Rightarrow> byte list option" where
  "strncpy dest [] n = None"
| "strncpy dest (c # src) n =
     (if c \<noteq> 0 \<and> 0 < n then
        (case dest of [] \<Rightarrow> None | _ # dest' \<Rightarrow> map_option ((#) c) (strncpy dest' src (n - 1)))
      else strncpy_pad dest n)"

fun strncmp :: "byte list \<Rightarrow> byte list \<Rightarrow> nat \<Rightarrow> int option" where
  "strncmp s1 s2 0 = Some 0"
| "strncmp (a # s1) (b # s2) (Suc n) =
     (if a \<noteq> b \<or> a = 0 then Some (sint a - sint b) else strncmp s1 s2 n)"
| "strncmp _ _ (Suc n) = None"

function strrev_loop :: "byte list \<Rightarrow> int \<Rightarrow> int \<Rightarrow> byte list option" where
  "strrev_loop s beg end =
     (if beg < end then do {
        tmp \<leftarrow> aget s (nat end);
        b \<leftarrow> aget s (nat beg);
        s \<leftarrow> aset s (nat end) b;
        s \<leftarrow> aset s (nat beg) tmp;
        strrev_loop s (beg + 1) (end - 1)
      } else Some s)"
  by pat_completeness auto
termination
  by (relation "measure (\<lambda>(s, beg, end). nat (end - beg))") auto

declare strrev_loop.simps [simp del]

definition strrev :: "byte list \<Rightarrow> byte list option" where
  "strrev s = do { n \<leftarrow> strlen s; strrev_loop s 0 (int n - 1) }"

definition itoa_lookup :: "byte list" where
  "itoa_lookup = cstr ''0123456789ABCDEFGHIJKLMNOPQRSTUVWXYZ''"

text \<open>
  The digit loop, which collects the characters from the lowest place on.  With radix 0
  the division traps and with radix 1 the loop never ends: neither returns.  A remainder
  of 37 or more reads past the table.
\<close>

function itoa_loop :: "nat \<Rightarrow> nat \<Rightarrow> byte list \<Rightarrow> byte list option" where
  "itoa_loop newval radix newbuf =
     (if 0 < newval then
        if radix < 2 then None
        else do {
          c \<leftarrow> aget itoa_lookup (newval mod radix);
          itoa_loop (newval div radix) radix (newbuf @ [c])
        }
      else Some newbuf)"
  by pat_completeness auto
termination
  by (relation "measure (\<lambda>(newval, radix, newbuf). newval)") auto

declare itoa_loop.simps [simp del]

definition itoa :: "nat \<Rightarrow> byte list \<Rightarrow> nat \<Rightarrow> byte list option" where
  "itoa value buf radix =
     (if value = 0 then overwrite (cstr ''0'') buf
      else do {
        newbuf \<leftarrow> itoa_loop value radix [];
        buf \<leftarrow> overwrite (newbuf @ [0]) buf;
        strrev buf
      })"

section \<open>Strings in buffers\<close>

text \<open>The characters before the first NUL, which is what a C string is.\<close>

definition chars :: "byte list \<Rightarrow> byte list" where
  "chars s = takeWhile (\<lambda>c. c \<noteq> 0) s"

lemma chars_terminated [simp]: "0 \<notin> set s \<Longrightarrow> chars (s @ 0 # r) = s"
  unfolding chars_def by (rule takeWhile_prefix_end) auto

lemma chars_no_nul [simp]: "0 \<notin> set (chars s)"
  by (auto simp: chars_def dest: set_takeWhileD)

lemma terminatedE:
  assumes "0 \<in> set s"
  obtains r where "s = chars s @ 0 # r"
proof -
  from assms obtain xs r where "s = xs @ 0 # r" "0 \<notin> set xs"
    by (meson split_list_first)
  then show thesis using that [of r] by simp
qed

lemma length_chars_less: "0 \<in> set s \<Longrightarrow> length (chars s) < length s"
  by (erule terminatedE) (metis length_append less_add_same_cancel1 length_greater_0_conv list.distinct(1))

lemma strlen_terminated [simp]: "0 \<notin> set s \<Longrightarrow> strlen (s @ 0 # r) = Some (length s)"
  by (induction s) auto

lemma strlen_None_iff: "strlen s = None \<longleftrightarrow> 0 \<notin> set s"
  by (induction s) auto

lemma strlen_chars: "0 \<in> set s \<Longrightarrow> strlen s = Some (length (chars s))"
  by (metis chars_no_nul strlen_terminated terminatedE)

lemma strlen_SomeD: "strlen s = Some n \<Longrightarrow> 0 \<in> set s \<and> n = length (chars s)"
  by (metis option.distinct(1) option.inject strlen_None_iff strlen_chars)

lemma strcpy_terminated:
  "0 \<notin> set s \<Longrightarrow> strcpy dest (s @ 0 # r) =
     (if length s < length dest then Some (s @ 0 # drop (Suc (length s)) dest) else None)"
proof (induction s arbitrary: dest)
  case Nil
  then show ?case by (cases dest) auto
next
  case (Cons c s)
  then show ?case by (cases dest) auto
qed

lemma strcpy_chars:
  "\<lbrakk>0 \<in> set src; length (chars src) < length dest\<rbrakk> \<Longrightarrow>
   strcpy dest src = Some (chars src @ 0 # drop (Suc (length (chars src))) dest)"
  by (metis chars_no_nul strcpy_terminated terminatedE)

lemma strncpy_pad_eq:
  "strncpy_pad dest n = (if n \<le> length dest then Some (replicate n 0 @ drop n dest) else None)"
  by (induction dest n rule: strncpy_pad.induct) auto

lemma strncpy_terminated:
  "\<lbrakk>0 \<notin> set s; n \<le> length dest\<rbrakk> \<Longrightarrow> strncpy dest (s @ 0 # r) n =
     Some (take n s @ replicate (n - length s) 0 @ drop n dest)"
proof (induction s arbitrary: dest n)
  case Nil
  then show ?case by (simp add: strncpy_pad_eq)
next
  case (Cons c s)
  then show ?case by (cases dest; cases n) (auto simp: strncpy_pad_eq)
qed

section \<open>\<^verbatim>\<open>strncmp\<close> decides equality of prefixes\<close>

lemma sint_diff_eq_0: "sint (a :: byte) - sint b = 0 \<longleftrightarrow> a = b"
  by (metis eq_iff_diff_eq_0 signed_word_eqI)

lemma sint_byte_inj: "sint (a :: byte) = sint b \<longleftrightarrow> a = b" "sint (a :: byte) = 0 \<longleftrightarrow> a = 0"
  using sint_diff_eq_0 [of a b] sint_diff_eq_0 [of a 0] by simp_all

lemma strncmp_defined:
  "\<lbrakk>0 \<in> set s1; 0 \<in> set s2\<rbrakk> \<Longrightarrow> \<exists>d. strncmp s1 s2 n = Some d"
  by (induction s1 s2 n rule: strncmp.induct) auto

lemma strncmp_zero_iff:
  "\<lbrakk>0 \<notin> set a; 0 \<notin> set b\<rbrakk> \<Longrightarrow>
   strncmp (a @ 0 # r) (b @ 0 # r') n = Some 0 \<longleftrightarrow> take n a = take n b"
proof (induction a arbitrary: b n)
  case Nil
  then show ?case by (cases b; cases n) (auto simp: sint_byte_inj)
next
  case (Cons c a)
  then show ?case by (cases b; cases n) (auto simp: sint_byte_inj)
qed

lemma strncmp_zero_chars:
  assumes "0 \<in> set s1" and "0 \<in> set s2"
  shows "strncmp s1 s2 n = Some 0 \<longleftrightarrow> take n (chars s1) = take n (chars s2)"
proof -
  obtain r1 r2 where "s1 = chars s1 @ 0 # r1" and "s2 = chars s2 @ 0 # r2"
    using assms by (metis terminatedE)
  then show ?thesis by (metis chars_no_nul strncmp_zero_iff)
qed

section \<open>\<^verbatim>\<open>strrev\<close> reverses in place\<close>

lemma strrev_loop_segment:
  "strrev_loop (pre @ mid @ post) (int (length pre)) (int (length pre) + int (length mid) - 1)
     = Some (pre @ rev mid @ post)"
proof (induction mid arbitrary: pre post rule: length_induct)
  case (1 mid)
  show ?case
  proof (cases "length mid < 2")
    case True
    then have "rev mid = mid" by (cases mid) auto
    with True show ?thesis by (subst strrev_loop.simps) auto
  next
    case False
    then obtain a m z where mid: "mid = a # m @ [z]"
      by (metis append_butlast_last_id append_Nil append_self_conv butlast.simps(1) length_Cons
          less_2_cases_iff list.exhaust list.size(3) One_nat_def)
    have IH: "strrev_loop ((pre @ [z]) @ m @ (a # post)) (int (length (pre @ [z])))
        (int (length (pre @ [z])) + int (length m) - 1) = Some ((pre @ [z]) @ rev m @ (a # post))"
      by (rule "1" [rule_format]) (simp add: mid)
    have idx: "nat (int (length pre) + int (length mid) - 1) = length pre + Suc (length m)"
      using mid by simp
    show ?thesis
      by (subst strrev_loop.simps)
        (use IH idx in \<open>simp add: mid nth_append list_update_append add.commute add.left_commute\<close>)
  qed
qed

lemma strrev_terminated: "0 \<notin> set s \<Longrightarrow> strrev (s @ 0 # r) = Some (rev s @ 0 # r)"
  using strrev_loop_segment [of "[]" s "0 # r"] by (simp add: strrev_def)

section \<open>\<^verbatim>\<open>itoa\<close> prints the value\<close>

text \<open>What a digit string means: the reading direction of \<^verbatim>\<open>itoa\<close>.\<close>

definition digit_value :: "byte \<Rightarrow> nat" where
  "digit_value c = length (takeWhile (\<lambda>d. d \<noteq> c) itoa_lookup)"

definition digits_value :: "nat \<Rightarrow> byte list \<Rightarrow> nat" where
  "digits_value radix ds = foldl (\<lambda>n c. n * radix + digit_value c) 0 ds"

lemma digits_value_snoc [simp]:
  "digits_value radix [] = 0"
  "digits_value radix (ds @ [c]) = digits_value radix ds * radix + digit_value c"
  by (simp_all add: digits_value_def)

lemma itoa_lookup_facts: "length itoa_lookup = 37" "distinct itoa_lookup" "itoa_lookup ! 36 = 0"
  by (simp_all add: itoa_lookup_def cstr_def)

lemma digit_value_lookup: "i < 37 \<Longrightarrow> digit_value (itoa_lookup ! i) = i"
proof -
  assume i: "i < 37"
  have "takeWhile (\<lambda>d. d \<noteq> itoa_lookup ! i) itoa_lookup = take i itoa_lookup"
  proof (rule takeWhile_eq_take_P_nth)
    show "itoa_lookup ! j \<noteq> itoa_lookup ! i" if "j < i" "j < length itoa_lookup" for j
      using that i itoa_lookup_facts(1,2) by (simp add: nth_eq_iff_index_eq)
  qed (use i itoa_lookup_facts(1) in auto)
  then show ?thesis using i by (simp add: digit_value_def itoa_lookup_facts(1))
qed

lemma lookup_nonzero: "i < 36 \<Longrightarrow> itoa_lookup ! i \<noteq> 0"
  using itoa_lookup_facts nth_eq_iff_index_eq [of itoa_lookup i 36] by auto

text \<open>The loop returns, and what it has collected after \<open>acc\<close> reads backwards as the value.\<close>

lemma itoa_loop_value:
  "\<lbrakk>2 \<le> radix; radix \<le> 36\<rbrakk> \<Longrightarrow>
   \<exists>ds. itoa_loop v radix acc = Some (acc @ ds) \<and> digits_value radix (rev ds) = v \<and>
     0 \<notin> set ds \<and> (0 < v \<longrightarrow> last ds \<noteq> itoa_lookup ! 0 \<and> ds \<noteq> []) \<and> (\<forall>k. v < radix ^ k \<longrightarrow> length ds \<le> k)"
proof (induction v radix acc rule: itoa_loop.induct)
  case (1 v radix acc)
  show ?case
  proof (cases "v = 0")
    case True
    then show ?thesis by (auto simp: itoa_loop.simps [of 0] intro!: exI [of _ "[]"])
  next
    case False
    let ?c = "itoa_lookup ! (v mod radix)"
    have "v mod radix < radix" using "1.prems" by simp
    then have small: "v mod radix < 36" using "1.prems" by linarith
    then have get: "aget itoa_lookup (v mod radix) = Some ?c"
      using itoa_lookup_facts(1) by simp
    obtain ds where ds: "itoa_loop (v div radix) radix (acc @ [?c]) = Some (acc @ ?c # ds)"
      "digits_value radix (rev ds) = v div radix" "0 \<notin> set ds"
      "0 < v div radix \<longrightarrow> last ds \<noteq> itoa_lookup ! 0 \<and> ds \<noteq> []"
      "\<And>k. v div radix < radix ^ k \<Longrightarrow> length ds \<le> k"
      using "1.IH" [of ?c] False "1.prems" get by fastforce
    have "digit_value ?c = v mod radix"
      using small by (simp add: digit_value_lookup)
    then have "digits_value radix (rev (?c # ds)) = v"
      using ds(2) by simp
    moreover have "last (?c # ds) \<noteq> itoa_lookup ! 0"
    proof (cases "v div radix = 0")
      case True
      then have "ds = []" using ds(5) [of 0] by simp
      moreover have "v mod radix \<noteq> 0" using True False by (metis mod_div_trivial mod_eq_self_iff_div_eq_0 mod_0_imp_dvd dvd_div_eq_0_iff)
      ultimately show ?thesis
        using small itoa_lookup_facts(1,2) by (simp add: nth_eq_iff_index_eq)
    next
      case False
      then show ?thesis using ds(4) by simp
    qed
    moreover have "length (?c # ds) \<le> k" if "v < radix ^ k" for k
    proof (cases k)
      case 0
      with that False show ?thesis by simp
    next
      case (Suc j)
      then have "v div radix < radix ^ j"
        using that "1.prems" by (simp add: less_mult_imp_div_less mult.commute)
      then show ?thesis using ds(5) Suc by simp
    qed
    moreover have "?c \<noteq> 0" using small by (rule lookup_nonzero)
    ultimately show ?thesis
      using ds(1,3) False "1.prems" get
      by (intro exI [of _ "?c # ds"]) (simp add: itoa_loop.simps [of v])
  qed
qed

lemma itoa_nonzero:
  assumes "2 \<le> radix" "radix \<le> 36" "0 < v" "v < 2 ^ 32" "33 \<le> length buf"
  shows "\<exists>ds rest. itoa v buf radix = Some (rev ds @ 0 # rest) \<and> 0 \<notin> set ds \<and> ds \<noteq> [] \<and>
    digits_value radix (rev ds) = v \<and> last ds \<noteq> itoa_lookup ! 0 \<and> length ds \<le> 32"
proof -
  obtain ds where ds: "itoa_loop v radix [] = Some ds" "digits_value radix (rev ds) = v"
      "0 \<notin> set ds" "last ds \<noteq> itoa_lookup ! 0" "ds \<noteq> []" "\<And>k. v < radix ^ k \<Longrightarrow> length ds \<le> k"
    using itoa_loop_value [of radix v "[]"] assms(1-3) by auto
  have "v < radix ^ 32"
    using assms(1,4) power_mono [of 2 radix 32] by (simp add: order_less_le_trans)
  then have len: "length ds \<le> 32" by (rule ds(6))
  then have "itoa v buf radix = Some (rev ds @ 0 # drop (Suc (length ds)) buf)"
    using assms(3,5) ds(1,3) by (simp add: itoa_def strrev_terminated)
  with ds(2-5) len show ?thesis by blast
qed

section \<open>Properties\<close>

text \<open>\<^verbatim>\<open>itoa\<close> prints a number.  For every 32-bit value, every radix from 2 to 36 and
  every buffer of at least 33 bytes, \<^verbatim>\<open>itoa\<close> returns without leaving the buffer, leaves a
  NUL-terminated string in it, that string read as digits in the radix is the value, and
  it has no leading zero unless it is the single digit of zero.\<close>

theorem itoa_roundtrip:
  assumes "2 \<le> radix" and "radix \<le> 36" and "v < 2 ^ 32" and "33 \<le> length buf"
  shows "\<exists>buf'. itoa v buf radix = Some buf' \<and> 0 \<in> set buf' \<and>
    digits_value radix (chars buf') = v \<and> chars buf' \<noteq> [] \<and>
    (hd (chars buf') = of_char CHR ''0'' \<longrightarrow> v = 0 \<and> chars buf' = lit ''0'')"
proof (cases "v = 0")
  case True
  have "digit_value 48 = 0"
    using digit_value_lookup [of 0] by (simp add: itoa_lookup_def cstr_def)
  then show ?thesis
    using True assms(4) by (simp add: itoa_def cstr_def chars_def digits_value_def)
next
  case False
  with assms obtain ds rest where ds: "itoa v buf radix = Some (rev ds @ 0 # rest)" "0 \<notin> set ds"
      "ds \<noteq> []" "digits_value radix (rev ds) = v" "last ds \<noteq> itoa_lookup ! 0"
    using itoa_nonzero [of radix v buf] by auto
  moreover have "itoa_lookup ! 0 = of_char CHR ''0''" by (simp add: itoa_lookup_def cstr_def)
  ultimately show ?thesis by (auto simp: hd_rev)
qed

theorem itoa_roundtrip_witness:
  "\<exists>buf'. itoa 391 (replicate 36 0) 10 = Some buf' \<and> 0 \<in> set buf' \<and>
    digits_value 10 (chars buf') = 391 \<and> chars buf' \<noteq> [] \<and>
    (hd (chars buf') = of_char CHR ''0'' \<longrightarrow> (391 :: nat) = 0 \<and> chars buf' = lit ''0'')"
  by (rule itoa_roundtrip) simp_all

text \<open>\<^verbatim>\<open>strrev\<close> reverses the string in place and touches nothing after it, for every
  terminated string.\<close>

theorem strrev_correct:
  assumes "0 \<in> set s"
  shows "strrev s = Some (rev (chars s) @ drop (length (chars s)) s)"
proof -
  obtain r where "s = chars s @ 0 # r" using assms by (rule terminatedE)
  moreover from this have "drop (length (chars s)) s = 0 # r" by (metis append_eq_conv_conj)
  ultimately show ?thesis by (metis chars_no_nul strrev_terminated)
qed

theorem strrev_correct_witness:
  "strrev (cstr ''ece391'') = Some (rev (chars (cstr ''ece391'')) @
     drop (length (chars (cstr ''ece391''))) (cstr ''ece391''))"
  by (rule strrev_correct) (simp add: cstr_def)

end
