(* ===== verification/AsmMem.thy ===== *)
theory AsmMem
  imports Prelude
begin

text \<open>
  The block operations of \<^verbatim>\<open>student-distrib/lib.c\<close> that are written in inline assembly:
  \<^verbatim>\<open>memset\<close>, \<^verbatim>\<open>memset_word\<close>, \<^verbatim>\<open>memset_dword\<close>, \<^verbatim>\<open>memcpy\<close> and \<^verbatim>\<open>memmove\<close>, instruction by
  instruction over a flat 32-bit memory and the registers they use, and the proofs that
  they compute the fill and the copy that their callers take them for.
\<close>

type_synonym memory = "u32 \<Rightarrow> byte"

section \<open>Loads, stores and the string instructions\<close>

definition byte_of :: "nat \<Rightarrow> u32 \<Rightarrow> byte" where
  "byte_of k w = ucast (drop_bit (8 * k) w)"

definition store16 :: "memory \<Rightarrow> u32 \<Rightarrow> u32 \<Rightarrow> memory" where
  "store16 m a w = m(a := byte_of 0 w, a + 1 := byte_of 1 w)"

definition store32 :: "memory \<Rightarrow> u32 \<Rightarrow> u32 \<Rightarrow> memory" where
  "store32 m a w =
     m(a := byte_of 0 w, a + 1 := byte_of 1 w, a + 2 := byte_of 2 w, a + 3 := byte_of 3 w)"

text \<open>\<^verbatim>\<open>movsl\<close> moves four bytes at once: all of them are read before any is written.\<close>

definition move32 :: "memory \<Rightarrow> u32 \<Rightarrow> u32 \<Rightarrow> memory" where
  "move32 m dst src =
     m(dst := m src, dst + 1 := m (src + 1), dst + 2 := m (src + 2), dst + 3 := m (src + 3))"

lemma unat_dec_less: "(w :: u32) \<noteq> 0 \<Longrightarrow> unat (w - 1) < unat w"
  by (rule measure_unat)

function rep_stosw :: "u32 \<Rightarrow> u32 \<Rightarrow> u32 \<Rightarrow> memory \<Rightarrow> memory" where
  "rep_stosw eax edi ecx m =
     (if ecx = 0 then m else rep_stosw eax (edi + 2) (ecx - 1) (store16 m edi eax))"
  by pat_completeness auto
termination
  by (relation "measure (\<lambda>(eax, edi, ecx, m). unat ecx)") (auto simp: unat_dec_less)

function rep_stosl :: "u32 \<Rightarrow> u32 \<Rightarrow> u32 \<Rightarrow> memory \<Rightarrow> u32 \<times> memory" where
  "rep_stosl eax edi ecx m =
     (if ecx = 0 then (edi, m) else rep_stosl eax (edi + 4) (ecx - 1) (store32 m edi eax))"
  by pat_completeness auto
termination
  by (relation "measure (\<lambda>(eax, edi, ecx, m). unat ecx)") (auto simp: unat_dec_less)

function rep_movsl :: "u32 \<Rightarrow> u32 \<Rightarrow> u32 \<Rightarrow> memory \<Rightarrow> u32 \<times> u32 \<times> memory" where
  "rep_movsl esi edi ecx m =
     (if ecx = 0 then (esi, edi, m)
      else rep_movsl (esi + 4) (edi + 4) (ecx - 1) (move32 m edi esi))"
  by pat_completeness auto
termination
  by (relation "measure (\<lambda>(esi, edi, ecx, m). unat ecx)") (auto simp: unat_dec_less)

text \<open>\<^verbatim>\<open>rep movsb\<close> steps upwards with the direction flag clear and downwards with it set.\<close>

function rep_movsb :: "bool \<Rightarrow> u32 \<Rightarrow> u32 \<Rightarrow> u32 \<Rightarrow> memory \<Rightarrow> memory" where
  "rep_movsb df esi edi ecx m =
     (if ecx = 0 then m
      else if df then rep_movsb df (esi - 1) (edi - 1) (ecx - 1) (m(edi := m esi))
      else rep_movsb df (esi + 1) (edi + 1) (ecx - 1) (m(edi := m esi)))"
  by pat_completeness auto
termination
  by (relation "measure (\<lambda>(df, esi, edi, ecx, m). unat ecx)") (auto simp: unat_dec_less)

section \<open>\<^verbatim>\<open>memset\<close>\<close>

text \<open>The loop at \<^verbatim>\<open>.memset_bottom\<close>.\<close>

function memset_bottom :: "byte \<Rightarrow> u32 \<Rightarrow> u32 \<Rightarrow> memory \<Rightarrow> memory" where
  "memset_bottom al edi edx m =
     (if edx = 0 then m else memset_bottom al (edi + 1) (edx - 1) (m(edi := al)))"
  by pat_completeness auto
termination
  by (relation "measure (\<lambda>(al, edi, edx, m). unat edx)") (auto simp: unat_dec_less)

text \<open>The code from \<^verbatim>\<open>.memset_top\<close> on.\<close>

function memset_top :: "u32 \<Rightarrow> u32 \<Rightarrow> u32 \<Rightarrow> memory \<Rightarrow> memory" where
  "memset_top eax edi ecx m =
     (if ecx = 0 then m
      else if edi AND 3 = 0 then
        (let edx = ecx AND 3; (edi', m') = rep_stosl eax edi (drop_bit 2 ecx) m
         in memset_bottom (ucast eax) edi' edx m')
      else memset_top eax (edi + 1) (ecx - 1) (m(edi := ucast eax)))"
  by pat_completeness auto
termination
  by (relation "measure (\<lambda>(eax, edi, ecx, m). unat ecx)") (auto simp: unat_dec_less)

definition memset :: "u32 \<Rightarrow> u32 \<Rightarrow> u32 \<Rightarrow> memory \<Rightarrow> memory" where
  "memset s c n m =
     (let c = c AND 0xFF
      in memset_top (push_bit 24 c OR push_bit 16 c OR push_bit 8 c OR c) s n m)"

definition memset_word :: "u32 \<Rightarrow> u32 \<Rightarrow> u32 \<Rightarrow> memory \<Rightarrow> memory" where
  "memset_word s c n m = rep_stosw c s n m"

definition memset_dword :: "u32 \<Rightarrow> u32 \<Rightarrow> u32 \<Rightarrow> memory \<Rightarrow> memory" where
  "memset_dword s c n m = snd (rep_stosl c s n m)"

section \<open>\<^verbatim>\<open>memcpy\<close> and \<^verbatim>\<open>memmove\<close>\<close>

function memcpy_bottom :: "u32 \<Rightarrow> u32 \<Rightarrow> u32 \<Rightarrow> memory \<Rightarrow> memory" where
  "memcpy_bottom esi edi edx m =
     (if edx = 0 then m else memcpy_bottom (esi + 1) (edi + 1) (edx - 1) (m(edi := m esi)))"
  by pat_completeness auto
termination
  by (relation "measure (\<lambda>(esi, edi, edx, m). unat edx)") (auto simp: unat_dec_less)

function memcpy_top :: "u32 \<Rightarrow> u32 \<Rightarrow> u32 \<Rightarrow> memory \<Rightarrow> memory" where
  "memcpy_top esi edi ecx m =
     (if ecx = 0 then m
      else if edi AND 3 = 0 then
        (let edx = ecx AND 3; (esi', edi', m') = rep_movsl esi edi (drop_bit 2 ecx) m
         in memcpy_bottom esi' edi' edx m')
      else memcpy_top (esi + 1) (edi + 1) (ecx - 1) (m(edi := m esi)))"
  by pat_completeness auto
termination
  by (relation "measure (\<lambda>(esi, edi, ecx, m). unat ecx)") (auto simp: unat_dec_less)

definition memcpy :: "u32 \<Rightarrow> u32 \<Rightarrow> u32 \<Rightarrow> memory \<Rightarrow> memory" where
  "memcpy dest src n m = memcpy_top src dest n m"

text \<open>The direction flag the routine leaves behind is part of the result.\<close>

definition memmove :: "u32 \<Rightarrow> u32 \<Rightarrow> u32 \<Rightarrow> memory \<Rightarrow> bool \<times> memory" where
  "memmove dest src n m =
     (if dest \<le> src then (False, rep_movsb False src dest n m)
      else (True, rep_movsb True (src + n - 1) (dest + n - 1) n m))"

lemmas asm_loops =
  rep_stosw.simps rep_stosl.simps rep_movsl.simps rep_movsb.simps memset_bottom.simps
  memset_top.simps memcpy_bottom.simps memcpy_top.simps

declare asm_loops [simp del]

section \<open>What the callers rely on\<close>

text \<open>The memory with \<open>n\<close> bytes from \<open>s\<close> on replaced: byte \<open>k\<close> by \<open>f k\<close>.  Addresses wrap,
  as the processor's do.\<close>

definition patch :: "u32 \<Rightarrow> nat \<Rightarrow> (nat \<Rightarrow> byte) \<Rightarrow> memory \<Rightarrow> memory" where
  "patch s n f m = (\<lambda>a. if unat (a - s) < n then f (unat (a - s)) else m a)"

lemma unat_of_nat_u32: "n < 2 ^ 32 \<Longrightarrow> unat (of_nat n :: u32) = n"
  by (simp add: unat_of_nat)

lemma unat_u32_less: "unat (d :: u32) < 2 ^ 32"
proof -
  have "unat d < 2 ^ LENGTH(32)" by (rule unsigned_less)
  then show ?thesis by simp
qed

lemma unat_sub_of_nat:
  fixes d :: u32
  assumes "n < 2 ^ 32"
  shows "unat (d - of_nat n) = (if n \<le> unat d then unat d - n else unat d + 2 ^ 32 - n)"
  using unat_sub_if' [of d "of_nat n"] by (simp add: unat_of_nat_u32 [OF assms] word_le_nat_alt)

lemma patch_patch:
  assumes "n + k \<le> 2 ^ 32" and "n < 2 ^ 32"
  shows "patch (s + of_nat n) k (\<lambda>i. f (n + i)) (patch s n f m) = patch s (n + k) f m"
proof
  fix a
  define d where "d = unat (a - s)"
  have "a - (s + of_nat n) = (a - s) - of_nat n" by simp
  then have u: "unat (a - (s + of_nat n)) = (if n \<le> d then d - n else d + 2 ^ 32 - n)"
    using assms(2) by (simp only: unat_sub_of_nat d_def)
  have "d < 2 ^ 32" unfolding d_def by (rule unat_u32_less)
  then show "patch (s + of_nat n) k (\<lambda>i. f (n + i)) (patch s n f m) a = patch s (n + k) f m a"
    using assms unfolding patch_def u d_def [symmetric] by auto
qed

lemma patch_0 [simp]: "patch s 0 f m = m"
  by (simp add: patch_def)

lemma patch_cong: "(\<And>i. i < n \<Longrightarrow> f i = g i) \<Longrightarrow> patch s n f m = patch s n g m"
  by (auto simp: patch_def)

lemma patch_1: "patch s (Suc 0) f m = m(s := f 0)"
  by (auto simp: patch_def unat_eq_0)

lemma patch_Suc:
  assumes "n < 2 ^ 32"
  shows "patch s (Suc n) f m = (patch s n f m)(s + of_nat n := f n)"
  using patch_patch [of n 1 s f m] assms by (simp add: patch_1)

lemma patch_2: "patch s 2 f m = m(s := f 0, s + 1 := f 1)"
proof -
  have "patch s (1 + 1) f m = m(s := f 0, s + 1 := f 1)"
    by (subst patch_patch [symmetric]) (simp_all add: patch_1)
  then show ?thesis by (simp only: one_add_one)
qed

lemma patch_4: "patch s 4 f m = m(s := f 0, s + 1 := f 1, s + 2 := f 2, s + 3 := f 3)"
proof -
  have "patch s (2 + 2) f m = m(s := f 0, s + 1 := f 1, s + 2 := f 2, s + 3 := f 3)"
    by (subst patch_patch [symmetric]) (simp_all add: patch_2 add.assoc, simp add: numeral_2_eq_2 numeral_3_eq_3)
  then show ?thesis by simp
qed

lemma unat_Suc_dec: "(w :: u32) \<noteq> 0 \<Longrightarrow> unat w = Suc (unat (w - 1))"
  by (simp add: unat_minus_one unat_gt_0)

lemma unat_SucD:
  assumes "Suc c = unat (w :: u32)"
  shows "w \<noteq> 0" and "c = unat (w - 1)"
proof -
  show "w \<noteq> 0" using assms by auto
  then show "c = unat (w - 1)" using assms by (simp add: unat_Suc_dec)
qed

lemma unat_quarter: "4 * unat (drop_bit 2 (w :: u32)) + unat (w AND 3) = unat w"
proof -
  have "w AND 3 = take_bit 2 w"
    by (simp add: take_bit_eq_mask mask_eq_exp_minus_1)
  then show ?thesis
    by (simp add: drop_bit_eq_div take_bit_eq_mod unat_div unat_mod)
qed

section \<open>The fills\<close>

lemma rep_stosl_patch:
  "4 * unat ecx < 2 ^ 32 \<Longrightarrow> rep_stosl eax edi ecx m =
     (edi + 4 * ecx, patch edi (4 * unat ecx) (\<lambda>i. byte_of (i mod 4) eax) m)"
proof (induction eax edi ecx m rule: rep_stosl.induct)
  case (1 eax edi ecx m)
  show ?case
  proof (cases "ecx = 0")
    case True
    then show ?thesis by (simp add: rep_stosl.simps [of eax edi])
  next
    case False
    let ?f = "\<lambda>i. byte_of (i mod 4) eax"
    have n: "4 * unat ecx = 4 + 4 * unat (ecx - 1)" using False by (simp add: unat_Suc_dec)
    have "rep_stosl eax edi ecx m =
        (edi + 4 + 4 * (ecx - 1), patch (edi + 4) (4 * unat (ecx - 1)) ?f (store32 m edi eax))"
      using False "1" n by (simp add: rep_stosl.simps [of eax edi])
    also have "store32 m edi eax = patch edi 4 ?f m" by (simp add: store32_def patch_4)
    also have "patch (edi + 4) (4 * unat (ecx - 1)) ?f (patch edi 4 ?f m)
        = patch edi (4 + 4 * unat (ecx - 1)) ?f m"
      using patch_patch [of 4 "4 * unat (ecx - 1)" edi ?f m] "1.prems" n by simp
    finally show ?thesis using n by (simp add: algebra_simps)
  qed
qed

lemma rep_stosw_patch:
  "2 * unat ecx < 2 ^ 32 \<Longrightarrow> rep_stosw eax edi ecx m =
     patch edi (2 * unat ecx) (\<lambda>i. byte_of (i mod 2) eax) m"
proof (induction eax edi ecx m rule: rep_stosw.induct)
  case (1 eax edi ecx m)
  show ?case
  proof (cases "ecx = 0")
    case True
    then show ?thesis by (simp add: rep_stosw.simps [of eax edi])
  next
    case False
    let ?f = "\<lambda>i. byte_of (i mod 2) eax"
    have n: "2 * unat ecx = 2 + 2 * unat (ecx - 1)" using False by (simp add: unat_Suc_dec)
    have "rep_stosw eax edi ecx m = patch (edi + 2) (2 * unat (ecx - 1)) ?f (store16 m edi eax)"
      using False "1" n by (simp add: rep_stosw.simps [of eax edi])
    also have "store16 m edi eax = patch edi 2 ?f m" by (simp add: store16_def patch_2)
    also have "patch (edi + 2) (2 * unat (ecx - 1)) ?f (patch edi 2 ?f m)
        = patch edi (2 + 2 * unat (ecx - 1)) ?f m"
      using patch_patch [of 2 "2 * unat (ecx - 1)" edi ?f m] "1.prems" n by simp
    finally show ?thesis by (simp add: n)
  qed
qed

lemma patch_const_Suc:
  "Suc n \<le> 2 ^ 32 \<Longrightarrow> patch (s + 1) n (\<lambda>_. c) (m(s := c)) = patch s (Suc n) (\<lambda>_. c) m"
  using patch_patch [of 1 n s "\<lambda>_. c" m] by (simp add: patch_1)

lemma memset_bottom_patch: "memset_bottom al edi edx m = patch edi (unat edx) (\<lambda>_. al) m"
proof (induction al edi edx m rule: memset_bottom.induct)
  case (1 al edi edx m)
  then show ?case
    using unat_u32_less [of edx]
    by (cases "edx = 0")
      (simp_all add: memset_bottom.simps [of al edi] patch_const_Suc unat_Suc_dec del: fun_upd_apply)
qed

lemma memset_top_patch:
  "(\<forall>k<4. byte_of k eax = ucast eax) \<Longrightarrow>
   memset_top eax edi ecx m = patch edi (unat ecx) (\<lambda>_. ucast eax) m"
proof (induction eax edi ecx m rule: memset_top.induct)
  case (1 eax edi ecx m)
  have top: "memset_top eax edi ecx m = (if ecx = 0 then m else if edi AND 3 = 0 then
        (let edx = ecx AND 3; (edi', m') = rep_stosl eax edi (drop_bit 2 ecx) m
         in memset_bottom (ucast eax) edi' edx m')
      else memset_top eax (edi + 1) (ecx - 1) (m(edi := ucast eax)))"
    by (rule memset_top.simps)
  consider "ecx = 0" | "ecx \<noteq> 0" "edi AND 3 = 0" | "ecx \<noteq> 0" "edi AND 3 \<noteq> 0" by blast
  then show ?case
  proof cases
    case 1
    then show ?thesis by (simp add: memset_top.simps [of eax edi 0])
  next
    case 2
    let ?q = "4 * unat (drop_bit 2 ecx)"
    have q: "?q + unat (ecx AND 3) = unat ecx" "?q < 2 ^ 32"
      using unat_quarter [of ecx] unat_u32_less [of ecx] by simp_all
    have "patch edi ?q (\<lambda>i. byte_of (i mod 4) eax) m = patch edi ?q (\<lambda>_. ucast eax) m"
      using "1.prems" by (intro patch_cong) simp
    moreover have "edi + 4 * drop_bit 2 ecx = edi + of_nat ?q" by simp
    ultimately show ?thesis
      using 2 q patch_patch [of ?q "unat (ecx AND 3)" edi "\<lambda>_. ucast eax" m] unat_u32_less [of ecx]
      by (simp add: top rep_stosl_patch memset_bottom_patch)
  next
    case 3
    then show ?thesis
      using "1" unat_u32_less [of ecx] by (simp add: top patch_const_Suc unat_Suc_dec del: fun_upd_apply)
  qed
qed

lemma memset_pattern:
  fixes c :: u32
  assumes "k < 4" and "c = take_bit 8 c"
  shows "byte_of k (push_bit 24 c OR push_bit 16 c OR push_bit 8 c OR c) = ucast c"
proof -
  have high: "\<not> bit c n" if "8 \<le> n" for n
    using that assms(2) by (metis bit_take_bit_iff leD)
  show ?thesis
  proof (rule bit_word_eqI)
    fix n
    assume "n < LENGTH(8)"
    moreover have "k \<in> {0, 1, 2, 3}" using assms(1) by auto
    ultimately show "bit (byte_of k (push_bit 24 c OR push_bit 16 c OR push_bit 8 c OR c)) n
        = bit (ucast c :: byte) n"
      using high [of "n + 8"] high [of "n + 16"] high [of "n + 24"]
      by (auto simp: byte_of_def bit_ucast_iff bit_drop_bit_eq bit_or_iff bit_push_bit_iff
          add.commute)
  qed
qed

section \<open>The copies\<close>

text \<open>\<open>copied dst src k m\<close> is \<open>m\<close> after the first \<open>k\<close> bytes at \<open>src\<close> have been copied to \<open>dst\<close>;
  the bytes come from \<open>m\<close> as it was before.\<close>

definition copied :: "u32 \<Rightarrow> u32 \<Rightarrow> nat \<Rightarrow> memory \<Rightarrow> memory" where
  "copied dst src k m = patch dst k (\<lambda>i. m (src + of_nat i)) m"

text \<open>A forward copy of \<open>n\<close> bytes never overwrites a byte it has yet to read, unless the
  destination starts inside the source, past its first byte.\<close>

definition forward_safe :: "u32 \<Rightarrow> u32 \<Rightarrow> nat \<Rightarrow> bool" where
  "forward_safe dst src n \<longleftrightarrow> dst = src \<or> n \<le> unat (dst - src)"

lemma source_intact:
  assumes "forward_safe dst src n" and "k \<le> j" and "j < n" and "n < 2 ^ 32"
  shows "copied dst src k m (src + of_nat j) = m (src + of_nat j)"
proof -
  have j: "unat (of_nat j :: u32) = j" using assms by (simp add: unat_of_nat_u32)
  have eq: "src + of_nat j - dst = of_nat j - (dst - src)" by simp
  have "j \<le> unat (src + of_nat j - dst)"
    unfolding eq using assms j unat_u32_less [of "dst - src"] unat_sub_if' [of "of_nat j" "dst - src"]
    by (auto simp: forward_safe_def word_le_nat_alt)
  with assms(2) show ?thesis by (simp add: copied_def patch_def)
qed

lemma copied_Suc:
  assumes "forward_safe dst src n" and "k < n" and "n < 2 ^ 32"
  shows "(copied dst src k m)(dst + of_nat k := copied dst src k m (src + of_nat k))
    = copied dst src (Suc k) m"
  using source_intact [of dst src n k k m] assms by (simp add: copied_def patch_Suc)

lemma copied_4:
  assumes "forward_safe dst src n" and "k + 4 \<le> n" and "n < 2 ^ 32"
  shows "move32 (copied dst src k m) (dst + of_nat k) (src + of_nat k) = copied dst src (k + 4) m"
proof -
  let ?f = "\<lambda>i. m (src + of_nat i)" and ?m = "copied dst src k m"
  have "copied dst src (k + 4) m = patch (dst + of_nat k) 4 (\<lambda>i. ?f (k + i)) ?m"
    unfolding copied_def using assms patch_patch [of k 4 dst ?f m] by simp
  also have "\<dots> = patch (dst + of_nat k) 4 (\<lambda>i. ?m (src + of_nat (k + i))) ?m"
    using assms(2)
    by (intro patch_cong, subst source_intact [OF assms(1) _ _ assms(3)]) simp_all
  also have "\<dots> = move32 ?m (dst + of_nat k) (src + of_nat k)"
    by (simp add: patch_4 move32_def algebra_simps)
  finally show ?thesis ..
qed

lemma rep_movsl_copied:
  assumes "forward_safe dst src n" and "n < 2 ^ 32"
  shows "k + 4 * unat ecx \<le> n \<Longrightarrow>
    rep_movsl (src + of_nat k) (dst + of_nat k) ecx (copied dst src k m) =
      (let k' = k + 4 * unat ecx in (src + of_nat k', dst + of_nat k', copied dst src k' m))"
proof (induction "unat ecx" arbitrary: ecx k)
  case 0
  then have "ecx = 0" by (simp add: unat_eq_0)
  then show ?case by (simp add: rep_movsl.simps [of _ _ 0])
next
  case (Suc c)
  from Suc.hyps(2) have nz: "ecx \<noteq> 0" and c: "c = unat (ecx - 1)" by (rule unat_SucD)+
  have len: "k + 4 + 4 * unat (ecx - 1) = k + 4 * unat ecx" using Suc.hyps(2) c by simp
  have "rep_movsl (src + of_nat k) (dst + of_nat k) ecx (copied dst src k m)
      = rep_movsl (src + of_nat (k + 4)) (dst + of_nat (k + 4)) (ecx - 1)
          (copied dst src (k + 4) m)"
    using nz copied_4 [OF assms(1) _ assms(2), of k m] Suc.prems Suc.hyps(2)
    by (simp add: rep_movsl.simps [of "src + of_nat k"] algebra_simps)
  also have "\<dots> = (let k' = k + 4 * unat ecx in
      (src + of_nat k', dst + of_nat k', copied dst src k' m))"
    using Suc.hyps(1) [OF c, of "k + 4"] Suc.prems unfolding len by simp
  finally show ?case .
qed

lemma memcpy_bottom_copied:
  assumes "forward_safe dst src n" and "n < 2 ^ 32"
  shows "k + unat edx \<le> n \<Longrightarrow>
    memcpy_bottom (src + of_nat k) (dst + of_nat k) edx (copied dst src k m)
      = copied dst src (k + unat edx) m"
proof (induction "unat edx" arbitrary: edx k)
  case 0
  then have "edx = 0" by (simp add: unat_eq_0)
  then show ?case by (simp add: memcpy_bottom.simps [of _ _ 0])
next
  case (Suc c)
  from Suc.hyps(2) have nz: "edx \<noteq> 0" and c: "c = unat (edx - 1)" by (rule unat_SucD)+
  have "memcpy_bottom (src + of_nat k) (dst + of_nat k) edx (copied dst src k m)
      = memcpy_bottom (src + of_nat (Suc k)) (dst + of_nat (Suc k)) (edx - 1)
          (copied dst src (Suc k) m)"
    using nz copied_Suc [OF assms(1) _ assms(2), of k m] Suc.prems Suc.hyps(2)
    by (simp add: memcpy_bottom.simps [of "src + of_nat k"] algebra_simps del: fun_upd_apply)
  also have "\<dots> = copied dst src (k + unat edx) m"
    using Suc.hyps(1) [OF c, of "Suc k"] Suc.prems by (simp add: unat_Suc_dec [OF nz])
  finally show ?case .
qed

lemma memcpy_top_copied:
  assumes "forward_safe dst src n" and "n < 2 ^ 32"
  shows "k + unat ecx = n \<Longrightarrow>
    memcpy_top (src + of_nat k) (dst + of_nat k) ecx (copied dst src k m) = copied dst src n m"
proof (induction "unat ecx" arbitrary: ecx k)
  case 0
  then have "ecx = 0" by (simp add: unat_eq_0)
  with 0 show ?case by (simp add: memcpy_top.simps [of _ _ 0])
next
  case (Suc c)
  from Suc.hyps(2) have nz: "ecx \<noteq> 0" and c: "c = unat (ecx - 1)" by (rule unat_SucD)+
  show ?case
  proof (cases "(dst + of_nat k) AND 3 = 0")
    case True
    have "k + 4 * unat (drop_bit 2 ecx) + unat (ecx AND 3) = n"
      using Suc.prems unat_quarter [of ecx] by simp
    with True show ?thesis
      using nz rep_movsl_copied [OF assms, of k "drop_bit 2 ecx" m]
        memcpy_bottom_copied [OF assms, of "k + 4 * unat (drop_bit 2 ecx)" "ecx AND 3" m]
      by (simp add: memcpy_top.simps [of "src + of_nat k"] Let_def)
  next
    case False
    have "memcpy_top (src + of_nat k) (dst + of_nat k) ecx (copied dst src k m)
        = memcpy_top (src + of_nat (Suc k)) (dst + of_nat (Suc k)) (ecx - 1)
            (copied dst src (Suc k) m)"
      using False nz copied_Suc [OF assms(1) _ assms(2), of k m] Suc.prems Suc.hyps(2)
      by (simp add: memcpy_top.simps [of "src + of_nat k"] algebra_simps del: fun_upd_apply)
    also have "\<dots> = copied dst src n m"
      using Suc.hyps(1) [OF c, of "Suc k"] Suc.prems Suc.hyps(2) c by simp
    finally show ?thesis .
  qed
qed

lemma memcpy_copied:
  "forward_safe dest src (unat n) \<Longrightarrow> memcpy dest src n m = copied dest src (unat n) m"
  using memcpy_top_copied [of dest src "unat n" 0 n m] unat_u32_less [of n]
  by (simp add: memcpy_def copied_def)

text \<open>\<^verbatim>\<open>memmove\<close>, upwards.\<close>

lemma rep_movsb_up:
  assumes "forward_safe dst src n" and "n < 2 ^ 32"
  shows "k + unat ecx = n \<Longrightarrow>
    rep_movsb False (src + of_nat k) (dst + of_nat k) ecx (copied dst src k m) = copied dst src n m"
proof (induction "unat ecx" arbitrary: ecx k)
  case 0
  then have "ecx = 0" by (simp add: unat_eq_0)
  with 0 show ?case by (simp add: rep_movsb.simps [of _ _ _ 0])
next
  case (Suc c)
  from Suc.hyps(2) have nz: "ecx \<noteq> 0" and c: "c = unat (ecx - 1)" by (rule unat_SucD)+
  have "rep_movsb False (src + of_nat k) (dst + of_nat k) ecx (copied dst src k m)
      = rep_movsb False (src + of_nat (Suc k)) (dst + of_nat (Suc k)) (ecx - 1)
          (copied dst src (Suc k) m)"
    using nz copied_Suc [OF assms(1) _ assms(2), of k m] Suc.prems Suc.hyps(2)
    by (simp add: rep_movsb.simps [of _ "src + of_nat k"] algebra_simps del: fun_upd_apply)
  also have "\<dots> = copied dst src n m"
    using Suc.hyps(1) [OF c, of "Suc k"] Suc.prems Suc.hyps(2) c by simp
  finally show ?case .
qed

text \<open>\<^verbatim>\<open>memmove\<close>, downwards: when \<open>c\<close> bytes are left to move, the bytes from \<open>c\<close> to \<open>n\<close> have
  been copied.\<close>

definition copied_down :: "u32 \<Rightarrow> u32 \<Rightarrow> nat \<Rightarrow> nat \<Rightarrow> memory \<Rightarrow> memory" where
  "copied_down dst src n c m =
     (\<lambda>a. if c \<le> unat (a - dst) \<and> unat (a - dst) < n then m (src + (a - dst)) else m a)"

lemma copied_down_start [simp]: "copied_down dst src n n m = m"
  by (rule ext) (auto simp: copied_down_def)

lemma copied_down_all:
  "copied_down dst src n 0 m = (\<lambda>a. if unat (a - dst) < n then m (src + (a - dst)) else m a)"
  by (simp add: copied_down_def)

lemma copied_down_step:
  assumes "unat src < unat dst" and "unat dst + n \<le> 2 ^ 32" and "Suc c \<le> n"
  shows "(copied_down dst src n (Suc c) m)
      (dst + of_nat c := copied_down dst src n (Suc c) m (src + of_nat c)) = copied_down dst src n c m"
proof -
  have c: "unat (of_nat c :: u32) = c" using assms by (intro unat_of_nat_u32) simp
  have src_c: "unat (src + of_nat c) = unat src + c"
    using assms c by (simp add: unat_word_ariths)
  have "unat (src + of_nat c - dst) = (if unat dst \<le> unat src + c
      then unat src + c - unat dst else unat src + c + 2 ^ 32 - unat dst)"
    using unat_sub_if' [of "src + of_nat c" dst] by (simp add: src_c word_le_nat_alt)
  then have intact: "copied_down dst src n (Suc c) m (src + of_nat c) = m (src + of_nat c)"
    using assms by (auto simp: copied_down_def split: if_splits)
  have at_c: "unat (a - dst) = c \<longleftrightarrow> a = dst + of_nat c" for a
    using c by (metis add_diff_cancel_left' diff_add_cancel add.commute word_unat_eq_iff)
  show ?thesis
  proof
    fix a
    show "((copied_down dst src n (Suc c) m)
      (dst + of_nat c := copied_down dst src n (Suc c) m (src + of_nat c))) a
        = copied_down dst src n c m a"
      unfolding intact using at_c [of a] assms(3) c
      by (cases "a = dst + of_nat c") (auto simp: copied_down_def Suc_le_eq le_less)
  qed
qed

lemma rep_movsb_down:
  assumes "unat src < unat dst" and "unat dst + n \<le> 2 ^ 32"
  shows "unat ecx \<le> n \<Longrightarrow>
    rep_movsb True (src + ecx - 1) (dst + ecx - 1) ecx (copied_down dst src n (unat ecx) m)
      = copied_down dst src n 0 m"
proof (induction "unat ecx" arbitrary: ecx)
  case 0
  then have "ecx = 0" by (simp add: unat_eq_0)
  with 0 show ?case by (simp add: rep_movsb.simps [of _ _ _ 0])
next
  case (Suc c)
  from Suc.hyps(2) have nz: "ecx \<noteq> 0" and c: "c = unat (ecx - 1)" by (rule unat_SucD)+
  have of_c: "of_nat c = ecx - 1" using c by simp
  have step: "(copied_down dst src n (Suc c) m)(dst + ecx - 1 :=
      copied_down dst src n (Suc c) m (src + ecx - 1)) = copied_down dst src n c m"
    using copied_down_step [OF assms, of c m] Suc.prems Suc.hyps(2) by (simp add: of_c add_diff_eq)
  have "rep_movsb True (src + ecx - 1) (dst + ecx - 1) ecx (copied_down dst src n (Suc c) m)
      = rep_movsb True (src + ecx - 1 - 1) (dst + ecx - 1 - 1) (ecx - 1)
          (copied_down dst src n c m)"
    by (subst rep_movsb.simps) (simp only: nz step if_False if_True)
  also have "\<dots> = rep_movsb True (src + (ecx - 1) - 1) (dst + (ecx - 1) - 1) (ecx - 1)
      (copied_down dst src n c m)"
    by (simp only: add_diff_eq)
  also have "\<dots> = copied_down dst src n 0 m"
    using Suc.hyps(1) [OF c] Suc.prems Suc.hyps(2) c by simp
  finally show ?case using Suc.hyps(2) by simp
qed

section \<open>Properties\<close>

text \<open>\<^verbatim>\<open>memset\<close>, with its unaligned head, its run of double words and its tail, stores the
  low byte of its value at each of the \<open>n\<close> addresses from \<open>s\<close> on and changes no other byte,
  for every start address, alignment and length.\<close>

theorem memset_fills:
  "memset s c n m = (\<lambda>a. if unat (a - s) < unat n then ucast c else m a)"
proof -
  define b where "b = c AND 0xFF"
  let ?eax = "push_bit 24 b OR push_bit 16 b OR push_bit 8 b OR b"
  have mask: "b = take_bit 8 c" by (simp add: b_def take_bit_eq_mask mask_eq_exp_minus_1)
  then have pattern: "byte_of k ?eax = ucast b" if "k < 4" for k
    using that by (intro memset_pattern) simp_all
  have low: "ucast ?eax = (ucast c :: byte)"
  proof -
    have "ucast ?eax = (ucast b :: byte)" using pattern [of 0] by (simp add: byte_of_def)
    also have "\<dots> = ucast c"
      by (rule bit_word_eqI) (simp add: mask bit_ucast_iff bit_take_bit_iff)
    finally show ?thesis .
  qed
  have "memset s c n m = memset_top ?eax s n m" by (simp add: memset_def b_def Let_def)
  also have "\<dots> = patch s (unat n) (\<lambda>_. ucast ?eax) m"
    using pattern pattern [of 0] by (intro memset_top_patch) (simp add: byte_of_def)
  finally show ?thesis by (simp only: low patch_def)
qed

text \<open>\<^verbatim>\<open>memcpy\<close> copies.  Unless the destination starts strictly inside the source, every
  destination byte holds afterwards what the corresponding source byte held before, and no
  other byte changes, although the routine moves single bytes up to an aligned destination,
  then double words, then the rest.\<close>

theorem memcpy_copies:
  assumes "dest = src \<or> unat n \<le> unat (dest - src)"
  shows "memcpy dest src n m =
    (\<lambda>a. if unat (a - dest) < unat n then m (src + (a - dest)) else m a)"
  using memcpy_copied [of dest src n m] assms
  by (simp add: forward_safe_def copied_def patch_def cong: if_cong)

theorem memcpy_copies_witness:
  "memcpy 0x1003 0x2001 9 (\<lambda>a. ucast a) =
    (\<lambda>a. if unat (a - 0x1003) < unat (9 :: u32) then ucast (0x2001 + (a - 0x1003)) else ucast a)"
  by (rule memcpy_copies) simp

text \<open>C40: \<^verbatim>\<open>memmove\<close> copies between any two regions that do not run over the end of the address
  space, overlapping or not: the destination holds afterwards what the source held before.
  When the destination is the higher one it copies downwards and leaves the direction flag
  set.\<close>

theorem memmove_copies:
  assumes "unat src + unat n \<le> 2 ^ 32" and "unat dest + unat n \<le> 2 ^ 32"
  shows "memmove dest src n m =
    (src < dest, \<lambda>a. if unat (a - dest) < unat n then m (src + (a - dest)) else m a)"
proof (cases "dest \<le> src")
  case True
  have "unat (dest - src) = (if src \<le> dest then unat dest - unat src
      else unat dest + 2 ^ 32 - unat src)"
    using unat_sub_if' [of dest src] by (simp add: word_le_nat_alt)
  then have "forward_safe dest src (unat n)"
    using True assms by (auto simp: forward_safe_def word_le_nat_alt word_unat_eq_iff [of dest])
  from rep_movsb_up [OF this unat_u32_less, of 0 n m]
  show ?thesis using True by (simp add: memmove_def copied_def patch_def not_less cong: if_cong)
next
  case False
  then have "unat src < unat dest" by (simp add: word_less_nat_alt not_le)
  from rep_movsb_down [OF this assms(2), of n m]
  show ?thesis using False by (simp add: memmove_def copied_down_all not_le)
qed

theorem memmove_copies_witness:
  "memmove 0x1002 0x1000 8 (\<lambda>a. ucast a) =
    (True, \<lambda>a. if unat (a - 0x1002) < unat (8 :: u32) then ucast (0x1000 + (a - 0x1002)) else ucast a)"
  using memmove_copies [of "0x1000" 8 "0x1002" "\<lambda>a. ucast a"] by simp

end
