(* ===== verification/Machine.thy ===== *)
theory Machine
  imports Prelude
begin

text \<open>
  The processor and the ports as the kernel sees them, the interrupt descriptor table
  (\<^verbatim>\<open>student-distrib/x86_desc.h\<close> and \<^verbatim>\<open>idt_init\<close> of \<^verbatim>\<open>idt.c\<close>) and the interrupt
  controllers (\<^verbatim>\<open>i8259.c\<close>).

  Port input and output is a log, most recent event first.  What a port read returns is
  not kernel code: it is the field \<open>devices\<close> of the state, a function of the log so far.
  The link-time addresses of the handlers are the field \<open>sym\<close>.

  The kernel state is built up by record extension: each component adds its global
  variables to those of the components below it, and an operation is polymorphic in the
  fields it does not know (\<open>'a hw_scheme\<close>), so that it applies unchanged to the full
  kernel state and leaves the rest of it alone by its type.
\<close>

section \<open>Ports and flags\<close>

datatype io_event = Out u16 byte | In u16

text \<open>The handlers whose addresses the kernel stores in the descriptor table.\<close>

datatype handler =
    gen_interrupt_h | exc_h nat | exc_15_22_31_h | syscall_link_h
  | rtc_linkage_h | keyboard_linkage_h | pit_linkage_h

record idt_desc =
  offset_15_00 :: u16
  seg_selector :: u16
  reserved4 :: byte
  reserved3 :: "1 word"
  reserved2 :: "1 word"
  reserved1 :: "1 word"
  size_bit :: "1 word"
  reserved0 :: "1 word"
  dpl :: "2 word"
  present :: "1 word"
  offset_31_16 :: u16

record hw =
  io_log :: "io_event list"
  devices :: "io_event list \<Rightarrow> u16 \<Rightarrow> byte"
  sym :: "handler \<Rightarrow> u32"
  int_flag :: bool
  cr2 :: u32
  idt :: "idt_desc list"

definition outb :: "byte \<Rightarrow> u16 \<Rightarrow> 'a hw_scheme \<Rightarrow> 'a hw_scheme" where
  "outb data port s = s\<lparr>io_log := Out port data # io_log s\<rparr>"

definition inb :: "u16 \<Rightarrow> 'a hw_scheme \<Rightarrow> byte \<times> 'a hw_scheme" where
  "inb port s = (devices s (io_log s) port, s\<lparr>io_log := In port # io_log s\<rparr>)"

definition cli :: "'a hw_scheme \<Rightarrow> 'a hw_scheme" where
  "cli s = s\<lparr>int_flag := False\<rparr>"

definition sti :: "'a hw_scheme \<Rightarrow> 'a hw_scheme" where
  "sti s = s\<lparr>int_flag := True\<rparr>"

lemmas port_defs = outb_def inb_def cli_def sti_def

declare port_defs [op_defs]

section \<open>Index and data port pairs\<close>

text \<open>
  Two devices of the kernel are programmed through an index port, which selects a
  register, and a data port, which accesses the selected register: the CMOS clock
  (ports 0x70 and 0x71, where bit 7 of the index is the NMI mask) and the CRT controller
  (0x3D4 and 0x3D5).  The locale states what the kernel relies on of such a pair, over a
  reading of the log as register contents.
\<close>

locale indexed_ports =
  fixes index_port data_port :: u16
    and sel :: "io_event list \<Rightarrow> byte"
    and reg :: "io_event list \<Rightarrow> byte \<Rightarrow> byte"
    and decode :: "byte \<Rightarrow> byte"
  assumes ports_differ: "index_port \<noteq> data_port"
    and sel_index: "sel (Out index_port i # log) = decode i"
    and sel_other: "p \<noteq> index_port \<Longrightarrow> sel (Out p d # log) = sel log"
    and sel_in: "sel (In p # log) = sel log"
    and reg_data: "reg (Out data_port d # log) = (reg log)(sel log := d)"
    and reg_other: "p \<noteq> data_port \<Longrightarrow> reg (Out p d # log) = reg log"
    and reg_in: "reg (In p # log) = reg log"
begin

text \<open>Selecting a register and writing it changes that register only.\<close>

lemma write_reg:
  "reg (Out data_port d # Out index_port i # log) = (reg log)(decode i := d)"
  using ports_differ by (simp add: reg_data sel_index reg_other)

lemma write_two_regs:
  "reg (Out data_port e # Out index_port j # Out data_port d # Out index_port i # log)
     = (reg log)(decode i := d, decode j := e)"
  by (simp add: write_reg)

text \<open>The read-modify-write that both clients of the clock use: select, read, select, write.\<close>

lemma read_then_write:
  "reg (Out data_port d # Out index_port i # In data_port # Out index_port i # log)
     = (reg log)(decode i := d)"
  using ports_differ by (simp add: write_reg reg_in reg_other)

end

fun selected :: "u16 \<Rightarrow> (byte \<Rightarrow> byte) \<Rightarrow> io_event list \<Rightarrow> byte" where
  "selected ip f [] = 0"
| "selected ip f (Out p d # log) = (if p = ip then f d else selected ip f log)"
| "selected ip f (In p # log) = selected ip f log"

fun registers :: "u16 \<Rightarrow> u16 \<Rightarrow> (byte \<Rightarrow> byte) \<Rightarrow> (byte \<Rightarrow> byte) \<Rightarrow> io_event list \<Rightarrow> byte \<Rightarrow> byte" where
  "registers ip dp f r0 [] = r0"
| "registers ip dp f r0 (Out p d # log) =
     (if p = dp then (registers ip dp f r0 log)(selected ip f log := d)
      else registers ip dp f r0 log)"
| "registers ip dp f r0 (In p # log) = registers ip dp f r0 log"

lemma registers_indexed:
  "ip \<noteq> dp \<Longrightarrow> indexed_ports ip dp (selected ip f) (registers ip dp f r0) f"
  by unfold_locales auto

section \<open>The interrupt descriptor table\<close>

definition KERNEL_CS :: u16 where "KERNEL_CS = 0x0010"

definition SET_IDT_ENTRY :: "idt_desc \<Rightarrow> u32 \<Rightarrow> idt_desc" where
  "SET_IDT_ENTRY d h = d\<lparr>offset_31_16 := ucast (drop_bit 16 (h AND 0xFFFF0000)),
     offset_15_00 := ucast (h AND 0xFFFF)\<rparr>"

definition set_idt :: "nat \<Rightarrow> handler \<Rightarrow> 'a hw_scheme \<Rightarrow> 'a hw_scheme" where
  "set_idt i h s = s\<lparr>idt := (idt s)[i := SET_IDT_ENTRY (idt s ! i) (sym s h)]\<rparr>"

text \<open>\<^verbatim>\<open>for (i = a; i < b; i++)\<close> over the table, each entry changed on its own.\<close>

definition idt_for :: "nat \<Rightarrow> nat \<Rightarrow> (nat \<Rightarrow> idt_desc \<Rightarrow> idt_desc) \<Rightarrow> 'a hw_scheme \<Rightarrow> 'a hw_scheme" where
  "idt_for a b g s = s\<lparr>idt := fold (\<lambda>i t. t[i := g i (t ! i)]) [a..<b] (idt s)\<rparr>"

definition idt_default :: "idt_desc \<Rightarrow> idt_desc" where
  "idt_default d = d\<lparr>present := 1, dpl := 0, reserved0 := 0, size_bit := 1, reserved1 := 1,
     reserved2 := 1, reserved3 := 0, reserved4 := 0, seg_selector := KERNEL_CS\<rparr>"

text \<open>The statements \<^verbatim>\<open>SET_IDT_ENTRY(idt[0], exc_0)\<close> to \<^verbatim>\<open>SET_IDT_ENTRY(idt[21], exc_21)\<close> are
  three groups: 0 to 14, 15 and 16 to 21.\<close>

definition idt_init :: "'a hw_scheme \<Rightarrow> 'a hw_scheme" where
  "idt_init s =
     (let s = idt_for 0 256 (\<lambda>i d. SET_IDT_ENTRY (idt_default d) (sym s gen_interrupt_h)) s;
          s = idt_for 0 15 (\<lambda>i d. SET_IDT_ENTRY d (sym s (exc_h i))) s;
          s = set_idt 15 exc_15_22_31_h s;
          s = idt_for 16 22 (\<lambda>i d. SET_IDT_ENTRY d (sym s (exc_h i))) s;
          s = idt_for 22 32 (\<lambda>i d. SET_IDT_ENTRY d (sym s exc_15_22_31_h)) s;
          s = idt_for 0 32 (\<lambda>i d. d\<lparr>reserved3 := 1\<rparr>) s;
          s = set_idt 0x80 syscall_link_h s
      in s\<lparr>idt := (idt s)[0x80 := (idt s ! 0x80)\<lparr>dpl := 3, reserved3 := 1\<rparr>]\<rparr>)"

text \<open>The address the processor reads out of an entry.\<close>

definition idt_offset :: "idt_desc \<Rightarrow> u32" where
  "idt_offset d = push_bit 16 (ucast (offset_31_16 d)) OR ucast (offset_15_00 d)"

lemma bit_half_masks:
  assumes "n < 32"
  shows "bit (0xFFFF0000 :: u32) n \<longleftrightarrow> 16 \<le> n" and "bit (0xFFFF :: u32) n \<longleftrightarrow> n < 16"
proof -
  have hi: "(0xFFFF0000 :: u32) = push_bit 16 (mask 16)" and lo: "(0xFFFF :: u32) = mask 16"
    by (simp_all add: mask_eq_exp_minus_1)
  show "bit (0xFFFF0000 :: u32) n \<longleftrightarrow> 16 \<le> n"
    unfolding hi using assms by (auto simp only: bit_push_bit_iff bit_mask_iff) simp_all
  show "bit (0xFFFF :: u32) n \<longleftrightarrow> n < 16"
    unfolding lo using assms by (auto simp only: bit_mask_iff) simp_all
qed

lemma halves:
  "ucast (h AND 0xFFFF :: u32) = (ucast h :: u16)"
  "ucast (drop_bit 16 (h AND 0xFFFF0000 :: u32)) = (ucast (drop_bit 16 h) :: u16)"
proof -
  show "ucast (h AND 0xFFFF :: u32) = (ucast h :: u16)"
  proof (rule bit_word_eqI)
    fix n
    assume "n < LENGTH(16)"
    then show "bit (ucast (h AND 0xFFFF :: u32) :: u16) n = bit (ucast h :: u16) n"
      using bit_half_masks(2) [of n] by (auto simp only: bit_ucast_iff bit_and_iff) simp
  qed
  show "ucast (drop_bit 16 (h AND 0xFFFF0000 :: u32)) = (ucast (drop_bit 16 h) :: u16)"
  proof (rule bit_word_eqI)
    fix n
    assume "n < LENGTH(16)"
    then show "bit (ucast (drop_bit 16 (h AND 0xFFFF0000 :: u32)) :: u16) n
        = bit (ucast (drop_bit 16 h) :: u16) n"
      using bit_half_masks(1) [of "16 + n"]
      by (auto simp only: bit_ucast_iff bit_drop_bit_eq bit_and_iff o_def) simp
  qed
qed

lemma idt_offset_SET [simp]: "idt_offset (SET_IDT_ENTRY d h) = h"
  unfolding idt_offset_def SET_IDT_ENTRY_def halves
  by (rule bit_word_eqI) (auto simp: bit_or_iff bit_push_bit_iff bit_ucast_iff bit_drop_bit_eq)

lemma SET_IDT_ENTRY_other [simp]:
  "present (SET_IDT_ENTRY d h) = present d" "dpl (SET_IDT_ENTRY d h) = dpl d"
  "reserved3 (SET_IDT_ENTRY d h) = reserved3 d" "seg_selector (SET_IDT_ENTRY d h) = seg_selector d"
  "size_bit (SET_IDT_ENTRY d h) = size_bit d" "reserved0 (SET_IDT_ENTRY d h) = reserved0 d"
  "reserved1 (SET_IDT_ENTRY d h) = reserved1 d" "reserved2 (SET_IDT_ENTRY d h) = reserved2 d"
  by (simp_all add: SET_IDT_ENTRY_def)

lemma idt_offset_other [simp]:
  "idt_offset (d\<lparr>reserved3 := v\<rparr>) = idt_offset d" "idt_offset (d\<lparr>dpl := w\<rparr>) = idt_offset d"
  by (simp_all add: idt_offset_def)

lemma fold_update_nth:
  "length (fold (\<lambda>i t. t[i := g i (t ! i)]) is t) = length t"
  "j < length t \<Longrightarrow> fold (\<lambda>i t. t[i := g i (t ! i)]) [a..<b] t ! j
     = (if a \<le> j \<and> j < b then g j (t ! j) else t ! j)"
proof -
  show len: "length (fold (\<lambda>i t. t[i := g i (t ! i)]) is t) = length t" for "is"
    by (induction "is" arbitrary: t) auto
  show "j < length t \<Longrightarrow> fold (\<lambda>i t. t[i := g i (t ! i)]) [a..<b] t ! j
      = (if a \<le> j \<and> j < b then g j (t ! j) else t ! j)"
  proof (induction b)
    case (Suc b)
    then show ?case by (cases "a \<le> b") (auto simp: nth_list_update less_Suc_eq len)
  qed simp
qed

lemma idt_for_simps [simp]:
  "length (idt (idt_for a b g s)) = length (idt s)"
  "j < length (idt s) \<Longrightarrow>
     idt (idt_for a b g s) ! j = (if a \<le> j \<and> j < b then g j (idt s ! j) else idt s ! j)"
  "sym (idt_for a b g s) = sym s"
  by (simp_all add: idt_for_def fold_update_nth)

lemma set_idt_simps [simp]:
  "length (idt (set_idt i h s)) = length (idt s)"
  "j < length (idt s) \<Longrightarrow> idt (set_idt i h s) ! j =
     (if j = i then SET_IDT_ENTRY (idt s ! j) (sym s h) else idt s ! j)"
  "sym (set_idt i h s) = sym s"
  by (simp_all add: set_idt_def nth_list_update)

text \<open>Which handler an interrupt vector belongs to.\<close>

definition vector_handler :: "nat \<Rightarrow> handler" where
  "vector_handler i =
     (if i = 0x80 then syscall_link_h
      else if i = 15 \<or> 22 \<le> i \<and> i < 32 then exc_15_22_31_h
      else if i < 22 then exc_h i
      else gen_interrupt_h)"

text \<open>C36: after \<^verbatim>\<open>idt_init\<close> every one of the 256 gates is a present 32-bit kernel gate that leads
  to the handler of its vector: the exceptions to theirs, 0x80 to the system call linkage,
  all others to the catch-all handler.  Only 0x80 may be entered from user mode, and the
  exceptions and 0x80, and no others, are trap gates.\<close>

theorem idt_init_gates:
  assumes "length (idt s) = 256" and "i < 256"
  shows "let d = idt (idt_init s) ! i in
    idt_offset d = sym s (vector_handler i) \<and> present d = 1 \<and> seg_selector d = KERNEL_CS \<and>
    size_bit d = 1 \<and> dpl d = (if i = 0x80 then 3 else 0) \<and>
    reserved3 d = (if i < 32 \<or> i = 0x80 then 1 else 0)"
  using assms by (simp add: idt_init_def Let_def nth_list_update idt_default_def vector_handler_def)

theorem idt_init_gates_witness:
  "let s = \<lparr>io_log = [], devices = (\<lambda>_ _. 0), sym = (\<lambda>h. 0x400000), int_flag = False, cr2 = 0,
      idt = replicate 256 \<lparr>offset_15_00 = 0, seg_selector = 0, reserved4 = 0, reserved3 = 0,
        reserved2 = 0, reserved1 = 0, size_bit = 0, reserved0 = 0, dpl = 0, present = 0,
        offset_31_16 = 0\<rparr>\<rparr>;
    d = idt (idt_init s) ! 14 in
    idt_offset d = sym s (vector_handler 14) \<and> present d = 1 \<and> seg_selector d = KERNEL_CS \<and>
    size_bit d = 1 \<and> dpl d = (if (14 :: nat) = 0x80 then 3 else 0) \<and>
    reserved3 d = (if (14 :: nat) < 32 \<or> (14 :: nat) = 0x80 then 1 else 0)"
  unfolding Let_def by (rule idt_init_gates [unfolded Let_def]) simp_all

section \<open>The interrupt controllers\<close>

record pic = hw +
  master_mask :: byte
  slave_mask :: byte

abbreviation "MASTER_8259_PORT \<equiv> (0x20 :: u16)"
abbreviation "SLAVE_8259_PORT \<equiv> (0xA0 :: u16)"

definition i8259_init :: "'a pic_scheme \<Rightarrow> 'a pic_scheme" where
  "i8259_init s =
     (let s = s\<lparr>master_mask := 0xFF\<rparr>;
          s = outb (master_mask s) (MASTER_8259_PORT + 1) s;
          s = s\<lparr>slave_mask := 0xFF\<rparr>;
          s = outb (slave_mask s) (SLAVE_8259_PORT + 1) s;
          s = outb 0x11 MASTER_8259_PORT s;
          s = outb 0x20 (MASTER_8259_PORT + 1) s;
          s = outb 0x04 (MASTER_8259_PORT + 1) s;
          s = outb 0x01 (MASTER_8259_PORT + 1) s;
          s = outb 0x11 SLAVE_8259_PORT s;
          s = outb 0x28 (SLAVE_8259_PORT + 1) s;
          s = outb 0x02 (SLAVE_8259_PORT + 1) s;
          s = outb 0x01 (SLAVE_8259_PORT + 1) s;
          s = outb (master_mask s) (MASTER_8259_PORT + 1) s
      in outb (slave_mask s) (SLAVE_8259_PORT + 1) s)"

function enable_irq :: "nat \<Rightarrow> 'a pic_scheme \<Rightarrow> 'a pic_scheme" where
  "enable_irq irq_num s =
     (if irq_num < 8 then
        let s = s\<lparr>master_mask := master_mask s AND NOT (push_bit irq_num 1)\<rparr>
        in outb (master_mask s) (MASTER_8259_PORT + 1) s
      else if irq_num < 16 then
        let s = s\<lparr>slave_mask := slave_mask s AND NOT (push_bit (irq_num - 8) 1)\<rparr>
        in enable_irq 2 (outb (slave_mask s) (SLAVE_8259_PORT + 1) s)
      else s)"
  by pat_completeness auto
termination
  by (relation "measure fst") auto

function disable_irq :: "nat \<Rightarrow> 'a pic_scheme \<Rightarrow> 'a pic_scheme" where
  "disable_irq irq_num s =
     (if irq_num < 8 then
        let s = s\<lparr>master_mask := master_mask s OR push_bit irq_num 1\<rparr>
        in outb (master_mask s) (MASTER_8259_PORT + 1) s
      else if irq_num < 16 then
        let s = s\<lparr>slave_mask := slave_mask s OR push_bit (irq_num - 8) 1\<rparr>
        in disable_irq 2 (outb (slave_mask s) (SLAVE_8259_PORT + 1) s)
      else s)"
  by pat_completeness auto
termination
  by (relation "measure fst") auto

function send_eoi :: "nat \<Rightarrow> 'a pic_scheme \<Rightarrow> 'a pic_scheme" where
  "send_eoi irq_num s =
     (if irq_num < 8 then outb (0x60 OR of_nat irq_num) MASTER_8259_PORT s
      else if irq_num < 16 then
        send_eoi 2 (outb (0x60 OR of_nat (irq_num - 8)) SLAVE_8259_PORT s)
      else s)"
  by pat_completeness auto
termination
  by (relation "measure fst") auto

declare enable_irq.simps [simp del] disable_irq.simps [simp del] send_eoi.simps [simp del]

lemma irq_unfold:
  "irq < 8 \<Longrightarrow> enable_irq irq s = outb (master_mask s AND NOT (push_bit irq 1)) 0x21
     (s\<lparr>master_mask := master_mask s AND NOT (push_bit irq 1)\<rparr>)"
  "irq < 8 \<Longrightarrow> disable_irq irq s = outb (master_mask s OR push_bit irq 1) 0x21
     (s\<lparr>master_mask := master_mask s OR push_bit irq 1\<rparr>)"
  "irq < 8 \<Longrightarrow> send_eoi irq s = outb (0x60 OR of_nat irq) 0x20 s"
  "\<lbrakk>8 \<le> irq; irq < 16\<rbrakk> \<Longrightarrow> enable_irq irq s = enable_irq 2
     (outb (slave_mask s AND NOT (push_bit (irq - 8) 1)) 0xA1
       (s\<lparr>slave_mask := slave_mask s AND NOT (push_bit (irq - 8) 1)\<rparr>))"
  "\<lbrakk>8 \<le> irq; irq < 16\<rbrakk> \<Longrightarrow> disable_irq irq s = disable_irq 2
     (outb (slave_mask s OR push_bit (irq - 8) 1) 0xA1
       (s\<lparr>slave_mask := slave_mask s OR push_bit (irq - 8) 1\<rparr>))"
  "\<lbrakk>8 \<le> irq; irq < 16\<rbrakk> \<Longrightarrow> send_eoi irq s = send_eoi 2 (outb (0x60 OR of_nat (irq - 8)) 0xA0 s)"
  "16 \<le> irq \<Longrightarrow> enable_irq irq s = s" "16 \<le> irq \<Longrightarrow> disable_irq irq s = s"
  "16 \<le> irq \<Longrightarrow> send_eoi irq s = s"
  by (simp_all add: enable_irq.simps [of irq s] disable_irq.simps [of irq s] send_eoi.simps [of irq s])

text \<open>
  The chip, from its data sheet: ICW1 (bit 4 of a command byte) starts an initialisation,
  clears the mask and is followed by three more words on the data port, the first of which
  is the vector base; any other byte on the data port is the new interrupt mask.
\<close>

record chip =
  icw_left :: nat
  vec_base :: byte
  imr :: byte

fun chip_state :: "u16 \<Rightarrow> io_event list \<Rightarrow> chip" where
  "chip_state c [] = \<lparr>icw_left = 0, vec_base = 0, imr = 0\<rparr>"
| "chip_state c (In p # log) = chip_state c log"
| "chip_state c (Out p d # log) =
     (let st = chip_state c log in
      if p = c then (if bit d 4 then st\<lparr>icw_left := 3, imr := 0\<rparr> else st)
      else if p = c + 1 then
        (if icw_left st = 3 then st\<lparr>icw_left := 2, vec_base := d\<rparr>
         else if 0 < icw_left st then st\<lparr>icw_left := icw_left st - 1\<rparr>
         else st\<lparr>imr := d\<rparr>)
      else st)"

text \<open>The kernel's idea of both chips agrees with the chips.\<close>

definition pic_inv :: "'a pic_scheme \<Rightarrow> bool" where
  "pic_inv s \<longleftrightarrow>
     (let m = chip_state MASTER_8259_PORT (io_log s); sl = chip_state SLAVE_8259_PORT (io_log s)
      in icw_left m = 0 \<and> icw_left sl = 0 \<and> vec_base m = 0x20 \<and> vec_base sl = 0x28 \<and>
         imr m = master_mask s \<and> imr sl = slave_mask s)"

lemma pic_inv_master: "pic_inv s \<Longrightarrow> pic_inv (outb v 0x21 (s\<lparr>master_mask := v\<rparr>))"
  by (simp add: pic_inv_def outb_def Let_def)

lemma pic_inv_slave: "pic_inv s \<Longrightarrow> pic_inv (outb v 0xA1 (s\<lparr>slave_mask := v\<rparr>))"
  by (simp add: pic_inv_def outb_def Let_def)

lemma pic_inv_enable [inv_intros]: "pic_inv s \<Longrightarrow> pic_inv (enable_irq irq s)"
  by (cases "irq < 8"; cases "irq < 16") (simp_all add: irq_unfold pic_inv_master pic_inv_slave)

lemma pic_inv_disable [inv_intros]: "pic_inv s \<Longrightarrow> pic_inv (disable_irq irq s)"
  by (cases "irq < 8"; cases "irq < 16") (simp_all add: irq_unfold pic_inv_master pic_inv_slave)

lemma eoi_not_icw: "irq < 8 \<Longrightarrow> \<not> bit (0x60 OR of_nat irq :: byte) 4"
proof -
  assume "irq < 8"
  then have "irq \<in> {0, 1, 2, 3, 4, 5, 6, 7}" by auto
  then show ?thesis by auto
qed

lemma pic_inv_eoi [inv_intros]: "pic_inv s \<Longrightarrow> pic_inv (send_eoi irq s)"
  by (cases "irq < 8"; cases "irq < 16")
    (simp_all add: irq_unfold pic_inv_def outb_def Let_def eoi_not_icw del: of_nat_diff)

text \<open>An interrupt line reaches the processor when it is not masked on its chip and, for the
  second chip, when the cascade line 2 of the first is not masked either.\<close>

definition irq_open :: "io_event list \<Rightarrow> nat \<Rightarrow> bool" where
  "irq_open log irq =
     (if irq < 8 then \<not> bit (imr (chip_state MASTER_8259_PORT log)) irq
      else irq < 16 \<and> \<not> bit (imr (chip_state SLAVE_8259_PORT log)) (irq - 8) \<and>
        \<not> bit (imr (chip_state MASTER_8259_PORT log)) 2)"

lemma irq_open_masks:
  "pic_inv s \<Longrightarrow> irq_open (io_log s) irq =
     (if irq < 8 then \<not> bit (master_mask s) irq
      else irq < 16 \<and> \<not> bit (slave_mask s) (irq - 8) \<and> \<not> bit (master_mask s) 2)"
  by (simp add: irq_open_def pic_inv_def Let_def)

lemma bit_unmask: "\<lbrakk>j < 8; irq < 8\<rbrakk> \<Longrightarrow> bit (m AND NOT (push_bit irq 1) :: byte) j \<longleftrightarrow> bit m j \<and> j \<noteq> irq"
  by (simp only: bit_and_iff bit_not_iff bit_push_bit_iff bit_1_iff) auto

lemma bit_mask_on: "\<lbrakk>j < 8; irq < 8\<rbrakk> \<Longrightarrow> bit (m OR push_bit irq 1 :: byte) j \<longleftrightarrow> bit m j \<or> j = irq"
  by (simp only: bit_or_iff bit_push_bit_iff bit_1_iff) auto

lemma enable_irq_bits:
  assumes "irq < 16" and "j < 8"
  shows "bit (master_mask (enable_irq irq s)) j \<longleftrightarrow> bit (master_mask s) j \<and> j \<noteq> (if irq < 8 then irq else 2)"
    and "bit (slave_mask (enable_irq irq s)) j \<longleftrightarrow> bit (slave_mask s) j \<and> \<not> (8 \<le> irq \<and> j = irq - 8)"
proof -
  have "master_mask (enable_irq irq s) = master_mask s AND NOT (push_bit (if irq < 8 then irq else 2) 1)"
    and "slave_mask (enable_irq irq s) =
      (if irq < 8 then slave_mask s else slave_mask s AND NOT (push_bit (irq - 8) 1))"
    using assms by (simp_all add: irq_unfold outb_def)
  then show "bit (master_mask (enable_irq irq s)) j \<longleftrightarrow> bit (master_mask s) j \<and> j \<noteq> (if irq < 8 then irq else 2)"
    and "bit (slave_mask (enable_irq irq s)) j \<longleftrightarrow> bit (slave_mask s) j \<and> \<not> (8 \<le> irq \<and> j = irq - 8)"
    using assms bit_unmask [of j "if irq < 8 then irq else 2" "master_mask s"]
      bit_unmask [of j "irq - 8" "slave_mask s"] by (simp_all only: split: if_splits) auto
qed

lemma disable_irq_bits:
  assumes "irq < 16" and "j < 8"
  shows "bit (master_mask (disable_irq irq s)) j \<longleftrightarrow> bit (master_mask s) j \<or> j = (if irq < 8 then irq else 2)"
proof -
  have "master_mask (disable_irq irq s) = master_mask s OR push_bit (if irq < 8 then irq else 2) 1"
    using assms by (simp add: irq_unfold outb_def)
  then show ?thesis
    using assms bit_mask_on [of j "if irq < 8 then irq else 2" "master_mask s"] by (simp only:) auto
qed

text \<open>\<^verbatim>\<open>i8259_init\<close> programs both controllers, whatever was written to them before: they
  have finished their initialisation, their interrupts start at vectors 0x20 and 0x28, the
  mask variables of the kernel hold what the chips hold, and no line is open.\<close>

theorem i8259_init_ready:
  "pic_inv (i8259_init s) \<and> (\<forall>irq. \<not> irq_open (io_log (i8259_init s)) irq)"
proof -
  have inv: "pic_inv (i8259_init s)"
    by (simp add: i8259_init_def pic_inv_def outb_def Let_def)
  have "master_mask (i8259_init s) = - 1" "slave_mask (i8259_init s) = - 1"
    by (simp_all add: i8259_init_def outb_def Let_def)
  then have "\<not> irq_open (io_log (i8259_init s)) irq" for irq
    using irq_open_masks [OF inv, of irq] by (auto simp: bit_minus_1_iff)
  with inv show ?thesis by blast
qed

text \<open>\<^verbatim>\<open>enable_irq\<close> opens the line it is given and closes none.  A line of the second
  controller also opens the cascade, so that with it every line of the second controller
  that its own mask lets through is open.\<close>

theorem enable_irq_opens:
  assumes "pic_inv s" and "irq < 16" and "j < 16"
  shows "irq_open (io_log (enable_irq irq s)) j \<longleftrightarrow>
    j = irq \<or> irq_open (io_log s) j \<or>
    8 \<le> irq \<and> (j = 2 \<or> 8 \<le> j \<and> \<not> bit (slave_mask s) (j - 8)) \<or>
    irq = 2 \<and> 8 \<le> j \<and> \<not> bit (slave_mask s) (j - 8)"
  using assms pic_inv_enable [OF assms(1), of irq]
  by (auto simp: irq_open_masks enable_irq_bits)

theorem enable_irq_opens_witness:
  "let s = \<lparr>io_log = [], devices = (\<lambda>_ _. 0), sym = (\<lambda>_. 0), int_flag = False, cr2 = 0, idt = [],
      master_mask = 0, slave_mask = 0\<rparr>;
    s = i8259_init s in
    irq_open (io_log (enable_irq 8 s)) 8 \<longleftrightarrow>
    (8 :: nat) = 8 \<or> irq_open (io_log s) 8 \<or>
    (8 :: nat) \<le> 8 \<and> ((8 :: nat) = 2 \<or> (8 :: nat) \<le> 8 \<and> \<not> bit (slave_mask s) (8 - 8)) \<or>
    (8 :: nat) = 2 \<and> (8 :: nat) \<le> 8 \<and> \<not> bit (slave_mask s) (8 - 8)"
  unfolding Let_def
  by (rule enable_irq_opens) (simp_all add: i8259_init_def pic_inv_def outb_def Let_def)

text \<open>\<^verbatim>\<open>disable_irq\<close> of any line of the second controller also masks the cascade line, so it
  closes all eight lines of that controller and not only the one it was given.\<close>

theorem disable_irq_closes_slave:
  assumes "pic_inv s" and "8 \<le> irq" and "irq < 16" and "8 \<le> j"
  shows "\<not> irq_open (io_log (disable_irq irq s)) j"
  using assms pic_inv_disable [OF assms(1), of irq]
  by (simp add: irq_open_masks disable_irq_bits)

theorem disable_irq_closes_slave_witness:
  "let s = enable_irq 8 (i8259_init \<lparr>io_log = [], devices = (\<lambda>_ _. 0), sym = (\<lambda>_. 0),
      int_flag = False, cr2 = 0, idt = [], master_mask = 0, slave_mask = 0\<rparr>) in
    \<not> irq_open (io_log (disable_irq 12 s)) 8"
  unfolding Let_def
  by (rule disable_irq_closes_slave)
    (simp_all add: irq_unfold i8259_init_def pic_inv_def outb_def Let_def)

end
