(* ===== verification/Devices.thy ===== *)
theory Devices
  imports Machine
begin

text \<open>
  The real-time clock (\<^verbatim>\<open>student-distrib/rtc.c\<close>) and the interval timer (\<^verbatim>\<open>pit.c\<close>).

  A loop that spins on a variable only an interrupt can change (\<^verbatim>\<open>rtc_read\<close>, \<^verbatim>\<open>rtc_open\<close>)
  is an operation with result \<open>None\<close> while the variable has not changed: the caller is
  still inside the loop.  What the clock answers on its data port is a hypothesis on
  \<open>devices\<close>, stated with the register file that the log of port writes describes.
  \<^verbatim>\<open>test_rtc\<close>, which writes to the terminal, is in the theory \<open>Clock\<close>.
\<close>

section \<open>The real-time clock\<close>

record rtc = pic +
  rtc_interrupt :: int
  rtc_lock :: u32

abbreviation "RTC_REGISTER_PORT \<equiv> (0x70 :: u16)"
abbreviation "RTC_DATA_PORT \<equiv> (0x71 :: u16)"
abbreviation "REGISTER_A \<equiv> (0x8A :: byte)"
abbreviation "FREQ_SUCCESS \<equiv> (4 :: int)"

definition rtc_init :: "'a rtc_scheme \<Rightarrow> 'a rtc_scheme" where
  "rtc_init s =
     (let s = outb 0x8B RTC_REGISTER_PORT s;
          (prev, s) = inb RTC_DATA_PORT s;
          s = outb 0x8B RTC_REGISTER_PORT s;
          s = outb (prev OR 0x40) RTC_DATA_PORT s;
          s = set_idt 0x28 rtc_linkage_h s
      in enable_irq 8 s)"

definition rtc_handler :: "'a rtc_scheme \<Rightarrow> 'a rtc_scheme" where
  "rtc_handler s =
     (if rtc_lock s = 0 then
        let s = cli (s\<lparr>rtc_lock := 1\<rparr>);
            s = send_eoi 8 s;
            s = outb 0x0C RTC_REGISTER_PORT s;
            (_, s) = inb RTC_DATA_PORT s;
            s = s\<lparr>rtc_interrupt := 1\<rparr>
        in (sti s)\<lparr>rtc_lock := 0\<rparr>
      else s)"

text \<open>The switch of \<^verbatim>\<open>set_rate\<close>: \<open>None\<close> is its default case.\<close>

definition freq_const :: "int \<Rightarrow> byte option" where
  "freq_const freq =
     (if freq = 1024 then Some 0x06 else if freq = 512 then Some 0x07
      else if freq = 256 then Some 0x08 else if freq = 128 then Some 0x09
      else if freq = 64 then Some 0x0A else if freq = 32 then Some 0x0B
      else if freq = 16 then Some 0x0C else if freq = 8 then Some 0x0D
      else if freq = 4 then Some 0x0E else if freq = 2 then Some 0x0F
      else if freq = 0 then Some 0x00 else None)"

definition set_rate :: "int \<Rightarrow> 'a rtc_scheme \<Rightarrow> int \<times> 'a rtc_scheme" where
  "set_rate freq s =
     (let s = outb REGISTER_A RTC_REGISTER_PORT s;
          (a_old, s) = inb RTC_DATA_PORT s
      in case freq_const freq of
           None \<Rightarrow> (FREQ_SUCCESS, s)
         | Some c \<Rightarrow>
             (let s = outb REGISTER_A RTC_REGISTER_PORT s;
                  s = outb ((0xF0 AND a_old) OR c) RTC_DATA_PORT s
              in (FREQ_SUCCESS, s)))"

definition rtc_open :: "'a rtc_scheme \<Rightarrow> (int \<times> 'a rtc_scheme) option" where
  "rtc_open s =
     (if rtc_lock s = 1 then None
      else let s = s\<lparr>rtc_lock := 1\<rparr>; (_, s) = set_rate 2 s in Some (0, s\<lparr>rtc_lock := 0\<rparr>))"

definition rtc_close :: "'a rtc_scheme \<Rightarrow> int \<times> 'a rtc_scheme" where
  "rtc_close s = (0, s)"

definition rtc_read :: "'a rtc_scheme \<Rightarrow> (int \<times> 'a rtc_scheme) option" where
  "rtc_read s = (if rtc_interrupt s = 0 then None else Some (0, s\<lparr>rtc_interrupt := 0\<rparr>))"

text \<open>A little-endian \<^verbatim>\<open>int32_t\<close> at the start of a buffer.\<close>

definition le32 :: "byte list \<Rightarrow> u32 option" where
  "le32 bs = (case bs of
     b0 # b1 # b2 # b3 # _ \<Rightarrow> Some (ucast b0 OR push_bit 8 (ucast b1) OR push_bit 16 (ucast b2) OR push_bit 24 (ucast b3))
   | _ \<Rightarrow> None)"

text \<open>The buffer is \<open>None\<close> for the null pointer.  The \<^verbatim>\<open>sti\<close> that follows the last \<^verbatim>\<open>return\<close> of
  the source is never reached.\<close>

definition rtc_write :: "byte list option \<Rightarrow> int \<Rightarrow> 'a rtc_scheme \<Rightarrow> (int \<times> 'a rtc_scheme) option" where
  "rtc_write buf nbytes s =
     (let s = cli s in
      case buf of
        None \<Rightarrow> Some (- 1, s)
      | Some bs \<Rightarrow>
          if nbytes \<noteq> 4 then Some (- 1, s)
          else do { w \<leftarrow> le32 bs; Some (set_rate (sint w) s) })"

definition toggle_freq :: "'a rtc_scheme \<Rightarrow> 'a rtc_scheme" where
  "toggle_freq s =
     (let s = outb REGISTER_A RTC_REGISTER_PORT s;
          (a_old, s) = inb RTC_DATA_PORT s;
          c = (if a_old \<noteq> 0 then a_old - 1 else 0x0F);
          s = outb REGISTER_A RTC_REGISTER_PORT s
      in outb ((0xF0 AND a_old) OR c) RTC_DATA_PORT s)"

section \<open>The interval timer\<close>

record pit = rtc +
  timer_ticks :: u32
  pit_lock :: u32

definition pit_init :: "'a pit_scheme \<Rightarrow> 'a pit_scheme" where
  "pit_init s =
     (let s = outb 0x36 0x43 s;
          s = outb 0x12 0x40 s;
          s = outb 0x1F 0x40 s;
          s = set_idt 0x20 pit_linkage_h s
      in enable_irq 0 s)"

definition pit_handler :: "'a pit_scheme \<Rightarrow> 'a pit_scheme" where
  "pit_handler s =
     (if pit_lock s = 0 then
        let s = cli (s\<lparr>pit_lock := 1\<rparr>);
            s = send_eoi 0 s;
            s = s\<lparr>timer_ticks := timer_ticks s + 1\<rparr>
        in (sti s)\<lparr>pit_lock := 0\<rparr>
      else s)"

section \<open>The clock chip\<close>

text \<open>The CMOS register that is selected, and the registers, after a log of port events; \<open>r0\<close>
  are the contents at power-on.  Bit 7 of the index is not part of the register number.\<close>

definition cmos_index :: "byte \<Rightarrow> byte" where
  "cmos_index d = d AND 0x7F"

definition cmos_sel :: "io_event list \<Rightarrow> byte" where
  "cmos_sel = selected RTC_REGISTER_PORT cmos_index"

definition cmos_reg :: "(byte \<Rightarrow> byte) \<Rightarrow> io_event list \<Rightarrow> byte \<Rightarrow> byte" where
  "cmos_reg = registers RTC_REGISTER_PORT RTC_DATA_PORT cmos_index"

interpretation cmos: indexed_ports RTC_REGISTER_PORT RTC_DATA_PORT cmos_sel "cmos_reg r0" cmos_index
  for r0
  unfolding cmos_sel_def cmos_reg_def by (rule registers_indexed) simp

text \<open>A read of the data port answers with the selected register.\<close>

definition cmos_attached :: "(byte \<Rightarrow> byte) \<Rightarrow> 'a hw_scheme \<Rightarrow> bool" where
  "cmos_attached r0 s \<longleftrightarrow> (\<forall>log. devices s log RTC_DATA_PORT = cmos_reg r0 log (cmos_sel log))"

lemma cmos_index_eval [simp]: "cmos_index 0x8A = 0x0A" "cmos_index 0x8B = 0x0B" "cmos_index 0x0C = 0x0C"
  by (simp_all add: cmos_index_def)

text \<open>What \<^verbatim>\<open>set_rate\<close> and \<^verbatim>\<open>toggle_freq\<close> read as the old value of register A.\<close>

lemma read_register_A:
  "cmos_attached r0 s \<Longrightarrow>
   inb RTC_DATA_PORT (outb REGISTER_A RTC_REGISTER_PORT s) =
     (cmos_reg r0 (io_log s) 0x0A, s\<lparr>io_log := In RTC_DATA_PORT # Out RTC_REGISTER_PORT REGISTER_A # io_log s\<rparr>)"
  by (simp add: inb_def outb_def cmos_attached_def cmos.sel_index cmos.reg_other)

text \<open>Periodic rate of the chip for the low four bits of register A.\<close>

definition rtc_hz :: "byte \<Rightarrow> int" where
  "rtc_hz a = (let r = unat (a AND 0x0F) in if r = 0 then 0 else 32768 div 2 ^ (r - 1))"

lemma freq_const_SomeD:
  "freq_const freq = Some c \<Longrightarrow> c AND 0xF0 = 0 \<and> rtc_hz c = freq"
  by (auto simp: freq_const_def rtc_hz_def split: if_splits)

lemma set_rate_A:
  assumes "cmos_attached r0 s"
  shows "cmos_reg r0 (io_log (snd (set_rate freq s))) = (case freq_const freq of
      None \<Rightarrow> cmos_reg r0 (io_log s)
    | Some c \<Rightarrow> (cmos_reg r0 (io_log s))(0x0A := (0xF0 AND cmos_reg r0 (io_log s) 0x0A) OR c))"
  unfolding set_rate_def Let_def read_register_A [OF assms]
  by (simp add: outb_def cmos.read_then_write cmos.reg_in cmos.reg_other split: option.split)

lemma nibbles:
  fixes a c :: byte
  assumes "c AND 0xF0 = 0"
  shows "((0xF0 AND a) OR c) AND 0xF0 = a AND 0xF0" and "((0xF0 AND a) OR c) AND 0x0F = c AND 0x0F"
proof -
  have c: "\<not> (bit c n \<and> bit (0xF0 :: byte) n)" for n
    using assms by (metis bit_0_eq bit_and_iff bot_apply bot_bool_def)
  have "(0xF0 :: byte) AND 0x0F = 0" by simp
  then have n: "\<not> (bit (0xF0 :: byte) n \<and> bit (0x0F :: byte) n)" for n
    by (metis bit_0_eq bit_and_iff bot_apply bot_bool_def)
  show "((0xF0 AND a) OR c) AND 0xF0 = a AND 0xF0" "((0xF0 AND a) OR c) AND 0x0F = c AND 0x0F"
    using c n by (auto simp only: bit_eq_iff bit_and_iff bit_or_iff)
qed

section \<open>Properties\<close>

text \<open>\<^verbatim>\<open>set_rate\<close> with the clock attached.  It always reports success.  For the frequencies of
  its table register A then runs the chip at exactly that frequency and keeps its upper
  four bits; for any other frequency no register changes.  No other register ever changes.\<close>

theorem set_rate_programs_clock:
  assumes "cmos_attached r0 s"
  shows "fst (set_rate freq s) = FREQ_SUCCESS \<and>
    (let old = cmos_reg r0 (io_log s); new = cmos_reg r0 (io_log (snd (set_rate freq s))) in
      (\<forall>r. r \<noteq> 0x0A \<longrightarrow> new r = old r) \<and>
      (if freq \<in> {0, 2, 4, 8, 16, 32, 64, 128, 256, 512, 1024}
       then rtc_hz (new 0x0A) = freq \<and> new 0x0A AND 0xF0 = old 0x0A AND 0xF0
       else new = old))"
proof (cases "freq_const freq")
  case None
  moreover from None have "freq \<notin> {0, 2, 4, 8, 16, 32, 64, 128, 256, 512, 1024}"
    by (auto simp: freq_const_def)
  ultimately show ?thesis
    using set_rate_A [OF assms, of freq] by (simp add: set_rate_def split_beta Let_def)
next
  case (Some c)
  then have c: "c AND 0xF0 = 0" "rtc_hz c = freq" by (auto dest: freq_const_SomeD)
  have "freq \<in> {0, 2, 4, 8, 16, 32, 64, 128, 256, 512, 1024}"
    using Some by (auto simp: freq_const_def split: if_splits)
  moreover have "fst (set_rate freq s) = FREQ_SUCCESS"
    using Some by (simp add: set_rate_def split_beta Let_def)
  moreover have "rtc_hz ((0xF0 AND cmos_reg r0 (io_log s) 0x0A) OR c) = freq"
    using nibbles(2) [OF c(1)] c(2) by (simp add: rtc_hz_def)
  ultimately show ?thesis
    using set_rate_A [OF assms, of freq] Some nibbles(1) [OF c(1)] by (simp add: Let_def)
qed

text \<open>A clock whose register A holds the divider setting 0x20 and the rate 6 (1024 Hz).\<close>

definition clock_example :: rtc where
  "clock_example = \<lparr>io_log = [], devices = (\<lambda>log p. cmos_reg (\<lambda>_. 0x26) log (cmos_sel log)),
     sym = (\<lambda>_. 0), int_flag = True, cr2 = 0, idt = [], master_mask = 0xFF, slave_mask = 0xFF,
     rtc_interrupt = 0, rtc_lock = 0\<rparr>"

lemma clock_example_attached [simp]: "cmos_attached (\<lambda>_. 0x26) clock_example"
  by (simp add: cmos_attached_def clock_example_def)

lemma clock_example_A [simp]: "cmos_reg (\<lambda>_. 0x26) (io_log clock_example) r = 0x26"
  by (simp add: clock_example_def cmos_reg_def)

theorem set_rate_programs_clock_witness:
  "fst (set_rate 32 clock_example) = FREQ_SUCCESS \<and>
    (let old = cmos_reg (\<lambda>_. 0x26) (io_log clock_example);
         new = cmos_reg (\<lambda>_. 0x26) (io_log (snd (set_rate 32 clock_example))) in
      (\<forall>r. r \<noteq> 0x0A \<longrightarrow> new r = old r) \<and>
      (if (32 :: int) \<in> {0, 2, 4, 8, 16, 32, 64, 128, 256, 512, 1024}
       then rtc_hz (new 0x0A) = 32 \<and> new 0x0A AND 0xF0 = old 0x0A AND 0xF0
       else new = old))"
  by (rule set_rate_programs_clock) simp

text \<open>\<^verbatim>\<open>toggle_freq\<close> at 1024 Hz.  The clock then runs at 2048 Hz; it does not stop.\<close>

theorem toggle_freq_at_1024:
  assumes "cmos_attached r0 s" and "cmos_reg r0 (io_log s) 0x0A = 0x26"
  shows "rtc_hz (cmos_reg r0 (io_log s) 0x0A) = 1024 \<and>
    rtc_hz (cmos_reg r0 (io_log (toggle_freq s)) 0x0A) = 2048"
proof -
  have "cmos_reg r0 (io_log (toggle_freq s)) 0x0A = (0xF0 AND 0x26) OR 0x25"
    unfolding toggle_freq_def Let_def read_register_A [OF assms(1)] assms(2)
    by (simp add: outb_def cmos.read_then_write)
  then show ?thesis by (simp add: assms(2) rtc_hz_def)
qed

theorem toggle_freq_at_1024_witness:
  "rtc_hz (cmos_reg (\<lambda>_. 0x26) (io_log clock_example) 0x0A) = 1024 \<and>
    rtc_hz (cmos_reg (\<lambda>_. 0x26) (io_log (toggle_freq clock_example)) 0x0A) = 2048"
  by (rule toggle_freq_at_1024) simp_all

text \<open>C37: one clock interrupt releases one \<^verbatim>\<open>rtc_read\<close>.  A reader that spins before the interrupt
  returns after it, and the next reader spins again until the next interrupt.  The handler
  acknowledges the interrupt at both controllers and reads register C, which the chip
  requires before it raises another, and it leaves with interrupts enabled and its lock free.\<close>

theorem rtc_interrupt_handshake:
  assumes "rtc_lock s = 0" and "rtc_interrupt s = 0"
  shows "rtc_read s = None \<and>
    (\<exists>s'. rtc_read (rtc_handler s) = Some (0, s') \<and> rtc_read s' = None) \<and>
    io_log (rtc_handler s) = [In 0x71, Out 0x70 0x0C, Out 0x20 0x62, Out 0xA0 0x60] @ io_log s \<and>
    int_flag (rtc_handler s) \<and> rtc_lock (rtc_handler s) = 0"
  using assms
  by (simp add: rtc_read_def rtc_handler_def irq_unfold outb_def inb_def cli_def sti_def Let_def)

theorem rtc_interrupt_handshake_witness:
  "rtc_read clock_example = None \<and>
    (\<exists>s'. rtc_read (rtc_handler clock_example) = Some (0, s') \<and> rtc_read s' = None) \<and>
    io_log (rtc_handler clock_example) =
      [In 0x71, Out 0x70 0x0C, Out 0x20 0x62, Out 0xA0 0x60] @ io_log clock_example \<and>
    int_flag (rtc_handler clock_example) \<and> rtc_lock (rtc_handler clock_example) = 0"
  by (rule rtc_interrupt_handshake) (simp_all add: clock_example_def)

text \<open>\<^verbatim>\<open>rtc_write\<close> returns with interrupts disabled on every path, the rejections included:
  the \<^verbatim>\<open>sti\<close> at its end is dead code.\<close>

theorem rtc_write_disables_interrupts:
  assumes "rtc_write buf nbytes s = Some (r, s')"
  shows "\<not> int_flag s' \<and> r = (if buf = None \<or> nbytes \<noteq> 4 then - 1 else FREQ_SUCCESS)"
proof -
  have rate: "\<not> int_flag t \<and> v = FREQ_SUCCESS" if "set_rate f (cli s) = (v, t)" for f v t
    using that by (auto simp: set_rate_def port_defs Let_def split: option.splits)
  show ?thesis
    using assms rate [of _ r s'] unfolding rtc_write_def Let_def
    by (cases buf; cases "nbytes = 4") (auto simp: bind_eq_Some_conv, simp_all add: cli_def)
qed

theorem rtc_write_disables_interrupts_witness:
  "\<exists>r s'. rtc_write (Some [2, 0, 0, 0]) 4 clock_example = Some (r, s') \<and> int_flag clock_example \<and>
    \<not> int_flag s' \<and> r = (if Some [2, 0, 0, 0 :: byte] = None \<or> (4 :: int) \<noteq> 4 then - 1 else FREQ_SUCCESS)"
proof -
  obtain r s' where "rtc_write (Some [2, 0, 0, 0]) 4 clock_example = Some (r, s')"
    by (simp add: rtc_write_def le32_def Let_def) (metis surj_pair)
  from this rtc_write_disables_interrupts [OF this] show ?thesis
    by (auto simp: clock_example_def)
qed

section \<open>The timer chip\<close>

text \<open>Channel 0 in the mode the kernel selects takes its reload value as two bytes, low then
  high; the command byte on port 0x43 restarts the pair.\<close>

fun pit_channel0 :: "io_event list \<Rightarrow> bool \<times> byte \<times> byte" where
  "pit_channel0 [] = (False, 0, 0)"
| "pit_channel0 (In p # log) = pit_channel0 log"
| "pit_channel0 (Out p d # log) =
     (let (half, lo, hi) = pit_channel0 log in
      if p = 0x43 \<and> d AND 0xF0 = 0x30 then (False, lo, hi)
      else if p = 0x40 then (if half then (False, lo, d) else (True, d, hi))
      else (half, lo, hi))"

definition pit_divisor :: "io_event list \<Rightarrow> nat" where
  "pit_divisor log = (let (_, lo, hi) = pit_channel0 log in 256 * unat hi + unat lo)"

text \<open>\<^verbatim>\<open>pit_init\<close> loads the divisor 7954, which makes the 1193182 Hz input tick 150 times a
  second, and opens interrupt line 0.  The comment above it asks for 11931, 100 times a second.\<close>

theorem pit_init_divisor:
  assumes "pic_inv s"
  shows "pit_divisor (io_log (pit_init s)) = 7954 \<and> (1193182 :: nat) div 7954 = 150 \<and>
    irq_open (io_log (pit_init s)) 0"
proof -
  let ?s = "set_idt 0x20 pit_linkage_h (outb 0x1F 0x40 (outb 0x12 0x40 (outb 0x36 0x43 s)))"
  have inv: "pic_inv ?s"
    using assms by (simp add: pic_inv_def outb_def set_idt_def Let_def)
  have "pit_init s = enable_irq 0 ?s" by (simp add: pit_init_def Let_def)
  moreover have "irq_open (io_log (enable_irq 0 ?s)) 0"
    using pic_inv_enable [OF inv, of 0] by (simp add: irq_open_masks enable_irq_bits)
  moreover have "pit_divisor (io_log (enable_irq 0 ?s)) = 7954"
    by (simp add: irq_unfold outb_def set_idt_def pit_divisor_def split_beta Let_def)
  ultimately show ?thesis by simp
qed

theorem pit_init_divisor_witness:
  "let s = i8259_init \<lparr>io_log = [], devices = (\<lambda>_ _. 0), sym = (\<lambda>_. 0), int_flag = False, cr2 = 0,
      idt = [], master_mask = 0, slave_mask = 0, rtc_interrupt = 0, rtc_lock = 0,
      timer_ticks = 0, pit_lock = 0\<rparr> in
    pit_divisor (io_log (pit_init s)) = 7954 \<and> (1193182 :: nat) div 7954 = 150 \<and>
    irq_open (io_log (pit_init s)) 0"
  unfolding Let_def
  by (rule pit_init_divisor) (simp add: i8259_init_def pic_inv_def outb_def Let_def)

end
