(* ===== verification/Paging.thy ===== *)
theory Paging
  imports Devices
begin

text \<open>
  \<^verbatim>\<open>student-distrib/paging.c\<close>: the page directory and page tables, and the operations that fill
  them.  What the tables mean is the page walk of the processor (32-bit, with 4 MB pages),
  given as \<open>translate\<close>; the theorems say which physical address each virtual address reaches,
  and from which privilege level.  The addresses of the tables are link-time constants and
  fields of the state.
\<close>

record paging = pit +
  page_directory :: "u32 list"
  page_table :: "u32 list"
  user_video_page_table :: "u32 list"
  page_table_addr :: u32
  user_video_page_table_addr :: u32
  paging_on :: bool
  tlb_flushes :: nat

section \<open>The operations\<close>

text \<open>\<^verbatim>\<open>for (i = a; i < b; i++) t[i] = h(i);\<close>\<close>

definition fill_for :: "nat \<Rightarrow> nat \<Rightarrow> (nat \<Rightarrow> 'b) \<Rightarrow> 'b list \<Rightarrow> 'b list" where
  "fill_for a b h t = fold (\<lambda>i t. t[i := h i]) [a..<b] t"

lemma fill_for_nth [simp]:
  "j < length t \<Longrightarrow> fill_for a b h t ! j = (if a \<le> j \<and> j < b then h j else t ! j)"
  using fold_update_nth(2) [of j t "\<lambda>i _. h i" a b] by (simp add: fill_for_def)

lemma fill_for_length [simp]: "length (fill_for a b h t) = length t"
  using fold_update_nth(1) [of "\<lambda>i _. h i" "[a..<b]" t] by (simp add: fill_for_def)

definition paging_init :: "'a paging_scheme \<Rightarrow> int \<times> 'a paging_scheme" where
  "paging_init s =
     (let pd = (page_directory s)[0 := 0x03, 1 := 0x87];
          pd = fill_for 2 1024 (\<lambda>i. 0x02) pd;
          pt = fill_for 0 1024 (\<lambda>i. (of_nat i * 4096) OR 2) (page_table s);
          off = 0xB8000 div 4096;
          pt = pt[off := pt ! off OR 1];
          pd = pd[0 := pd ! 0 OR page_table_addr s];
          pd = pd[1 := pd ! 1 OR (4096 * 1024)]
      in (0, s\<lparr>page_directory := pd, page_table := pt, paging_on := True\<rparr>))"

definition pde_index :: "u32 \<Rightarrow> nat" where
  "pde_index virt_add = unat (virt_add div 0x400000)"

definition flush_tlb :: "'a paging_scheme \<Rightarrow> 'a paging_scheme" where
  "flush_tlb s = s\<lparr>tlb_flushes := Suc (tlb_flushes s)\<rparr>"

definition map_page :: "u32 \<Rightarrow> u32 \<Rightarrow> 'a paging_scheme \<Rightarrow> 'a paging_scheme" where
  "map_page virt_add phys_add s =
     flush_tlb (s\<lparr>page_directory := (page_directory s)[pde_index virt_add := phys_add OR 0x87]\<rparr>)"

definition map_w_pt :: "u32 \<Rightarrow> u32 \<Rightarrow> 'a paging_scheme \<Rightarrow> 'a paging_scheme" where
  "map_w_pt virt_add phys_add s =
     flush_tlb (s\<lparr>page_directory := (page_directory s)[pde_index virt_add :=
                   user_video_page_table_addr s OR 0x7],
       user_video_page_table := (user_video_page_table s)[0 := phys_add OR 0x7]\<rparr>)"

definition map_video_w_pt :: "u32 \<Rightarrow> u32 \<Rightarrow> 'a paging_scheme \<Rightarrow> 'a paging_scheme" where
  "map_video_w_pt virt_add phys_add s =
     flush_tlb (s\<lparr>page_directory := (page_directory s)[pde_index virt_add :=
                   user_video_page_table_addr s OR 0x7],
       user_video_page_table := (user_video_page_table s)[0 := phys_add OR 0x7]\<rparr>)"

section \<open>The page walk\<close>

definition table_at :: "'a paging_scheme \<Rightarrow> u32 \<Rightarrow> u32 list option" where
  "table_at s a =
     (if a = page_table_addr s then Some (page_table s)
      else if a = user_video_page_table_addr s then Some (user_video_page_table s)
      else None)"

text \<open>Bit 0 of an entry is "present", bit 2 "user may access", bit 7 of a directory entry "4 MB
  page".\<close>

definition translate :: "bool \<Rightarrow> 'a paging_scheme \<Rightarrow> u32 \<Rightarrow> u32 option" where
  "translate user s va =
     (let pde = page_directory s ! unat (drop_bit 22 va) in
      if \<not> bit pde 0 \<or> user \<and> \<not> bit pde 2 then None
      else if bit pde 7 then Some (push_bit 22 (drop_bit 22 pde) OR take_bit 22 va)
      else case table_at s (push_bit 12 (drop_bit 12 pde)) of
        None \<Rightarrow> None
      | Some t \<Rightarrow>
          (let pte = t ! unat (take_bit 10 (drop_bit 12 va)) in
           if \<not> bit pte 0 \<or> user \<and> \<not> bit pte 2 then None
           else Some (push_bit 12 (drop_bit 12 pte) OR take_bit 12 va)))"

text \<open>The user's video page is at \<^verbatim>\<open>0x9000000\<close>, entry 36; no other entry refers to its table.\<close>

definition paging_wf :: "'a paging_scheme \<Rightarrow> bool" where
  "paging_wf s \<longleftrightarrow>
     length (page_directory s) = 1024 \<and> length (page_table s) = 1024 \<and>
     length (user_video_page_table s) = 1024 \<and>
     take_bit 12 (page_table_addr s) = 0 \<and> take_bit 12 (user_video_page_table_addr s) = 0 \<and>
     page_table_addr s \<noteq> user_video_page_table_addr s \<and>
     (\<forall>i<1024. i \<noteq> 36 \<longrightarrow> bit (page_directory s ! i) 0 \<longrightarrow> \<not> bit (page_directory s ! i) 7 \<longrightarrow>
        push_bit 12 (drop_bit 12 (page_directory s ! i)) \<noteq> user_video_page_table_addr s)"

text \<open>Only the tables matter to the page walk.\<close>

lemma tables_only:
  assumes "page_directory s = page_directory t" and "page_table s = page_table t"
    and "user_video_page_table s = user_video_page_table t" and "page_table_addr s = page_table_addr t"
    and "user_video_page_table_addr s = user_video_page_table_addr t"
  shows "translate user s va = translate user t va" "paging_wf s = paging_wf t"
proof -
  have "table_at s a = table_at t a" for a using assms by (simp add: table_at_def)
  then show "translate user s va = translate user t va" using assms by (simp add: translate_def cong: if_cong)
  show "paging_wf s = paging_wf t" using assms by (simp add: paging_wf_def)
qed

lemma frame_of_aligned: "take_bit n p = 0 \<Longrightarrow> push_bit n (drop_bit n p) = (p :: u32)"
  using bits_ident [of n p] by simp

lemma aligned_bits: "take_bit n (p :: u32) = 0 \<Longrightarrow> i < n \<Longrightarrow> \<not> bit p i"
  by (metis bit_0_eq bit_take_bit_iff bot_apply bot_bool_def)

lemma pde_index_drop_bit: "pde_index v = unat (drop_bit 22 v)"
  by (simp add: pde_index_def drop_bit_eq_div)

lemma pde_index_bound: "unat (drop_bit 22 (v :: u32)) < 1024"
proof -
  have "unat v < 2 ^ 32" using unsigned_less [of v] by simp
  then show ?thesis by (simp add: drop_bit_eq_div unat_div less_mult_imp_div_less)
qed

section \<open>The contract of a mapping operation\<close>

text \<open>
  All three operations promise the same: the page of the virtual address they are given
  then reaches the physical page they are given, at either privilege level, and no address
  in another 4 MB region changes.  \<open>n\<close> is the binary logarithm of the page size.
\<close>

locale page_mapper =
  fixes map_op :: "u32 \<Rightarrow> u32 \<Rightarrow> 's \<Rightarrow> 's"
    and xlate :: "bool \<Rightarrow> 's \<Rightarrow> u32 \<Rightarrow> u32 option"
    and wf :: "'s \<Rightarrow> bool"
    and ok :: "u32 \<Rightarrow> bool"
    and n :: nat
  assumes wf_map: "\<lbrakk>wf s; ok v\<rbrakk> \<Longrightarrow> wf (map_op v p s)"
    and hit: "\<lbrakk>wf s; ok v; take_bit n p = 0; drop_bit n a = drop_bit n v\<rbrakk> \<Longrightarrow>
      xlate user (map_op v p s) a = Some (p OR take_bit n a)"
    and miss: "\<lbrakk>wf s; ok v; drop_bit 22 a \<noteq> drop_bit 22 v\<rbrakk> \<Longrightarrow>
      xlate user (map_op v p s) a = xlate user s a"
begin

text \<open>The last mapping of a page is the one that counts.\<close>

lemma remap:
  "\<lbrakk>wf s; ok v; take_bit n p' = 0; drop_bit n a = drop_bit n v\<rbrakk> \<Longrightarrow>
   xlate user (map_op v p' (map_op v p s)) a = Some (p' OR take_bit n a)"
  by (simp add: hit wf_map)

text \<open>Two address spaces that map the same page to different frames never reach the same
  physical byte through it.\<close>

lemma separation:
  assumes "wf s" "wf t" "ok v" "take_bit n p = 0" "take_bit n q = 0" "p \<noteq> q"
    and "drop_bit n a = drop_bit n v" "drop_bit n b = drop_bit n v"
  shows "xlate user (map_op v p s) a \<noteq> xlate user' (map_op v q t) b"
proof
  assume "xlate user (map_op v p s) a = xlate user' (map_op v q t) b"
  then have eq: "p OR take_bit n a = q OR take_bit n b" using assms by (simp add: hit)
  have frame: "drop_bit n (r OR take_bit n c) = drop_bit n r" for r c :: u32
    by (rule bit_word_eqI) (auto simp: bit_drop_bit_eq bit_or_iff bit_take_bit_iff)
  have "drop_bit n p = drop_bit n q" using eq frame by metis
  then show False using assms(4-6) frame_of_aligned by metis
qed

end

lemma pde_or_flags:
  fixes p :: u32
  shows "drop_bit 22 (p OR 0x87) = drop_bit 22 p" "bit (p OR 0x87) 0" "bit (p OR 0x87) 2"
    "bit (p OR 0x87) 7"
  by (simp_all add: bit_or_iff)

lemma pte_or_flags:
  fixes p :: u32
  shows "drop_bit 12 (p OR 7) = drop_bit 12 p" "bit (p OR 7) 0" "bit (p OR 7) 2"
  by (simp_all add: bit_or_iff)

lemma pte_no_4mb: "take_bit 12 p = 0 \<Longrightarrow> \<not> bit (p OR 7 :: u32) 7"
  using aligned_bits [of 12 p 7] by (simp add: bit_or_iff)

lemma map_page_tables [simp]: "table_at (map_page v p s) = table_at s"
  by (intro ext) (simp add: table_at_def map_page_def flush_tlb_def)

interpretation big: page_mapper map_page translate paging_wf "\<lambda>v. True" 22
proof
  fix s :: "'a paging_scheme" and v p a :: u32 and user :: bool
  assume wf: "paging_wf s"
  then show "paging_wf (map_page v p s)"
    using pde_or_flags(4) [of p] pde_index_bound [of v]
    by (auto simp: paging_wf_def map_page_def flush_tlb_def nth_list_update pde_index_drop_bit)
  show "translate user (map_page v p s) a = Some (p OR take_bit 22 a)"
    if "take_bit 22 p = 0" and "drop_bit 22 a = drop_bit 22 v"
    using that wf pde_index_bound [of v] frame_of_aligned [of 22 p]
    by (simp add: translate_def map_page_def flush_tlb_def pde_index_drop_bit paging_wf_def
        pde_or_flags Let_def del: drop_bit_or)
  show "translate user (map_page v p s) a = translate user s a"
    if "drop_bit 22 a \<noteq> drop_bit 22 v"
  proof -
    have "page_directory (map_page v p s) ! unat (drop_bit 22 a) = page_directory s ! unat (drop_bit 22 a)"
      using that by (simp add: map_page_def flush_tlb_def pde_index_drop_bit word_unat_eq_iff)
    then show ?thesis by (simp add: translate_def Let_def)
  qed
qed

lemma wf_map_w_pt: "paging_wf s \<Longrightarrow> paging_wf (map_w_pt 0x9000000 p s)"
  by (simp add: paging_wf_def map_w_pt_def flush_tlb_def pde_index_def nth_list_update)

text \<open>The entry keeps the upper 20 bits of the physical address only.\<close>

lemma map_w_pt_frame:
  assumes "paging_wf s" and "drop_bit 12 a = drop_bit 12 (0x9000000 :: u32)"
  shows "translate user (map_w_pt 0x9000000 p s) a = Some (push_bit 12 (drop_bit 12 p) OR take_bit 12 a)"
proof -
  let ?uv = "user_video_page_table_addr s"
  have "drop_bit 22 a = drop_bit 10 (drop_bit 12 a)" by simp
  then have dir: "unat (drop_bit 22 a) = 36" using assms(2) by simp
  have "take_bit 10 (drop_bit 12 a) = 0" using assms(2) by simp
  moreover have "push_bit 12 (drop_bit 12 (?uv OR 7)) = ?uv"
    using assms(1) frame_of_aligned [of 12 ?uv] by (simp only: pte_or_flags paging_wf_def)
  moreover have "table_at (map_w_pt 0x9000000 p s) ?uv = Some ((user_video_page_table s)[0 := p OR 7])"
    using assms(1) by (auto simp: table_at_def map_w_pt_def flush_tlb_def paging_wf_def)
  moreover have "page_directory (map_w_pt 0x9000000 p s) ! 36 = ?uv OR 7"
    using assms(1) by (simp add: map_w_pt_def flush_tlb_def pde_index_def paging_wf_def)
  ultimately show ?thesis
    using assms(1) dir pte_no_4mb [of ?uv] pte_or_flags [of ?uv] pte_or_flags [of p]
    by (simp add: translate_def Let_def paging_wf_def del: drop_bit_or)
qed

lemma map_w_pt_hit:
  "\<lbrakk>paging_wf s; take_bit 12 p = 0; drop_bit 12 a = drop_bit 12 (0x9000000 :: u32)\<rbrakk> \<Longrightarrow>
   translate user (map_w_pt 0x9000000 p s) a = Some (p OR take_bit 12 a)"
  by (simp add: map_w_pt_frame frame_of_aligned)

lemma map_w_pt_miss:
  assumes "paging_wf s" and "drop_bit 22 a \<noteq> drop_bit 22 (0x9000000 :: u32)"
  shows "translate user (map_w_pt 0x9000000 p s) a = translate user s a"
proof -
  let ?i = "unat (drop_bit 22 a)"
  have i: "?i < 1024" "?i \<noteq> 36"
    using pde_index_bound [of a] assms(2) by (auto simp: word_unat_eq_iff)
  have same: "page_directory (map_w_pt 0x9000000 p s) ! ?i = page_directory s ! ?i"
    using i by (simp add: map_w_pt_def flush_tlb_def pde_index_def)
  have tab: "table_at (map_w_pt 0x9000000 p s) b = table_at s b" if "b \<noteq> user_video_page_table_addr s" for b
    using that by (simp add: table_at_def map_w_pt_def flush_tlb_def)
  show ?thesis
  proof (cases "bit (page_directory s ! ?i) 0 \<and> \<not> bit (page_directory s ! ?i) 7")
    case True
    then have "push_bit 12 (drop_bit 12 (page_directory s ! ?i)) \<noteq> user_video_page_table_addr s"
      using assms(1) i by (simp add: paging_wf_def)
    then show ?thesis by (simp add: translate_def same tab Let_def)
  next
    case False
    then show ?thesis by (auto simp: translate_def same Let_def)
  qed
qed

lemma map_video_eq: "map_video_w_pt = map_w_pt"
  by (intro ext) (simp add: map_video_w_pt_def map_w_pt_def)

interpretation vid: page_mapper map_w_pt translate paging_wf "\<lambda>v. v = 0x9000000" 12
  by unfold_locales (auto intro: wf_map_w_pt map_w_pt_hit map_w_pt_miss)

interpretation vid_hidden: page_mapper map_video_w_pt translate paging_wf "\<lambda>v. v = 0x9000000" 12
  unfolding map_video_eq by (rule vid.page_mapper_axioms)

section \<open>The initial tables\<close>

lemma paging_init_directory:
  assumes "paging_wf s" and "i < 1024"
  shows "page_directory (snd (paging_init s)) ! i =
    (if i = 0 then 0x03 OR page_table_addr s else if i = 1 then 0x400087 else 0x02)"
  using assms by (simp add: paging_init_def Let_def paging_wf_def nth_list_update)

lemma paging_init_table:
  assumes "paging_wf s" and "i < 1024"
  shows "page_table (snd (paging_init s)) ! i = (if i = 0xB8 then 0xB8003 else (of_nat i * 4096) OR 2)"
  using assms by (simp add: paging_init_def Let_def paging_wf_def nth_list_update)

lemma paging_init_addr [simp]:
  "page_table_addr (snd (paging_init s)) = page_table_addr s"
  "table_at (snd (paging_init s)) (page_table_addr s) = Some (page_table (snd (paging_init s)))"
  by (simp_all add: paging_init_def Let_def table_at_def)

lemma absent_pte: "\<not> bit ((of_nat i * 4096) OR 2 :: u32) 0"
proof -
  have "(of_nat i * 4096 :: u32) = push_bit 12 (of_nat i)" by (simp add: push_bit_eq_mult)
  then show ?thesis by (simp add: bit_or_iff bit_push_bit_iff)
qed

lemma split_address: "(va :: u32) = push_bit n (drop_bit n va) OR take_bit n va"
  by (rule bit_word_eqI) (auto simp: bit_or_iff bit_push_bit_iff bit_drop_bit_eq bit_take_bit_iff)

lemma table_index_of_page:
  assumes "unat (drop_bit 22 va) = 0"
  shows "unat (take_bit 10 (drop_bit 12 va)) = 0xB8 \<longleftrightarrow> drop_bit 12 (va :: u32) = 0xB8"
proof -
  have "drop_bit 10 (drop_bit 12 va) = 0" using assms by (simp add: unat_eq_0)
  then have "take_bit 10 (drop_bit 12 va) = drop_bit 12 va"
    using split_address [of "drop_bit 12 va" 10] by simp
  then show ?thesis by (simp add: word_unat_eq_iff)
qed

text \<open>Virtual page of the program image and physical pages of the processes (\<^verbatim>\<open>syscall.h\<close>).\<close>

definition VIRTUAL_FILE_PAGE :: u32 where "VIRTUAL_FILE_PAGE = 0x8000000"
definition PHYS_FILE_START :: u32 where "PHYS_FILE_START = 0x800000"
definition PHYS_FILE_OFFSET :: u32 where "PHYS_FILE_OFFSET = 0x400000"

lemma process_frame:
  assumes "pid < 6"
  shows "take_bit 22 (PHYS_FILE_START + PHYS_FILE_OFFSET * of_nat pid) = 0"
    and "drop_bit 22 (PHYS_FILE_START + PHYS_FILE_OFFSET * of_nat pid) = of_nat pid + 2"
proof -
  have "pid \<in> {0, 1, 2, 3, 4, 5}" using assms by auto
  then show "take_bit 22 (PHYS_FILE_START + PHYS_FILE_OFFSET * of_nat pid) = 0"
    and "drop_bit 22 (PHYS_FILE_START + PHYS_FILE_OFFSET * of_nat pid) = of_nat pid + 2"
    by (auto simp: PHYS_FILE_START_def PHYS_FILE_OFFSET_def)
qed

section \<open>Properties\<close>

text \<open>C35: after \<^verbatim>\<open>paging_init\<close> exactly two regions are mapped, both to themselves: the 4 MB
  kernel page, and the page of the text screen.  The screen page is for the kernel only; the
  kernel page is open to user code as well, because the flags \<^verbatim>\<open>0x87\<close> set the user bit.\<close>

theorem paging_init_regions:
  assumes "paging_wf s"
  shows "translate user (snd (paging_init s)) va =
    (if drop_bit 22 va = 1 then Some va
     else if drop_bit 12 va = 0xB8 \<and> \<not> user then Some va
     else None)"
proof -
  let ?s = "snd (paging_init s)" and ?i = "unat (drop_bit 22 va)"
  have dir: "page_directory ?s ! ?i =
      (if ?i = 0 then 0x03 OR page_table_addr s else if ?i = 1 then 0x400087 else 0x02)"
    by (rule paging_init_directory [OF assms pde_index_bound])
  have page_B8: "?i = 0" if "drop_bit 12 va = 0xB8"
  proof -
    have "drop_bit 22 va = drop_bit 10 (drop_bit 12 va)" by simp
    then show ?thesis using that by simp
  qed
  consider "?i = 0" | "?i = 1" | "?i \<noteq> 0" "?i \<noteq> 1" by blast
  then show ?thesis
  proof cases
    case 1
    let ?pde = "0x03 OR page_table_addr s" and ?j = "unat (take_bit 10 (drop_bit 12 va))"
    have al: "take_bit 12 (page_table_addr s) = 0" using assms by (simp add: paging_wf_def)
    then have flags: "bit ?pde 0" "\<not> bit ?pde 2" "\<not> bit ?pde 7" "push_bit 12 (drop_bit 12 ?pde) = page_table_addr s"
      using aligned_bits [OF al] frame_of_aligned [OF al] by (simp_all add: bit_or_iff)
    have j: "?j < 1024" using take_bit_nat_less_exp [of 10] by (simp add: unsigned_take_bit_eq)
    have "drop_bit 22 va \<noteq> 1" using 1 by (auto simp: word_unat_eq_iff)
    then show ?thesis
      using 1 dir flags paging_init_table [OF assms j] table_index_of_page [OF 1] absent_pte [of ?j]
        split_address [of va 12]
      by (auto simp: translate_def Let_def)
  next
    case 2
    then have one: "drop_bit 22 va = 1" by (simp add: word_unat_eq_iff)
    then show ?thesis
      using 2 dir split_address [of va 22] by (simp add: translate_def Let_def)
  next
    case 3
    then have "page_directory ?s ! ?i = 2" "drop_bit 22 va \<noteq> 1" "drop_bit 12 va \<noteq> 0xB8"
      using dir page_B8 by auto
    then show ?thesis by (simp add: translate_def Let_def)
  qed
qed

text \<open>A freshly loaded kernel: zeroed tables at two page-aligned addresses.\<close>

definition paging_example :: paging where
  "paging_example = \<lparr>io_log = [], devices = (\<lambda>_ _. 0), sym = (\<lambda>_. 0), int_flag = False, cr2 = 0,
     idt = [], master_mask = 0, slave_mask = 0, rtc_interrupt = 0, rtc_lock = 0, timer_ticks = 0,
     pit_lock = 0, page_directory = replicate 1024 0, page_table = replicate 1024 0,
     user_video_page_table = replicate 1024 0, page_table_addr = 0x410000,
     user_video_page_table_addr = 0x411000, paging_on = False, tlb_flushes = 0\<rparr>"

lemma paging_example_wf [simp]: "paging_wf paging_example"
  by (simp add: paging_wf_def paging_example_def)

theorem paging_init_regions_witness:
  "translate True (snd (paging_init paging_example)) 0x412345 =
    (if drop_bit 22 (0x412345 :: u32) = 1 then Some 0x412345
     else if drop_bit 12 (0x412345 :: u32) = 0xB8 \<and> \<not> True then Some 0x412345
     else None)"
  by (rule paging_init_regions) simp

text \<open>the page a process runs in.  After the mapping that \<^verbatim>\<open>execute\<close>, \<^verbatim>\<open>halt\<close> and the scheduler
  install for process \<open>pid\<close>, every address of the program page reaches the 4 MB of physical
  memory that start at 8 MB plus 4 MB for each process before it, and no address outside
  the program page changes its meaning.\<close>

theorem process_page_mapped:
  assumes "paging_wf s" and "pid < 6"
  shows "translate user (map_page VIRTUAL_FILE_PAGE (PHYS_FILE_START + PHYS_FILE_OFFSET * of_nat pid) s) va =
    (if drop_bit 22 va = drop_bit 22 VIRTUAL_FILE_PAGE
     then Some ((PHYS_FILE_START + PHYS_FILE_OFFSET * of_nat pid) OR take_bit 22 va)
     else translate user s va)"
  using big.hit [OF assms(1) TrueI process_frame(1) [OF assms(2)], of va VIRTUAL_FILE_PAGE user]
    big.miss [OF assms(1) TrueI, of va VIRTUAL_FILE_PAGE user] by simp

theorem process_page_mapped_witness:
  "translate True (map_page VIRTUAL_FILE_PAGE (PHYS_FILE_START + PHYS_FILE_OFFSET * of_nat 2) paging_example)
     0x8048000 =
    (if drop_bit 22 0x8048000 = drop_bit 22 VIRTUAL_FILE_PAGE
     then Some ((PHYS_FILE_START + PHYS_FILE_OFFSET * of_nat 2) OR take_bit 22 0x8048000)
     else translate True paging_example 0x8048000)"
  by (rule process_page_mapped) simp_all

text \<open>C3: processes are separated.  The program pages of two different processes never reach the
  same physical byte, whatever else the two address spaces map.\<close>

theorem process_isolation:
  fixes s t :: "'a paging_scheme"
  assumes "paging_wf s" and "paging_wf t" and "pid < 6" and "pid' < 6" and "pid \<noteq> pid'"
    and "drop_bit 22 a = drop_bit 22 VIRTUAL_FILE_PAGE" and "drop_bit 22 b = drop_bit 22 VIRTUAL_FILE_PAGE"
  shows "translate user (map_page VIRTUAL_FILE_PAGE (PHYS_FILE_START + PHYS_FILE_OFFSET * of_nat pid) s) a
    \<noteq> translate user' (map_page VIRTUAL_FILE_PAGE (PHYS_FILE_START + PHYS_FILE_OFFSET * of_nat pid') t) b"
proof (rule big.separation [OF assms(1,2) TrueI process_frame(1) [OF assms(3)]
      process_frame(1) [OF assms(4)] _ assms(6,7)])
  have "(of_nat pid :: u32) \<noteq> of_nat pid'"
    using assms(3-5) by (simp add: word_of_nat_eq_iff take_bit_nat_eq_self)
  then show "PHYS_FILE_START + PHYS_FILE_OFFSET * of_nat pid \<noteq>
      PHYS_FILE_START + PHYS_FILE_OFFSET * of_nat pid'"
    using process_frame(2) [OF assms(3)] process_frame(2) [OF assms(4)] by (metis add_right_cancel)
qed

theorem process_isolation_witness:
  "translate True (map_page VIRTUAL_FILE_PAGE (PHYS_FILE_START + PHYS_FILE_OFFSET * of_nat 0) paging_example) 0x8048000
    \<noteq> translate True (map_page VIRTUAL_FILE_PAGE (PHYS_FILE_START + PHYS_FILE_OFFSET * of_nat 5) paging_example) 0x8049000"
  by (rule process_isolation) (simp_all add: VIRTUAL_FILE_PAGE_def)

end
