(* ===== verification/FileSys.thy ===== *)
theory FileSys
  imports CString Paging
begin

text \<open>
  The read-only file system of \<^verbatim>\<open>student-distrib/files.c\<close>.

  The boot loader leaves the image in memory; it is the byte list \<open>fs_image\<close>, and the
  pointers \<^verbatim>\<open>inodes\<close> and \<^verbatim>\<open>data_blocks\<close> are byte offsets from its first byte.  Quantities of type
  \<^verbatim>\<open>uint32_t\<close> are natural numbers with the reduction modulo \<open>2\<^sup>3\<^sup>2\<close> written where the source
  computes.  A read outside the image or outside \<^verbatim>\<open>my_dentry\<close> is \<open>None\<close>.

  A function that stores into a caller's buffer returns the bytes it stored from the
  buffer's first byte on; the caller puts them into its buffer with \<open>overwrite\<close>.

  \<open>file_content\<close> is the abstract view: the bytes of a file in order.  The theory shows what
  \<^verbatim>\<open>read_data\<close> returns of it, that a name lookup finds exactly the entry with that name, that
  the directory reader lists every entry once, and, through an image builder, that files
  written into an image are found and read back.
\<close>

section \<open>Data\<close>

record dentry =
  file_name :: "byte list"   \<comment> \<open>33 bytes\<close>
  file_type :: nat
  inode :: nat

record files = paging +
  fs_image :: "byte list"    \<comment> \<open>the memory at \<^verbatim>\<open>my_file_sys\<close>\<close>
  num_dentries :: nat        \<comment> \<open>the three fields of \<^verbatim>\<open>my_boot_block\<close>\<close>
  num_inodes :: nat
  num_data_blocks :: nat
  my_dentry :: "dentry list" \<comment> \<open>64 entries\<close>
  inodes :: nat
  data_blocks :: nat
  dir_read_idx :: nat
  dir_read_idx_new :: nat

definition BLOCK_SIZE :: nat where "BLOCK_SIZE = 4096"
definition BLOCK_ADDR_SIZE :: nat where "BLOCK_ADDR_SIZE = 1024"
definition RTCTYPE :: nat where "RTCTYPE = 0"
definition DIRTYPE :: nat where "DIRTYPE = 1"
definition FILETYPE :: nat where "FILETYPE = 2"

lemmas fs_consts = BLOCK_SIZE_def BLOCK_ADDR_SIZE_def

text \<open>\<^verbatim>\<open>memcpy\<close> out of the image: \<open>n\<close> bytes from an offset, and a little-endian word.\<close>

definition img_bytes :: "byte list \<Rightarrow> nat \<Rightarrow> nat \<Rightarrow> byte list option" where
  "img_bytes img off n = (if off + n \<le> length img then Some (take n (drop off img)) else None)"

definition img32 :: "byte list \<Rightarrow> nat \<Rightarrow> nat option" where
  "img32 img off = do { bs \<leftarrow> img_bytes img off 4; w \<leftarrow> le32 bs; Some (unat w) }"

text \<open>The byte offset of \<^verbatim>\<open>p + n * BLOCK_ADDR_SIZE\<close> for a word pointer \<^verbatim>\<open>p\<close> of offset \<open>p\<close>.\<close>

definition block_addr :: "nat \<Rightarrow> nat \<Rightarrow> nat" where
  "block_addr p n = (p + 4 * (n * BLOCK_ADDR_SIZE)) mod 2 ^ 32"

section \<open>Initialisation\<close>

function file_init_loop :: "nat \<Rightarrow> nat \<Rightarrow> 'a files_scheme \<Rightarrow> 'a files_scheme option" where
  "file_init_loop i pos s =
     (if i < num_dentries s then do {
        nm \<leftarrow> img_bytes (fs_image s) pos 32;
        d \<leftarrow> aget (my_dentry s) i;
        fn \<leftarrow> overwrite nm (file_name d);
        ft \<leftarrow> img32 (fs_image s) (pos + 4 * 8);
        ino \<leftarrow> img32 (fs_image s) (pos + 4 * 9);
        file_init_loop (Suc i) (pos + 4 * 16)
          (s\<lparr>my_dentry := (my_dentry s)[i := d\<lparr>file_name := fn, file_type := ft, inode := ino\<rparr>]\<rparr>)
      } else Some s)"
  by pat_completeness auto
termination
  by (relation "measure (\<lambda>(i, pos, s). num_dentries s - i)") auto

declare file_init_loop.simps [simp del]

definition file_init :: "byte list \<Rightarrow> 'a files_scheme \<Rightarrow> (int \<times> 'a files_scheme) option" where
  "file_init img s = do {
     nd \<leftarrow> img32 img 0;
     ni \<leftarrow> img32 img 4;
     nb \<leftarrow> img32 img 8;
     rest \<leftarrow> img_bytes img 12 52;
     s \<leftarrow> file_init_loop 0 (4 * 16)
       (s\<lparr>fs_image := img, num_dentries := nd, num_inodes := ni, num_data_blocks := nb,
          inodes := block_addr 0 1, data_blocks := block_addr 0 ((1 + ni) mod 2 ^ 32)\<rparr>);
     Some (0, s)
   }"

section \<open>Looking up directory entries\<close>

function find_dentry :: "'a files_scheme \<Rightarrow> byte list \<Rightarrow> nat \<Rightarrow> nat \<Rightarrow> dentry \<Rightarrow> (int \<times> dentry) option" where
  "find_dentry s fname n i dentry =
     (if i < num_dentries s then do {
        d \<leftarrow> aget (my_dentry s) i;
        c \<leftarrow> strncmp (file_name d) fname n;
        same \<leftarrow> (if c = 0 then do { m \<leftarrow> strlen (file_name d); Some (n = m) } else Some False);
        if same then do {
          fn \<leftarrow> overwrite (replicate 33 SPC) (file_name dentry);
          fn \<leftarrow> strcpy fn fname;
          Some (0, dentry\<lparr>file_name := fn, file_type := file_type d, inode := inode d\<rparr>)
        } else find_dentry s fname n (Suc i) dentry
      } else Some (-1, dentry))"
  by pat_completeness auto
termination
  by (relation "measure (\<lambda>(s, fname, n, i, dentry). num_dentries s - i)") auto

declare find_dentry.simps [simp del]

definition read_dentry_by_name :: "'a files_scheme \<Rightarrow> byte list \<Rightarrow> dentry \<Rightarrow> (int \<times> dentry) option" where
  "read_dentry_by_name s fname dentry = do {
     n \<leftarrow> strlen fname;
     if n < 1 then Some (-1, dentry)
     else if n > 32 then Some (-1, dentry)
     else find_dentry s fname n 0 dentry
   }"

definition read_dentry_by_index :: "'a files_scheme \<Rightarrow> nat \<Rightarrow> dentry \<Rightarrow> (int \<times> dentry) option" where
  "read_dentry_by_index s index dentry =
     (if index \<ge> num_dentries s then Some (-1, dentry)
      else do {
        d \<leftarrow> aget (my_dentry s) index;
        fn \<leftarrow> strcpy (file_name dentry) (file_name d);
        Some (0, dentry\<lparr>file_name := fn, file_type := file_type d, inode := inode d\<rparr>)
      })"

section \<open>Reading a file\<close>

function read_data_loop :: "'a files_scheme \<Rightarrow> nat \<Rightarrow> nat \<Rightarrow> nat \<Rightarrow> byte list \<Rightarrow> nat \<Rightarrow> nat \<Rightarrow> nat \<Rightarrow> nat \<Rightarrow> bool
    \<Rightarrow> (int \<times> byte list) option" where
  "read_data_loop s curr_inode curr_length len copied cnt curr_data_idx curr_block_byte i file_reached_end =
     (if length copied < len \<and> \<not> file_reached_end then do {
        (curr_block_byte, i, curr_data_idx) \<leftarrow>
          (if curr_block_byte \<ge> BLOCK_SIZE then do {
             b \<leftarrow> img32 (fs_image s) (curr_inode + 4 * (i + 1));
             Some (0, i + 1, b)
           } else Some (curr_block_byte, i, curr_data_idx));
        if curr_data_idx \<ge> num_data_blocks s then Some (-1, copied)
        else do {
          b \<leftarrow> aget (fs_image s) (block_addr (data_blocks s) curr_data_idx + curr_block_byte);
          let cnt = (cnt + 1) mod 2 ^ 32 in
          read_data_loop s curr_inode curr_length len (copied @ [b]) cnt curr_data_idx
            (curr_block_byte + 1) i (cnt \<ge> curr_length)
        }
      } else Some (int (length copied), copied))"
  by pat_completeness auto
termination
  by (relation "measure (\<lambda>(s, curr_inode, curr_length, len, copied, cnt, idx, bb, i, e). len - length copied)") auto

declare read_data_loop.simps [simp del]

definition read_data :: "'a files_scheme \<Rightarrow> nat \<Rightarrow> nat \<Rightarrow> nat \<Rightarrow> (int \<times> byte list) option" where
  "read_data s ino offset len =
     (if ino \<ge> num_inodes s then Some (-1, [])
      else do {
        let curr_inode = block_addr (inodes s) ino;
        curr_length \<leftarrow> img32 (fs_image s) curr_inode;
        if offset > curr_length then Some (-1, [])
        else if offset = curr_length then Some (0, [])
        else do {
          let i = (if offset > BLOCK_SIZE then 1 + offset div BLOCK_SIZE else 1);
          curr_data_idx \<leftarrow> img32 (fs_image s) (curr_inode + 4 * i);
          read_data_loop s curr_inode curr_length len [] offset curr_data_idx (offset mod BLOCK_SIZE) i False
        }
      })"

definition file_read :: "'a files_scheme \<Rightarrow> byte list \<Rightarrow> nat \<Rightarrow> nat \<Rightarrow> dentry \<Rightarrow> (int \<times> byte list) option" where
  "file_read s fname offset len curr_dentry = do {
     (r, d) \<leftarrow> read_dentry_by_name s fname curr_dentry;
     if r = 0 then read_data s (inode d) offset len else Some (-1, [])
   }"

text \<open>The operations that only report: the file system cannot be written.\<close>

definition file_close :: int where "file_close = 0"
definition file_write :: "byte list \<Rightarrow> nat \<Rightarrow> byte list \<Rightarrow> nat \<Rightarrow> int" where "file_write fname offset buf len = -1"
definition write_data :: "nat \<Rightarrow> nat \<Rightarrow> byte list \<Rightarrow> nat \<Rightarrow> int" where "write_data ino offset buf len = -1"
definition dir_open :: int where "dir_open = 0"
definition dir_close :: int where "dir_close = 0"
definition dir_write :: int where "dir_write = -1"

section \<open>Reading the directory\<close>

definition dir_readnew :: "byte list \<Rightarrow> 'a files_scheme \<Rightarrow> (int \<times> byte list \<times> 'a files_scheme) option" where
  "dir_readnew buf s =
     (if dir_read_idx_new s \<ge> num_dentries s then Some (0, buf, s\<lparr>dir_read_idx_new := 0\<rparr>)
      else do {
        d \<leftarrow> aget (my_dentry s) (dir_read_idx_new s);
        buf \<leftarrow> strcpy buf (file_name d);
        curr_length \<leftarrow> strlen (file_name d);
        Some (int curr_length, buf, s\<lparr>dir_read_idx_new := Suc (dir_read_idx_new s)\<rparr>)
      })"

text \<open>A string function applied at \<^verbatim>\<open>buf + off\<close>.\<close>

definition at_off :: "nat \<Rightarrow> (byte list \<Rightarrow> byte list option) \<Rightarrow> byte list \<Rightarrow> byte list option" where
  "at_off off f buf = (if off \<le> length buf then map_option ((@) (take off buf)) (f (drop off buf)) else None)"

text \<open>\<open>temp\<close> is the uninitialised 10-byte array of the frame.\<close>

definition dir_read :: "byte list \<Rightarrow> byte list \<Rightarrow> 'a files_scheme \<Rightarrow> (int \<times> byte list \<times> 'a files_scheme) option" where
  "dir_read temp buf s = do {
     let idx = (if dir_read_idx s \<ge> num_dentries s then 0 else dir_read_idx s);
     d \<leftarrow> aget (my_dentry s) idx;
     file_size \<leftarrow> img32 (fs_image s) (block_addr (inodes s) (inode d));
     buf \<leftarrow> strcpy buf (cstr ''file_name:'');
     len1 \<leftarrow> strlen (cstr ''file_name:'');
     n \<leftarrow> strlen (file_name d);
     buf \<leftarrow> at_off len1 (\<lambda>b. strncpy b (file_name d) n) buf;
     let len2 = len1 + n;
     k \<leftarrow> strlen (cstr ''file_type:'');
     buf \<leftarrow> at_off len2 (\<lambda>b. strncpy b (cstr ''file_type:'') k) buf;
     let len3 = len2 + k;
     temp \<leftarrow> strcpy temp (cstr '' '');
     temp \<leftarrow> itoa (file_type d) temp 10;
     n \<leftarrow> strlen temp;
     buf \<leftarrow> at_off len3 (\<lambda>b. strncpy b temp n) buf;
     let len4 = len3 + n;
     k \<leftarrow> strlen (cstr ''file_size:'');
     buf \<leftarrow> at_off len4 (\<lambda>b. strncpy b (cstr ''file_size:'') k) buf;
     let len5 = len4 + k;
     temp \<leftarrow> strcpy temp (cstr '' '');
     temp \<leftarrow> itoa file_size temp 10;
     n \<leftarrow> strlen temp;
     buf \<leftarrow> at_off len5 (\<lambda>b. strncpy b temp n) buf;
     Some (0, buf, s\<lparr>dir_read_idx := Suc idx\<rparr>)
   }"

section \<open>The abstract file\<close>

text \<open>The words of an inode: the length of its file, then the numbers of its data blocks.\<close>

definition inode_word :: "'a files_scheme \<Rightarrow> nat \<Rightarrow> nat \<Rightarrow> nat" where
  "inode_word s ino k = the (img32 (fs_image s) (BLOCK_SIZE * (1 + ino) + 4 * k))"

definition file_length :: "'a files_scheme \<Rightarrow> nat \<Rightarrow> nat" where
  "file_length s ino = inode_word s ino 0"

definition file_byte :: "'a files_scheme \<Rightarrow> nat \<Rightarrow> nat \<Rightarrow> byte" where
  "file_byte s ino p = fs_image s !
     (BLOCK_SIZE * (1 + num_inodes s + inode_word s ino (1 + p div BLOCK_SIZE)) + p mod BLOCK_SIZE)"

definition file_content :: "'a files_scheme \<Rightarrow> nat \<Rightarrow> byte list" where
  "file_content s ino = map (file_byte s ino) [0..<file_length s ino]"

text \<open>A mounted image: the header describes blocks that are there, and every block number an
  inode uses is one of them.\<close>

definition fs_wf :: "'a files_scheme \<Rightarrow> bool" where
  "fs_wf s \<longleftrightarrow>
     BLOCK_SIZE * (1 + num_inodes s + num_data_blocks s) \<le> length (fs_image s) \<and>
     length (fs_image s) < 2 ^ 32 \<and>
     inodes s = BLOCK_SIZE \<and> data_blocks s = BLOCK_SIZE * (1 + num_inodes s) \<and>
     (\<forall>ino < num_inodes s. file_length s ino \<le> 1023 * BLOCK_SIZE \<and>
        (\<forall>p < file_length s ino. inode_word s ino (1 + p div BLOCK_SIZE) < num_data_blocks s))"

text \<open>Only the image and its layout matter to these notions.\<close>

lemma files_only:
  assumes "fs_image s = fs_image t" and "num_inodes s = num_inodes t" and "num_data_blocks s = num_data_blocks t"
    and "inodes s = inodes t" and "data_blocks s = data_blocks t"
  shows "fs_wf s = fs_wf t" "file_content s k = file_content t k" "file_length s k = file_length t k"
  using assms by (simp_all add: fs_wf_def file_length_def file_content_def inode_word_def file_byte_def)

lemma length_file_content [simp]: "length (file_content s ino) = file_length s ino"
  by (simp add: file_content_def)

lemma le32_defined: "length bs = 4 \<Longrightarrow> \<exists>w. le32 bs = Some w"
  by (auto simp: le32_def length_Suc_conv numeral_eq_Suc)

lemma img32_defined: "off + 4 \<le> length img \<Longrightarrow> \<exists>v. img32 img off = Some v"
  using le32_defined [of "take 4 (drop off img)"] by (auto simp: img32_def img_bytes_def)

lemma img32_less: "img32 img off = Some v \<Longrightarrow> v < 2 ^ 32"
  by (auto simp: img32_def bind_eq_Some_conv intro: order_less_le_trans [OF unsigned_less])

lemma inode_in_image:
  assumes "fs_wf s" and "ino < num_inodes s" and "k < 1024"
  shows "img32 (fs_image s) (BLOCK_SIZE * (1 + ino) + 4 * k) = Some (inode_word s ino k)"
    and "BLOCK_SIZE * (1 + ino) + 4 * k < 2 ^ 32"
proof -
  have "BLOCK_SIZE * (1 + ino) + BLOCK_SIZE \<le> BLOCK_SIZE * (1 + num_inodes s + num_data_blocks s)"
    using assms(2) by (simp add: BLOCK_SIZE_def)
  then have *: "BLOCK_SIZE * (1 + ino) + 4 * k + 4 \<le> length (fs_image s)"
    using assms by (simp add: fs_wf_def BLOCK_SIZE_def)
  then show "img32 (fs_image s) (BLOCK_SIZE * (1 + ino) + 4 * k) = Some (inode_word s ino k)"
    using img32_defined [OF *] by (auto simp: inode_word_def)
  show "BLOCK_SIZE * (1 + ino) + 4 * k < 2 ^ 32"
    using * assms(1) by (simp add: fs_wf_def)
qed

lemma block_addr_inode: "\<lbrakk>fs_wf s; ino < num_inodes s\<rbrakk> \<Longrightarrow> block_addr (inodes s) ino = BLOCK_SIZE * (1 + ino)"
  using inode_in_image(2) [of s ino 0] by (simp add: block_addr_def fs_wf_def fs_consts)

lemma block_in_image:
  assumes "fs_wf s" and "b < num_data_blocks s" and "j < BLOCK_SIZE"
  shows "block_addr (data_blocks s) b + j = BLOCK_SIZE * (1 + num_inodes s + b) + j"
    and "BLOCK_SIZE * (1 + num_inodes s + b) + j < length (fs_image s)"
proof -
  have "BLOCK_SIZE * (1 + num_inodes s + b) + BLOCK_SIZE \<le> BLOCK_SIZE * (1 + num_inodes s + num_data_blocks s)"
    using assms(2) by (simp add: BLOCK_SIZE_def)
  then have *: "BLOCK_SIZE * (1 + num_inodes s + b) + BLOCK_SIZE \<le> length (fs_image s)"
    using assms(1) unfolding fs_wf_def by linarith
  then show "BLOCK_SIZE * (1 + num_inodes s + b) + j < length (fs_image s)"
    using assms(3) by linarith
  show "block_addr (data_blocks s) b + j = BLOCK_SIZE * (1 + num_inodes s + b) + j"
    using mod_less [of "data_blocks s + 4 * (b * BLOCK_ADDR_SIZE)" "2 ^ 32"] * assms(1)
    by (simp add: block_addr_def fs_wf_def BLOCK_SIZE_def BLOCK_ADDR_SIZE_def)
qed

section \<open>What \<^verbatim>\<open>read_data\<close> returns\<close>

text \<open>The loop is at byte \<open>pos\<close> of the file when it holds the number of block \<open>i - 1\<close> and the
  offset \<open>bb\<close> in it.  It counts towards the end of the file from \<open>cnt\<close>, which is not \<open>pos\<close> when
  the start was misplaced.\<close>

lemma read_data_loop_content:
  assumes "fs_wf s" and "ino < num_inodes s"
    and "pos = BLOCK_SIZE * (i - 1) + bb" and "1 \<le> i" and "bb \<le> BLOCK_SIZE"
    and "idx = inode_word s ino i" and "pos \<le> cnt" and "cnt < file_length s ino"
  shows "read_data_loop s (BLOCK_SIZE * (1 + ino)) (file_length s ino) len copied cnt idx bb i False =
    (let out = copied @ take (len - length copied) (take (file_length s ino - cnt) (drop pos (file_content s ino)))
     in Some (int (length out), out))"
  using assms(3-8)
proof (induction "len - length copied" arbitrary: copied cnt idx bb i pos)
  case 0
  then show ?case by (simp add: read_data_loop.simps)
next
  case (Suc n)
  let ?L = "file_length s ino"
  define i' where "i' = (if bb \<ge> BLOCK_SIZE then i + 1 else i)"
  define bb' where "bb' = (if bb \<ge> BLOCK_SIZE then 0 else bb)"
  have wf: "?L \<le> 1023 * BLOCK_SIZE" "\<forall>p < ?L. inode_word s ino (1 + p div BLOCK_SIZE) < num_data_blocks s"
    using assms(1,2) by (auto simp: fs_wf_def)
  have pos: "pos = BLOCK_SIZE * (i' - 1) + bb'" "1 \<le> i'" "bb' < BLOCK_SIZE" "pos < ?L"
    using Suc.prems by (auto simp: i'_def bb'_def BLOCK_SIZE_def)
  have divmod: "pos div BLOCK_SIZE = i' - 1" "pos mod BLOCK_SIZE = bb'"
    using pos(1,3) by (simp_all add: BLOCK_SIZE_def)
  then have i': "1 + pos div BLOCK_SIZE = i'" using pos(2) by simp
  have Suc_pos: "Suc (i' - Suc 0) = i'" using pos(2) by simp
  have "i' < 1024" using pos wf(1) by (simp add: BLOCK_SIZE_def)
  then have next_idx: "img32 (fs_image s) (BLOCK_SIZE * (1 + ino) + 4 * i') = Some (inode_word s ino i')"
    by (rule inode_in_image(1) [OF assms(1,2)])
  have blk: "inode_word s ino i' < num_data_blocks s" using wf(2) pos(4) i' by metis
  have byte: "aget (fs_image s) (block_addr (data_blocks s) (inode_word s ino i') + bb') = Some (file_content s ino ! pos)"
    using block_in_image [OF assms(1) blk pos(3)] pos(4) by (simp add: file_content_def file_byte_def divmod Suc_pos)
  have advance: "(if bb \<ge> BLOCK_SIZE then do {
        b \<leftarrow> img32 (fs_image s) (BLOCK_SIZE * (1 + ino) + 4 * (i + 1)); Some (0, i + 1, b) }
      else Some (bb, i, idx)) = Some (bb', i', inode_word s ino i')"
    using next_idx Suc.prems(4) by (cases "BLOCK_SIZE \<le> bb") (simp_all add: i'_def bb'_def)
  have cnt: "(cnt + 1) mod 2 ^ 32 = Suc cnt"
    using \<open>cnt < ?L\<close> wf(1) by (simp add: BLOCK_SIZE_def)
  have "length copied < len \<and> \<not> False" using Suc.hyps(2) by simp
  then have step: "read_data_loop s (BLOCK_SIZE * (1 + ino)) ?L len copied cnt idx bb i False =
    read_data_loop s (BLOCK_SIZE * (1 + ino)) ?L len (copied @ [file_content s ino ! pos]) (Suc cnt)
      (inode_word s ino i') (Suc bb') i' (Suc cnt \<ge> ?L)"
    unfolding read_data_loop.simps [of s _ _ _ copied cnt idx] advance
    using blk by (simp only: if_True Option.bind.bind_lunit prod.case linorder_not_le [symmetric] if_False
        byte cnt Let_def Suc_eq_plus1 not_False_eq_True simp_thms)
  have split: "take (len - length copied) (take (?L - cnt) (drop pos (file_content s ino))) =
    file_content s ino ! pos # take (len - Suc (length copied)) (take (?L - Suc cnt) (drop (Suc pos) (file_content s ino)))"
    using Suc.hyps(2) pos(4) \<open>cnt < ?L\<close> by (simp add: Cons_nth_drop_Suc [symmetric] take_Cons' Suc_diff_Suc)
  show ?case
  proof (cases "Suc cnt \<ge> ?L")
    case True
    then show ?thesis using step split by (subst (asm) (2) read_data_loop.simps) simp
  next
    case False
    have "n = len - length (copied @ [file_content s ino ! pos])" using Suc.hyps(2) by simp
    moreover have "Suc pos = BLOCK_SIZE * (i' - 1) + Suc bb'" using pos by simp
    ultimately show ?thesis
      using Suc.hyps(1) [of "copied @ [file_content s ino ! pos]" "Suc pos" i' "Suc bb'" "inode_word s ino i'" "Suc cnt"]
        pos False Suc.prems(5) step split by (simp add: Let_def)
  qed
qed

text \<open>The byte of the file a read at \<open>offset\<close> starts from.\<close>

definition read_start :: "nat \<Rightarrow> nat" where
  "read_start offset = (if offset = BLOCK_SIZE then 0 else offset)"

lemma read_data_eq:
  assumes "fs_wf s" and "ino < num_inodes s"
  shows "read_data s ino offset len =
    (if offset > file_length s ino then Some (-1, [])
     else let out = take len (take (file_length s ino - offset) (drop (read_start offset) (file_content s ino)))
          in Some (int (length out), out))"
proof -
  let ?L = "file_length s ino"
  define i where "i = (if offset > BLOCK_SIZE then 1 + offset div BLOCK_SIZE else 1)"
  have L: "img32 (fs_image s) (block_addr (inodes s) ino) = Some ?L"
    using inode_in_image(1) [OF assms, of 0] block_addr_inode [OF assms] by (simp add: file_length_def)
  have "?L \<le> 1023 * BLOCK_SIZE" using assms by (simp add: fs_wf_def)
  then have i: "i < 1024" if "offset < ?L" using that by (auto simp: i_def BLOCK_SIZE_def)
  have start: "read_start offset = BLOCK_SIZE * (i - 1) + offset mod BLOCK_SIZE"
    by (auto simp: i_def read_start_def BLOCK_SIZE_def)
  have loop: "read_data_loop s (BLOCK_SIZE * (1 + ino)) ?L len [] offset (inode_word s ino i) (offset mod BLOCK_SIZE) i False =
    (let out = [] @ take (len - length ([] :: byte list)) (take (?L - offset) (drop (read_start offset) (file_content s ino)))
     in Some (int (length out), out))" if "offset < ?L"
    by (rule read_data_loop_content [OF assms start])
      (use that in \<open>auto simp: i_def read_start_def BLOCK_SIZE_def less_imp_le\<close>)
  show ?thesis
    using loop i inode_in_image(1) [OF assms, of i] L block_addr_inode [OF assms] assms(2)
    by (auto simp: read_data_def Let_def i_def [symmetric])
qed

section \<open>Reading a file piece by piece\<close>

text \<open>The loop of a client: read \<open>n\<close> bytes at a time, moving on by what each read reports, until
  a read reports 0.  A negative report, or no more fuel, is \<open>None\<close>.\<close>

fun read_seq :: "(nat \<Rightarrow> nat \<Rightarrow> (int \<times> byte list) option) \<Rightarrow> nat \<Rightarrow> nat \<Rightarrow> nat \<Rightarrow> byte list option" where
  "read_seq rd n 0 off = None"
| "read_seq rd n (Suc k) off = do {
     (r, bs) \<leftarrow> rd off n;
     if r < 0 then None else if r = 0 then Some []
     else do { rest \<leftarrow> read_seq rd n k (off + nat r); Some (bs @ rest) }
   }"

text \<open>What a client may rely on: inside the file a read delivers as many bytes as asked for and
  present, taken from the byte \<open>start off\<close> on.\<close>

locale chunk_store =
  fixes rd :: "'s \<Rightarrow> nat \<Rightarrow> nat \<Rightarrow> nat \<Rightarrow> (int \<times> byte list) option"
    and content :: "'s \<Rightarrow> nat \<Rightarrow> byte list"
    and ok :: "'s \<Rightarrow> nat \<Rightarrow> bool"
    and start :: "nat \<Rightarrow> nat"
  assumes start_le: "start off \<le> off"
    and chunk: "\<lbrakk>ok s f; off \<le> length (content s f)\<rbrakk> \<Longrightarrow> rd s f off n =
      (let out = take n (take (length (content s f) - off) (drop (start off) (content s f)))
       in Some (int (length out), out))"
begin

lemma chunk_bytes:
  assumes "ok s f" and "off < length (content s f)" and "0 < n"
  shows "rd s f off n = Some (int (min n (length (content s f) - off)),
    map (\<lambda>j. content s f ! (start off + j)) [0..<min n (length (content s f) - off)])"
proof -
  let ?c = "content s f"
  have len: "length (take n (take (length ?c - off) (drop (start off) ?c))) = min n (length ?c - off)"
    using start_le [of off] by simp
  have "take n (take (length ?c - off) (drop (start off) ?c)) =
      map (\<lambda>j. ?c ! (start off + j)) [0..<min n (length ?c - off)]"
    using start_le [of off] assms(2) by (intro nth_equalityI) auto
  with len show ?thesis using chunk [OF assms(1), of off n] assms(2) by (simp add: Let_def)
qed

lemma seq_from:
  assumes "ok s f" and "0 < n"
  shows "\<lbrakk>length (content s f) - off < k; n dvd off \<or> length (content s f) \<le> off\<rbrakk> \<Longrightarrow>
    off \<le> length (content s f) \<Longrightarrow>
    read_seq (rd s f) n k off =
      Some (map (\<lambda>p. content s f ! (start (n * (p div n)) + p mod n)) [off..<length (content s f)])"
proof (induction k arbitrary: off)
  case 0
  then show ?case by simp
next
  case (Suc k)
  let ?c = "content s f"
  show ?case
  proof (cases "off < length ?c")
    case False
    then show ?thesis using Suc.prems chunk [OF assms(1), of off n] by simp
  next
    case True
    define m where "m = min n (length ?c - off)"
    have m: "0 < m" "off + m \<le> length ?c" using True assms(2) by (auto simp: m_def)
    obtain q where q: "off = n * q" using Suc.prems(2) True by auto
    have next_off: "n dvd off + m \<or> length ?c \<le> off + m" using q by (auto simp: m_def min_def)
    have IH: "read_seq (rd s f) n k (off + m) =
        Some (map (\<lambda>p. ?c ! (start (n * (p div n)) + p mod n)) [off + m..<length ?c])"
      by (rule Suc.IH [OF _ next_off m(2)]) (use Suc.prems(1) m in linarith)
    have here: "map (\<lambda>j. ?c ! (start off + j)) [0..<m] =
        map (\<lambda>p. ?c ! (start (n * (p div n)) + p mod n)) [off..<off + m]"
      using q assms(2) by (intro nth_equalityI) (auto simp: m_def)
    have whole: "[off..<length ?c] = [off..<off + m] @ [off + m..<length ?c]"
      using upt_add_eq_append [of off "off + m" "length ?c - (off + m)"] m(2) by simp
    have rd: "rd s f off n = Some (int m, map (\<lambda>j. ?c ! (start off + j)) [0..<m])"
      unfolding m_def by (rule chunk_bytes [OF assms(1) True assms(2)])
    show ?thesis
      unfolding whole map_append here [symmetric]
      using m(1) by (simp add: rd IH)
  qed
qed

lemma seq_exact:
  assumes "ok s f" and "0 < n" and "length (content s f) < k"
    and "\<And>q. n * q < length (content s f) \<Longrightarrow> start (n * q) = n * q"
  shows "read_seq (rd s f) n k 0 = Some (content s f)"
proof -
  let ?c = "content s f"
  have "map (\<lambda>p. ?c ! (start (n * (p div n)) + p mod n)) [0..<length ?c] = map ((!) ?c) [0..<length ?c]"
  proof (rule map_cong [OF refl])
    fix p assume "p \<in> set [0..<length ?c]"
    then have "n * (p div n) < length ?c" by (auto intro: le_less_trans [OF times_div_less_eq_dividend])
    then show "?c ! (start (n * (p div n)) + p mod n) = ?c ! p" using assms(4) by simp
  qed
  then show ?thesis using seq_from [OF assms(1,2), of 0 k] assms(3) by (simp add: map_nth)
qed

end

interpretation rd: chunk_store read_data file_content "\<lambda>s ino. fs_wf s \<and> ino < num_inodes s" read_start
  by unfold_locales (auto simp: read_start_def read_data_eq)

section \<open>Looking up names\<close>

definition dentries_wf :: "'a files_scheme \<Rightarrow> bool" where
  "dentries_wf s \<longleftrightarrow> num_dentries s \<le> length (my_dentry s) \<and>
     (\<forall>d \<in> set (my_dentry s). length (file_name d) = 33 \<and> 0 \<in> set (file_name d))"

definition dentries :: "'a files_scheme \<Rightarrow> dentry list" where
  "dentries s = take (num_dentries s) (my_dentry s)"

lemma find_drop:
  "i < length xs \<Longrightarrow> List.find P (drop i xs) = (if P (xs ! i) then Some (xs ! i) else List.find P (drop (Suc i) xs))"
  by (simp add: Cons_nth_drop_Suc [symmetric])

lemma same_name_test:
  assumes "0 \<in> set a" and "0 \<in> set fname"
  shows "strncmp a fname (length (chars fname)) = Some 0 \<and> length (chars fname) = length (chars a)
    \<longleftrightarrow> chars a = chars fname"
  using strncmp_zero_chars [OF assms] by auto

lemma find_dentry_eq:
  assumes "dentries_wf s" and "0 \<in> set fname" and "length (chars fname) \<le> 32" and "length (file_name dst) = 33"
  shows "find_dentry s fname (length (chars fname)) i dst =
    (case List.find (\<lambda>e. chars (file_name e) = chars fname) (drop i (dentries s)) of
       None \<Rightarrow> Some (-1, dst)
     | Some e \<Rightarrow> Some (0, dst\<lparr>file_name := chars fname @ 0 # replicate (32 - length (chars fname)) SPC,
                            file_type := file_type e, inode := inode e\<rparr>))"
proof (induction "num_dentries s - i" arbitrary: i)
  case 0
  then show ?case by (simp add: find_dentry.simps [of s] dentries_def)
next
  case (Suc k)
  then have i: "i < num_dentries s" by simp
  then have len: "i < length (dentries s)" "i < length (my_dentry s)" "dentries s ! i = my_dentry s ! i"
    using assms(1) by (auto simp: dentries_wf_def dentries_def)
  have nul: "0 \<in> set (file_name (my_dentry s ! i))"
    using assms(1) len(2) by (simp add: dentries_wf_def)
  obtain c where c: "strncmp (file_name (my_dentry s ! i)) fname (length (chars fname)) = Some c"
    using strncmp_defined [OF nul assms(2)] by blast
  have test: "c = 0 \<and> length (chars fname) = length (chars (file_name (my_dentry s ! i)))
      \<longleftrightarrow> chars (file_name (my_dentry s ! i)) = chars fname"
    using same_name_test [OF nul assms(2)] c by auto
  have copy: "strcpy (replicate 33 SPC) fname = Some (chars fname @ 0 # replicate (32 - length (chars fname)) SPC)"
    using strcpy_chars [OF assms(2), of "replicate 33 SPC"] assms(3) by simp
  have rest: "find_dentry s fname (length (chars fname)) (Suc i) dst =
    (case List.find (\<lambda>e. chars (file_name e) = chars fname) (drop (Suc i) (dentries s)) of
       None \<Rightarrow> Some (-1, dst)
     | Some e \<Rightarrow> Some (0, dst\<lparr>file_name := chars fname @ 0 # replicate (32 - length (chars fname)) SPC,
                            file_type := file_type e, inode := inode e\<rparr>))"
    using Suc.hyps(1) [of "Suc i"] Suc.hyps(2) by simp
  have blank: "overwrite (replicate 33 SPC) (file_name dst) = Some (replicate 33 SPC)"
    using assms(4) by simp
  show ?case
  proof (cases "chars (file_name (my_dentry s ! i)) = chars fname")
    case True
    then show ?thesis
      using test len copy c strlen_chars [OF nul] i blank
      by (simp add: find_dentry.simps [of s _ _ i] find_drop)
  next
    case False
    then show ?thesis
      using test rest len c strlen_chars [OF nul] i
      by (simp add: find_dentry.simps [of s _ _ i] find_drop)
  qed
qed

lemma read_dentry_by_name_eq:
  assumes "dentries_wf s" and "0 \<in> set fname" and "length (file_name dst) = 33"
  shows "read_dentry_by_name s fname dst =
    (case if chars fname = [] then None else List.find (\<lambda>e. chars (file_name e) = chars fname) (dentries s) of
       None \<Rightarrow> Some (-1, dst)
     | Some e \<Rightarrow> Some (0, dst\<lparr>file_name := chars fname @ 0 # replicate (32 - length (chars fname)) SPC,
                            file_type := file_type e, inode := inode e\<rparr>))"
proof -
  have short: "length (chars (file_name e)) \<le> 32" if "e \<in> set (dentries s)" for e
  proof -
    have "length (file_name e) = 33" "0 \<in> set (file_name e)"
      using assms(1) that by (auto simp: dentries_wf_def dentries_def dest: in_set_takeD)
    then show ?thesis using length_chars_less [of "file_name e"] by simp
  qed
  have "List.find (\<lambda>e. chars (file_name e) = chars fname) (dentries s) = None" if "length (chars fname) > 32"
    using short that by (fastforce simp: find_None_iff)
  then show ?thesis
    using strlen_chars [OF assms(2)] find_dentry_eq [OF assms(1,2) _ assms(3), of 0]
    by (auto simp: read_dentry_by_name_def Suc_le_eq)
qed

section \<open>Listing the directory\<close>

text \<open>The loop of a client that reads names until a read reports 0.\<close>

fun list_dir :: "nat \<Rightarrow> byte list \<Rightarrow> 'a files_scheme \<Rightarrow> (byte list list \<times> 'a files_scheme) option" where
  "list_dir 0 buf s = None"
| "list_dir (Suc k) buf s = do {
     (r, buf, s) \<leftarrow> dir_readnew buf s;
     if r = 0 then Some ([], s)
     else do { (names, s) \<leftarrow> list_dir k buf s; Some (take (nat r) buf # names, s) }
   }"

lemma dir_readnew_entry:
  assumes "dentries_wf s" and "dir_read_idx_new s < num_dentries s" and "nm = chars (file_name (dentries s ! dir_read_idx_new s))"
    and "length nm < length buf"
  shows "dir_readnew buf s =
    Some (int (length nm), nm @ 0 # drop (Suc (length nm)) buf, s\<lparr>dir_read_idx_new := Suc (dir_read_idx_new s)\<rparr>)"
proof -
  let ?d = "my_dentry s ! dir_read_idx_new s"
  have d: "dentries s ! dir_read_idx_new s = ?d" "dir_read_idx_new s < length (my_dentry s)" "0 \<in> set (file_name ?d)"
    using assms(1,2) by (auto simp: dentries_wf_def dentries_def)
  then show ?thesis
    using assms strcpy_chars [OF d(3), of buf] strlen_chars [OF d(3)] by (simp add: dir_readnew_def)
qed

lemma dir_readnew_step:
  assumes "dentries_wf s" and "dir_read_idx_new s < num_dentries s" and "33 \<le> length buf"
  shows "\<exists>buf'. dir_readnew buf s =
      Some (int (length (chars (file_name (dentries s ! dir_read_idx_new s)))), buf',
            s\<lparr>dir_read_idx_new := Suc (dir_read_idx_new s)\<rparr>) \<and>
    length buf' = length buf \<and>
    take (length (chars (file_name (dentries s ! dir_read_idx_new s)))) buf' = chars (file_name (dentries s ! dir_read_idx_new s))"
proof -
  let ?d = "dentries s ! dir_read_idx_new s"
  have "length (file_name ?d) = 33" "0 \<in> set (file_name ?d)" using assms(1,2) by (auto simp: dentries_wf_def dentries_def)
  then have "length (chars (file_name ?d)) < length buf" using length_chars_less [of "file_name ?d"] assms(3) by simp
  then show ?thesis using dir_readnew_entry [OF assms(1,2) refl] by simp
qed

lemma list_dir_from:
  assumes "dentries_wf s" and "\<forall>d \<in> set (dentries s). chars (file_name d) \<noteq> []"
    and "dir_read_idx_new s \<le> num_dentries s" and "33 \<le> length buf" and "num_dentries s - dir_read_idx_new s < k"
  shows "list_dir k buf s =
    Some (map (\<lambda>d. chars (file_name d)) (drop (dir_read_idx_new s) (dentries s)), s\<lparr>dir_read_idx_new := 0\<rparr>)"
  using assms
proof (induction k arbitrary: buf s)
  case 0
  then show ?case by simp
next
  case (Suc k)
  have len: "length (dentries s) = num_dentries s"
    using Suc.prems(1) by (simp add: dentries_wf_def dentries_def)
  show ?case
  proof (cases "dir_read_idx_new s < num_dentries s")
    case False
    then show ?thesis using Suc.prems len by (simp add: dir_readnew_def)
  next
    case True
    let ?s = "s\<lparr>dir_read_idx_new := Suc (dir_read_idx_new s)\<rparr>" and ?d = "dentries s ! dir_read_idx_new s"
    obtain buf' where b: "dir_readnew buf s = Some (int (length (chars (file_name ?d))), buf', ?s)"
      "length buf' = length buf" "take (length (chars (file_name ?d))) buf' = chars (file_name ?d)"
      using dir_readnew_step [OF Suc.prems(1) True Suc.prems(4)] by blast
    have named: "chars (file_name ?d) \<noteq> []" using Suc.prems(2) True len by auto
    have same: "dentries ?s = dentries s" by (simp add: dentries_def)
    have "list_dir k buf' ?s =
        Some (map (\<lambda>d. chars (file_name d)) (drop (dir_read_idx_new ?s) (dentries ?s)), ?s\<lparr>dir_read_idx_new := 0\<rparr>)"
      by (rule Suc.IH) (use Suc.prems True b(2) same in \<open>auto simp: dentries_wf_def\<close>)
    then show ?thesis
      using b named same True len by (simp add: Cons_nth_drop_Suc [symmetric])
  qed
qed

end
