(* ===== verification/FsImage.thy ===== *)
theory FsImage
  imports FileSys
begin

text \<open>
  The images that \<^verbatim>\<open>file_init\<close> mounts, and the properties of the file system.

  \<open>disk_holds fs inos img\<close> says that an image holds a list of named files in the format that \<^verbatim>\<open>files.c\<close>
  reads: a boot block with the three counts and a directory entry of 64 bytes per file, inode blocks, data blocks.
  Nothing is said about which inode an entry names or which data blocks an inode uses: there may be more inodes than
  entries, two entries may share an inode, and the blocks of a file may lie anywhere, as in the \<^verbatim>\<open>filesys_img\<close> of the
  repository, which has 17 entries, 64 inodes and 59 scattered blocks.  Mounting such an image gives a state that
  satisfies the invariants of the file system, in which every file is found under its name and read back.

  \<open>mkfs\<close> is one way to build such an image, file after file; the examples use it.
\<close>

section \<open>The format\<close>

record fs_file =
  ff_name :: "byte list"
  ff_type :: nat
  ff_data :: "byte list"

definition enc32 :: "nat \<Rightarrow> byte list" where
  "enc32 v = [of_nat v, of_nat (v div 2 ^ 8), of_nat (v div 2 ^ 16), of_nat (v div 2 ^ 24)]"

definition pad :: "nat \<Rightarrow> byte list \<Rightarrow> byte list" where
  "pad n xs = xs @ replicate (n - length xs) 0"

definition nblocks :: "fs_file \<Rightarrow> nat" where
  "nblocks f = (length (ff_data f) + 4095) div 4096"

definition first_block :: "fs_file list \<Rightarrow> nat \<Rightarrow> nat" where
  "first_block fs i = sum_list (map nblocks (take i fs))"

definition mk_dentry :: "fs_file list \<Rightarrow> nat \<Rightarrow> byte list" where
  "mk_dentry fs i = pad 64 (pad 32 (ff_name (fs ! i)) @ enc32 (ff_type (fs ! i)) @ enc32 i)"

definition mk_boot :: "fs_file list \<Rightarrow> byte list" where
  "mk_boot fs = pad 4096
     (pad 64 (enc32 (length fs) @ enc32 (length fs) @ enc32 (first_block fs (length fs)))
      @ concat (map (mk_dentry fs) [0..<length fs]))"

definition mk_inode :: "fs_file list \<Rightarrow> nat \<Rightarrow> byte list" where
  "mk_inode fs i = pad 4096 (enc32 (length (ff_data (fs ! i)))
     @ concat (map (\<lambda>k. enc32 (first_block fs i + k)) [0..<nblocks (fs ! i)]))"

definition mk_data :: "fs_file \<Rightarrow> byte list" where
  "mk_data f = pad (4096 * nblocks f) (ff_data f)"

definition mkfs :: "fs_file list \<Rightarrow> byte list" where
  "mkfs fs = mk_boot fs @ concat (map (mk_inode fs) [0..<length fs]) @ concat (map mk_data fs)"

text \<open>What fits the format.\<close>

definition files_ok :: "fs_file list \<Rightarrow> bool" where
  "files_ok fs \<longleftrightarrow> length fs \<le> 63 \<and>
     4096 * (1 + length fs + first_block fs (length fs)) < 2 ^ 32 \<and>
     (\<forall>f \<in> set fs. length (ff_name f) \<le> 32 \<and> 0 \<notin> set (ff_name f) \<and> ff_name f \<noteq> [] \<and>
        ff_type f < 2 ^ 32 \<and> length (ff_data f) \<le> 1023 * 4096) \<and>
     distinct (map ff_name fs)"

section \<open>Reading out of a concatenation\<close>

lemma length_pad [simp]: "length xs \<le> n \<Longrightarrow> length (pad n xs) = n"
  by (simp add: pad_def)

lemma length_enc32 [simp]: "length (enc32 v) = 4"
  by (simp add: enc32_def)

lemma sum_list_const: "\<forall>x \<in> set xs. f x = c \<Longrightarrow> sum_list (map f xs) = c * length xs" for c :: nat
  by (induction xs) auto

lemma length_concat_const: "\<forall>x \<in> set xs. length x = B \<Longrightarrow> length (concat xs) = B * length xs"
  by (simp add: length_concat sum_list_const)

text \<open>\<open>starts_at img off bs\<close>: the bytes \<open>bs\<close> are in the image at \<open>off\<close>.\<close>

definition starts_at :: "byte list \<Rightarrow> nat \<Rightarrow> byte list \<Rightarrow> bool" where
  "starts_at img off bs \<longleftrightarrow> (\<exists>r. drop off img = bs @ r) \<and> off \<le> length img"

lemma starts_atI: "img = pre @ bs @ r \<Longrightarrow> off = length pre \<Longrightarrow> starts_at img off bs"
  by (auto simp: starts_at_def)

lemma starts_at_split: "starts_at img off (a @ b) \<Longrightarrow> starts_at img off a \<and> starts_at img (off + length a) b"
  unfolding starts_at_def
  by (metis append.assoc append_eq_conv_conj drop_drop add.commute le_add1 length_append length_drop
      le_add_diff_inverse nat_add_left_cancel_le)

lemma starts_at_pad: "starts_at img off (pad n bs) \<Longrightarrow> starts_at img off bs"
  using starts_at_split unfolding pad_def by blast

lemma starts_at_concat:
  assumes "starts_at img off (concat xs)" and "i < length xs"
  shows "starts_at img (off + sum_list (map length (take i xs))) (xs ! i)"
proof -
  have "concat xs = concat (take i xs) @ xs ! i @ concat (drop (Suc i) xs)"
    using assms(2) by (metis append_take_drop_id concat_append concat.simps(2) Cons_nth_drop_Suc)
  then show ?thesis using assms(1) starts_at_split by (metis length_concat)
qed

lemma starts_at_blocks:
  assumes "starts_at img off (concat (map g [0..<n]))" and "\<And>j. j < n \<Longrightarrow> length (g j) = B" and "i < n"
  shows "starts_at img (off + B * i) (g i)"
proof -
  have "sum_list (map length (take i (map g [0..<n]))) = B * i"
    using sum_list_const [of "take i (map g [0..<n])" length B] assms(2,3)
    by (auto simp: take_map)
  then show ?thesis using starts_at_concat [OF assms(1), of i] assms(3) by simp
qed

lemma starts_at_length: "starts_at img off bs \<Longrightarrow> off + length bs \<le> length img"
  unfolding starts_at_def by (metis length_append length_drop le_add1 le_diff_conv2 add.commute)

lemma img_bytes_at: "starts_at img off bs \<Longrightarrow> n = length bs \<Longrightarrow> img_bytes img off n = Some bs"
  using starts_at_length [of img off bs] by (auto simp: img_bytes_def starts_at_def)

lemma nth_at: "starts_at img off bs \<Longrightarrow> j < length bs \<Longrightarrow> img ! (off + j) = bs ! j"
  unfolding starts_at_def by (metis nth_append nth_drop)

lemma le32_enc32:
  assumes "v < 2 ^ 32"
  shows "le32 (enc32 v) = Some (of_nat v)"
proof -
  have "(ucast (of_nat v :: byte) OR push_bit 8 (ucast (of_nat (drop_bit 8 v) :: byte))
      OR push_bit 16 (ucast (of_nat (drop_bit 16 v) :: byte))
      OR push_bit 24 (ucast (of_nat (drop_bit 24 v) :: byte))) = (of_nat v :: u32)"
  proof (rule bit_word_eqI)
    fix n assume "n < LENGTH(32)"
    then have n: "n < 32" by simp
    consider "n < 8" | "8 \<le> n" "n < 16" | "16 \<le> n" "n < 24" | "24 \<le> n" by linarith
    then show "bit (ucast (of_nat v :: byte) OR push_bit 8 (ucast (of_nat (drop_bit 8 v) :: byte))
      OR push_bit 16 (ucast (of_nat (drop_bit 16 v) :: byte))
      OR push_bit 24 (ucast (of_nat (drop_bit 24 v) :: byte)) :: u32) n \<longleftrightarrow> bit (of_nat v :: u32) n"
      using n by cases (simp_all add: bit_or_iff bit_push_bit_iff bit_ucast_iff bit_of_nat_iff possible_bit_word
          bit_drop_bit_eq less_diff_conv2)
  qed
  then show ?thesis by (simp add: le32_def enc32_def drop_bit_eq_div)
qed

lemma img32_at: "\<lbrakk>starts_at img off (enc32 v); v < 2 ^ 32\<rbrakk> \<Longrightarrow> img32 img off = Some v"
  using img_bytes_at [of img off "enc32 v" 4] le32_enc32 [of v]
  by (simp add: img32_def unsigned_of_nat take_bit_nat_eq_self)

section \<open>Where \<open>mkfs\<close> puts things\<close>

lemma first_block_mono: "i \<le> j \<Longrightarrow> first_block fs i \<le> first_block fs j"
  unfolding first_block_def by (metis le_add1 map_append sum_list.append take_add nat_le_iff_add)

lemma first_block_Suc: "i < length fs \<Longrightarrow> first_block fs (Suc i) = first_block fs i + nblocks (fs ! i)"
  by (simp add: first_block_def take_Suc_conv_app_nth)

lemma nblocks_facts:
  "length (ff_data f) \<le> 4096 * nblocks f"
  "p < length (ff_data f) \<Longrightarrow> p div 4096 < nblocks f"
  "length (ff_data f) \<le> 1023 * 4096 \<Longrightarrow> nblocks f \<le> 1023"
  by (auto simp: nblocks_def div_less_iff_less_mult)

lemma file_facts:
  assumes "files_ok fs" and "i < length fs"
  shows "length (ff_name (fs ! i)) \<le> 32" "0 \<notin> set (ff_name (fs ! i))" "ff_name (fs ! i) \<noteq> []"
    "ff_type (fs ! i) < 2 ^ 32" "length (ff_data (fs ! i)) \<le> 1023 * 4096"
  using assms by (auto simp: files_ok_def)

lemma mk_dentry_length: "files_ok fs \<Longrightarrow> i < length fs \<Longrightarrow> length (mk_dentry fs i) = 64"
  by (simp add: mk_dentry_def file_facts(1))

lemma mk_inode_length: "files_ok fs \<Longrightarrow> i < length fs \<Longrightarrow> length (mk_inode fs i) = 4096"
  using nblocks_facts(3) [OF file_facts(5) [of fs i]]
  by (simp add: mk_inode_def length_concat comp_def sum_list_triv)

lemma mk_boot_parts:
  assumes "files_ok fs"
  shows "length (mk_boot fs) = 4096"
proof -
  have "length (concat (map (mk_dentry fs) [0..<length fs])) = 64 * length fs"
    using length_concat_const [of "map (mk_dentry fs) [0..<length fs]" 64] mk_dentry_length [OF assms] by auto
  moreover have "length fs \<le> 63" using assms by (simp add: files_ok_def)
  ultimately show ?thesis by (simp add: mk_boot_def)
qed

lemma mk_data_length: "length (mk_data f) = 4096 * nblocks f"
  by (simp add: mk_data_def nblocks_facts(1))

lemma mkfs_length:
  assumes "files_ok fs"
  shows "length (mkfs fs) = 4096 * (1 + length fs + first_block fs (length fs))"
proof -
  have "length (concat (map (mk_inode fs) [0..<length fs])) = 4096 * length fs"
    using length_concat_const [of "map (mk_inode fs) [0..<length fs]" 4096] mk_inode_length [OF assms] by auto
  moreover have "length (concat (map mk_data fs)) = 4096 * first_block fs (length fs)"
    by (simp add: length_concat comp_def mk_data_length first_block_def sum_list_const_mult)
  ultimately show ?thesis by (simp add: mkfs_def mk_boot_parts [OF assms])
qed

lemma mkfs_parts:
  assumes "files_ok fs"
  shows "starts_at (mkfs fs) 0 (mk_boot fs)"
    and "starts_at (mkfs fs) 4096 (concat (map (mk_inode fs) [0..<length fs]))"
    and "starts_at (mkfs fs) (4096 * (1 + length fs)) (concat (map mk_data fs))"
proof -
  have "length (concat (map (mk_inode fs) [0..<length fs])) = 4096 * length fs"
    using length_concat_const [of "map (mk_inode fs) [0..<length fs]" 4096] mk_inode_length [OF assms] by auto
  then show "starts_at (mkfs fs) (4096 * (1 + length fs)) (concat (map mk_data fs))"
    by (intro starts_atI [of _ "mk_boot fs @ concat (map (mk_inode fs) [0..<length fs])" _ "[]"])
      (simp_all add: mkfs_def mk_boot_parts [OF assms])
  show "starts_at (mkfs fs) 0 (mk_boot fs)"
    by (rule starts_atI [of _ "[]"]) (simp_all add: mkfs_def)
  show "starts_at (mkfs fs) 4096 (concat (map (mk_inode fs) [0..<length fs]))"
    by (rule starts_atI [of _ "mk_boot fs"]) (simp_all add: mkfs_def mk_boot_parts [OF assms])
qed

lemma mkfs_counts:
  assumes "files_ok fs"
  shows "img32 (mkfs fs) 0 = Some (length fs)" "img32 (mkfs fs) 4 = Some (length fs)"
    "img32 (mkfs fs) 8 = Some (first_block fs (length fs))"
    and "starts_at (mkfs fs) 64 (concat (map (mk_dentry fs) [0..<length fs]))"
proof -
  let ?head = "enc32 (length fs) @ enc32 (length fs) @ enc32 (first_block fs (length fs))"
  have "starts_at (mkfs fs) 0 (pad 64 ?head @ concat (map (mk_dentry fs) [0..<length fs]))"
    using starts_at_pad mkfs_parts(1) [OF assms] unfolding mk_boot_def by blast
  note boot = starts_at_split [OF this]
  then show "starts_at (mkfs fs) 64 (concat (map (mk_dentry fs) [0..<length fs]))" by simp
  have head: "starts_at (mkfs fs) 0 ?head" using boot starts_at_pad by blast
  have small: "length fs < 2 ^ 32" "first_block fs (length fs) < 2 ^ 32"
    using assms by (simp_all add: files_ok_def)
  show "img32 (mkfs fs) 0 = Some (length fs)"
    using starts_at_split [OF head] small by (intro img32_at) auto
  have "starts_at (mkfs fs) 4 (enc32 (length fs) @ enc32 (first_block fs (length fs)))"
    using starts_at_split [OF head] by simp
  from starts_at_split [OF this] small
  show "img32 (mkfs fs) 4 = Some (length fs)" "img32 (mkfs fs) 8 = Some (first_block fs (length fs))"
    by (auto intro: img32_at)
qed

lemma mkfs_dentry:
  assumes "files_ok fs" and "i < length fs"
  shows "img_bytes (mkfs fs) (64 + 64 * i) 32 = Some (pad 32 (ff_name (fs ! i)))"
    and "img32 (mkfs fs) (64 + 64 * i + 32) = Some (ff_type (fs ! i))"
    and "img32 (mkfs fs) (64 + 64 * i + 36) = Some i"
proof -
  have "starts_at (mkfs fs) (64 + 64 * i) (mk_dentry fs i)"
    by (rule starts_at_blocks [OF mkfs_counts(4) [OF assms(1)] mk_dentry_length [OF assms(1)] assms(2)])
  then have "starts_at (mkfs fs) (64 + 64 * i) (pad 32 (ff_name (fs ! i)) @ enc32 (ff_type (fs ! i)) @ enc32 i)"
    unfolding mk_dentry_def by (rule starts_at_pad)
  note a = starts_at_split [OF this]
  then have "starts_at (mkfs fs) (64 + 64 * i + 32) (enc32 (ff_type (fs ! i)) @ enc32 i)"
    using file_facts(1) [OF assms] by simp
  note b = starts_at_split [OF this]
  show "img_bytes (mkfs fs) (64 + 64 * i) 32 = Some (pad 32 (ff_name (fs ! i)))"
    using a file_facts(1) [OF assms] by (intro img_bytes_at) auto
  have "i < 2 ^ 32" using assms by (simp add: files_ok_def)
  then show "img32 (mkfs fs) (64 + 64 * i + 32) = Some (ff_type (fs ! i))"
    and "img32 (mkfs fs) (64 + 64 * i + 36) = Some i"
    using b file_facts(4) [OF assms] by (auto intro!: img32_at simp: add.assoc)
qed

lemma mkfs_inode:
  assumes "files_ok fs" and "i < length fs"
  shows "img32 (mkfs fs) (4096 * (1 + i)) = Some (length (ff_data (fs ! i)))"
    and "k < nblocks (fs ! i) \<Longrightarrow> img32 (mkfs fs) (4096 * (1 + i) + 4 * (1 + k)) = Some (first_block fs i + k)"
proof -
  have off: "4096 + 4096 * i = 4096 * (1 + i)" by simp
  have "starts_at (mkfs fs) (4096 + 4096 * i) (mk_inode fs i)"
    by (rule starts_at_blocks [OF mkfs_parts(2) [OF assms(1)] mk_inode_length [OF assms(1)] assms(2)])
  then have "starts_at (mkfs fs) (4096 * (1 + i)) (enc32 (length (ff_data (fs ! i)))
     @ concat (map (\<lambda>k. enc32 (first_block fs i + k)) [0..<nblocks (fs ! i)]))"
    unfolding mk_inode_def off by (rule starts_at_pad)
  note a = starts_at_split [OF this]
  show "img32 (mkfs fs) (4096 * (1 + i)) = Some (length (ff_data (fs ! i)))"
    using a file_facts(5) [OF assms] by (intro img32_at) auto
  assume k: "k < nblocks (fs ! i)"
  have "first_block fs i + nblocks (fs ! i) \<le> first_block fs (length fs)"
    using first_block_mono [of "Suc i" "length fs" fs] first_block_Suc [OF assms(2)] assms(2) by simp
  then have small: "first_block fs i + k < 2 ^ 32" using k assms(1) by (simp add: files_ok_def)
  have "starts_at (mkfs fs) (4096 * (1 + i) + 4 + 4 * k) (enc32 (first_block fs i + k))"
    by (rule starts_at_blocks [where n = "nblocks (fs ! i)"]) (use a k in auto)
  then show "img32 (mkfs fs) (4096 * (1 + i) + 4 * (1 + k)) = Some (first_block fs i + k)"
    using img32_at [OF _ small] by (simp add: add.assoc)
qed

lemma mkfs_data:
  assumes "files_ok fs" and "i < length fs" and "p < length (ff_data (fs ! i))"
  shows "mkfs fs ! (4096 * (1 + length fs + (first_block fs i + p div 4096)) + p mod 4096) = ff_data (fs ! i) ! p"
proof -
  have "sum_list (map length (take i (map mk_data fs))) = 4096 * first_block fs i"
    by (simp add: take_map comp_def mk_data_length first_block_def sum_list_const_mult)
  then have "starts_at (mkfs fs) (4096 * (1 + length fs) + 4096 * first_block fs i) (mk_data (fs ! i))"
    using starts_at_concat [OF mkfs_parts(3) [OF assms(1)], of i] assms(2) by simp
  then have "starts_at (mkfs fs) (4096 * (1 + length fs) + 4096 * first_block fs i) (ff_data (fs ! i))"
    unfolding mk_data_def by (rule starts_at_pad)
  from nth_at [OF this assms(3)]
  have "mkfs fs ! (4096 * (1 + length fs) + 4096 * first_block fs i + p) = ff_data (fs ! i) ! p" .
  moreover have "4096 * (1 + length fs) + 4096 * first_block fs i + p =
      4096 * (1 + length fs + (first_block fs i + p div 4096)) + p mod 4096"
    using div_mult_mod_eq [of p 4096] by (simp add: algebra_simps)
  ultimately show ?thesis by metis
qed

section \<open>Images in general\<close>

text \<open>What may be a directory: at most 63 entries with distinct names of 1 to 32 characters.\<close>

definition names_ok :: "fs_file list \<Rightarrow> bool" where
  "names_ok fs \<longleftrightarrow> length fs \<le> 63 \<and>
     (\<forall>f \<in> set fs. length (ff_name f) \<le> 32 \<and> 0 \<notin> set (ff_name f) \<and> ff_name f \<noteq> []) \<and>
     distinct (map ff_name fs)"

text \<open>The directory entry \<open>i\<close> of an image: 32 bytes of name, filled with NULs, the type and an inode number.\<close>

definition dentry_at :: "byte list \<Rightarrow> nat \<Rightarrow> fs_file \<Rightarrow> nat \<Rightarrow> bool" where
  "dentry_at img i f ino \<longleftrightarrow> img_bytes img (64 + 64 * i) 32 = Some (pad 32 (ff_name f)) \<and>
     img32 img (64 + 64 * i + 32) = Some (ff_type f) \<and> img32 img (64 + 64 * i + 36) = Some ino"

text \<open>The inode \<open>k\<close> of an image with \<open>ni\<close> inodes and \<open>nb\<close> data blocks: its block starts with the length of
  the file; the byte \<open>p\<close> of the file lies in the data block whose number is the word \<open>1 + p div 4096\<close> of the inode.\<close>

definition inode_holds :: "byte list \<Rightarrow> nat \<Rightarrow> nat \<Rightarrow> nat \<Rightarrow> byte list \<Rightarrow> bool" where
  "inode_holds img ni nb k bs \<longleftrightarrow> img32 img (4096 * (1 + k)) = Some (length bs) \<and>
     (\<forall>p < length bs. \<exists>b < nb. img32 img (4096 * (1 + k) + 4 * (1 + p div 4096)) = Some b \<and>
        img ! (4096 * (1 + ni + b) + p mod 4096) = bs ! p)"

definition disk_holds :: "fs_file list \<Rightarrow> nat list \<Rightarrow> byte list \<Rightarrow> bool" where
  "disk_holds fs inos img \<longleftrightarrow> (\<exists>ni nb.
     img32 img 0 = Some (length fs) \<and> img32 img 4 = Some ni \<and> img32 img 8 = Some nb \<and>
     4096 * (1 + ni + nb) \<le> length img \<and> length img < 2 ^ 32 \<and> length inos = length fs \<and>
     (\<forall>i < length fs. dentry_at img i (fs ! i) (inos ! i) \<and> inos ! i < ni \<and> inode_holds img ni nb (inos ! i) (ff_data (fs ! i))) \<and>
     (\<forall>k < ni. \<exists>bs. length bs \<le> 1023 * 4096 \<and> inode_holds img ni nb k bs))"

lemma files_ok_names: "files_ok fs \<Longrightarrow> names_ok fs"
  by (auto simp: files_ok_def names_ok_def)

lemma mkfs_inode_holds:
  assumes "files_ok fs" and "i < length fs"
  shows "inode_holds (mkfs fs) (length fs) (first_block fs (length fs)) i (ff_data (fs ! i))"
proof -
  have "first_block fs i + p div 4096 < first_block fs (length fs)" if "p < length (ff_data (fs ! i))" for p
    using nblocks_facts(2) [OF that] first_block_Suc [OF assms(2)] first_block_mono [of "Suc i" "length fs" fs] assms(2)
    by simp
  then show ?thesis
    using mkfs_inode(1) [OF assms] mkfs_inode(2) [OF assms nblocks_facts(2)] mkfs_data [OF assms]
    by (auto simp: inode_holds_def)
qed

lemma mkfs_disk:
  assumes "files_ok fs"
  shows "disk_holds fs [0..<length fs] (mkfs fs)"
proof -
  let ?nb = "first_block fs (length fs)"
  have "4096 * (1 + length fs + ?nb) < 2 ^ 32" using assms by (simp add: files_ok_def)
  moreover have "\<forall>i < length fs. dentry_at (mkfs fs) i (fs ! i) i" using mkfs_dentry [OF assms] by (simp add: dentry_at_def)
  moreover have "\<forall>k < length fs. \<exists>bs. length bs \<le> 1023 * 4096 \<and> inode_holds (mkfs fs) (length fs) ?nb k bs"
    using mkfs_inode_holds [OF assms] file_facts(5) [OF assms] by blast
  ultimately show ?thesis
    unfolding disk_holds_def mkfs_length [OF assms] using mkfs_counts(1-3) [OF assms] mkfs_inode_holds [OF assms]
    by (intro exI conjI) simp_all
qed

section \<open>Mounting\<close>

text \<open>The directory table of a kernel that has just been loaded: 64 entries whose names end in a
  NUL, as the zeroed \<^verbatim>\<open>my_dentry\<close> does.\<close>

definition dentry_table_ok :: "'a files_scheme \<Rightarrow> bool" where
  "dentry_table_ok s \<longleftrightarrow> length (my_dentry s) = 64 \<and>
     (\<forall>d \<in> set (my_dentry s). length (file_name d) = 33 \<and> file_name d ! 32 = 0)"

lemma file_init_loop_eq:
  assumes "num_dentries s \<le> length (my_dentry s)"
    and "\<And>j. j < num_dentries s \<Longrightarrow> img_bytes (fs_image s) (64 + 64 * j) 32 = Some (nm j) \<and> length (nm j) = 32 \<and>
      img32 (fs_image s) (64 + 64 * j + 32) = Some (ft j) \<and> img32 (fs_image s) (64 + 64 * j + 36) = Some (ino j)"
    and "\<forall>d \<in> set (my_dentry s). length (file_name d) = 33"
  shows "\<exists>ds. file_init_loop i (64 + 64 * i) s = Some (s\<lparr>my_dentry := ds\<rparr>) \<and> length ds = length (my_dentry s) \<and>
    (\<forall>j < length ds. ds ! j = (if i \<le> j \<and> j < num_dentries s
       then (my_dentry s ! j)\<lparr>file_name := nm j @ drop 32 (file_name (my_dentry s ! j)), file_type := ft j, inode := ino j\<rparr>
       else my_dentry s ! j))"
  using assms
proof (induction "num_dentries s - i" arbitrary: i s)
  case 0
  then show ?case by (intro exI [of _ "my_dentry s"]) (auto simp: file_init_loop.simps)
next
  case (Suc k)
  let ?d = "my_dentry s ! i"
  let ?d' = "?d\<lparr>file_name := nm i @ drop 32 (file_name ?d), file_type := ft i, inode := ino i\<rparr>"
  let ?s = "s\<lparr>my_dentry := (my_dentry s)[i := ?d']\<rparr>"
  have i: "i < num_dentries s" "i < length (my_dentry s)" using Suc.hyps(2) Suc.prems(1) by auto
  then have d: "length (file_name ?d) = 33" using Suc.prems(3) by simp
  have "length (file_name ?d') = 33" using d Suc.prems(2) [OF i(1)] by simp
  then have names: "\<forall>d \<in> set (my_dentry ?s). length (file_name d) = 33"
    using Suc.prems(3) by (auto dest!: set_update_subset_insert [THEN subsetD])
  have "\<exists>ds. file_init_loop (Suc i) (64 + 64 * Suc i) ?s = Some (?s\<lparr>my_dentry := ds\<rparr>) \<and> length ds = length (my_dentry ?s) \<and>
    (\<forall>j < length ds. ds ! j = (if Suc i \<le> j \<and> j < num_dentries ?s
       then (my_dentry ?s ! j)\<lparr>file_name := nm j @ drop 32 (file_name (my_dentry ?s ! j)), file_type := ft j, inode := ino j\<rparr>
       else my_dentry ?s ! j))"
    by (rule Suc.hyps(1) [OF _ _ _ names]) (use Suc.hyps(2) Suc.prems(1,2) in auto)
  then obtain ds where ds: "file_init_loop (Suc i) (64 + 64 * Suc i) ?s = Some (s\<lparr>my_dentry := ds\<rparr>)"
    "length ds = length (my_dentry s)"
    "\<forall>j < length ds. ds ! j = (if Suc i \<le> j \<and> j < num_dentries s
       then (my_dentry ?s ! j)\<lparr>file_name := nm j @ drop 32 (file_name (my_dentry ?s ! j)), file_type := ft j, inode := ino j\<rparr>
       else my_dentry ?s ! j)"
    by auto
  have "file_init_loop i (64 + 64 * i) s = file_init_loop (Suc i) (64 + 64 * Suc i) ?s"
    using i d Suc.prems(2) [OF i(1)] by (subst file_init_loop.simps) (simp add: add.commute)
  moreover have "ds ! j = (if i \<le> j \<and> j < num_dentries s
       then (my_dentry s ! j)\<lparr>file_name := nm j @ drop 32 (file_name (my_dentry s ! j)), file_type := ft j, inode := ino j\<rparr>
       else my_dentry s ! j)" if "j < length ds" for j
    using ds(3) that i by (cases "j = i") auto
  ultimately show ?case using ds(1,2) by (intro exI [of _ ds]) simp
qed

text \<open>A mounted file system holds the files \<open>fs\<close>, the entry \<open>i\<close> naming the inode \<open>inos ! i\<close>.\<close>

definition mounts :: "fs_file list \<Rightarrow> nat list \<Rightarrow> 'a files_scheme \<Rightarrow> bool" where
  "mounts fs inos s \<longleftrightarrow> fs_wf s \<and> dentries_wf s \<and> length inos = length fs \<and>
     map (\<lambda>d. (chars (file_name d), file_type d, inode d)) (dentries s) =
       map (\<lambda>i. (ff_name (fs ! i), ff_type (fs ! i), inos ! i)) [0..<length fs] \<and>
     (\<forall>i < length fs. inos ! i < num_inodes s \<and> file_content s (inos ! i) = ff_data (fs ! i))"

abbreviation mounted :: "fs_file list \<Rightarrow> 'a files_scheme \<Rightarrow> bool" where
  "mounted fs s \<equiv> mounts fs [0..<length fs] s"

lemma mounts_only:
  assumes "fs_image s = fs_image t" and "num_inodes s = num_inodes t" and "num_data_blocks s = num_data_blocks t"
    and "inodes s = inodes t" and "data_blocks s = data_blocks t" and "my_dentry s = my_dentry t" and "num_dentries s = num_dentries t"
  shows "mounts fs inos s = mounts fs inos t"
  using files_only [OF assms(1-5)] assms(2,6,7) by (simp add: mounts_def dentries_wf_def dentries_def)

lemma mounted_content: "\<lbrakk>mounted fs s; i < length fs\<rbrakk> \<Longrightarrow> file_content s i = ff_data (fs ! i)"
  by (simp add: mounts_def)

lemma inode_of_disk:
  assumes "inode_holds (fs_image s) (num_inodes s) (num_data_blocks s) k bs"
  shows "file_length s k = length bs" and "file_content s k = bs"
    and "p < length bs \<Longrightarrow> inode_word s k (1 + p div 4096) < num_data_blocks s"
proof -
  show len: "file_length s k = length bs"
    using assms by (simp add: inode_holds_def file_length_def inode_word_def BLOCK_SIZE_def)
  show "inode_word s k (1 + p div 4096) < num_data_blocks s" if "p < length bs" for p
    using assms that by (auto simp: inode_holds_def inode_word_def BLOCK_SIZE_def)
  show "file_content s k = bs"
  proof (rule nth_equalityI)
    fix p assume "p < length (file_content s k)"
    then have "p < length bs" using len by simp
    then show "file_content s k ! p = bs ! p"
      using assms len by (auto simp: inode_holds_def file_content_def file_byte_def inode_word_def BLOCK_SIZE_def)
  qed (simp add: len)
qed

lemma disk_wf:
  assumes "disk_holds fs inos (fs_image s)" and "img32 (fs_image s) 4 = Some (num_inodes s)"
    and "img32 (fs_image s) 8 = Some (num_data_blocks s)"
    and "inodes s = 4096" and "data_blocks s = 4096 * (1 + num_inodes s)"
  shows "fs_wf s" and "i < length fs \<Longrightarrow> inos ! i < num_inodes s \<and> file_content s (inos ! i) = ff_data (fs ! i)"
proof -
  have img: "4096 * (1 + num_inodes s + num_data_blocks s) \<le> length (fs_image s)" "length (fs_image s) < 2 ^ 32"
    "\<And>k. k < num_inodes s \<Longrightarrow> \<exists>bs. length bs \<le> 1023 * 4096 \<and> inode_holds (fs_image s) (num_inodes s) (num_data_blocks s) k bs"
    "\<And>i. i < length fs \<Longrightarrow> inos ! i < num_inodes s \<and>
      inode_holds (fs_image s) (num_inodes s) (num_data_blocks s) (inos ! i) (ff_data (fs ! i))"
    using assms(1-3) by (auto simp: disk_holds_def)
  have "file_length s k \<le> 1023 * 4096 \<and> (\<forall>p < file_length s k. inode_word s k (1 + p div 4096) < num_data_blocks s)"
    if k: "k < num_inodes s" for k
  proof -
    obtain bs where bs: "length bs \<le> 1023 * 4096" "inode_holds (fs_image s) (num_inodes s) (num_data_blocks s) k bs"
      using img(3) [OF k] by blast
    show ?thesis using inode_of_disk(1,3) [OF bs(2)] bs(1) by simp
  qed
  then show "fs_wf s" unfolding fs_wf_def BLOCK_SIZE_def using img(1,2) assms(4,5) by simp
  show "i < length fs \<Longrightarrow> inos ! i < num_inodes s \<and> file_content s (inos ! i) = ff_data (fs ! i)"
    using img(4) inode_of_disk(2) by blast
qed

lemma padded_name:
  "\<lbrakk>length nm \<le> 32; 0 \<notin> set nm; length r = 1; r ! 0 = 0\<rbrakk> \<Longrightarrow> chars (pad 32 nm @ r) = nm"
proof -
  assume a: "length nm \<le> 32" "0 \<notin> set nm" "length r = 1" "r ! 0 = 0"
  then have "r = [0]" by (cases r) auto
  then have "pad 32 nm @ r = nm @ 0 # replicate (32 - length nm) 0"
    by (simp add: pad_def replicate_append_same)
  then show ?thesis using a(2) by simp
qed

lemma mount_disk:
  assumes "disk_holds fs inos img" and "names_ok fs" and "dentry_table_ok s"
  shows "\<exists>s'. file_init img s = Some (0, s') \<and> mounts fs inos s' \<and> img32 img 4 = Some (num_inodes s')"
proof -
  let ?n = "length fs"
  obtain ni nb where img: "img32 img 0 = Some ?n" "img32 img 4 = Some ni" "img32 img 8 = Some nb"
    "4096 * (1 + ni + nb) \<le> length img" "length img < 2 ^ 32" "length inos = ?n"
    and entries: "\<And>j. j < ?n \<Longrightarrow> dentry_at img j (fs ! j) (inos ! j)"
    using assms(1) by (auto simp: disk_holds_def)
  have names: "?n \<le> 63" "\<And>j. j < ?n \<Longrightarrow> length (ff_name (fs ! j)) \<le> 32" "\<And>j. j < ?n \<Longrightarrow> 0 \<notin> set (ff_name (fs ! j))"
    using assms(2) by (auto simp: names_ok_def)
  let ?s = "s\<lparr>fs_image := img, num_dentries := ?n, num_inodes := ni,
     num_data_blocks := nb, inodes := 4096, data_blocks := 4096 * (1 + ni)\<rparr>"
  obtain ds where ds: "file_init_loop 0 64 ?s = Some (?s\<lparr>my_dentry := ds\<rparr>)" "length ds = 64"
    "\<forall>j < 64. ds ! j = (if j < ?n
       then (my_dentry s ! j)\<lparr>file_name := pad 32 (ff_name (fs ! j)) @ drop 32 (file_name (my_dentry s ! j)),
          file_type := ff_type (fs ! j), inode := inos ! j\<rparr>
       else my_dentry s ! j)"
    using file_init_loop_eq [of ?s "\<lambda>j. pad 32 (ff_name (fs ! j))" "\<lambda>j. ff_type (fs ! j)" "\<lambda>j. inos ! j" 0]
      entries names(1,2) assms(3)
    by (auto simp: dentry_table_ok_def dentry_at_def)
  let ?s' = "?s\<lparr>my_dentry := ds\<rparr>"
  have "img_bytes img 12 52 = Some (take 52 (drop 12 img))" using img(4) by (simp add: img_bytes_def)
  then have init: "file_init img s = Some (0, ?s')"
    using img(1-5) ds(1) by (simp add: file_init_def block_addr_def BLOCK_ADDR_SIZE_def)
  have last: "length (file_name (my_dentry s ! j)) = 33" "file_name (my_dentry s ! j) ! 32 = 0" if "j < 64" for j
    using assms(3) that by (auto simp: dentry_table_ok_def)
  then have tail: "length (drop 32 (file_name (my_dentry s ! j))) = 1" "drop 32 (file_name (my_dentry s ! j)) ! 0 = 0"
    if "j < 64" for j using that by simp_all
  have entry: "length (file_name (ds ! j)) = 33 \<and> 0 \<in> set (file_name (ds ! j))" if "j < 64" for j
    using ds(3) that last [OF that] tail [OF that] names(2) [of j]
    by (cases "j < ?n") (auto simp: in_set_conv_nth intro: exI [of _ "32 :: nat"] simp: nth_append)
  have "map (\<lambda>d. (chars (file_name d), file_type d, inode d)) (dentries ?s') =
       map (\<lambda>i. (ff_name (fs ! i), ff_type (fs ! i), inos ! i)) [0..<?n]"
    using ds(2,3) names(1) padded_name [OF names(2,3) tail] by (intro nth_equalityI) (auto simp: dentries_def)
  moreover have "dentries_wf ?s'" using ds(2) names(1) entry by (simp add: dentries_wf_def all_set_conv_all_nth)
  ultimately have "mounts fs inos ?s'"
    using disk_wf [of fs inos ?s'] assms(1) img(2,3,6) by (simp add: mounts_def)
  with init img(2) show ?thesis by (intro exI [of _ ?s']) simp
qed

lemma mount:
  assumes "files_ok fs" and "dentry_table_ok s"
  shows "\<exists>s'. file_init (mkfs fs) s = Some (0, s') \<and> mounted fs s' \<and> num_inodes s' = length fs"
  using mount_disk [OF mkfs_disk [OF assms(1)] files_ok_names [OF assms(1)] assms(2)] mkfs_counts(2) [OF assms(1)] by auto

section \<open>Properties\<close>

definition files_example :: "fs_file list" where
  "files_example = [\<lparr>ff_name = lit ''.'', ff_type = 1, ff_data = []\<rparr>,
     \<lparr>ff_name = lit ''frame0.txt'', ff_type = 2, ff_data = lit ''fish''\<rparr>,
     \<lparr>ff_name = lit ''verylarge'', ff_type = 2, ff_data = replicate 4096 1 @ [2, 3, 4]\<rparr>,
     \<lparr>ff_name = lit ''shell'', ff_type = 2,
       ff_data = [0x7F, 0x45, 0x4C, 0x46] @ replicate 20 0 @ [0x94, 0x80, 0x04, 0x08, 0x90, 0xC3]\<rparr>]"

definition unmounted_example :: files where
  "unmounted_example = paging.extend paging_example \<lparr>fs_image = [], num_dentries = 0, num_inodes = 0,
     num_data_blocks = 0, my_dentry = replicate 64 \<lparr>file_name = replicate 33 0, file_type = 0, inode = 0\<rparr>,
     inodes = 0, data_blocks = 0, dir_read_idx = 0, dir_read_idx_new = 0\<rparr>"

definition mounted_example :: files where
  "mounted_example = snd (the (file_init (mkfs files_example) unmounted_example))"

lemma files_example_ok [simp]: "files_ok files_example"
  by (simp add: files_example_def files_ok_def first_block_def nblocks_def lit_def)

lemma unmounted_example_ok [simp]: "dentry_table_ok unmounted_example"
  by (simp add: dentry_table_ok_def unmounted_example_def paging.defs)

lemma mounted_example_ok: "mounted files_example mounted_example" "num_inodes mounted_example = length files_example"
  using mount [OF files_example_ok unmounted_example_ok] by (auto simp: mounted_example_def)

lemma mounted_example_facts [simp]:
  "fs_wf mounted_example" "dentries_wf mounted_example" "num_inodes mounted_example = 4"
  "file_content mounted_example (Suc 0) = lit ''fish''"
  "file_content mounted_example 2 = replicate 4096 1 @ [2, 3, 4]"
  "file_content mounted_example 3 = [0x7F, 0x45, 0x4C, 0x46] @ replicate 20 0 @ [0x94, 0x80, 0x04, 0x08, 0x90, 0xC3]"
proof -
  have c: "file_content mounted_example i = ff_data (files_example ! i)" if "i < 4" for i
    by (rule mounted_content [OF mounted_example_ok(1)]) (use that in \<open>simp add: files_example_def\<close>)
  show "file_content mounted_example (Suc 0) = lit ''fish''" "file_content mounted_example 2 = replicate 4096 1 @ [2, 3, 4]"
    "file_content mounted_example 3 = [0x7F, 0x45, 0x4C, 0x46] @ replicate 20 0 @ [0x94, 0x80, 0x04, 0x08, 0x90, 0xC3]"
    using c [of 1] c [of 2] c [of 3] by (simp_all add: files_example_def numeral_3_eq_3 numeral_2_eq_2 del: replicate.simps)
qed (use mounted_example_ok in \<open>simp_all add: mounts_def files_example_def\<close>)

lemma mounted_example_length [simp]:
  "file_length mounted_example (Suc 0) = 4" "file_length mounted_example 2 = 4099"
  "file_length mounted_example 3 = 30"
  using mounted_example_facts(4-6) by (simp_all flip: length_file_content)

lemma mounted_example_names:
  "map (\<lambda>d. chars (file_name d)) (dentries mounted_example) = [lit ''.'', lit ''frame0.txt'', lit ''verylarge'', lit ''shell'']"
proof -
  have "map fst (map (\<lambda>d. (chars (file_name d), file_type d, inode d)) (dentries mounted_example)) =
      map fst (map (\<lambda>i. (ff_name (files_example ! i), ff_type (files_example ! i), i)) [0..<length files_example])"
    using mounted_example_ok(1) by (simp add: mounts_def files_example_def)
  then show ?thesis by (simp add: files_example_def comp_def)
qed

lemma mounted_example_count: "num_dentries mounted_example = 4"
  using arg_cong [OF mounted_example_names, of length] mounted_example_facts(2)
  by (simp add: dentries_wf_def dentries_def)

text \<open>An image whose layout is not the one of \<open>mkfs\<close>: three entries, four inodes of which one is unused, the
  entries naming the inodes 0, 3 and 1, and five data blocks of which two are unused; the blocks of the largest file lie
  in reverse order, and its name fills all 32 characters.\<close>

definition scattered_files :: "fs_file list" where
  "scattered_files = [\<lparr>ff_name = lit ''.'', ff_type = 1, ff_data = []\<rparr>,
     \<lparr>ff_name = lit ''verylargetextwithverylongname.tx'', ff_type = 2, ff_data = replicate 4096 1 @ [2, 3, 4]\<rparr>,
     \<lparr>ff_name = lit ''shell'', ff_type = 2,
       ff_data = [0x7F, 0x45, 0x4C, 0x46] @ replicate 20 0 @ [0x94, 0x80, 0x04, 0x08, 0x90, 0xC3]\<rparr>]"

definition scattered_blocks :: "byte list list" where
  "scattered_blocks = [
     pad 4096 (pad 64 (enc32 3 @ enc32 4 @ enc32 5)
       @ pad 64 (pad 32 (lit ''.'') @ enc32 1 @ enc32 0)
       @ pad 64 (pad 32 (lit ''verylargetextwithverylongname.tx'') @ enc32 2 @ enc32 3)
       @ pad 64 (pad 32 (lit ''shell'') @ enc32 2 @ enc32 1)),
     pad 4096 (enc32 0), pad 4096 (enc32 30 @ enc32 2), pad 4096 (enc32 0), pad 4096 (enc32 4099 @ enc32 4 @ enc32 1),
     replicate 4096 9, pad 4096 [2, 3, 4], pad 4096 (ff_data (scattered_files ! 2)), replicate 4096 9, replicate 4096 1]"

definition scattered_img :: "byte list" where
  "scattered_img = concat scattered_blocks"

lemma scattered_names [simp]: "names_ok scattered_files"
  by (simp add: scattered_files_def names_ok_def lit_def)

lemma scattered_block_length: "\<forall>b \<in> set scattered_blocks. length b = 4096"
  by (simp add: scattered_blocks_def scattered_files_def lit_def)

lemma scattered_length: "length scattered_img = 40960"
  using length_concat_const [OF scattered_block_length] by (simp add: scattered_img_def scattered_blocks_def)

lemma blocks_at:
  assumes "\<forall>b \<in> set bl. length b = B" and "k < length bl"
  shows "starts_at (concat bl) (B * k) (bl ! k)"
proof -
  have "sum_list (map length (take k bl)) = B * k"
    using sum_list_const [of "take k bl" length B] assms by (auto dest: in_set_takeD)
  then show ?thesis
    using starts_at_concat [of "concat bl" 0 bl k] starts_atI [of "concat bl" "[]" "concat bl" "[]" 0] assms(2) by simp
qed

lemma scattered_at: "k < 10 \<Longrightarrow> starts_at scattered_img (4096 * k) (scattered_blocks ! k)"
  unfolding scattered_img_def by (rule blocks_at [OF scattered_block_length]) (simp add: scattered_blocks_def)

lemma inode_holdsI:
  assumes "img32 img (4096 * (1 + k)) = Some (length bs)"
    and "\<And>j. j < (length bs + 4095) div 4096 \<Longrightarrow> \<exists>b < nb. img32 img (4096 * (1 + k) + 4 * (1 + j)) = Some b \<and>
      starts_at img (4096 * (1 + ni + b)) (take 4096 (drop (4096 * j) bs))"
  shows "inode_holds img ni nb k bs"
  unfolding inode_holds_def
proof (intro conjI allI impI)
  fix p assume p: "p < length bs"
  then have "p div 4096 < (length bs + 4095) div 4096" by (auto simp: div_less_iff_less_mult)
  then obtain b where b: "b < nb" "img32 img (4096 * (1 + k) + 4 * (1 + p div 4096)) = Some b"
    "starts_at img (4096 * (1 + ni + b)) (take 4096 (drop (4096 * (p div 4096)) bs))"
    using assms(2) by blast
  have le: "4096 * (p div 4096) + p mod 4096 = p" by simp
  then have "p mod 4096 < length (take 4096 (drop (4096 * (p div 4096)) bs))" using p by (auto simp: less_diff_conv)
  from nth_at [OF b(3) this] have "img ! (4096 * (1 + ni + b) + p mod 4096) = bs ! p"
    using le p by (simp add: nth_append)
  then show "\<exists>b < nb. img32 img (4096 * (1 + k) + 4 * (1 + p div 4096)) = Some b \<and> img ! (4096 * (1 + ni + b) + p mod 4096) = bs ! p"
    using b(1,2) by blast
qed (rule assms(1))

lemma scattered_inodes:
  "inode_holds scattered_img 4 5 0 []"
  "inode_holds scattered_img 4 5 1 (ff_data (scattered_files ! 2))"
  "inode_holds scattered_img 4 5 2 []"
  "inode_holds scattered_img 4 5 3 (ff_data (scattered_files ! 1))"
proof -
  have word: "img32 scattered_img (4096 * k + length a) = Some v"
    if "k < 10" "scattered_blocks ! k = pad 4096 (a @ enc32 v @ b)" "v < 2 ^ 32" for k a v b
    using starts_at_split [OF starts_at_pad [OF scattered_at [OF that(1), unfolded that(2)]]] starts_at_split img32_at that(3) by blast
  have data: "starts_at scattered_img (4096 * k) bs" if "k < 10" "scattered_blocks ! k = pad 4096 bs" for k bs
    using starts_at_pad scattered_at [OF that(1)] that(2) by metis
  show "inode_holds scattered_img 4 5 0 []" "inode_holds scattered_img 4 5 2 []"
    using word [of 1 "[]" 0 "[]"] word [of 3 "[]" 0 "[]"] by (auto intro!: inode_holdsI simp: scattered_blocks_def)
  show "inode_holds scattered_img 4 5 1 (ff_data (scattered_files ! 2))"
  proof (rule inode_holdsI)
    show "img32 scattered_img (4096 * (1 + 1)) = Some (length (ff_data (scattered_files ! 2)))"
      using word [of 2 "[]" 30 "enc32 2"] by (simp add: scattered_blocks_def scattered_files_def)
    fix j assume "j < (length (ff_data (scattered_files ! 2)) + 4095) div 4096"
    then have "j = 0" by (simp add: scattered_files_def)
    then show "\<exists>b < 5. img32 scattered_img (4096 * (1 + 1) + 4 * (1 + j)) = Some b \<and>
        starts_at scattered_img (4096 * (1 + 4 + b)) (take 4096 (drop (4096 * j) (ff_data (scattered_files ! 2))))"
      using word [of 2 "enc32 30" 2 "[]"] data [of 7 "ff_data (scattered_files ! 2)"]
      by (intro exI [of _ 2]) (simp add: scattered_blocks_def scattered_files_def)
  qed
  show "inode_holds scattered_img 4 5 3 (ff_data (scattered_files ! 1))"
  proof (rule inode_holdsI)
    show "img32 scattered_img (4096 * (1 + 3)) = Some (length (ff_data (scattered_files ! 1)))"
      using word [of 4 "[]" 4099 "enc32 4 @ enc32 1"] by (simp add: scattered_blocks_def scattered_files_def)
    fix j assume "j < (length (ff_data (scattered_files ! 1)) + 4095) div 4096"
    then consider "j = 0" | "j = 1" by (force simp: scattered_files_def)
    then show "\<exists>b < 5. img32 scattered_img (4096 * (1 + 3) + 4 * (1 + j)) = Some b \<and>
        starts_at scattered_img (4096 * (1 + 4 + b)) (take 4096 (drop (4096 * j) (ff_data (scattered_files ! 1))))"
    proof cases
      case 1
      then show ?thesis
        using word [of 4 "enc32 4099" 4 "enc32 1"] scattered_at [of 9]
        by (intro exI [of _ 4]) (simp add: scattered_blocks_def scattered_files_def)
    next
      case 2
      then show ?thesis
        using word [of 4 "enc32 4099 @ enc32 4" 1 "[]"] data [of 6 "[2, 3, 4]"]
        by (intro exI [of _ 1]) (simp add: scattered_blocks_def scattered_files_def)
    qed
  qed
qed

lemma scattered_entries:
  assumes "i < 3"
  shows "dentry_at scattered_img i (scattered_files ! i) ([0, 3, 1] ! i)"
proof -
  let ?e = "\<lambda>i. pad 64 (pad 32 (ff_name (scattered_files ! i)) @ enc32 (ff_type (scattered_files ! i)) @ enc32 ([0, 3, 1] ! i))"
  have i: "i \<in> {0, 1, 2}" using assms by auto
  have facts: "length (ff_name (scattered_files ! i)) \<le> 32" "ff_type (scattered_files ! i) < 2 ^ 32" "[0, 3, 1] ! i < (2 :: nat) ^ 32"
    using i by (auto simp: scattered_files_def lit_def)
  have "starts_at scattered_img 0 (pad 64 (enc32 3 @ enc32 4 @ enc32 5) @ concat (map ?e [0..<3]))"
    using starts_at_pad [of scattered_img 0 4096] scattered_at [of 0]
    by (simp add: scattered_blocks_def scattered_files_def numeral_3_eq_3)
  then have "starts_at scattered_img 64 (concat (map ?e [0..<3]))" using starts_at_split by fastforce
  then have "starts_at scattered_img (64 + 64 * i) (?e i)"
    by (rule starts_at_blocks) (use assms in \<open>auto simp: scattered_files_def lit_def less_Suc_eq numeral_3_eq_3\<close>)
  then have "starts_at scattered_img (64 + 64 * i) (pad 32 (ff_name (scattered_files ! i)) @ enc32 (ff_type (scattered_files ! i)) @ enc32 ([0, 3, 1] ! i))"
    by (rule starts_at_pad)
  note a = starts_at_split [OF this]
  then have "starts_at scattered_img (64 + 64 * i + 32) (enc32 (ff_type (scattered_files ! i)) @ enc32 ([0, 3, 1] ! i))"
    using facts(1) by simp
  note b = starts_at_split [OF this]
  show ?thesis unfolding dentry_at_def
    using a b facts by (auto intro!: img32_at img_bytes_at simp: add.assoc)
qed

lemma scattered_holds: "disk_holds scattered_files [0, 3, 1] scattered_img"
  unfolding disk_holds_def
proof (rule exI [of _ 4], rule exI [of _ 5], intro conjI allI impI)
  have head: "starts_at scattered_img 0 (enc32 3 @ enc32 4 @ enc32 5)"
    using starts_at_pad [THEN starts_at_split, THEN conjunct1, THEN starts_at_pad, of scattered_img 0 4096 64] scattered_at [of 0]
    by (simp add: scattered_blocks_def)
  note a = starts_at_split [OF this]
  then have "starts_at scattered_img 4 (enc32 4 @ enc32 5)" by simp
  note b = starts_at_split [OF this]
  show "img32 scattered_img 0 = Some (length scattered_files)" "img32 scattered_img 4 = Some 4" "img32 scattered_img 8 = Some 5"
    using img32_at [of scattered_img 0 3] img32_at [of scattered_img 4 4] img32_at [of scattered_img 8 5] a b
    by (simp_all add: scattered_files_def numeral_3_eq_3)
  show "4096 * (1 + 4 + 5) \<le> length scattered_img" "length scattered_img < 2 ^ 32" by (simp_all add: scattered_length)
  show "length [0, 3, 1 :: nat] = length scattered_files" by (simp add: scattered_files_def)
next
  fix i assume "i < length scattered_files"
  then have i: "i < 3" by (simp add: scattered_files_def)
  then show "dentry_at scattered_img i (scattered_files ! i) ([0, 3, 1] ! i)" by (rule scattered_entries)
  consider "i = 0" | "i = 1" | "i = 2" using i by linarith
  then show "[0, 3, 1] ! i < (4 :: nat)" "inode_holds scattered_img 4 5 ([0, 3, 1] ! i) (ff_data (scattered_files ! i))"
    using scattered_inodes by (cases; simp add: scattered_files_def)+
next
  fix k :: nat assume "k < 4"
  then consider "k = 0" | "k = 1" | "k = 2" | "k = 3" by linarith
  then show "\<exists>bs. length bs \<le> 1023 * 4096 \<and> inode_holds scattered_img 4 5 k bs"
  proof cases
    case 1 then show ?thesis using scattered_inodes(1) by (intro exI [of _ "[]"]) simp
  next
    case 2 then show ?thesis using scattered_inodes(2) by (intro exI [of _ "ff_data (scattered_files ! 2)"]) (simp add: scattered_files_def)
  next
    case 3 then show ?thesis using scattered_inodes(3) by (intro exI [of _ "[]"]) simp
  next
    case 4 then show ?thesis using scattered_inodes(4) by (intro exI [of _ "ff_data (scattered_files ! 1)"]) (simp add: scattered_files_def)
  qed
qed

text \<open>C1: reading a file.  On a well-formed image \<^verbatim>\<open>read_data\<close> never leaves the image or runs on, and
  at every offset inside the file other than 4096 it returns exactly the bytes of the file
  from that offset on, as many as were asked for or are left; beyond the end it fails.  The value it returns is the number of
  these bytes, which its callers use, and not the 0 that the comment above it announces.\<close>

theorem read_data_correct:
  assumes "fs_wf s" and "ino < num_inodes s" and "offset \<noteq> BLOCK_SIZE"
  shows "read_data s ino offset len =
    (if offset > file_length s ino then Some (-1, [])
     else Some (int (min len (file_length s ino - offset)), take len (drop offset (file_content s ino))))"
  using read_data_eq [OF assms(1,2), of offset len] assms(3)
  by (simp add: read_start_def Let_def min.commute)

theorem read_data_correct_witness:
  "read_data mounted_example 1 1 10 =
    (if 1 > file_length mounted_example 1 then Some (-1, [])
     else Some (int (min 10 (file_length mounted_example 1 - 1)), take 10 (drop 1 (file_content mounted_example 1))))
   \<and> take 10 (drop 1 (file_content mounted_example 1)) = lit ''ish''"
  using read_data_correct [of mounted_example 1 1 10] by (simp add: BLOCK_SIZE_def)

text \<open>C34: a read at offset 4096 returns the beginning of the file again, because the block index is
  advanced only for offsets strictly greater than the block size.  The value is the number of bytes here too, though the comment says 0.\<close>

theorem read_data_at_block_boundary:
  assumes "fs_wf s" and "ino < num_inodes s" and "BLOCK_SIZE \<le> file_length s ino"
  shows "read_data s ino BLOCK_SIZE len =
    Some (int (min len (file_length s ino - BLOCK_SIZE)), take (min len (file_length s ino - BLOCK_SIZE)) (file_content s ino))"
  using read_data_eq [OF assms(1,2), of BLOCK_SIZE len] assms(3)
  by (simp add: read_start_def Let_def min.absorb1)

theorem read_data_at_block_boundary_witness:
  "read_data mounted_example 2 BLOCK_SIZE 10 =
    Some (int (min 10 (file_length mounted_example 2 - BLOCK_SIZE)),
      take (min 10 (file_length mounted_example 2 - BLOCK_SIZE)) (file_content mounted_example 2))
   \<and> take (min 10 (file_length mounted_example 2 - BLOCK_SIZE)) (file_content mounted_example 2) = [1, 1, 1]
   \<and> drop BLOCK_SIZE (file_content mounted_example 2) = [2, 3, 4]"
  using read_data_at_block_boundary [of mounted_example 2 10] by (simp add: BLOCK_SIZE_def numeral_3_eq_3)

text \<open>reading a whole file in pieces of \<open>n\<close> bytes, as \<^verbatim>\<open>cat\<close> does, ends and delivers as many bytes
  as the file has.  The byte at \<open>p\<close> is the file's byte at \<open>p\<close>, except in the piece that starts
  at offset 4096, which repeats the first piece of the file.\<close>

theorem read_in_pieces:
  assumes "fs_wf s" and "ino < num_inodes s" and "0 < n" and "file_length s ino < fuel"
  shows "\<exists>bs. read_seq (read_data s ino) n fuel 0 = Some bs \<and> length bs = file_length s ino \<and>
    (\<forall>p < file_length s ino. bs ! p = file_content s ino ! (if n * (p div n) = BLOCK_SIZE then p - BLOCK_SIZE else p))"
proof (intro exI conjI allI impI)
  show "read_seq (read_data s ino) n fuel 0 =
      Some (map (\<lambda>p. file_content s ino ! (read_start (n * (p div n)) + p mod n)) [0..<file_length s ino])"
    using rd.seq_from [of s ino n 0 fuel] assms by simp
  fix p assume p: "p < file_length s ino"
  have "p - n * (p div n) = p mod n" by (simp add: minus_mult_div_eq_mod)
  then show "map (\<lambda>p. file_content s ino ! (read_start (n * (p div n)) + p mod n)) [0..<file_length s ino] ! p =
      file_content s ino ! (if n * (p div n) = BLOCK_SIZE then p - BLOCK_SIZE else p)"
    using p by (auto simp: read_start_def)
qed simp

theorem read_in_pieces_witness:
  "\<exists>bs. read_seq (read_data mounted_example 1) 3 9 0 = Some bs \<and> length bs = file_length mounted_example 1 \<and>
    (\<forall>p < file_length mounted_example 1. bs ! p =
       file_content mounted_example 1 ! (if 3 * (p div 3) = BLOCK_SIZE then p - BLOCK_SIZE else p))"
  by (rule read_in_pieces) simp_all

text \<open>looking a file up.  For any NUL-terminated name \<^verbatim>\<open>read_dentry_by_name\<close> returns the type and the
  inode of the first directory entry with exactly that name, which must not be empty, and
  fails when there is none.\<close>

theorem lookup_exact:
  assumes "dentries_wf s" and "0 \<in> set fname" and "length (file_name dst) = 33"
  shows "read_dentry_by_name s fname dst =
    (case if chars fname = [] then None else List.find (\<lambda>e. chars (file_name e) = chars fname) (dentries s) of
       None \<Rightarrow> Some (-1, dst)
     | Some e \<Rightarrow> Some (0, dst\<lparr>file_name := chars fname @ 0 # replicate (32 - length (chars fname)) SPC,
                            file_type := file_type e, inode := inode e\<rparr>))"
  by (rule read_dentry_by_name_eq [OF assms])

theorem lookup_exact_witness:
  "let fname = cstr ''frame0.txt''; dst = \<lparr>file_name = replicate 33 0, file_type = 0, inode = 0\<rparr> in
   read_dentry_by_name mounted_example fname dst =
    (case if chars fname = [] then None else List.find (\<lambda>e. chars (file_name e) = chars fname) (dentries mounted_example) of
       None \<Rightarrow> Some (-1, dst)
     | Some e \<Rightarrow> Some (0, dst\<lparr>file_name := chars fname @ 0 # replicate (32 - length (chars fname)) SPC,
                            file_type := file_type e, inode := inode e\<rparr>))"
  unfolding Let_def by (rule lookup_exact) (simp_all add: cstr_def)

lemma mounts_lookup:
  assumes "mounts fs inos s" and "names_ok fs" and "i < length fs"
  shows "\<exists>e. List.find (\<lambda>e. chars (file_name e) = ff_name (fs ! i)) (dentries s) = Some e \<and>
    inode e = inos ! i \<and> file_type e = ff_type (fs ! i)"
proof -
  let ?key = "\<lambda>d. (chars (file_name d), file_type d, inode d)"
  let ?P = "\<lambda>e. chars (file_name e) = ff_name (fs ! i)"
  have map: "map ?key (dentries s) = map (\<lambda>i. (ff_name (fs ! i), ff_type (fs ! i), inos ! i)) [0..<length fs]"
    using assms(1) by (simp add: mounts_def)
  then have len: "length (dentries s) = length fs" using map_eq_imp_length_eq by fastforce
  have at: "?key (dentries s ! j) = (ff_name (fs ! j), ff_type (fs ! j), inos ! j)" if "j < length fs" for j
    using map len that by (metis (no_types, lifting) add_0 diff_zero length_upt nth_map nth_upt)
  have "\<not> ?P (dentries s ! j)" if "j < i" for j
    using that at [of j] assms(2,3) nth_eq_iff_index_eq [of "map ff_name fs" j i] by (auto simp: names_ok_def)
  then have "List.find ?P (dentries s) = Some (dentries s ! i)"
    using at [OF assms(3)] assms(3) len by (auto simp: find_Some_iff intro!: exI [of _ i])
  then show ?thesis using at [OF assms(3)] by simp
qed

lemma mounted_lookup:
  assumes "mounted fs s" and "files_ok fs" and "i < length fs"
  shows "\<exists>e. List.find (\<lambda>e. chars (file_name e) = ff_name (fs ! i)) (dentries s) = Some e \<and>
    inode e = i \<and> file_type e = ff_type (fs ! i)"
  using mounts_lookup [OF assms(1) files_ok_names [OF assms(2)] assms(3)] assms(3) by simp

text \<open>C2: what an image holds is read back through it.  For every list of files and every image that holds it in the format of
  the file system, with any number of inodes, any inode numbers in the entries and any data blocks in the inodes,
  mounting the image succeeds, and reading any of the files by its name at any offset other than 4096 returns that part
  of its data.  The image that the repository ships is of this form.\<close>

theorem image_file_init_roundtrip:
  assumes "disk_holds fs inos img" and "names_ok fs" and "dentry_table_ok s" and "i < length fs"
    and "offset \<le> length (ff_data (fs ! i))" and "offset \<noteq> BLOCK_SIZE" and "length (file_name d) = 33"
  shows "\<exists>s'. file_init img s = Some (0, s') \<and>
    file_read s' (ff_name (fs ! i) @ [0]) offset len d =
      Some (int (min len (length (ff_data (fs ! i)) - offset)), take len (drop offset (ff_data (fs ! i))))"
proof -
  obtain s' where s': "file_init img s = Some (0, s')" "mounts fs inos s'"
    using mount_disk [OF assms(1-3)] by blast
  have name: "0 \<in> set (ff_name (fs ! i) @ [0])" "chars (ff_name (fs ! i) @ [0]) = ff_name (fs ! i)" "ff_name (fs ! i) \<noteq> []"
    using assms(2,4) by (auto simp: names_ok_def)
  obtain e where e: "List.find (\<lambda>e. chars (file_name e) = ff_name (fs ! i)) (dentries s') = Some e" "inode e = inos ! i"
    using mounts_lookup [OF s'(2) assms(2,4)] by blast
  have wf: "dentries_wf s'" "fs_wf s'" "inos ! i < num_inodes s'" "file_content s' (inos ! i) = ff_data (fs ! i)"
    using s'(2) assms(4) by (simp_all add: mounts_def)
  then have "file_length s' (inos ! i) = length (ff_data (fs ! i))" by (metis length_file_content)
  then show ?thesis
    using s'(1) name e wf assms(5,6) read_data_eq [OF wf(2,3), of offset len]
      read_dentry_by_name_eq [OF wf(1) name(1) assms(7)]
    by (simp add: file_read_def read_start_def Let_def min.commute)
qed

theorem image_file_init_roundtrip_witness:
  "\<exists>s'. file_init scattered_img unmounted_example = Some (0, s') \<and>
    file_read s' (ff_name (scattered_files ! 1) @ [0]) 4097 9 \<lparr>file_name = replicate 33 0, file_type = 0, inode = 0\<rparr> =
      Some (int (min 9 (length (ff_data (scattered_files ! 1)) - 4097)), take 9 (drop 4097 (ff_data (scattered_files ! 1))))
    \<and> take 9 (drop 4097 (ff_data (scattered_files ! 1))) = [3, 4]"
  using image_file_init_roundtrip [OF scattered_holds scattered_names unmounted_example_ok,
      of 1 4097 "\<lparr>file_name = replicate 33 0, file_type = 0, inode = 0\<rparr>" 9]
  by (simp add: BLOCK_SIZE_def scattered_files_def)

text \<open>listing the directory.  Reading the directory again and again, with any buffer of 33 bytes or
  more, gives the name of every entry once and in order, then 0, and leaves the reader where
  the next listing starts from the first entry.\<close>

theorem list_dir_complete:
  assumes "dentries_wf s" and "\<forall>d \<in> set (dentries s). chars (file_name d) \<noteq> []"
    and "dir_read_idx_new s = 0" and "33 \<le> length buf" and "num_dentries s < fuel"
  shows "list_dir fuel buf s = Some (map (\<lambda>d. chars (file_name d)) (dentries s), s)"
  using list_dir_from [OF assms(1,2) _ assms(4), of fuel] assms(3,5) by simp

theorem list_dir_complete_witness:
  "\<exists>s :: files. list_dir 9 (replicate 33 0) s = Some (map (\<lambda>d. chars (file_name d)) (dentries s), s) \<and>
    map (\<lambda>d. chars (file_name d)) (dentries s) = [lit ''.'', lit ''frame0.txt'', lit ''verylarge'', lit ''shell'']"
proof -
  let ?s = "mounted_example\<lparr>dir_read_idx_new := 0\<rparr>"
  have same: "dentries ?s = dentries mounted_example" "dentries_wf ?s"
    using mounted_example_facts(2) by (simp_all add: dentries_def dentries_wf_def)
  have "\<forall>x \<in> set (map (\<lambda>d. chars (file_name d)) (dentries ?s)). x \<noteq> []"
    unfolding same mounted_example_names by simp
  then have named: "\<forall>d \<in> set (dentries ?s). chars (file_name d) \<noteq> []" by fastforce
  have "list_dir 9 (replicate 33 0) ?s = Some (map (\<lambda>d. chars (file_name d)) (dentries ?s), ?s)"
    by (rule list_dir_complete [OF same(2) named]) (simp_all add: mounted_example_count)
  then show ?thesis
    using mounted_example_names unfolding same(1) by (intro exI [of _ ?s] conjI) (simp_all only: same(1))
qed

end
