(* ===== verification/Console.thy ===== *)
theory Console
  imports FsImage
begin

text \<open>
  The text screen of \<^verbatim>\<open>student-distrib/lib.c\<close> and the terminal structures of \<^verbatim>\<open>terminal.h\<close>:
  \<^verbatim>\<open>clear\<close>, \<^verbatim>\<open>printf\<close>, \<^verbatim>\<open>puts\<close>, \<^verbatim>\<open>putc\<close>, \<^verbatim>\<open>update_cursor\<close>, \<^verbatim>\<open>vert_scroll\<close>, \<^verbatim>\<open>find_last_char\<close>,
  their \<^verbatim>\<open>_nodisplay\<close> twins that write to the saved screen of a terminal, and \<^verbatim>\<open>terminal_write\<close>.

  Video memory and each saved screen are total functions from byte offsets to bytes; an
  operation is safe when it changes offsets 0 to 3999 only.  An access to the array
  \<^verbatim>\<open>terminals\<close> with an index out of range is \<open>None\<close>.

  The abstract terminal is a grid of cells with a cursor (\<open>grid\<close>) and one transition,
  \<open>grid_putc\<close>.  The locale \<open>text_screen\<close> states that a character routine implements it; it is
  interpreted for \<^verbatim>\<open>putc\<close> on the visible screen and for \<^verbatim>\<open>putc_nodisplay\<close> on the screen of the
  executing terminal.
\<close>

section \<open>State\<close>

definition NUM_ROWS :: nat where "NUM_ROWS = 25"
definition NUM_COLS :: nat where "NUM_COLS = 80"
definition ATTRIB :: byte where "ATTRIB = 0x7"
definition MAX_BUF_SIZE :: nat where "MAX_BUF_SIZE = 128"

lemmas screen_consts = NUM_ROWS_def NUM_COLS_def

record terminal =
  tm_active :: byte
  tm_current_process :: int
  tm_ESP :: u32
  tm_EBP :: u32
  tm_x :: int
  tm_y :: int
  tm_input_buf :: "byte list"      \<comment> \<open>129 bytes\<close>
  tm_screen :: cells               \<comment> \<open>4000 bytes\<close>
  tm_keyboard_last_index :: byte
  tm_keyboard_index :: byte
  tm_term_enter :: u32

text \<open>The fields \<^verbatim>\<open>ESP0\<close> and \<^verbatim>\<open>pcb\<close> of the structure are never used.  The four
  scheduler variables are those of \<^verbatim>\<open>scheduler.c\<close>.\<close>

record console = files +
  video_mem :: cells
  screen_x :: int
  screen_y :: int
  terminals :: "terminal list"     \<comment> \<open>3 terminals\<close>
  curr_terminal_number :: int
  curr_term :: byte
  curr_task :: byte
  last_term :: byte
  last_task :: byte

definition get_cur_term :: "'a console_scheme \<Rightarrow> int" where
  "get_cur_term s = curr_terminal_number s"

definition get_curr_exec_term :: "'a console_scheme \<Rightarrow> nat" where
  "get_curr_exec_term s = unat (curr_term s)"

definition set_curr_exec_term :: "int \<Rightarrow> 'a console_scheme \<Rightarrow> 'a console_scheme" where
  "set_curr_exec_term term s = s\<lparr>curr_term := of_int term\<rparr>"

text \<open>An update of the structure \<^verbatim>\<open>terminals[k]\<close>.\<close>

definition upd_term :: "nat \<Rightarrow> (terminal \<Rightarrow> terminal) \<Rightarrow> 'a console_scheme \<Rightarrow> 'a console_scheme option" where
  "upd_term k f s = (if k < length (terminals s)
     then Some (s\<lparr>terminals := (terminals s)[k := f (terminals s ! k)]\<rparr>) else None)"

definition set_curr_process :: "int \<Rightarrow> 'a console_scheme \<Rightarrow> 'a console_scheme option" where
  "set_curr_process process_number s =
     upd_term (get_curr_exec_term s) (\<lambda>t. t\<lparr>tm_current_process := process_number\<rparr>) s"

section \<open>Cells\<close>

text \<open>The offset \<^verbatim>\<open>(NUM_COLS * r + c) << 1\<close> of a character.\<close>

definition cell :: "int \<Rightarrow> int \<Rightarrow> int" where
  "cell r c = (int NUM_COLS * r + c) * 2"

definition store_cell :: "int \<Rightarrow> byte \<Rightarrow> cells \<Rightarrow> cells" where
  "store_cell a c m = m(a := c, a + 1 := ATTRIB)"

text \<open>The loop of \<^verbatim>\<open>clear\<close> and \<^verbatim>\<open>clear_nodisplay\<close>.\<close>

definition clear_loop :: "cells \<Rightarrow> cells" where
  "clear_loop m = fold (\<lambda>i. store_cell (int i * 2) 0) [0..<NUM_ROWS * NUM_COLS] m"

text \<open>The two loops of \<^verbatim>\<open>vert_scroll\<close> and \<^verbatim>\<open>vert_scroll_nodisplay\<close>, which read and write the same
  memory, column by column from the top row down.\<close>

definition scroll_cell :: "nat \<Rightarrow> nat \<Rightarrow> cells \<Rightarrow> cells" where
  "scroll_cell i j m = store_cell (cell (int j) (int i))
     (if j < NUM_ROWS - 1 then m (cell (int (j + 1)) (int i)) else 0) m"

definition scroll_loop :: "cells \<Rightarrow> cells" where
  "scroll_loop m = fold (\<lambda>i. fold (scroll_cell i) [0..<NUM_ROWS]) [0..<NUM_COLS] m"

section \<open>The visible screen\<close>

definition update_cursor :: "int \<Rightarrow> int \<Rightarrow> 'a hw_scheme \<Rightarrow> 'a hw_scheme" where
  "update_cursor row col s =
     (let position = of_int (row * 80 + col) :: u16 in
      outb (ucast (drop_bit 8 position AND 0xFF)) 0x3D5 (outb 0x0E 0x3D4
        (outb (ucast (position AND 0xFF)) 0x3D5 (outb 0x0F 0x3D4 s))))"

definition vert_scroll :: "'a console_scheme \<Rightarrow> 'a console_scheme" where
  "vert_scroll s =
     (let s = s\<lparr>video_mem := scroll_loop (video_mem s), screen_x := 0, screen_y := int NUM_ROWS - 1\<rparr>
      in update_cursor (screen_y s) (screen_x s) s)"

definition putc :: "byte \<Rightarrow> 'a console_scheme \<Rightarrow> 'a console_scheme" where
  "putc c s =
     (if c = NL \<or> c = CR then
        if screen_y s = int NUM_ROWS - 1 then vert_scroll s
        else let s = s\<lparr>screen_y := screen_y s + 1, screen_x := 0\<rparr>
             in update_cursor (screen_y s) (screen_x s) s
      else
        let s = s\<lparr>video_mem := store_cell (cell (screen_y s) (screen_x s)) c (video_mem s)\<rparr> in
        if screen_x s = int NUM_COLS - 1 \<and> screen_y s = int NUM_ROWS - 1 then vert_scroll s
        else
          let s = s\<lparr>screen_x := (screen_x s + 1) mod int NUM_COLS\<rparr>;
              s = (if screen_x s = 0 then s\<lparr>screen_y := screen_y s + 1\<rparr> else s)
          in update_cursor (screen_y s) (screen_x s) s)"

fun puts_loop :: "byte list \<Rightarrow> int \<Rightarrow> 'a console_scheme \<Rightarrow> (int \<times> 'a console_scheme) option" where
  "puts_loop [] idx s = None"
| "puts_loop (c # str) idx s = (if c \<noteq> 0 then puts_loop str (idx + 1) (putc c s) else Some (idx, s))"

definition puts :: "byte list \<Rightarrow> 'a console_scheme \<Rightarrow> (int \<times> 'a console_scheme) option" where
  "puts str s = puts_loop str 0 s"

function find_last_char_loop :: "nat \<Rightarrow> int \<Rightarrow> 'a console_scheme \<Rightarrow> int" where
  "find_last_char_loop i line s =
     (if i < NUM_COLS then
        if video_mem s (cell line (int i)) = 0 then int i - 1 else find_last_char_loop (Suc i) line s
      else 79)"
  by pat_completeness auto
termination
  by (relation "measure (\<lambda>(i, line, s). NUM_COLS - i)") auto

declare find_last_char_loop.simps [simp del]

definition find_last_char :: "int \<Rightarrow> 'a console_scheme \<Rightarrow> int" where
  "find_last_char line s = find_last_char_loop 0 line s"

definition test_interrupts :: "'a console_scheme \<Rightarrow> 'a console_scheme" where
  "test_interrupts s = s\<lparr>video_mem := fold (\<lambda>i m. m(int i * 2 := m (int i * 2) + 1)) [0..<NUM_ROWS * NUM_COLS] (video_mem s)\<rparr>"

section \<open>The saved screen of the executing terminal\<close>

definition vert_scroll_nodisplay :: "'a console_scheme \<Rightarrow> 'a console_scheme option" where
  "vert_scroll_nodisplay s =
     upd_term (get_curr_exec_term s)
       (\<lambda>t. t\<lparr>tm_screen := scroll_loop (tm_screen t), tm_x := 0, tm_y := int NUM_ROWS - 1\<rparr>) s"

definition putc_nodisplay :: "byte \<Rightarrow> 'a console_scheme \<Rightarrow> 'a console_scheme option" where
  "putc_nodisplay c s = do {
     let k = get_curr_exec_term s;
     t \<leftarrow> aget (terminals s) k;
     if c = NL \<or> c = CR then
       if tm_y t = int NUM_ROWS - 1 then vert_scroll_nodisplay s
       else upd_term k (\<lambda>t. t\<lparr>tm_y := tm_y t + 1, tm_x := 0\<rparr>) s
     else do {
       s \<leftarrow> upd_term k (\<lambda>t. t\<lparr>tm_screen := store_cell (cell (tm_y t) (tm_x t)) c (tm_screen t)\<rparr>) s;
       if tm_x t = int NUM_COLS - 1 \<and> tm_y t = int NUM_ROWS - 1 then vert_scroll_nodisplay s
       else do {
         s \<leftarrow> upd_term k (\<lambda>t. t\<lparr>tm_x := (tm_x t + 1) mod int NUM_COLS\<rparr>) s;
         t \<leftarrow> aget (terminals s) k;
         if tm_x t = 0 then upd_term k (\<lambda>t. t\<lparr>tm_y := tm_y t + 1\<rparr>) s else Some s
       }
     }
   }"

fun puts_nodisplay_loop :: "byte list \<Rightarrow> int \<Rightarrow> 'a console_scheme \<Rightarrow> (int \<times> 'a console_scheme) option" where
  "puts_nodisplay_loop [] idx s = None"
| "puts_nodisplay_loop (c # str) idx s =
     (if c \<noteq> 0 then do { s \<leftarrow> putc_nodisplay c s; puts_nodisplay_loop str (idx + 1) s } else Some (idx, s))"

definition puts_nodisplay :: "byte list \<Rightarrow> 'a console_scheme \<Rightarrow> (int \<times> 'a console_scheme) option" where
  "puts_nodisplay str s = puts_nodisplay_loop str 0 s"

definition clear_nodisplay :: "'a console_scheme \<Rightarrow> 'a console_scheme option" where
  "clear_nodisplay s =
     upd_term (get_curr_exec_term s) (\<lambda>t. t\<lparr>tm_screen := clear_loop (tm_screen t), tm_x := 0, tm_y := 0\<rparr>) s"

definition clear_screen :: "'a console_scheme \<Rightarrow> 'a console_scheme option" where
  "clear_screen s =
     (if int (get_curr_exec_term s) \<noteq> get_cur_term s then clear_nodisplay s
      else Some (s\<lparr>video_mem := clear_loop (video_mem s), screen_x := 0, screen_y := 0\<rparr>))"

section \<open>\<^verbatim>\<open>terminal.c\<close>\<close>

definition terminal_read :: int where "terminal_read = -1"
definition terminal_open :: int where "terminal_open = 0"
definition terminal_close :: int where "terminal_close = 0"

text \<open>The body of both loops of \<^verbatim>\<open>terminal_write\<close>.\<close>

definition term_putc :: "byte \<Rightarrow> 'a console_scheme \<Rightarrow> 'a console_scheme option" where
  "term_putc data s =
     (if int (get_curr_exec_term s) = get_cur_term s then Some (putc data s) else putc_nodisplay data s)"

fun put_all :: "(byte \<Rightarrow> 's \<Rightarrow> 's option) \<Rightarrow> byte list \<Rightarrow> 's \<Rightarrow> 's option" where
  "put_all put [] s = Some s"
| "put_all put (c # cs) s = do { s \<leftarrow> put c s; put_all put cs s }"

text \<open>The buffer is \<open>None\<close> for the null pointer.\<close>

definition terminal_write :: "byte list option \<Rightarrow> int \<Rightarrow> 'a console_scheme \<Rightarrow> (int \<times> 'a console_scheme) option" where
  "terminal_write buf nbytes s =
     (case buf of None \<Rightarrow> Some (-1, s)
      | Some bs \<Rightarrow>
         if nbytes < 0 then Some (-1, s)
         else do {
           let s = cli s;
           n \<leftarrow> strlen bs;
           if int n < nbytes then do {
             s \<leftarrow> put_all term_putc (take n bs) s;
             Some (int n, sti s)
           } else do {
             s \<leftarrow> put_all term_putc (take (nat nbytes) bs) s;
             Some (nbytes, sti s)
           }
         })"

text \<open>The inner loop of \<^verbatim>\<open>terminal_init\<close> runs over \<^verbatim>\<open>j\<close> but indexes with \<^verbatim>\<open>i\<close>, so all its 2000
  iterations store the same cell.\<close>

definition terminal_init1 :: "nat \<Rightarrow> terminal \<Rightarrow> terminal" where
  "terminal_init1 i t = t\<lparr>tm_current_process := -1, tm_active := 0, tm_x := 0, tm_y := 0, tm_term_enter := 0,
     tm_keyboard_last_index := 0, tm_keyboard_index := 0,
     tm_input_buf := replicate MAX_BUF_SIZE SPC @ drop MAX_BUF_SIZE (tm_input_buf t),
     tm_screen := fold (\<lambda>j. store_cell (int i * 2) 0) [0..<NUM_ROWS * NUM_COLS] (tm_screen t)\<rparr>"

definition terminal_init :: "'a console_scheme \<Rightarrow> 'a console_scheme option" where
  "terminal_init s = do {
     let s = s\<lparr>curr_terminal_number := 0\<rparr>;
     s \<leftarrow> upd_term 0 (terminal_init1 0) s;
     s \<leftarrow> upd_term 1 (terminal_init1 1) s;
     upd_term 2 (terminal_init1 2) s
   }"

section \<open>The abstract terminal\<close>

record grid =
  g_cell :: "nat \<Rightarrow> nat \<Rightarrow> byte \<times> byte"   \<comment> \<open>row, column: character and attribute\<close>
  g_x :: nat
  g_y :: nat

definition on_screen :: "nat \<Rightarrow> nat \<Rightarrow> bool" where
  "on_screen r c \<longleftrightarrow> r < NUM_ROWS \<and> c < NUM_COLS"

definition grid_scroll :: "grid \<Rightarrow> grid" where
  "grid_scroll g = g\<lparr>g_cell := (\<lambda>r c. if on_screen r c
       then (if Suc r < NUM_ROWS then fst (g_cell g (Suc r) c) else 0, ATTRIB) else (0, 0)),
     g_x := 0, g_y := NUM_ROWS - 1\<rparr>"

definition grid_set :: "byte \<Rightarrow> grid \<Rightarrow> grid" where
  "grid_set ch g = g\<lparr>g_cell := (\<lambda>r c. if r = g_y g \<and> c = g_x g then (ch, ATTRIB) else g_cell g r c)\<rparr>"

definition grid_newline :: "grid \<Rightarrow> grid" where
  "grid_newline g = (if Suc (g_y g) = NUM_ROWS then grid_scroll g else g\<lparr>g_x := 0, g_y := Suc (g_y g)\<rparr>)"

definition grid_putc :: "byte \<Rightarrow> grid \<Rightarrow> grid" where
  "grid_putc ch g =
     (if ch = NL \<or> ch = CR then grid_newline g
      else if Suc (g_x g) = NUM_COLS then grid_newline (grid_set ch g)
      else (grid_set ch g)\<lparr>g_x := Suc (g_x g)\<rparr>)"

definition grid_blank :: grid where
  "grid_blank = \<lparr>g_cell = (\<lambda>r c. if on_screen r c then (0, ATTRIB) else (0, 0)), g_x = 0, g_y = 0\<rparr>"

definition view :: "cells \<Rightarrow> int \<Rightarrow> int \<Rightarrow> grid" where
  "view m x y = \<lparr>g_cell = (\<lambda>r c. if on_screen r c
       then (m (cell (int r) (int c)), m (cell (int r) (int c) + 1)) else (0, 0)),
     g_x = nat x, g_y = nat y\<rparr>"

definition cursor_ok :: "int \<Rightarrow> int \<Rightarrow> bool" where
  "cursor_ok x y \<longleftrightarrow> 0 \<le> x \<and> x < int NUM_COLS \<and> 0 \<le> y \<and> y < int NUM_ROWS"

text \<open>Two memories that agree outside the 4000 bytes of a screen.\<close>

definition screen_frame :: "cells \<Rightarrow> cells \<Rightarrow> bool" where
  "screen_frame m m' \<longleftrightarrow> (\<forall>a. a < 0 \<or> a \<ge> 2 * int (NUM_ROWS * NUM_COLS) \<longrightarrow> m' a = m a)"

lemma screen_frame_refl [simp]: "screen_frame m m"
  by (simp add: screen_frame_def)

lemma screen_frame_trans: "screen_frame m m' \<Longrightarrow> screen_frame m' m'' \<Longrightarrow> screen_frame m m''"
  by (simp add: screen_frame_def)

subsection \<open>Cell arithmetic\<close>

lemma cell_eq_iff [simp]:
  "\<lbrakk>0 \<le> c; c < int NUM_COLS; 0 \<le> c'; c' < int NUM_COLS\<rbrakk> \<Longrightarrow> cell r c = cell r' c' \<longleftrightarrow> r = r' \<and> c = c'"
  by (cases r r' rule: linorder_cases) (auto simp: cell_def NUM_COLS_def)

lemma cell_parity [simp]: "cell r c \<noteq> cell r' c' + 1" "cell r c + 1 \<noteq> cell r' c'"
  unfolding cell_def by presburger+

lemma cell_bounds:
  "\<lbrakk>0 \<le> r; r < int NUM_ROWS; 0 \<le> c; c < int NUM_COLS\<rbrakk> \<Longrightarrow>
   0 \<le> cell r c \<and> cell r c + 1 < 2 * int (NUM_ROWS * NUM_COLS)"
  unfolding cell_def screen_consts by simp

lemma store_cell_frame:
  "\<lbrakk>0 \<le> r; r < int NUM_ROWS; 0 \<le> c; c < int NUM_COLS\<rbrakk> \<Longrightarrow> screen_frame m (store_cell (cell r c) ch m)"
  using cell_bounds [of r c] by (auto simp: screen_frame_def store_cell_def)

lemma store_cell_at:
  assumes "c < NUM_COLS" and "c' < NUM_COLS"
  shows "store_cell (cell (int r) (int c)) ch m (cell (int r') (int c')) =
      (if r' = r \<and> c' = c then ch else m (cell (int r') (int c')))"
    and "store_cell (cell (int r) (int c)) ch m (cell (int r') (int c') + 1) =
      (if r' = r \<and> c' = c then ATTRIB else m (cell (int r') (int c') + 1))"
  using assms by (auto simp: store_cell_def)

subsection \<open>Scrolling\<close>

text \<open>One column, after its first \<open>k\<close> rows.\<close>

lemma scroll_column:
  assumes "i < NUM_COLS" and "k \<le> NUM_ROWS"
  shows "(\<forall>r c. c < NUM_COLS \<longrightarrow>
      fold (scroll_cell i) [0..<k] m (cell (int r) (int c)) =
        (if c = i \<and> r < k then if Suc r < NUM_ROWS then m (cell (int (Suc r)) (int c)) else 0
         else m (cell (int r) (int c))) \<and>
      fold (scroll_cell i) [0..<k] m (cell (int r) (int c) + 1) =
        (if c = i \<and> r < k then ATTRIB else m (cell (int r) (int c) + 1))) \<and>
    screen_frame m (fold (scroll_cell i) [0..<k] m)"
  using assms(2)
proof (induction k)
  case 0
  then show ?case by simp
next
  case (Suc k)
  let ?m = "fold (scroll_cell i) [0..<k] m"
  have IH: "\<And>r c. c < NUM_COLS \<Longrightarrow> ?m (cell (int r) (int c)) =
        (if c = i \<and> r < k then if Suc r < NUM_ROWS then m (cell (int (Suc r)) (int c)) else 0
         else m (cell (int r) (int c)))"
    "\<And>r c. c < NUM_COLS \<Longrightarrow> ?m (cell (int r) (int c) + 1) = (if c = i \<and> r < k then ATTRIB else m (cell (int r) (int c) + 1))"
    "screen_frame m ?m" using Suc by auto
  have "?m (cell (int (k + 1)) (int i)) = m (cell (int (Suc k)) (int i))"
    using IH(1) [OF assms(1), of "k + 1"] by simp
  then have step: "scroll_cell i k ?m = store_cell (cell (int k) (int i))
      (if Suc k < NUM_ROWS then m (cell (int (Suc k)) (int i)) else 0) ?m"
    by (auto simp: scroll_cell_def)
  have "screen_frame ?m (scroll_cell i k ?m)"
    unfolding step using assms(1) Suc.prems by (intro store_cell_frame) auto
  then have "screen_frame m (scroll_cell i k ?m)" using IH(3) screen_frame_trans by blast
  moreover have "fold (scroll_cell i) [0..<Suc k] m = scroll_cell i k ?m" by simp
  ultimately show ?case
    unfolding \<open>fold (scroll_cell i) [0..<Suc k] m = scroll_cell i k ?m\<close>
    by (auto simp: step store_cell_at [OF assms(1)] IH(1,2) less_Suc_eq)
qed

lemma scroll_columns:
  assumes "n \<le> NUM_COLS"
  shows "(\<forall>r c. on_screen r c \<longrightarrow>
      fold (\<lambda>i. fold (scroll_cell i) [0..<NUM_ROWS]) [0..<n] m (cell (int r) (int c)) =
        (if c < n then if Suc r < NUM_ROWS then m (cell (int (Suc r)) (int c)) else 0
         else m (cell (int r) (int c))) \<and>
      fold (\<lambda>i. fold (scroll_cell i) [0..<NUM_ROWS]) [0..<n] m (cell (int r) (int c) + 1) =
        (if c < n then ATTRIB else m (cell (int r) (int c) + 1))) \<and>
    screen_frame m (fold (\<lambda>i. fold (scroll_cell i) [0..<NUM_ROWS]) [0..<n] m)"
  using assms
proof (induction n)
  case 0
  then show ?case by simp
next
  case (Suc n)
  let ?m = "fold (\<lambda>i. fold (scroll_cell i) [0..<NUM_ROWS]) [0..<n] m"
  have n: "n < NUM_COLS" using Suc.prems by simp
  note col = scroll_column [OF n order_refl, of ?m]
  show ?case
    using col Suc.IH n screen_frame_trans [of m ?m] by (auto simp: on_screen_def less_Suc_eq simp del: of_nat_Suc)
qed

lemma scroll_loop_view: "view (scroll_loop m) 0 (int NUM_ROWS - 1) = grid_scroll (view m x y)"
  using scroll_columns [OF order_refl, of m]
  by (auto simp: view_def grid_scroll_def scroll_loop_def on_screen_def nat_diff_distrib fun_eq_iff)

lemma scroll_loop_frame: "screen_frame m (scroll_loop m)"
  using scroll_columns [OF order_refl, of m] by (simp add: scroll_loop_def)

lemma clear_loop_eq:
  "clear_loop m a = (if 0 \<le> a \<and> a < 2 * int (NUM_ROWS * NUM_COLS) then if even a then 0 else ATTRIB else m a)"
proof -
  have "fold (\<lambda>i. store_cell (int i * 2) 0) [0..<n] m a =
      (if 0 \<le> a \<and> a < 2 * int n then if even a then 0 else ATTRIB else m a)" for n
  proof (induction n)
    case 0
    show ?case by auto
  next
    case (Suc n)
    consider "a = int n * 2" | "a = int n * 2 + 1" | "a \<noteq> int n * 2" "a \<noteq> int n * 2 + 1" by blast
    then show ?case by cases (use Suc in \<open>auto simp: store_cell_def\<close>)
  qed
  then show ?thesis by (simp add: clear_loop_def)
qed

lemma clear_loop_view: "view (clear_loop m) 0 0 = grid_blank"
proof -
  have "even (cell r c)" for r c by (simp add: cell_def)
  then have "clear_loop m (cell (int r) (int c)) = 0" "clear_loop m (cell (int r) (int c) + 1) = ATTRIB"
    if "on_screen r c" for r c
    using cell_bounds [of "int r" "int c"] that by (simp_all add: clear_loop_eq on_screen_def)
  then show ?thesis by (simp add: view_def grid_blank_def fun_eq_iff)
qed

lemma clear_loop_frame: "screen_frame m (clear_loop m)"
  by (auto simp: screen_frame_def clear_loop_eq)

lemma store_cell_view:
  assumes "cursor_ok x y"
  shows "view (store_cell (cell y x) ch m) x y = grid_set ch (view m x y)"
proof -
  obtain r c where rc: "y = int r" "x = int c" "r < NUM_ROWS" "c < NUM_COLS"
    using assms by (auto simp: cursor_ok_def elim!: nonneg_int_cases)
  show ?thesis
    unfolding rc(1,2) using rc(3,4) store_cell_at [OF rc(4)]
    by (auto simp: view_def grid_set_def on_screen_def fun_eq_iff)
qed

lemma view_cursor [simp]: "g_x (view m x y) = nat x" "g_y (view m x y) = nat y"
  by (simp_all add: view_def)

lemma newline_view:
  assumes "cursor_ok x y"
  shows "grid_newline (view m x y) =
    (if y = int NUM_ROWS - 1 then view (scroll_loop m) 0 (int NUM_ROWS - 1) else view m 0 (y + 1))"
proof -
  have "Suc (nat y) = NUM_ROWS \<longleftrightarrow> y = int NUM_ROWS - 1" "0 \<le> y" using assms by (auto simp: cursor_ok_def)
  then show ?thesis
    unfolding grid_newline_def by (simp add: scroll_loop_view [of m x y]) (simp add: view_def Suc_nat_eq_nat_zadd1 add.commute)
qed

lemma advance_view: "0 \<le> x \<Longrightarrow> (view m x y)\<lparr>g_x := Suc (nat x)\<rparr> = view m (x + 1) y"
  by (simp add: view_def Suc_nat_eq_nat_zadd1 add.commute)

text \<open>What one character does to a screen, a cursor and nothing else: the shape that both
  routines of the source have.\<close>

definition screen_step :: "byte \<Rightarrow> cells \<times> int \<times> int \<Rightarrow> cells \<times> int \<times> int" where
  "screen_step ch = (\<lambda>(m, x, y).
     if ch = NL \<or> ch = CR then
       if y = int NUM_ROWS - 1 then (scroll_loop m, 0, int NUM_ROWS - 1) else (m, 0, y + 1)
     else let m = store_cell (cell y x) ch m in
       if x = int NUM_COLS - 1 \<and> y = int NUM_ROWS - 1 then (scroll_loop m, 0, int NUM_ROWS - 1)
       else if x = int NUM_COLS - 1 then (m, 0, y + 1) else (m, x + 1, y))"

lemma screen_step_correct:
  assumes "cursor_ok x y" and "screen_step ch (m, x, y) = (m', x', y')"
  shows "cursor_ok x' y'" and "view m' x' y' = grid_putc ch (view m x y)" and "screen_frame m m'"
proof -
  have b: "0 \<le> x" "x < int NUM_COLS" "0 \<le> y" "y < int NUM_ROWS" using assms(1) by (simp_all add: cursor_ok_def)
  have pos: "0 < NUM_ROWS" "0 < NUM_COLS" by (simp_all add: screen_consts)
  have col: "Suc (nat x) = NUM_COLS \<longleftrightarrow> x = int NUM_COLS - 1"
    using b pos by auto
  show "cursor_ok x' y'"
    using assms(2) b pos by (auto simp: screen_step_def cursor_ok_def Let_def split: if_splits)
  show "view m' x' y' = grid_putc ch (view m x y)"
    unfolding grid_putc_def view_cursor store_cell_view [OF assms(1), symmetric] newline_view [OF assms(1)]
      advance_view [OF b(1)] col
    using assms(2) by (auto simp: screen_step_def Let_def split: if_splits)
  show "screen_frame m m'"
    using assms(2) store_cell_frame [OF b(3,4,1,2), of m ch] scroll_loop_frame screen_frame_trans
    by (auto simp: screen_step_def Let_def split: if_splits)
qed

section \<open>The interface of a text screen\<close>

text \<open>A character routine \<open>put\<close> over states with a screen \<open>scr\<close>, a cursor and the rest of the state
  \<open>other\<close>: it never fails, it performs the abstract transition, and it leaves the rest alone.\<close>

locale text_screen =
  fixes put :: "byte \<Rightarrow> 's \<Rightarrow> 's option"
    and scr :: "'s \<Rightarrow> cells \<times> int \<times> int"
    and other :: "'s \<Rightarrow> 's"
    and wf :: "'s \<Rightarrow> bool"
  assumes put_step: "wf s \<Longrightarrow> \<exists>s'. put ch s = Some s' \<and> wf s' \<and> other s' = other s \<and> scr s' = screen_step ch (scr s)"
    and wf_bounds: "wf s \<Longrightarrow> scr s = (m, x, y) \<Longrightarrow> cursor_ok x y"
begin

lemma put_all_grid:
  "\<lbrakk>wf s; scr s = (m, x, y)\<rbrakk> \<Longrightarrow> \<exists>s' m' x' y'. put_all put cs s = Some s' \<and> wf s' \<and> other s' = other s \<and>
     scr s' = (m', x', y') \<and> cursor_ok x' y' \<and>
     view m' x' y' = fold grid_putc cs (view m x y) \<and> screen_frame m m'"
proof (induction cs arbitrary: s m x y)
  case Nil
  then show ?case using wf_bounds by simp
next
  case (Cons ch cs)
  obtain t where t: "put ch s = Some t" "wf t" "other t = other s" "scr t = screen_step ch (m, x, y)"
    using put_step [OF Cons.prems(1), of ch] Cons.prems(2) by auto
  obtain m' x' y' where step: "screen_step ch (m, x, y) = (m', x', y')" by (cases "screen_step ch (m, x, y)")
  note ok = screen_step_correct [OF wf_bounds [OF Cons.prems] step]
  show ?case
    using Cons.IH [OF t(2) t(4) [unfolded step]] t ok by (auto intro: screen_frame_trans)
qed

end

text \<open>The visible screen; the rest of the state is all but video memory, cursor and port log.\<close>

definition visible :: "'a console_scheme \<Rightarrow> cells \<times> int \<times> int" where
  "visible s = (video_mem s, screen_x s, screen_y s)"

definition but_visible :: "'a console_scheme \<Rightarrow> 'a console_scheme" where
  "but_visible s = s\<lparr>io_log := [], video_mem := (\<lambda>_. 0), screen_x := 0, screen_y := 0\<rparr>"

lemma but_visible_updates [simp]:
  "but_visible (outb d p s) = but_visible s" "but_visible (s\<lparr>screen_x := v\<rparr>) = but_visible s"
  "but_visible (s\<lparr>screen_y := v\<rparr>) = but_visible s" "but_visible (s\<lparr>video_mem := m\<rparr>) = but_visible s"
  by (simp_all add: but_visible_def outb_def)

lemma update_cursor_frame [simp]:
  "video_mem (update_cursor r c s) = video_mem s" "screen_x (update_cursor r c s) = screen_x s"
  "screen_y (update_cursor r c s) = screen_y s" "but_visible (update_cursor r c s) = but_visible s"
  by (simp_all add: update_cursor_def Let_def) (simp_all add: outb_def)

text \<open>The executing terminal's saved screen.\<close>

definition exec_ok :: "'a console_scheme \<Rightarrow> bool" where
  "exec_ok s \<longleftrightarrow> get_curr_exec_term s < length (terminals s)"

definition saved :: "'a console_scheme \<Rightarrow> cells \<times> int \<times> int" where
  "saved s = (let t = terminals s ! get_curr_exec_term s in (tm_screen t, tm_x t, tm_y t))"

definition but_saved :: "'a console_scheme \<Rightarrow> 'a console_scheme" where
  "but_saved s = (let k = get_curr_exec_term s in
     s\<lparr>terminals := (terminals s)[k := (terminals s ! k)\<lparr>tm_screen := (\<lambda>_. 0), tm_x := 0, tm_y := 0\<rparr>]\<rparr>)"

lemma step_column: "0 \<le> x \<Longrightarrow> x < int NUM_COLS \<Longrightarrow> (x + 1) mod int NUM_COLS = (if x = int NUM_COLS - 1 then 0 else x + 1)"
  by (auto simp: mod_pos_pos_trivial)

lemma putc_visible:
  assumes "cursor_ok (screen_x s) (screen_y s)"
  shows "visible (putc ch s) = screen_step ch (visible s)" and "but_visible (putc ch s) = but_visible s"
proof -
  have "0 \<le> screen_x s" "screen_x s < int NUM_COLS" using assms by (simp_all add: cursor_ok_def)
  from step_column [OF this] this
  show "visible (putc ch s) = screen_step ch (visible s)"
    by (auto simp: putc_def vert_scroll_def visible_def screen_step_def Let_def)
  show "but_visible (putc ch s) = but_visible s"
    by (simp add: putc_def vert_scroll_def Let_def)
qed

definition visible_ok :: "'a console_scheme \<Rightarrow> bool" where
  "visible_ok s \<longleftrightarrow> cursor_ok (screen_x s) (screen_y s)"

interpretation vis: text_screen "\<lambda>ch s. Some (putc ch s)" visible but_visible visible_ok
proof
  fix s :: "'a console_scheme" and ch
  assume ok: "visible_ok s"
  note put = putc_visible [OF ok [unfolded visible_ok_def], of ch]
  have "visible_ok (putc ch s)"
    using screen_step_correct(1) [OF ok [unfolded visible_ok_def], of ch "video_mem s" "video_mem (putc ch s)"
        "screen_x (putc ch s)" "screen_y (putc ch s)"] put(1) by (simp add: visible_def visible_ok_def)
  then show "\<exists>s'. Some (putc ch s) = Some s' \<and> visible_ok s' \<and> but_visible s' = but_visible s \<and>
      visible s' = screen_step ch (visible s)" using put by simp
qed (simp add: visible_ok_def visible_def)

definition saved_ok :: "'a console_scheme \<Rightarrow> bool" where
  "saved_ok s \<longleftrightarrow> exec_ok s \<and>
     cursor_ok (tm_x (terminals s ! get_curr_exec_term s)) (tm_y (terminals s ! get_curr_exec_term s))"

lemma putc_nodisplay_saved:
  assumes "saved_ok s"
  shows "\<exists>s'. putc_nodisplay ch s = Some s' \<and> but_saved s' = but_saved s \<and> saved s' = screen_step ch (saved s) \<and>
    exec_ok s'"
proof -
  let ?k = "get_curr_exec_term s"
  have k: "?k < length (terminals s)" using assms by (simp add: saved_ok_def exec_ok_def)
  have "0 \<le> tm_x (terminals s ! ?k)" "tm_x (terminals s ! ?k) < int NUM_COLS"
    using assms by (simp_all add: saved_ok_def cursor_ok_def)
  from step_column [OF this] this k show ?thesis
    by (simp add: putc_nodisplay_def vert_scroll_nodisplay_def upd_term_def saved_def but_saved_def screen_step_def
        exec_ok_def Let_def get_curr_exec_term_def)
qed

interpretation sav: text_screen putc_nodisplay saved but_saved saved_ok
proof
  fix s :: "'a console_scheme" and ch
  assume ok: "saved_ok s"
  obtain s' where s': "putc_nodisplay ch s = Some s'" "but_saved s' = but_saved s" "saved s' = screen_step ch (saved s)"
    "exec_ok s'" using putc_nodisplay_saved [OF ok] by blast
  have "saved_ok s'"
    using ok s'(3,4) screen_step_correct(1) [of _ _ ch]
    unfolding saved_ok_def saved_def Let_def by (metis)
  then show "\<exists>s'. putc_nodisplay ch s = Some s' \<and> saved_ok s' \<and> but_saved s' = but_saved s \<and>
      saved s' = screen_step ch (saved s)" using s' by blast
qed (simp add: saved_ok_def saved_def Let_def)

text \<open>The screen the executing terminal writes to.\<close>

definition displayed :: "'a console_scheme \<Rightarrow> bool" where
  "displayed s \<longleftrightarrow> int (get_curr_exec_term s) = get_cur_term s"

definition exec_screen :: "'a console_scheme \<Rightarrow> cells \<times> int \<times> int" where
  "exec_screen s = (if displayed s then visible s else saved s)"

definition but_exec_screen :: "'a console_scheme \<Rightarrow> 'a console_scheme" where
  "but_exec_screen s = (if displayed s then but_visible s else but_saved s)"

definition exec_screen_ok :: "'a console_scheme \<Rightarrow> bool" where
  "exec_screen_ok s = (if displayed s then visible_ok s else saved_ok s)"

lemma displayed_rest:
  "but_visible s' = but_visible s \<Longrightarrow> displayed s' = displayed s" "but_saved s' = but_saved s \<Longrightarrow> displayed s' = displayed s"
proof -
  have "displayed (but_visible t) = displayed t" "displayed (but_saved t) = displayed t" for t :: "'a console_scheme"
    by (simp_all add: displayed_def but_visible_def but_saved_def get_curr_exec_term_def get_cur_term_def Let_def)
  then show "but_visible s' = but_visible s \<Longrightarrow> displayed s' = displayed s"
    "but_saved s' = but_saved s \<Longrightarrow> displayed s' = displayed s" by metis+
qed

interpretation exe: text_screen term_putc exec_screen but_exec_screen exec_screen_ok
proof
  fix s :: "'a console_scheme" and ch
  assume ok: "exec_screen_ok s"
  show "\<exists>s'. term_putc ch s = Some s' \<and> exec_screen_ok s' \<and> but_exec_screen s' = but_exec_screen s \<and>
      exec_screen s' = screen_step ch (exec_screen s)"
  proof (cases "displayed s")
    case True
    then have "visible_ok s" using ok by (simp add: exec_screen_ok_def)
    from vis.put_step [OF this, of ch]
    have put: "visible_ok (putc ch s)" "but_visible (putc ch s) = but_visible s"
      "visible (putc ch s) = screen_step ch (visible s)" by auto
    then have "displayed (putc ch s)" using displayed_rest(1) True by blast
    then show ?thesis
      using put True
      by (simp add: term_putc_def exec_screen_ok_def but_exec_screen_def exec_screen_def flip: displayed_def)
  next
    case False
    then have "saved_ok s" using ok by (simp add: exec_screen_ok_def)
    then obtain s' where put: "putc_nodisplay ch s = Some s'" "saved_ok s'" "but_saved s' = but_saved s"
      "saved s' = screen_step ch (saved s)" using sav.put_step by blast
    then have "\<not> displayed s'" using displayed_rest(2) False by blast
    then show ?thesis
      using put False
      by (simp add: term_putc_def exec_screen_ok_def but_exec_screen_def exec_screen_def flip: displayed_def)
  qed
next
  fix s :: "'a console_scheme" and m x y
  assume "exec_screen_ok s" "exec_screen s = (m, x, y)"
  then show "cursor_ok x y"
    using vis.wf_bounds sav.wf_bounds by (auto simp: exec_screen_ok_def exec_screen_def split: if_splits)
qed

lemma int_flag_screens [simp]:
  "visible (s\<lparr>int_flag := b\<rparr>) = visible s" "saved (s\<lparr>int_flag := b\<rparr>) = saved s"
  "displayed (s\<lparr>int_flag := b\<rparr>) = displayed s" "exec_screen (s\<lparr>int_flag := b\<rparr>) = exec_screen s"
  "exec_screen_ok (s\<lparr>int_flag := b\<rparr>) = exec_screen_ok s"
  "but_exec_screen (s\<lparr>int_flag := b\<rparr>) = (but_exec_screen s)\<lparr>int_flag := b\<rparr>"
  by (simp_all add: visible_def saved_def displayed_def exec_screen_def exec_screen_ok_def visible_ok_def saved_ok_def
      exec_ok_def but_exec_screen_def but_visible_def but_saved_def get_curr_exec_term_def get_cur_term_def Let_def)

lemma terminal_write_eq:
  assumes "exec_screen_ok s" and "exec_screen s = (m, x, y)" and "0 \<le> nbytes" and "0 \<in> set buf"
  shows "\<exists>s' m' x' y'. terminal_write (Some buf) nbytes s = Some (int (min (length (chars buf)) (nat nbytes)), s') \<and>
    exec_screen_ok s' \<and> but_exec_screen s' = but_exec_screen (s\<lparr>int_flag := True\<rparr>) \<and>
    exec_screen s' = (m', x', y') \<and> cursor_ok x' y' \<and>
    view m' x' y' = fold grid_putc (take (nat nbytes) (chars buf)) (view m x y) \<and> screen_frame m m'"
proof -
  let ?n = "length (chars buf)"
  obtain r where r: "buf = chars buf @ 0 # r" using assms(4) by (rule terminatedE)
  then have cut: "take ?n buf = chars buf" by (metis append_eq_conv_conj)
  then have cut': "nat nbytes \<le> ?n \<Longrightarrow> take (nat nbytes) buf = take (nat nbytes) (chars buf)"
    by (metis min.absorb1 take_take)
  have cli: "exec_screen_ok (cli s)" "exec_screen (cli s) = (m, x, y)" using assms(1,2) by (simp_all add: cli_def)
  obtain t m' x' y' where t: "put_all term_putc (take (nat nbytes) (chars buf)) (cli s) = Some t"
    "exec_screen_ok t" "but_exec_screen t = but_exec_screen (cli s)" "exec_screen t = (m', x', y')" "cursor_ok x' y'"
    "view m' x' y' = fold grid_putc (take (nat nbytes) (chars buf)) (view m x y)" "screen_frame m m'"
    using exe.put_all_grid [OF cli] by blast
  have "terminal_write (Some buf) nbytes s = Some (int (min ?n (nat nbytes)), sti t)"
    using strlen_chars [OF assms(4)] assms(3) t(1) cut cut'
    by (cases "int ?n < nbytes") (simp_all add: terminal_write_def)
  moreover have "but_exec_screen (sti t) = but_exec_screen (s\<lparr>int_flag := True\<rparr>)"
    using t(3) by (simp add: cli_def sti_def)
  ultimately show ?thesis using t by (simp add: sti_def)
qed

section \<open>The cursor of the CRT controller\<close>

definition crtc_sel :: "io_event list \<Rightarrow> byte" where
  "crtc_sel = selected 0x3D4 id"

definition crtc_reg :: "(byte \<Rightarrow> byte) \<Rightarrow> io_event list \<Rightarrow> byte \<Rightarrow> byte" where
  "crtc_reg = registers 0x3D4 0x3D5 id"

interpretation crtc: indexed_ports "0x3D4" "0x3D5" crtc_sel "crtc_reg r0" id for r0
  unfolding crtc_sel_def crtc_reg_def by (rule registers_indexed) simp

definition hw_cursor :: "(byte \<Rightarrow> byte) \<Rightarrow> io_event list \<Rightarrow> nat" where
  "hw_cursor r0 log = 256 * unat (crtc_reg r0 log 0x0E) + unat (crtc_reg r0 log 0x0F)"

lemma split_u16:
  "256 * unat (ucast (drop_bit 8 p AND 0xFF :: u16) :: byte) + unat (ucast (p AND 0xFF) :: byte) = unat (p :: u16)"
proof -
  have mask: "(0xFF :: u16) = mask 8" by (simp add: mask_eq_exp_minus_1)
  have "(ucast (drop_bit 8 p AND 0xFF) :: byte) = ucast (drop_bit 8 p)" "(ucast (p AND 0xFF) :: byte) = ucast p"
    unfolding mask by (rule bit_word_eqI; simp add: bit_simps)+
  moreover have "unat p < 65536" using unsigned_less [of p] by simp
  then have "unat p div 256 < 256" by (simp add: div_less_iff_less_mult)
  ultimately show ?thesis
    by (simp add: unsigned_ucast_eq take_bit_eq_mod drop_bit_eq_div unat_div)
qed

lemma update_cursor_hw:
  assumes "cursor_ok x y"
  shows "int (hw_cursor r0 (io_log (update_cursor y x s))) = y * int NUM_COLS + x"
proof -
  let ?p = "of_int (y * 80 + x) :: u16"
  have b: "0 \<le> y * 80 + x" "y * 80 + x < 2 ^ 16" using assms by (simp_all add: cursor_ok_def screen_consts)
  have "uint ?p = take_bit 16 (y * 80 + x)" by (simp only: unsigned_of_int uint_word_of_int_eq) simp
  then have "uint ?p = y * 80 + x" using b by (simp add: take_bit_int_eq_self)
  moreover have "hw_cursor r0 (io_log (update_cursor y x s)) =
      256 * unat (ucast (drop_bit 8 ?p AND 0xFF) :: byte) + unat (ucast (?p AND 0xFF) :: byte)"
    by (simp add: update_cursor_def Let_def outb_def hw_cursor_def crtc.write_two_regs [simplified])
  ultimately show ?thesis unfolding split_u16 by (simp add: NUM_COLS_def)
qed

section \<open>Text on the grid\<close>

definition plain :: "byte list \<Rightarrow> bool" where
  "plain cs \<longleftrightarrow> NL \<notin> set cs \<and> CR \<notin> set cs"

text \<open>A run of characters that ends before the last column of its row.\<close>

lemma grid_line:
  "\<lbrakk>plain cs; g_x g + length cs < NUM_COLS\<rbrakk> \<Longrightarrow> fold grid_putc cs g =
     g\<lparr>g_cell := (\<lambda>r c. if r = g_y g \<and> g_x g \<le> c \<and> c < g_x g + length cs
                        then (cs ! (c - g_x g), ATTRIB) else g_cell g r c),
       g_x := g_x g + length cs\<rparr>"
proof (induction cs arbitrary: g)
  case Nil
  have "(\<lambda>r c. if r = g_y g \<and> g_x g \<le> c \<and> c < g_x g then ([] ! (c - g_x g), ATTRIB) else g_cell g r c) = g_cell g"
    by (auto simp: fun_eq_iff)
  then show ?case by simp
next
  case (Cons ch cs)
  let ?g = "(grid_set ch g)\<lparr>g_x := Suc (g_x g)\<rparr>"
  have step: "grid_putc ch g = ?g" using Cons.prems by (auto simp: grid_putc_def plain_def)
  have "fold grid_putc cs ?g = ?g\<lparr>g_cell := (\<lambda>r c. if r = g_y ?g \<and> g_x ?g \<le> c \<and> c < g_x ?g + length cs
                        then (cs ! (c - g_x ?g), ATTRIB) else g_cell ?g r c), g_x := g_x ?g + length cs\<rparr>"
    by (rule Cons.IH) (use Cons.prems in \<open>auto simp: plain_def\<close>)
  moreover have "(\<lambda>r c. if r = g_y g \<and> Suc (g_x g) \<le> c \<and> c < Suc (g_x g) + length cs
        then (cs ! (c - Suc (g_x g)), ATTRIB) else if r = g_y g \<and> c = g_x g then (ch, ATTRIB) else g_cell g r c) =
      (\<lambda>r c. if r = g_y g \<and> g_x g \<le> c \<and> c < g_x g + length (ch # cs)
        then ((ch # cs) ! (c - g_x g), ATTRIB) else g_cell g r c)" (is "?f = ?f'")
  proof (intro ext)
    fix r c
    consider "c < g_x g" | "c = g_x g" | "g_x g < c" by linarith
    then show "?f r c = ?f' r c"
    proof cases
      case 3
      then have "c - g_x g = Suc (c - Suc (g_x g))" by simp
      then show ?thesis using 3 by simp
    qed auto
  qed
  ultimately show ?case by (simp add: step grid_set_def cong: if_cong)
qed

section \<open>Properties\<close>

definition console_example :: console where
  "console_example = files.extend mounted_example \<lparr>video_mem = (\<lambda>_. 0), screen_x = 78, screen_y = 24,
     terminals = replicate 3 \<lparr>tm_active = 1, tm_current_process = 0, tm_ESP = 0, tm_EBP = 0, tm_x = 5, tm_y = 7, tm_input_buf = replicate 129 0,
       tm_screen = (\<lambda>_. 0), tm_keyboard_last_index = 0, tm_keyboard_index = 0, tm_term_enter = 0\<rparr>,
     curr_terminal_number = 0, curr_term = 1, curr_task = 0, last_term = 0, last_task = 0\<rparr>"

lemma console_example_ok [simp]: "exec_screen_ok console_example" "visible_ok console_example"
  "exec_screen console_example = ((\<lambda>_. 0), 5, 7)"
  by (simp_all add: exec_screen_ok_def displayed_def visible_ok_def saved_ok_def exec_ok_def get_curr_exec_term_def
      get_cur_term_def console_example_def files.defs cursor_ok_def screen_consts exec_screen_def saved_def)

text \<open>C14: \<^verbatim>\<open>terminal_write\<close> prints the string up to its end or to \<^verbatim>\<open>nbytes\<close> characters on the terminal the
  process runs in: on the visible screen when that terminal is shown, on its saved screen
  otherwise.  It returns the number of characters, the screen is the abstract terminal after
  those characters, the cursor stays on it, no byte beside the 4000 of that screen and
  nothing else of the kernel state changes, and interrupts are on afterwards.\<close>

theorem terminal_write_renders:
  assumes "exec_screen_ok s" and "exec_screen s = (m, x, y)" and "0 \<le> nbytes" and "0 \<in> set buf"
  shows "\<exists>s' m' x' y'. terminal_write (Some buf) nbytes s = Some (int (min (length (chars buf)) (nat nbytes)), s') \<and>
    exec_screen_ok s' \<and> but_exec_screen s' = but_exec_screen (s\<lparr>int_flag := True\<rparr>) \<and>
    exec_screen s' = (m', x', y') \<and> cursor_ok x' y' \<and>
    view m' x' y' = fold grid_putc (take (nat nbytes) (chars buf)) (view m x y) \<and> screen_frame m m'"
  by (rule terminal_write_eq [OF assms])

theorem terminal_write_renders_witness:
  "\<exists>s' m' x' y'. terminal_write (Some (cstr ''391OS> '')) 7 console_example =
      Some (int (min (length (chars (cstr ''391OS> ''))) (nat 7)), s') \<and>
    exec_screen_ok s' \<and> but_exec_screen s' = but_exec_screen (console_example\<lparr>int_flag := True\<rparr>) \<and>
    exec_screen s' = (m', x', y') \<and> cursor_ok x' y' \<and>
    view m' x' y' = fold grid_putc (take (nat 7) (chars (cstr ''391OS> ''))) (view (\<lambda>_. 0) 5 7) \<and>
    screen_frame (\<lambda>_. 0) m'"
  by (rule terminal_write_renders) (simp_all add: cstr_def)

text \<open>scrolling.  The column-wise copy of \<^verbatim>\<open>vert_scroll\<close> over a single memory moves every row up by
  one, blanks the last row, sets every attribute, touches nothing beside the screen and
  leaves the cursor, of the kernel and of the video hardware, at the start of the last row.\<close>

theorem vert_scroll_correct:
  "view (video_mem (vert_scroll s)) (screen_x (vert_scroll s)) (screen_y (vert_scroll s)) =
     grid_scroll (view (video_mem s) (screen_x s) (screen_y s)) \<and>
   screen_frame (video_mem s) (video_mem (vert_scroll s)) \<and>
   int (hw_cursor r0 (io_log (vert_scroll s))) = (int NUM_ROWS - 1) * int NUM_COLS"
  using scroll_loop_view [of "video_mem s"] scroll_loop_frame [of "video_mem s"]
    update_cursor_hw [of 0 "int NUM_ROWS - 1" r0]
  by (simp add: vert_scroll_def Let_def cursor_ok_def screen_consts)

definition moved :: "'a console_scheme \<Rightarrow> bool" where
  "moved s \<longleftrightarrow> (\<exists>u. s = update_cursor (screen_y u) (screen_x u) u)"

lemma movedI: "moved (update_cursor (screen_y u) (screen_x u) u)"
  by (auto simp: moved_def)

lemma moved_putc: "moved (putc ch s)"
  unfolding putc_def vert_scroll_def Let_def by (simp only: movedI split: if_split) simp

text \<open>the hardware cursor follows \<^verbatim>\<open>putc\<close>: after every character, scrolling ones included, the CRT
  controller points at the position of the next character, which is on the screen.\<close>

theorem putc_moves_cursor:
  assumes "visible_ok s"
  shows "visible_ok (putc ch s) \<and>
    int (hw_cursor r0 (io_log (putc ch s))) = screen_y (putc ch s) * int NUM_COLS + screen_x (putc ch s)"
proof
  show ok: "visible_ok (putc ch s)" using vis.put_step [OF assms, of ch] by simp
  define t where "t = putc ch s"
  obtain u where "t = update_cursor (screen_y u) (screen_x u) u"
    using moved_putc [of ch s] unfolding moved_def t_def by blast
  moreover from this have "screen_x t = screen_x u" "screen_y t = screen_y u" by simp_all
  ultimately show "int (hw_cursor r0 (io_log (putc ch s))) = screen_y (putc ch s) * int NUM_COLS + screen_x (putc ch s)"
    using ok update_cursor_hw [of "screen_x u" "screen_y u" r0 u] unfolding visible_ok_def t_def [symmetric] by simp
qed

theorem putc_moves_cursor_witness:
  "visible_ok (putc 65 console_example) \<and>
    int (hw_cursor (\<lambda>_. 0) (io_log (putc 65 console_example))) =
      screen_y (putc 65 console_example) * int NUM_COLS + screen_x (putc 65 console_example)"
  by (rule putc_moves_cursor) simp

end
