(* ===== verification/Printf.thy ===== *)
theory Printf
  imports Console
begin

text \<open>
  \<^verbatim>\<open>printf\<close> of \<^verbatim>\<open>student-distrib/lib.c\<close>.  The variable arguments are the list of stack words after the
  format: a number, or the string a pointer leads to.  Reading one as the other, or past
  the last one, is \<open>None\<close>.  The conversion buffers are uninitialised arrays of the frame; their
  old contents are the parameter \<open>conv_buf\<close>.

  \<open>render\<close> is the text a format denotes, written with the values of the numbers only, and the
  theory shows that \<^verbatim>\<open>printf\<close> prints it.
\<close>

datatype arg = Num u32 | Str "byte list"

fun pop_num :: "arg list \<Rightarrow> (u32 \<times> arg list) option" where
  "pop_num (Num w # esp) = Some (w, esp)"
| "pop_num _ = None"

fun pop_str :: "arg list \<Rightarrow> (byte list \<times> arg list) option" where
  "pop_str (Str b # esp) = Some (b, esp)"
| "pop_str _ = None"

definition print_str :: "byte list \<Rightarrow> 'a console_scheme \<Rightarrow> 'a console_scheme option" where
  "print_str b s = map_option snd (puts b s)"

text \<open>The cases of \<^verbatim>\<open>%x\<close>, \<^verbatim>\<open>%u\<close> and \<^verbatim>\<open>%d\<close>.\<close>

definition printf_x :: "byte list \<Rightarrow> bool \<Rightarrow> u32 \<Rightarrow> 'a console_scheme \<Rightarrow> 'a console_scheme option" where
  "printf_x conv_buf alternate w s =
     (if \<not> alternate then do { b \<leftarrow> itoa (unat w) conv_buf 16; print_str b s }
      else do {
        b \<leftarrow> at_off 8 (\<lambda>b. itoa (unat w) b 16) conv_buf;
        starting_index \<leftarrow> strlen (drop 8 b);
        print_str (drop starting_index (fill_for starting_index 8 (\<lambda>i. 48) b)) s
      })"

definition printf_u :: "byte list \<Rightarrow> u32 \<Rightarrow> 'a console_scheme \<Rightarrow> 'a console_scheme option" where
  "printf_u conv_buf w s = do { b \<leftarrow> itoa (unat w) conv_buf 10; print_str b s }"

definition printf_d :: "byte list \<Rightarrow> u32 \<Rightarrow> 'a console_scheme \<Rightarrow> 'a console_scheme option" where
  "printf_d conv_buf value s = do {
     b \<leftarrow> (if sint value < 0 then do {
             b \<leftarrow> aset conv_buf 0 45;
             at_off 1 (\<lambda>b. itoa (unat (- value)) b 10) b
           } else itoa (unat value) conv_buf 10);
     print_str b s
   }"

text \<open>The loop.  \<open>mode\<close> is \<open>None\<close> at the head of the loop and \<open>Some alternate\<close> at the label
  \<^verbatim>\<open>format_char_switch\<close>; \<open>k\<close> is \<^verbatim>\<open>buf - format\<close>.\<close>

fun printf_loop :: "byte list \<Rightarrow> bool option \<Rightarrow> byte list \<Rightarrow> int \<Rightarrow> arg list \<Rightarrow> 'a console_scheme
    \<Rightarrow> (int \<times> 'a console_scheme) option" where
  "printf_loop conv_buf mode [] k esp s = None"
| "printf_loop conv_buf None (c # buf) k esp s =
     (if c = 0 then Some (k, s)
      else if c = 37 then printf_loop conv_buf (Some False) buf (k + 1) esp s
      else printf_loop conv_buf None buf (k + 1) esp (putc c s))"
| "printf_loop conv_buf (Some alternate) (c # buf) k esp s =
     (if c = 37 then printf_loop conv_buf None buf (k + 1) esp (putc 37 s)
      else if c = 35 then printf_loop conv_buf (Some True) buf (k + 1) esp s
      else if c = 120 then do {
        (w, esp) \<leftarrow> pop_num esp; s \<leftarrow> printf_x conv_buf alternate w s;
        printf_loop conv_buf None buf (k + 1) esp s }
      else if c = 117 then do {
        (w, esp) \<leftarrow> pop_num esp; s \<leftarrow> printf_u (take 36 conv_buf) w s;
        printf_loop conv_buf None buf (k + 1) esp s }
      else if c = 100 then do {
        (w, esp) \<leftarrow> pop_num esp; s \<leftarrow> printf_d (take 36 conv_buf) w s;
        printf_loop conv_buf None buf (k + 1) esp s }
      else if c = 99 then do {
        (w, esp) \<leftarrow> pop_num esp;
        printf_loop conv_buf None buf (k + 1) esp (putc (ucast w) s) }
      else if c = 115 then do {
        (b, esp) \<leftarrow> pop_str esp; s \<leftarrow> print_str b s;
        printf_loop conv_buf None buf (k + 1) esp s }
      else printf_loop conv_buf None buf (k + 1) esp s)"

definition printf :: "byte list \<Rightarrow> byte list \<Rightarrow> arg list \<Rightarrow> 'a console_scheme \<Rightarrow> (int \<times> 'a console_scheme) option" where
  "printf conv_buf format args s = printf_loop conv_buf None format 0 args s"

section \<open>What a format denotes\<close>

text \<open>The digits of a number without leading zeroes, by repeated division.\<close>

function digits :: "nat \<Rightarrow> nat \<Rightarrow> byte list" where
  "digits radix v = (if v < radix \<or> radix < 2 then [itoa_lookup ! v] else digits radix (v div radix) @ [itoa_lookup ! (v mod radix)])"
  by pat_completeness auto
termination by (relation "measure snd") auto

declare digits.simps [simp del]

fun render :: "bool option \<Rightarrow> byte list \<Rightarrow> arg list \<Rightarrow> byte list option" where
  "render mode [] args = None"
| "render None (c # f) args =
     (if c = 0 then Some []
      else if c = 37 then render (Some False) f args
      else map_option ((#) c) (render None f args))"
| "render (Some alt) (c # f) args =
     (if c = 37 then map_option ((#) 37) (render None f args)
      else if c = 35 then render (Some True) f args
      else if c = 120 then (case args of
          Num w # args \<Rightarrow> let ds = digits 16 (unat w) in
            map_option ((@) (if alt then replicate (8 - length ds) 48 @ ds else ds)) (render None f args)
        | _ \<Rightarrow> None)
      else if c = 117 then (case args of
          Num w # args \<Rightarrow> map_option ((@) (digits 10 (unat w))) (render None f args)
        | _ \<Rightarrow> None)
      else if c = 100 then (case args of
          Num w # args \<Rightarrow> map_option ((@) (if sint w < 0 then 45 # digits 10 (nat (- sint w)) else digits 10 (nat (sint w))))
            (render None f args)
        | _ \<Rightarrow> None)
      else if c = 99 then (case args of
          Num w # args \<Rightarrow> map_option ((#) (ucast w)) (render None f args)
        | _ \<Rightarrow> None)
      else if c = 115 then (case args of
          Str b # args \<Rightarrow> if 0 \<in> set b then map_option ((@) (chars b)) (render None f args) else None
        | _ \<Rightarrow> None)
      else render None f args)"

section \<open>\<^verbatim>\<open>itoa\<close> writes the digits\<close>

lemma digits_nonzero: "2 \<le> radix \<Longrightarrow> radix \<le> 36 \<Longrightarrow> 0 \<notin> set (digits radix v)"
proof (induction radix v rule: digits.induct)
  case (1 radix v)
  have "v mod radix < 36" using "1.prems" mod_less_divisor [of radix v] by linarith
  moreover have "itoa_lookup ! v \<noteq> 0" if "v < radix" using that "1.prems" lookup_nonzero [of v] by simp
  ultimately show ?case
    using 1 lookup_nonzero [of "v mod radix"] by (subst digits.simps) auto
qed

lemma digits_length: "2 \<le> radix \<Longrightarrow> v < radix ^ Suc k \<Longrightarrow> length (digits radix v) \<le> Suc k"
proof (induction radix v arbitrary: k rule: digits.induct)
  case (1 radix v)
  show ?case
  proof (cases "v < radix")
    case True
    then show ?thesis by (simp add: digits.simps [of radix v])
  next
    case False
    then obtain j where j: "k = Suc j" using "1.prems" by (cases k) auto
    then have "v div radix < radix ^ Suc j"
      using "1.prems" by (simp add: less_mult_imp_div_less mult.commute)
    then show ?thesis using "1.IH" [of j] False "1.prems"(1) j by (simp add: digits.simps [of radix v])
  qed
qed

lemma itoa_loop_digits:
  "\<lbrakk>2 \<le> radix; radix \<le> 36; 0 < v\<rbrakk> \<Longrightarrow> itoa_loop v radix acc = Some (acc @ rev (digits radix v))"
proof (induction v radix acc rule: itoa_loop.induct)
  case (1 v radix acc)
  have "v mod radix < 36" using "1.prems" mod_less_divisor [of radix v] by linarith
  then have get: "aget itoa_lookup (v mod radix) = Some (itoa_lookup ! (v mod radix))"
    using itoa_lookup_facts(1) by simp
  show ?case
  proof (cases "v < radix")
    case True
    then show ?thesis
      using get "1.prems" by (simp add: itoa_loop.simps [of v] itoa_loop.simps [of 0] digits.simps [of radix v])
  next
    case False
    then have "0 < v div radix" using "1.prems" by (simp add: div_greater_zero_iff)
    then show ?thesis
      using "1.IH" [of "itoa_lookup ! (v mod radix)"] False get "1.prems"
      by (simp add: itoa_loop.simps [of v] digits.simps [of radix v])
  qed
qed

lemma itoa_digits:
  assumes "2 \<le> radix" and "radix \<le> 36" and "length (digits radix v) < length buf"
  shows "itoa v buf radix = Some (digits radix v @ 0 # drop (Suc (length (digits radix v))) buf)"
proof (cases "v = 0")
  case True
  have "itoa_lookup ! 0 = 48" by (simp add: itoa_lookup_def cstr_def)
  then have "digits radix 0 = [48]" using assms(1) by (simp add: digits.simps [of radix 0])
  then show ?thesis using True assms(3) by (simp add: itoa_def cstr_def)
next
  case False
  then show ?thesis
    using assms digits_nonzero [OF assms(1,2), of v] strrev_terminated [of "rev (digits radix v)"]
    by (simp add: itoa_def itoa_loop_digits)
qed

lemma print_str_terminated: "0 \<notin> set b \<Longrightarrow> print_str (b @ 0 # r) s = Some (fold putc b s)"
proof -
  have "0 \<notin> set b \<Longrightarrow> puts_loop (b @ 0 # r) k s = Some (k + int (length b), fold putc b s)" for k
    by (induction b arbitrary: k s) auto
  then show "0 \<notin> set b \<Longrightarrow> ?thesis" by (simp add: print_str_def puts_def)
qed

lemma u32_digits: "length (digits 16 (unat (w :: u32))) \<le> 8" "length (digits 10 (unat (w :: u32))) \<le> 10"
proof -
  have "unat w < 2 ^ 32" using unsigned_less [of w] by simp
  then show "length (digits 16 (unat w)) \<le> 8" "length (digits 10 (unat w)) \<le> 10"
    using digits_length [of 16 "unat w" 7] digits_length [of 10 "unat w" 9] by simp_all
qed

lemma printf_x_renders:
  assumes "length conv_buf = 64"
  shows "printf_x conv_buf alt w s =
    Some (fold putc (if alt then replicate (8 - length (digits 16 (unat w))) 48 @ digits 16 (unat w) else digits 16 (unat w)) s)"
proof -
  let ?ds = "digits 16 (unat w)"
  have ds: "0 \<notin> set ?ds" "length ?ds \<le> 8" using digits_nonzero [of 16] u32_digits(1) by simp_all
  define b where "b = take 8 conv_buf @ ?ds @ 0 # drop (Suc (length ?ds)) (drop 8 conv_buf)"
  have at8: "at_off 8 (\<lambda>b. itoa (unat w) b 16) conv_buf = Some b"
    using assms ds itoa_digits [of 16 "unat w" "drop 8 conv_buf"] by (simp add: at_off_def b_def)
  have tail: "drop 8 b = ?ds @ 0 # drop (Suc (length ?ds)) (drop 8 conv_buf)" "length b = 64"
    using assms ds(2) by (simp_all add: b_def)
  have "drop (length ?ds) (fill_for (length ?ds) 8 (\<lambda>i. 48) b) = replicate (8 - length ?ds) 48 @ drop 8 b"
  proof (rule nth_equalityI)
    fix i assume "i < length (drop (length ?ds) (fill_for (length ?ds) 8 (\<lambda>i. 48) b))"
    then show "drop (length ?ds) (fill_for (length ?ds) 8 (\<lambda>i. 48) b) ! i = (replicate (8 - length ?ds) 48 @ drop 8 b) ! i"
      using ds(2) tail(2) by (cases "i < 8 - length ?ds") (auto simp: nth_append add.commute)
  qed (use ds(2) tail(2) in simp)
  moreover have "strlen (drop 8 b) = Some (length ?ds)" using tail(1) ds(1) by simp
  moreover have "print_str ((replicate (8 - length ?ds) 48 @ ?ds) @ 0 # r) s = Some (fold putc (replicate (8 - length ?ds) 48 @ ?ds) s)" for r
    by (rule print_str_terminated) (use ds(1) in auto)
  ultimately show ?thesis
    using at8 tail(1) ds assms print_str_terminated [OF ds(1)] itoa_digits [of 16 "unat w" conv_buf]
    by (auto simp: printf_x_def)
qed

lemma sint_as_unat: "0 \<le> sint (w :: u32) \<Longrightarrow> unat w = nat (sint w)" "sint (w :: u32) < 0 \<Longrightarrow> unat (- w) = nat (- sint w)"
proof -
  have "uint w = take_bit 32 (sint w)" by (simp add: uint_sint)
  then show "0 \<le> sint w \<Longrightarrow> unat w = nat (sint w)"
    using sint_less [of w] by (simp add: unat_eq_nat_uint take_bit_int_eq_self del: nat_uint_eq)
  have "- w = of_int (- sint w)" by simp
  then have "uint (- w) = uint (of_int (- sint w) :: u32)" by simp
  then have "uint (- w) = take_bit 32 (- sint w)" by (simp only: uint_word_of_int_eq) simp
  then show "sint w < 0 \<Longrightarrow> unat (- w) = nat (- sint w)"
    using sint_greater_eq [of w] by (simp add: unat_eq_nat_uint take_bit_int_eq_self del: nat_uint_eq)
qed

lemma printf_d_renders:
  assumes "length conv_buf = 36"
  shows "printf_d conv_buf w s =
    Some (fold putc (if sint w < 0 then 45 # digits 10 (nat (- sint w)) else digits 10 (nat (sint w))) s)"
proof (cases "sint w < 0")
  case True
  let ?ds = "digits 10 (unat (- w))"
  have ds: "0 \<notin> set (45 # ?ds)" "length ?ds \<le> 10" using digits_nonzero [of 10] u32_digits(2) by simp_all
  have "conv_buf = conv_buf ! 0 # drop 1 conv_buf" using assms by (cases conv_buf) auto
  then obtain c r where c: "conv_buf = c # r" "length r = 35" using assms by (cases conv_buf) auto
  show ?thesis
    using True c ds(2) itoa_digits [of 10 "unat (- w)" r] print_str_terminated [OF ds(1)] sint_as_unat(2) [OF True]
    by (simp add: printf_d_def at_off_def)
next
  case False
  have ds: "0 \<notin> set (digits 10 (unat w))" "length (digits 10 (unat w)) \<le> 10"
    using digits_nonzero [of 10] u32_digits(2) by simp_all
  show ?thesis
    using False assms ds(2) itoa_digits [of 10 "unat w" conv_buf] print_str_terminated [OF ds(1)] sint_as_unat(1) [of w]
    by (simp add: printf_d_def)
qed

lemma printf_u_renders:
  "length conv_buf = 36 \<Longrightarrow> printf_u conv_buf w s = Some (fold putc (digits 10 (unat w)) s)"
  using itoa_digits [of 10 "unat w" conv_buf] u32_digits(2) [of w] print_str_terminated digits_nonzero [of 10 "unat w"]
  by (simp add: printf_u_def)

lemma print_str_chars: "0 \<in> set b \<Longrightarrow> print_str b s = Some (fold putc (chars b) s)"
  by (metis chars_no_nul print_str_terminated terminatedE)

lemma printf_loop_renders:
  "\<lbrakk>render mode f args = Some bs; length conv_buf = 64\<rbrakk> \<Longrightarrow>
   \<exists>n. printf_loop conv_buf mode f k args s = Some (n, fold putc bs s)"
proof (induction f arbitrary: mode args bs k s)
  case Nil
  then show ?case by simp
next
  case (Cons c f)
  note IH = Cons.IH [OF _ Cons.prems(2)]
  have len: "length (take 36 conv_buf) = 36" using Cons.prems(2) by simp
  show ?case
  proof (cases mode)
    case None
    then show ?thesis using Cons.prems(1) IH by (auto split: if_splits)
  next
    case (Some alt)
    then show ?thesis
      using Cons.prems(1) IH
      by (auto simp: printf_x_renders [OF Cons.prems(2)] printf_u_renders [OF len] printf_d_renders [OF len]
          print_str_chars Let_def split: if_splits list.splits arg.splits)
  qed
qed

section \<open>Properties\<close>

text \<open>C38: \<^verbatim>\<open>printf\<close> prints what its format denotes.  For every format and every matching argument list
  it returns without leaving a conversion buffer and has put exactly the rendered text on
  the console: literal characters, \<^verbatim>\<open>%u\<close> and \<^verbatim>\<open>%x\<close> as the shortest digits of the word, \<^verbatim>\<open>%d\<close> as a
  sign and the digits of the magnitude down to the least 32-bit number, \<^verbatim>\<open>%#x\<close> as exactly
  eight hexadecimal digits, \<^verbatim>\<open>%c\<close> and \<^verbatim>\<open>%s\<close>.\<close>

theorem printf_renders:
  assumes "render None format args = Some bs" and "length conv_buf = 64"
  shows "\<exists>n. printf conv_buf format args s = Some (n, fold putc bs s)"
  unfolding printf_def by (rule printf_loop_renders [OF assms])

theorem printf_renders_witness:
  "(\<exists>n. printf (replicate 64 0) (cstr ''%d %#x\<newline>'') [Num (- 7), Num 0xAB] console_example =
      Some (n, fold putc (lit ''-7 000000AB\<newline>'') console_example))"
proof (rule printf_renders)
  show "render None (cstr ''%d %#x\<newline>'') [Num (- 7), Num 0xAB] = Some (lit ''-7 000000AB\<newline>'')"
    by (simp add: cstr_def digits.simps itoa_lookup_def) (simp add: numeral_eq_Suc)
qed simp

end
