(* ===== verification/Keyboard.thy ===== *)
theory Keyboard
  imports Printf
begin

text \<open>
  The line buffer of \<^verbatim>\<open>student-distrib/keyboard.c\<close>: the key table, \<^verbatim>\<open>keyboard_read\<close>, \<^verbatim>\<open>keyboard_write\<close>,
  \<^verbatim>\<open>handle_backspace\<close>, \<^verbatim>\<open>keyboard_init\<close>, the index accessors, and the two parts of
  \<^verbatim>\<open>keyboard_handler\<close> that store a character and that end a line.  The rest of the handler,
  which calls the file system, the clock and \<^verbatim>\<open>switch_terminal\<close>, is in a later theory.

  \<^verbatim>\<open>keyboard_read\<close> looks at \<^verbatim>\<open>keyboard_buf[-1]\<close> before it copies the first character.  That byte
  belongs to no object of the program; it is the state component \<open>keyboard_pre\<close>.
\<close>

section \<open>State\<close>

record keyboard = console +
  kb_lock :: u32
  shift :: u32
  caps :: u32
  ctrl :: u32
  alt :: u32
  enter :: u32
  keyboard_idx :: byte
  last_idx :: byte
  keyboard_buf :: "byte list"   \<comment> \<open>129 bytes\<close>
  keyboard_pre :: byte
  one_line_buf :: "byte list"   \<comment> \<open>81 bytes\<close>
  my_file_name :: "byte list"   \<comment> \<open>33 bytes\<close>
  kb_dentry :: dentry
  kb_count :: nat

definition keyboard_map :: "(byte \<times> byte) list" where
  "keyboard_map = [
    (0, 0), (27, 27), (49, 33), (50, 64), (51, 35), (52, 36), (53, 37), (54, 94), (55, 38),
     (56, 42), (57, 40), (48, 41), (45, 95), (61, 43), (32, 32), (9, 9), (113, 81), (119, 87),
     (101, 69), (114, 82), (116, 84), (121, 89), (117, 85), (105, 73), (111, 79), (112, 80),
     (91, 123), (93, 125), (10, 10), (0, 0), (97, 65), (115, 83), (100, 68), (102, 70), (103, 71),
     (104, 72), (106, 74), (107, 75), (108, 76), (59, 58), (96, 34), (96, 126), (0, 0), (92, 124),
     (122, 90), (120, 88), (99, 67), (118, 86), (98, 66), (110, 78), (109, 77), (44, 60), (46, 62),
     (47, 63), (0, 0), (0, 0), (0, 0), (32, 32), (0, 0), (0, 0), (0, 0), (0, 0), (0, 0), (0, 0),
     (0, 0), (0, 0), (0, 0), (0, 0), (0, 0), (0, 0), (0, 0), (0, 0), (0, 0), (0, 0), (45, 45),
     (0, 0), (0, 0), (0, 0), (43, 43)] @
     replicate 49 (0, 0)"

text \<open>\<^verbatim>\<open>keyboard_map[keycode][k]\<close>.\<close>

definition map_key :: "nat \<Rightarrow> u32 \<Rightarrow> byte option" where
  "map_key keycode k = do {
     (lower, upper) \<leftarrow> aget keyboard_map keycode;
     if k = 0 then Some lower else if k = 1 then Some upper else None
   }"

definition get_keyboard_index :: "'a keyboard_scheme \<Rightarrow> byte" where
  "get_keyboard_index s = keyboard_idx s"

definition get_keyboard_last_index :: "'a keyboard_scheme \<Rightarrow> byte" where
  "get_keyboard_last_index s = last_idx s"

definition set_keyboard_index :: "byte \<Rightarrow> 'a keyboard_scheme \<Rightarrow> 'a keyboard_scheme" where
  "set_keyboard_index new_dex s = s\<lparr>keyboard_idx := new_dex\<rparr>"

definition set_keyboard_last_index :: "byte \<Rightarrow> 'a keyboard_scheme \<Rightarrow> 'a keyboard_scheme" where
  "set_keyboard_last_index new_dex s = s\<lparr>last_idx := new_dex\<rparr>"

definition get_keyboard_idx :: "'a keyboard_scheme \<Rightarrow> nat \<times> nat" where
  "get_keyboard_idx s = (unat (last_idx s), unat (keyboard_idx s))"

text \<open>\<^verbatim>\<open>memset(keyboard_buf, ' ', MAX_BUF_SIZE)\<close>, which leaves the last byte of the buffer.\<close>

definition blank_buf :: "byte list \<Rightarrow> byte list" where
  "blank_buf b = replicate MAX_BUF_SIZE SPC @ drop MAX_BUF_SIZE b"

definition reset_line :: "'a keyboard_scheme \<Rightarrow> 'a keyboard_scheme" where
  "reset_line s = s\<lparr>keyboard_buf := blank_buf (keyboard_buf s), keyboard_idx := 0, last_idx := 0\<rparr>"

section \<open>Reading a line\<close>

text \<open>The search for the second newline from the right, from index \<open>n - 1\<close> down.\<close>

fun kbd_scan :: "byte list \<Rightarrow> nat \<Rightarrow> nat \<Rightarrow> nat option" where
  "kbd_scan kb 0 cnt = Some 0"
| "kbd_scan kb (Suc i) cnt = do {
     c \<leftarrow> aget kb i;
     if c = NL then if cnt + 1 = 2 then Some (i + 1) else kbd_scan kb i (cnt + 1)
     else kbd_scan kb i cnt
   }"

function kbd_copy :: "byte list \<Rightarrow> byte \<Rightarrow> int \<Rightarrow> nat \<Rightarrow> nat \<Rightarrow> byte list \<Rightarrow> (nat \<times> byte list) option" where
  "kbd_copy kb pre nbytes j i buf =
     (if i < length kb then
        if kb ! i = 0 then Some (i, buf)
        else do {
          p \<leftarrow> (if i = 0 then Some pre else aget kb (i - 1));
          if p = NL then Some (i, buf)
          else if int i - int j = nbytes then Some (i, buf)
          else do { buf \<leftarrow> aset buf i (kb ! i); kbd_copy kb pre nbytes j (Suc i) buf }
        }
      else None)"
  by pat_completeness auto
termination
  by (relation "measure (\<lambda>(kb, pre, nbytes, j, i, buf). length kb - i)") auto

declare kbd_copy.simps [simp del]

text \<open>\<open>None\<close> is also the reader that still waits for Enter.\<close>

definition keyboard_read :: "byte list \<Rightarrow> int \<Rightarrow> 'a keyboard_scheme \<Rightarrow> (int \<times> byte list \<times> 'a keyboard_scheme) option" where
  "keyboard_read buf nbytes s = do {
     let k = get_curr_exec_term s;
     t \<leftarrow> aget (terminals s) k;
     if tm_term_enter t = 0 then None
     else do {
       j \<leftarrow> kbd_scan (keyboard_buf s) (snd (get_keyboard_idx s)) 0;
       (i, buf) \<leftarrow> kbd_copy (keyboard_buf s) (keyboard_pre s) nbytes j j buf;
       buf \<leftarrow> aset buf i 0;
       s \<leftarrow> upd_term k (\<lambda>t. t\<lparr>tm_term_enter := 0\<rparr>) s;
       Some (int i - int j, buf, reset_line s)
     }
   }"

section \<open>Echo\<close>

definition keyboard_write :: "byte list \<Rightarrow> 'a keyboard_scheme \<Rightarrow> (int \<times> 'a keyboard_scheme) option" where
  "keyboard_write buf s =
     (let (l, k) = get_keyboard_idx s in
      if l \<noteq> k then
        if k < l \<or> k \<le> length buf then Some (int k - int l, fold putc (drop l (take k buf)) s) else None
      else Some (-1, s))"

definition keyboard_open :: int where "keyboard_open = 0"
definition keyboard_close :: int where "keyboard_close = -1"

definition keyboard_init :: "'a keyboard_scheme \<Rightarrow> 'a keyboard_scheme" where
  "keyboard_init s = enable_irq 1 (set_idt 0x21 keyboard_linkage_h ((reset_line s)\<lparr>enter := 0\<rparr>))"

definition handle_backspace :: "'a keyboard_scheme \<Rightarrow> 'a keyboard_scheme option" where
  "handle_backspace s =
     (if keyboard_idx s \<noteq> 0 then
        let c = find_last_char (screen_y s - 1) s in
        if screen_x s = 0 \<and> screen_y s \<noteq> 0 \<and> c = -1 then Some (s\<lparr>screen_y := screen_y s - 1\<rparr>)
        else do {
          let s = (if screen_x s = 0 \<and> screen_y s \<noteq> 0
                   then s\<lparr>screen_x := c + 2, screen_y := screen_y s - 1\<rparr> else s);
          let screen_y_temp = screen_y s;
          let screen_temp = screen_x s - 1;
          let s = s\<lparr>screen_x := screen_temp\<rparr>;
          b \<leftarrow> aset (keyboard_buf s) (unat (keyboard_idx s) - 1) 0;
          let s = s\<lparr>keyboard_buf := b, last_idx := last_idx s - 1\<rparr>;
          (r, s) \<leftarrow> keyboard_write (keyboard_buf s) s;
          let s = s\<lparr>screen_x := screen_temp, screen_y := screen_y_temp, keyboard_idx := keyboard_idx s - 1\<rparr>;
          Some (update_cursor (screen_y s) (screen_x s) s)
        }
      else Some (update_cursor (screen_y s) (screen_x s) s))"

section \<open>A character key and the Enter key\<close>

text \<open>\<^verbatim>\<open>terminals[get_cur_term()].term_enter = 1\<close>.\<close>

definition signal_enter :: "'a keyboard_scheme \<Rightarrow> 'a keyboard_scheme option" where
  "signal_enter s = (if 0 \<le> get_cur_term s
     then upd_term (nat (get_cur_term s)) (\<lambda>t. t\<lparr>tm_term_enter := 1\<rparr>) s else None)"

text \<open>The character stored for a key; Caps Lock inverts Shift for letters.\<close>

definition store_key :: "nat \<Rightarrow> byte \<Rightarrow> 'a keyboard_scheme \<Rightarrow> 'a keyboard_scheme option" where
  "store_key keycode ascii s =
     (if (97 \<le> sint ascii \<and> sint ascii \<le> 122 \<and> caps s \<noteq> 0) \<or> (caps s \<noteq> 0 \<and> 65 \<le> sint ascii \<and> sint ascii \<le> 90) then do {
        c \<leftarrow> map_key keycode (if shift s = 0 then 1 else 0);
        b \<leftarrow> aset (keyboard_buf s) (unat (keyboard_idx s)) c;
        Some (s\<lparr>keyboard_buf := b\<rparr>)
      } else if ascii \<noteq> 0 then do {
        b \<leftarrow> aset (keyboard_buf s) (unat (keyboard_idx s)) ascii;
        Some (s\<lparr>keyboard_buf := b\<rparr>)
      } else Some s)"

text \<open>The end of \<^verbatim>\<open>keyboard_handler\<close>, reached by a key with a character that no other case takes.\<close>

definition press_char :: "nat \<Rightarrow> byte \<Rightarrow> 'a keyboard_scheme \<Rightarrow> 'a keyboard_scheme option" where
  "press_char keycode ascii s =
     (if unat (keyboard_idx s) = MAX_BUF_SIZE then Some s
      else do {
        let at_end = (screen_x s = int NUM_COLS - 1 \<and> screen_y s = int NUM_ROWS - 1) \<or>
          (screen_y s = int NUM_ROWS - 1 \<and> ascii = NL);
        let s = (if at_end then vert_scroll s else s);
        if at_end \<and> screen_y s = int NUM_ROWS - 1 \<and> ascii = NL then Some s
        else do {
          s \<leftarrow> store_key keycode ascii s;
          let s = s\<lparr>keyboard_idx := keyboard_idx s + 1\<rparr>;
          s \<leftarrow> (if ascii = NL then do {
                 s \<leftarrow> signal_enter s;
                 b \<leftarrow> aset (keyboard_buf s) (unat (keyboard_idx s)) ascii;
                 Some (s\<lparr>keyboard_buf := b\<rparr>)
               } else Some s);
          (r, s) \<leftarrow> keyboard_write (keyboard_buf s) s;
          Some (s\<lparr>last_idx := last_idx s + 1\<rparr>)
        }
      })"

definition press_enter :: "byte \<Rightarrow> 'a keyboard_scheme \<Rightarrow> 'a keyboard_scheme option" where
  "press_enter ascii s = do {
     let s = (if screen_y s \<noteq> int NUM_ROWS - 1 then s\<lparr>screen_y := screen_y s + 1\<rparr> else vert_scroll s);
     let s = s\<lparr>screen_x := 0\<rparr>;
     let s = update_cursor (screen_y s) (screen_x s) s;
     b \<leftarrow> aset (keyboard_buf s) (unat (keyboard_idx s)) ascii;
     let s = s\<lparr>keyboard_buf := b\<rparr>;
     signal_enter s
   }"

section \<open>Display output leaves the keyboard alone\<close>

lemma putc_rest [simp]: "but_visible (putc ch s) = but_visible s"
  by (simp add: putc_def vert_scroll_def Let_def)

lemma fold_putc_rest [simp]: "but_visible (fold putc cs s) = but_visible s"
  by (induction cs arbitrary: s) simp_all

lemma vert_scroll_rest [simp]: "but_visible (vert_scroll s) = but_visible s"
  by (simp add: vert_scroll_def Let_def)

lemma rest_fields:
  assumes "but_visible s' = but_visible s"
  shows "keyboard_buf s' = keyboard_buf s" "keyboard_idx s' = keyboard_idx s" "last_idx s' = last_idx s"
    "shift s' = shift s" "caps s' = caps s" "keyboard_pre s' = keyboard_pre s" "ctrl s' = ctrl s" "alt s' = alt s"
    "terminals s' = terminals s" "curr_term s' = curr_term s" "curr_terminal_number s' = curr_terminal_number s"
proof -
  have "keyboard_buf (but_visible t) = keyboard_buf t" "keyboard_idx (but_visible t) = keyboard_idx t"
    "last_idx (but_visible t) = last_idx t" "shift (but_visible t) = shift t" "caps (but_visible t) = caps t"
    "keyboard_pre (but_visible t) = keyboard_pre t" "ctrl (but_visible t) = ctrl t" "alt (but_visible t) = alt t"
    "terminals (but_visible t) = terminals t" "curr_term (but_visible t) = curr_term t"
    "curr_terminal_number (but_visible t) = curr_terminal_number t" for t :: "'a keyboard_scheme"
    by (simp_all add: but_visible_def)
  then show "keyboard_buf s' = keyboard_buf s" "keyboard_idx s' = keyboard_idx s" "last_idx s' = last_idx s"
    "shift s' = shift s" "caps s' = caps s" "keyboard_pre s' = keyboard_pre s" "ctrl s' = ctrl s" "alt s' = alt s"
    "terminals s' = terminals s" "curr_term s' = curr_term s" "curr_terminal_number s' = curr_terminal_number s"
    using assms by metis+
qed

lemmas display_fields [simp] =
  rest_fields [OF putc_rest] rest_fields [OF fold_putc_rest] rest_fields [OF vert_scroll_rest] rest_fields [OF update_cursor_frame(4)]

section \<open>Typing a line\<close>

definition is_letter :: "byte \<Rightarrow> bool" where
  "is_letter c \<longleftrightarrow> (97 \<le> sint c \<and> sint c \<le> 122) \<or> (65 \<le> sint c \<and> sint c \<le> 90)"

text \<open>The character a key stands for: the shifted one if Shift is down, inverted for letters by
  Caps Lock; \<open>None\<close> for a key that types nothing.\<close>

definition key_char :: "nat \<Rightarrow> u32 \<Rightarrow> u32 \<Rightarrow> byte option" where
  "key_char k sh cp = do {
     a \<leftarrow> map_key k sh;
     if a = 0 \<or> a = NL then None
     else if is_letter a \<and> cp \<noteq> 0 then map_key k (if sh = 0 then 1 else 0)
     else Some a
   }"

lemma keyboard_map_letters:
  "list_all (\<lambda>(l, u). is_letter l \<or> is_letter u \<longrightarrow> l \<noteq> 0 \<and> l \<noteq> NL \<and> u \<noteq> 0 \<and> u \<noteq> NL) keyboard_map"
  by (simp add: keyboard_map_def is_letter_def list_all_iff)

lemma key_char_printable: "key_char k sh cp = Some c \<Longrightarrow> c \<noteq> 0 \<and> c \<noteq> NL"
proof -
  assume c: "key_char k sh cp = Some c"
  then obtain a where a: "map_key k sh = Some a" "a \<noteq> 0" "a \<noteq> NL"
    by (auto simp: key_char_def bind_eq_Some_conv split: if_splits)
  obtain l u where lu: "aget keyboard_map k = Some (l, u)" "a = (if sh = 0 then l else u)"
    using a(1) by (auto simp: map_key_def bind_eq_Some_conv split: if_splits)
  then have "(l, u) \<in> set keyboard_map" by (metis aget_SomeD nth_mem)
  then have "is_letter l \<or> is_letter u \<longrightarrow> l \<noteq> 0 \<and> l \<noteq> NL \<and> u \<noteq> 0 \<and> u \<noteq> NL"
    using keyboard_map_letters by (auto simp: list_all_iff)
  then show ?thesis
    using c a lu by (auto simp: key_char_def map_key_def split: if_splits)
qed

definition line_inv :: "'a keyboard_scheme \<Rightarrow> bool" where
  "line_inv s \<longleftrightarrow> length (keyboard_buf s) = 129 \<and> unat (keyboard_idx s) \<le> MAX_BUF_SIZE \<and>
     last_idx s = keyboard_idx s \<and>
     (\<forall>i < unat (keyboard_idx s). keyboard_buf s ! i \<noteq> 0 \<and> keyboard_buf s ! i \<noteq> NL)"

definition line_of :: "'a keyboard_scheme \<Rightarrow> byte list" where
  "line_of s = take (unat (keyboard_idx s)) (keyboard_buf s)"

lemma unat_Suc_byte: "unat (b :: byte) < 128 \<Longrightarrow> unat (b + 1) = Suc (unat b)"
  by (simp add: unat_word_ariths(1))

lemma press_char_types:
  assumes "line_inv s" and "unat (keyboard_idx s) < MAX_BUF_SIZE"
    and "map_key k (shift s) = Some a" and "key_char k (shift s) (caps s) = Some c"
  shows "\<exists>s'. press_char k a s = Some s' \<and> line_inv s' \<and> line_of s' = line_of s @ [c] \<and>
    shift s' = shift s \<and> caps s' = caps s \<and> terminals s' = terminals s \<and> curr_term s' = curr_term s \<and>
    curr_terminal_number s' = curr_terminal_number s \<and> keyboard_pre s' = keyboard_pre s \<and>
    keyboard_idx s' = keyboard_idx s + 1 \<and> ctrl s' = ctrl s \<and> alt s' = alt s"
proof -
  let ?i = "unat (keyboard_idx s)"
  define at_end where "at_end \<longleftrightarrow> (screen_x s = int NUM_COLS - 1 \<and> screen_y s = int NUM_ROWS - 1)"
  define t where "t = (if at_end then vert_scroll s else s)"
  have t: "keyboard_buf t = keyboard_buf s" "keyboard_idx t = keyboard_idx s" "last_idx t = last_idx s"
    "shift t = shift s" "caps t = caps s" "terminals t = terminals s" "curr_term t = curr_term s"
    "curr_terminal_number t = curr_terminal_number s" "keyboard_pre t = keyboard_pre s" "ctrl t = ctrl s" "alt t = alt s"
    by (simp_all add: t_def)
  have a: "a \<noteq> 0" "a \<noteq> NL" using assms(3,4) by (auto simp: key_char_def split: if_splits)
  have c: "c \<noteq> 0" "c \<noteq> NL" using key_char_printable [OF assms(4)] by auto
  have i: "?i < 129" "?i < 128" "?i \<noteq> MAX_BUF_SIZE" using assms(2) by (simp_all add: MAX_BUF_SIZE_def)
  have len: "length (keyboard_buf s) = 129" "last_idx s = keyboard_idx s" using assms(1) by (simp_all add: line_inv_def)
  define u where "u = t\<lparr>keyboard_buf := (keyboard_buf s)[?i := c], keyboard_idx := keyboard_idx s + 1\<rparr>"
  have echo: "keyboard_write (keyboard_buf u) u = Some (1, putc c u)"
  proof -
    have "drop ?i (take (Suc ?i) (keyboard_buf u)) = [c]"
      using i len(1) by (simp add: u_def take_Suc_conv_app_nth)
    then show ?thesis
      using unat_Suc_byte [OF i(2)] i len by (simp add: keyboard_write_def get_keyboard_idx_def u_def t)
  qed
  have store: "store_key k a t = Some (t\<lparr>keyboard_buf := (keyboard_buf s)[?i := c]\<rparr>)"
  proof (cases "is_letter a \<and> caps s \<noteq> 0")
    case True
    then have "map_key k (if shift s = 0 then 1 else 0) = Some c"
      using assms(3,4) a by (simp only: key_char_def Option.bind.bind_lunit) simp
    moreover have "97 \<le> sint a \<and> sint a \<le> 122 \<and> caps s \<noteq> 0 \<or> caps s \<noteq> 0 \<and> 65 \<le> sint a \<and> sint a \<le> 90"
      using True unfolding is_letter_def by blast
    ultimately show ?thesis using i(1) len(1) by (simp only: store_key_def t if_True) simp
  next
    case False
    then have "c = a" using assms(3,4) a by (simp only: key_char_def Option.bind.bind_lunit) simp
    moreover have "\<not> (97 \<le> sint a \<and> sint a \<le> 122 \<and> caps s \<noteq> 0 \<or> caps s \<noteq> 0 \<and> 65 \<le> sint a \<and> sint a \<le> 90)"
      using False unfolding is_letter_def by blast
    ultimately show ?thesis using i(1) len(1) a(1) by (simp only: store_key_def t if_False) simp
  qed
  have press: "press_char k a s = Some ((putc c u)\<lparr>last_idx := last_idx (putc c u) + 1\<rparr>)"
    unfolding press_char_def Let_def
    using i(3) a(2) echo unfolding at_end_def [symmetric]
    by (simp add: t_def [symmetric] t store) (simp add: u_def t)
  have "line_of ((putc c u)\<lparr>last_idx := last_idx (putc c u) + 1\<rparr>) = line_of s @ [c]"
    using unat_Suc_byte [OF i(2)] i len by (simp add: line_of_def u_def take_Suc_conv_app_nth)
  moreover have "line_inv ((putc c u)\<lparr>last_idx := last_idx (putc c u) + 1\<rparr>)"
    using assms(1) unat_Suc_byte [OF i(2)] i c len
    by (auto simp: line_inv_def u_def t nth_list_update MAX_BUF_SIZE_def)
  ultimately show ?thesis using press by (simp add: u_def t)
qed

fun type_keys :: "nat list \<Rightarrow> 'a keyboard_scheme \<Rightarrow> 'a keyboard_scheme option" where
  "type_keys [] s = Some s"
| "type_keys (k # ks) s = do { a \<leftarrow> map_key k (shift s); s \<leftarrow> press_char k a s; type_keys ks s }"

lemma type_keys_line:
  assumes "line_inv s" and "map (\<lambda>k. key_char k (shift s) (caps s)) ks = map Some cs"
    and "unat (keyboard_idx s) + length cs \<le> MAX_BUF_SIZE"
  shows "\<exists>s'. type_keys ks s = Some s' \<and> line_inv s' \<and> line_of s' = line_of s @ cs \<and>
    terminals s' = terminals s \<and> curr_term s' = curr_term s \<and>
    curr_terminal_number s' = curr_terminal_number s \<and> keyboard_pre s' = keyboard_pre s"
  using assms
proof (induction ks arbitrary: s cs)
  case Nil
  then show ?case by simp
next
  case (Cons k ks)
  then obtain c cs' where cs: "cs = c # cs'" "key_char k (shift s) (caps s) = Some c"
    "map (\<lambda>k. key_char k (shift s) (caps s)) ks = map Some cs'" by (cases cs) auto
  obtain a where a: "map_key k (shift s) = Some a" using cs(2) by (auto simp: key_char_def bind_eq_Some_conv)
  have room: "unat (keyboard_idx s) < MAX_BUF_SIZE" using Cons.prems(3) cs(1) by simp
  obtain t where t: "press_char k a s = Some t" "line_inv t" "line_of t = line_of s @ [c]" "shift t = shift s"
    "caps t = caps s" "terminals t = terminals s" "curr_term t = curr_term s"
    "curr_terminal_number t = curr_terminal_number s" "keyboard_pre t = keyboard_pre s"
    "keyboard_idx t = keyboard_idx s + 1"
    using press_char_types [OF Cons.prems(1) room a cs(2)] by blast
  have "unat (keyboard_idx t) = Suc (unat (keyboard_idx s))"
    using t(10) room unat_Suc_byte [of "keyboard_idx s"] by (simp add: MAX_BUF_SIZE_def)
  then show ?case
    using Cons.IH [OF t(2), of cs'] t cs a Cons.prems(3) by auto
qed

section \<open>Reading it back\<close>

lemma kbd_scan_line: "\<forall>i < n. kb ! i \<noteq> NL \<Longrightarrow> n \<le> length kb \<Longrightarrow> kbd_scan kb n cnt = Some 0"
  by (induction n) auto

lemma kbd_copy_line:
  assumes "kb = cs @ NL # rest" and "rest \<noteq> []" and "0 \<notin> set cs" and "NL \<notin> set cs" and "pre \<noteq> NL"
    and "0 \<le> nbytes" and "m = min (nat nbytes) (Suc (length cs))" and "m \<le> length buf" and "i \<le> m"
  shows "kbd_copy kb pre nbytes 0 i buf = Some (m, take i buf @ drop i (take m (cs @ [NL])) @ drop m buf)"
  using assms(8,9)
proof (induction "m - i" arbitrary: i buf)
  case 0
  then have i: "i = m" by simp
  show ?case
  proof (cases "m = Suc (length cs)")
    case True
    then have "kb ! (i - 1) = NL" "i < length kb" "i \<noteq> 0" using assms(1,2) i by (auto simp: nth_append)
    then show ?thesis using i by (simp add: kbd_copy.simps [of kb pre nbytes 0 m])
  next
    case False
    then have "int i = nbytes" "i < length kb" using assms(1,6,7) i by auto
    then show ?thesis using i by (simp add: kbd_copy.simps [of kb pre nbytes 0 m])
  qed
next
  case (Suc n)
  have i: "i < m" "i \<le> length cs" using Suc.hyps(2) assms(7) by linarith+
  have at: "kb ! i = (cs @ [NL]) ! i" "i < length kb" using assms(1) i(2) by (auto simp: nth_append)
  have "kb ! i \<noteq> 0" using at i(2) assms(3) by (cases "i < length cs") (auto simp: nth_append dest: nth_mem)
  moreover have "0 < i \<Longrightarrow> kb ! (i - 1) \<noteq> NL"
    using assms(1,4) i(2) by (metis One_nat_def Suc_le_eq Suc_pred nth_append nth_mem)
  moreover have "int i \<noteq> nbytes" using i(1) assms(7) by auto
  moreover have stored: "aset buf i (kb ! i) = Some (buf[i := (cs @ [NL]) ! i])"
    using i(1) Suc.prems(1) at(1) by simp
  ultimately have step: "kbd_copy kb pre nbytes 0 i buf = kbd_copy kb pre nbytes 0 (Suc i) (buf[i := (cs @ [NL]) ! i])"
    using at(2) assms(5) stored
    by (cases "i = 0") (simp_all add: kbd_copy.simps [of kb pre nbytes 0 i] kbd_copy.simps [of kb pre nbytes 0 0])
  have "drop i (take m (cs @ [NL])) = (cs @ [NL]) ! i # drop (Suc i) (take m (cs @ [NL]))"
    using i by (subst Cons_nth_drop_Suc [symmetric]) (auto simp del: take_append)
  moreover have "kbd_copy kb pre nbytes 0 (Suc i) (buf[i := (cs @ [NL]) ! i]) =
      Some (m, take (Suc i) (buf[i := (cs @ [NL]) ! i]) @ drop (Suc i) (take m (cs @ [NL])) @ drop m (buf[i := (cs @ [NL]) ! i]))"
    by (rule Suc.hyps(1)) (use Suc.hyps(2) Suc.prems i in auto)
  moreover have "take (Suc i) (buf[i := (cs @ [NL]) ! i]) = take i buf @ [(cs @ [NL]) ! i]"
    using i(1) Suc.prems(1) by (subst take_Suc_conv_app_nth) simp_all
  moreover have "drop m (buf[i := (cs @ [NL]) ! i]) = drop m buf" using i(1) by simp
  ultimately show ?case
    unfolding step by (simp only: append.assoc append_Cons append_Nil)
qed

text \<open>The state of the line when Enter has been pressed on the terminal that executes.\<close>

lemma press_enter_ends:
  assumes "line_inv s" and "displayed s" and "exec_ok s"
  shows "\<exists>s' rest. press_enter NL s = Some s' \<and> keyboard_buf s' = line_of s @ NL # rest \<and>
    length (keyboard_buf s') = 129 \<and>
    keyboard_idx s' = keyboard_idx s \<and> keyboard_pre s' = keyboard_pre s \<and> curr_term s' = curr_term s \<and>
    terminals s' = (terminals s)[get_curr_exec_term s := (terminals s ! get_curr_exec_term s)\<lparr>tm_term_enter := 1\<rparr>]"
proof -
  let ?i = "unat (keyboard_idx s)"
  have len: "length (keyboard_buf s) = 129" "?i < 129" using assms(1) by (auto simp: line_inv_def line_of_def MAX_BUF_SIZE_def)
  have cur: "nat (get_cur_term s) = get_curr_exec_term s" "0 \<le> get_cur_term s" "get_curr_exec_term s < length (terminals s)"
    using assms(2,3) by (auto simp: displayed_def exec_ok_def)
  define t where "t = (if screen_y s \<noteq> int NUM_ROWS - 1 then s\<lparr>screen_y := screen_y s + 1\<rparr> else vert_scroll s)"
  define u where "u = update_cursor (screen_y t) 0 (t\<lparr>screen_x := 0\<rparr>)"
  have t: "keyboard_buf t = keyboard_buf s" "keyboard_idx t = keyboard_idx s"
    "curr_terminal_number t = curr_terminal_number s" by (simp_all add: t_def)
  have u: "keyboard_buf u = keyboard_buf s" "keyboard_idx u = keyboard_idx s" "keyboard_pre u = keyboard_pre s"
    "terminals u = terminals s" "curr_term u = curr_term s" "curr_terminal_number u = curr_terminal_number s"
    by (simp_all add: u_def t_def)
  let ?s' = "u\<lparr>keyboard_buf := (keyboard_buf s)[?i := NL],
    terminals := (terminals s)[get_curr_exec_term s := (terminals s ! get_curr_exec_term s)\<lparr>tm_term_enter := 1\<rparr>]\<rparr>"
  have "press_enter NL s = Some ?s'"
    using len cur by (simp add: press_enter_def t_def [symmetric] u_def [symmetric] u t signal_enter_def upd_term_def
        get_cur_term_def Let_def)
  moreover have "(keyboard_buf s)[?i := NL] = line_of s @ NL # drop (Suc ?i) (keyboard_buf s)"
    using len by (simp add: line_of_def upd_conv_take_nth_drop)
  moreover have "length (line_of s) = ?i" using len by (simp add: line_of_def)
  ultimately show ?thesis using len u by (intro exI [of _ ?s'] exI [of _ "drop (Suc ?i) (keyboard_buf s)"]) simp
qed

lemma press_enter_line:
  assumes "line_inv s" and "displayed s" and "exec_ok s" and "length (line_of s) < MAX_BUF_SIZE"
  shows "\<exists>s' rest. press_enter NL s = Some s' \<and> keyboard_buf s' = line_of s @ NL # rest \<and> rest \<noteq> [] \<and>
    length (keyboard_buf s') = 129 \<and>
    keyboard_idx s' = keyboard_idx s \<and> keyboard_pre s' = keyboard_pre s \<and> curr_term s' = curr_term s \<and>
    terminals s' = (terminals s)[get_curr_exec_term s := (terminals s ! get_curr_exec_term s)\<lparr>tm_term_enter := 1\<rparr>]"
proof -
  have "rest \<noteq> []" if "length (line_of s @ NL # rest) = 129" for rest using that assms(4) by (auto simp: MAX_BUF_SIZE_def)
  then show ?thesis using press_enter_ends [OF assms(1-3)] by metis
qed

text \<open>A line that Enter has ended waits for the reader on the executing terminal.\<close>

definition line_ready :: "byte list \<Rightarrow> 'a keyboard_scheme \<Rightarrow> bool" where
  "line_ready cs s \<longleftrightarrow> take (Suc (length cs)) (keyboard_buf s) = cs @ [NL] \<and> Suc (length cs) < length (keyboard_buf s) \<and>
     length (keyboard_buf s) = 129 \<and> 0 \<notin> set cs \<and> NL \<notin> set cs \<and> unat (keyboard_idx s) = length cs \<and> keyboard_pre s \<noteq> NL \<and>
     exec_ok s \<and> tm_term_enter (terminals s ! get_curr_exec_term s) \<noteq> 0"

definition line_taken :: "'a keyboard_scheme \<Rightarrow> 'a keyboard_scheme" where
  "line_taken s = reset_line (s\<lparr>terminals := (terminals s)[get_curr_exec_term s :=
     (terminals s ! get_curr_exec_term s)\<lparr>tm_term_enter := 0\<rparr>]\<rparr>)"

lemma read_ready_line:
  assumes "line_ready cs s" and "0 \<le> nbytes" and "m = min (nat nbytes) (Suc (length cs))" and "m < length buf"
  shows "keyboard_read buf nbytes s = Some (int m, take m (cs @ [NL]) @ 0 # drop (Suc m) buf, line_taken s)"
proof -
  let ?k = "get_curr_exec_term s"
  obtain rest where kb: "keyboard_buf s = cs @ NL # rest" "rest \<noteq> []"
  proof
    show "keyboard_buf s = cs @ NL # drop (Suc (length cs)) (keyboard_buf s)"
      using append_take_drop_id [of "Suc (length cs)" "keyboard_buf s"] assms(1) by (simp add: line_ready_def del: append_take_drop_id)
    show "drop (Suc (length cs)) (keyboard_buf s) \<noteq> []" using assms(1) by (simp add: line_ready_def)
  qed
  have r: "0 \<notin> set cs" "NL \<notin> set cs" "unat (keyboard_idx s) = length cs" "keyboard_pre s \<noteq> NL" "?k < length (terminals s)"
    "tm_term_enter (terminals s ! ?k) \<noteq> 0"
    using assms(1) by (simp_all add: line_ready_def exec_ok_def)
  have scan: "kbd_scan (keyboard_buf s) (unat (keyboard_idx s)) 0 = Some 0"
    using r(2) by (intro kbd_scan_line) (auto simp: kb(1) r(3) nth_append dest: nth_mem)
  have copy: "kbd_copy (keyboard_buf s) (keyboard_pre s) nbytes 0 0 buf = Some (m, take 0 buf @ drop 0 (take m (cs @ [NL])) @ drop m buf)"
    by (rule kbd_copy_line [OF kb r(1,2,4) assms(2,3)]) (use assms(4) in auto)
  have len: "length (take m (cs @ [NL])) = m" using assms(3) by (simp del: take_append)
  have "aset (xs @ drop m buf) m 0 = Some (xs @ 0 # drop (Suc m) buf)" if "length xs = m" for xs
    using that assms(4) Cons_nth_drop_Suc [of m buf, symmetric] by (simp add: list_update_append)
  from this [OF len]
  have set: "aset (take m (cs @ [NL]) @ drop m buf) m 0 = Some (take m (cs @ [NL]) @ 0 # drop (Suc m) buf)" .
  show ?thesis
    using r(5,6) scan copy set by (simp del: take_append add: Let_def keyboard_read_def get_keyboard_idx_def upd_term_def line_taken_def)
qed

lemma read_after_enter:
  assumes "keyboard_buf s = cs @ NL # rest" and "rest \<noteq> []" and "length (keyboard_buf s) = 129"
    and "0 \<notin> set cs" and "NL \<notin> set cs" and "unat (keyboard_idx s) = length cs" and "keyboard_pre s \<noteq> NL" and "exec_ok s"
    and "tm_term_enter (terminals s ! get_curr_exec_term s) \<noteq> 0"
    and "0 \<le> nbytes" and "m = min (nat nbytes) (Suc (length cs))" and "m < length buf"
  shows "\<exists>s'. keyboard_read buf nbytes s = Some (int m, take m (cs @ [NL]) @ 0 # drop (Suc m) buf, s') \<and>
    line_inv s' \<and> keyboard_idx s' = 0 \<and> keyboard_read buf nbytes s' = None"
proof -
  have "line_ready cs s" using assms(1-9) by (cases rest) (simp_all add: line_ready_def)
  from read_ready_line [OF this assms(10-12)]
  have "keyboard_read buf nbytes s = Some (int m, take m (cs @ [NL]) @ 0 # drop (Suc m) buf, line_taken s)" .
  moreover have "line_inv (line_taken s)" "keyboard_idx (line_taken s) = 0"
    using assms(3) by (simp_all add: line_taken_def reset_line_def line_inv_def blank_buf_def MAX_BUF_SIZE_def)
  moreover have "keyboard_read buf nbytes (line_taken s) = None"
    using assms(8) by (simp add: keyboard_read_def line_taken_def reset_line_def get_curr_exec_term_def exec_ok_def)
  ultimately show ?thesis by blast
qed

section \<open>Properties\<close>

definition keyboard_example :: keyboard where
  "keyboard_example = console.extend (console_example\<lparr>curr_term := 0\<rparr>) \<lparr>kb_lock = 0, shift = 0, caps = 0, ctrl = 0, alt = 0, enter = 0,
     keyboard_idx = 0, last_idx = 0, keyboard_buf = replicate 128 SPC @ [0], keyboard_pre = 0,
     one_line_buf = replicate 81 0, my_file_name = replicate 33 0,
     kb_dentry = \<lparr>file_name = replicate 33 0, file_type = 0, inode = 0\<rparr>, kb_count = 0\<rparr>"

lemma keyboard_example_facts:
  "line_inv keyboard_example" "displayed keyboard_example" "exec_ok keyboard_example" "keyboard_idx keyboard_example = 0"
  "keyboard_pre keyboard_example = 0" "shift keyboard_example = 0" "caps keyboard_example = 0"
  by (simp_all add: keyboard_example_def console.defs line_inv_def displayed_def exec_ok_def get_curr_exec_term_def
      get_cur_term_def console_example_def files.defs)

text \<open>what is typed is what is read.  On an empty line of the terminal that is shown and executes,
  typing any keys that stand for characters, at most 127 of them, then Enter, gives a
  \<^verbatim>\<open>keyboard_read\<close> that returns the characters with Shift and Caps Lock applied, then the newline,
  cut to \<^verbatim>\<open>nbytes\<close>, with a closing NUL and nothing else of the caller's buffer changed; the line
  is empty again and the next read waits for the next Enter.\<close>

theorem typed_line_is_read:
  assumes "line_inv s" and "keyboard_idx s = 0" and "displayed s" and "exec_ok s" and "keyboard_pre s \<noteq> NL"
    and "map (\<lambda>k. key_char k (shift s) (caps s)) ks = map Some cs" and "length cs \<le> 127"
    and "0 \<le> nbytes" and "m = min (nat nbytes) (Suc (length cs))" and "m < length buf"
  shows "\<exists>s1 s2 s3. type_keys ks s = Some s1 \<and> press_enter NL s1 = Some s2 \<and>
    keyboard_read buf nbytes s2 = Some (int m, take m (cs @ [NL]) @ 0 # drop (Suc m) buf, s3) \<and>
    line_inv s3 \<and> keyboard_idx s3 = 0 \<and> keyboard_read buf nbytes s3 = None"
proof -
  have empty: "line_of s = []" using assms(2) by (simp add: line_of_def)
  obtain s1 where s1: "type_keys ks s = Some s1" "line_inv s1" "line_of s1 = cs" "terminals s1 = terminals s"
    "curr_term s1 = curr_term s" "curr_terminal_number s1 = curr_terminal_number s" "keyboard_pre s1 = keyboard_pre s"
    using type_keys_line [OF assms(1,6)] assms(2,7) empty by (auto simp: MAX_BUF_SIZE_def)
  have exec: "displayed s1" "exec_ok s1" "get_curr_exec_term s1 = get_curr_exec_term s"
    using assms(3,4) s1 by (simp_all add: displayed_def exec_ok_def get_curr_exec_term_def get_cur_term_def)
  obtain s2 rest where s2: "press_enter NL s1 = Some s2" "keyboard_buf s2 = cs @ NL # rest" "rest \<noteq> []"
    "length (keyboard_buf s2) = 129" "keyboard_idx s2 = keyboard_idx s1" "keyboard_pre s2 = keyboard_pre s1" "curr_term s2 = curr_term s1"
    "terminals s2 = (terminals s1)[get_curr_exec_term s1 := (terminals s1 ! get_curr_exec_term s1)\<lparr>tm_term_enter := 1\<rparr>]"
    using press_enter_line [OF s1(2) exec(1,2)] s1(3) assms(7) by (auto simp: MAX_BUF_SIZE_def)
  have k: "get_curr_exec_term s2 = get_curr_exec_term s1" "get_curr_exec_term s1 < length (terminals s1)"
    using s2(7) exec(2) by (simp_all add: get_curr_exec_term_def exec_ok_def)
  have cs: "0 \<notin> set cs" "NL \<notin> set cs"
    using s1(2,3) by (auto simp: line_inv_def line_of_def in_set_conv_nth)
  have idx: "unat (keyboard_idx s2) = length cs"
    using s1(2,3) s2(5) by (auto simp: line_inv_def line_of_def MAX_BUF_SIZE_def)
  have "\<exists>s3. keyboard_read buf nbytes s2 = Some (int m, take m (cs @ [NL]) @ 0 # drop (Suc m) buf, s3) \<and>
      line_inv s3 \<and> keyboard_idx s3 = 0 \<and> keyboard_read buf nbytes s3 = None"
    by (rule read_after_enter [OF s2(2,3,4) cs idx _ _ _ assms(8-10)]) (use k s2(6,8) s1(7) assms(5) in \<open>simp_all add: exec_ok_def\<close>)
  then show ?thesis using s1(1) s2(1) by blast
qed

theorem typed_line_is_read_witness:
  "\<exists>s1 s2 s3. type_keys [0x26, 0x1F] keyboard_example = Some s1 \<and> press_enter NL s1 = Some s2 \<and>
    keyboard_read (replicate 8 0) 6 s2 =
      Some (int 3, take 3 (lit ''ls'' @ [NL]) @ 0 # drop (Suc 3) (replicate 8 0), s3) \<and>
    line_inv s3 \<and> keyboard_idx s3 = 0 \<and> keyboard_read (replicate 8 0) 6 s3 = None"
proof (rule typed_line_is_read)
  show "map (\<lambda>k. key_char k (shift keyboard_example) (caps keyboard_example)) [0x26, 0x1F] = map Some (lit ''ls'')"
    by (simp add: keyboard_example_facts key_char_def map_key_def keyboard_map_def aget_def)
qed (simp_all add: keyboard_example_facts)

lemma kbd_copy_full:
  assumes "0 \<notin> set cs" and "NL \<notin> set cs" and "pre \<noteq> NL" and "int (Suc (length cs)) < nbytes" and "i \<le> Suc (length cs)"
  shows "kbd_copy (cs @ [NL]) pre nbytes 0 i buf = None"
  using assms(5)
proof (induction "Suc (length cs) - i" arbitrary: i buf)
  case 0
  then show ?case by (simp add: kbd_copy.simps [of "cs @ [NL]"])
next
  case (Suc n)
  let ?kb = "cs @ [NL]"
  have i: "i < length ?kb" using Suc.hyps(2) by simp
  then have "?kb ! i \<noteq> 0" using assms(1) in_set_conv_nth [of 0 cs] by (cases "i < length cs") (auto simp: nth_append)
  moreover obtain p where "(if i = 0 then Some pre else aget ?kb (i - 1)) = Some p" "p \<noteq> NL"
    using assms(2,3) i in_set_conv_nth [of NL cs] by (cases "i = 0") (auto simp: nth_append)
  moreover have "kbd_copy ?kb pre nbytes 0 (Suc i) b = None" for b
    by (rule Suc.hyps(1)) (use Suc.hyps(2) i in auto)
  ultimately show ?case using assms(4) i by (subst kbd_copy.simps) (simp split: bind_splits)
qed

text \<open>C18: a line of 128 characters is read past the end of the buffer.  Typing 128 characters on an empty line of the
  terminal that is shown and executes, then Enter, puts the newline over the NUL that ends the buffer.  The reader then
  does not wait: the terminal's Enter flag is set and the search for the line's start succeeds.  But for a caller that asks
  for more than 129 bytes the copying loop reads the byte behind the buffer before it looks for the newline (the model's
  \<open>keyboard_read\<close> has no result because of that access).  That one byte is all it reads there: with any byte behind the buffer the
  loop stops at it, having copied the 128 characters and the newline.\<close>

theorem full_line_overruns:
  assumes "line_inv s" and "keyboard_idx s = 0" and "displayed s" and "exec_ok s" and "keyboard_pre s \<noteq> NL"
    and "map (\<lambda>k. key_char k (shift s) (caps s)) ks = map Some cs" and "length cs = 128"
    and "129 < nbytes" and "129 < length buf"
  shows "\<exists>s1 s2. type_keys ks s = Some s1 \<and> press_enter NL s1 = Some s2 \<and>
    tm_term_enter (terminals s2 ! get_curr_exec_term s2) = 1 \<and>
    kbd_scan (keyboard_buf s2) (snd (get_keyboard_idx s2)) 0 = Some 0 \<and>
    kbd_copy (keyboard_buf s2) (keyboard_pre s2) nbytes 0 0 buf = None \<and> keyboard_read buf nbytes s2 = None \<and>
    (\<forall>c. kbd_copy (keyboard_buf s2 @ [c]) (keyboard_pre s2) nbytes 0 0 buf = Some (129, cs @ NL # drop 129 buf))"
proof -
  have empty: "line_of s = []" using assms(2) by (simp add: line_of_def)
  obtain s1 where s1: "type_keys ks s = Some s1" "line_inv s1" "line_of s1 = cs" "terminals s1 = terminals s"
    "curr_term s1 = curr_term s" "curr_terminal_number s1 = curr_terminal_number s" "keyboard_pre s1 = keyboard_pre s"
    using type_keys_line [OF assms(1,6)] assms(2,7) empty by (auto simp: MAX_BUF_SIZE_def)
  have exec: "displayed s1" "exec_ok s1" using assms(3,4) s1
    by (simp_all add: displayed_def exec_ok_def get_curr_exec_term_def get_cur_term_def)
  obtain s2 where s2: "press_enter NL s1 = Some s2" "keyboard_buf s2 = cs @ [NL]"
    "keyboard_idx s2 = keyboard_idx s1" "keyboard_pre s2 = keyboard_pre s" "curr_term s2 = curr_term s1"
    "terminals s2 = (terminals s1)[get_curr_exec_term s1 := (terminals s1 ! get_curr_exec_term s1)\<lparr>tm_term_enter := 1\<rparr>]"
    using press_enter_ends [OF s1(2) exec] s1(3,7) assms(7) by auto
  have cs: "0 \<notin> set cs" "NL \<notin> set cs" using s1(2,3) by (auto simp: line_inv_def line_of_def in_set_conv_nth)
  have idx: "unat (keyboard_idx s2) = 128" using s1(2,3) s2(3) assms(7) by (auto simp: line_inv_def line_of_def MAX_BUF_SIZE_def)
  have scan: "kbd_scan (keyboard_buf s2) (snd (get_keyboard_idx s2)) 0 = Some 0"
    unfolding get_keyboard_idx_def snd_conv idx s2(2)
    by (rule kbd_scan_line) (use cs(2) assms(7) in_set_conv_nth [of NL cs] in \<open>auto simp: nth_append\<close>)
  moreover have copy: "kbd_copy (keyboard_buf s2) (keyboard_pre s2) nbytes 0 0 buf = None"
    unfolding s2(2) by (rule kbd_copy_full [OF cs]) (use s2(4) assms(5,7,8) in simp_all)
  moreover have "keyboard_read buf nbytes s2 = None"
    using scan copy unfolding keyboard_read_def Let_def by (cases "aget (terminals s2) (get_curr_exec_term s2)") simp_all
  moreover have "kbd_copy (keyboard_buf s2 @ [c]) (keyboard_pre s2) nbytes 0 0 buf = Some (129, cs @ NL # drop 129 buf)" for c
    using kbd_copy_line [of "keyboard_buf s2 @ [c]" cs "[c]" "keyboard_pre s2" nbytes 129 buf 0] s2(2,4) cs assms(5,7-9) by simp
  moreover have "tm_term_enter (terminals s2 ! get_curr_exec_term s2) = 1"
    using exec(2) s2(5,6) by (simp add: get_curr_exec_term_def exec_ok_def)
  ultimately show ?thesis using s1(1) s2(1) by blast
qed

theorem full_line_overruns_witness:
  "\<exists>s1 s2. type_keys (replicate 128 0x1E) keyboard_example = Some s1 \<and> press_enter NL s1 = Some s2 \<and>
    tm_term_enter (terminals s2 ! get_curr_exec_term s2) = 1 \<and>
    kbd_scan (keyboard_buf s2) (snd (get_keyboard_idx s2)) 0 = Some 0 \<and>
    kbd_copy (keyboard_buf s2) (keyboard_pre s2) 150 0 0 (replicate 200 0) = None \<and> keyboard_read (replicate 200 0) 150 s2 = None \<and>
    (\<forall>c. kbd_copy (keyboard_buf s2 @ [c]) (keyboard_pre s2) 150 0 0 (replicate 200 0) =
       Some (129, replicate 128 97 @ NL # drop 129 (replicate 200 0)))"
proof (rule full_line_overruns)
  have "key_char 0x1E (shift keyboard_example) (caps keyboard_example) = Some 97"
    by (simp add: keyboard_example_facts key_char_def map_key_def keyboard_map_def aget_def)
  then show "map (\<lambda>k. key_char k (shift keyboard_example) (caps keyboard_example)) (replicate 128 0x1E) = map Some (replicate 128 97)"
    unfolding map_replicate by simp
qed (simp_all add: keyboard_example_facts)

text \<open>Backspace takes back the last character.  On a line that is not empty, with the cursor past
  the first column, \<^verbatim>\<open>handle_backspace\<close> removes the last character of the line, blanks its cell
  on the screen and nothing else of it, and puts the cursor there.\<close>

theorem backspace_erases:
  assumes "line_inv s" and "line_of s \<noteq> []" and "visible_ok s" and "0 < screen_x s"
  shows "\<exists>s'. handle_backspace s = Some s' \<and> line_inv s' \<and> line_of s' = butlast (line_of s) \<and> visible_ok s' \<and>
    visible s' = (store_cell (cell (screen_y s) (screen_x s - 1)) 0 (video_mem s), screen_x s - 1, screen_y s)"
proof -
  let ?i = "unat (keyboard_idx s)" and ?c = "cell (screen_y s) (screen_x s - 1)"
  have inv: "length (keyboard_buf s) = 129" "?i \<le> 128" "last_idx s = keyboard_idx s"
    using assms(1) by (simp_all add: line_inv_def MAX_BUF_SIZE_def)
  have nz: "keyboard_idx s \<noteq> 0" "0 < ?i" using assms(2) by (auto simp: line_of_def unat_gt_0)
  have dec: "unat (keyboard_idx s - 1) = ?i - 1" using nz(1) by (simp add: unat_minus_one)
  define b where "b = (keyboard_buf s)[?i - 1 := 0]"
  define t where "t = s\<lparr>screen_x := screen_x s - 1, keyboard_buf := b, last_idx := keyboard_idx s - 1\<rparr>"
  have "drop (?i - 1) (take ?i b) = [0]"
    using nz(2) inv take_Suc_conv_app_nth [of "?i - 1" b] by (simp add: b_def)
  then have echo: "keyboard_write b t = Some (1, putc 0 t)"
    using nz inv dec by (simp add: keyboard_write_def get_keyboard_idx_def t_def b_def of_nat_diff)
  define u where "u = (putc 0 t)\<lparr>screen_x := screen_x s - 1, screen_y := screen_y s, keyboard_idx := keyboard_idx s - 1\<rparr>"
  have run: "handle_backspace s = Some (update_cursor (screen_y u) (screen_x u) u)"
    using nz inv assms(4) echo by (simp add: handle_backspace_def Let_def u_def t_def b_def)
  have "visible_ok t" using assms(3,4) by (simp add: visible_ok_def cursor_ok_def t_def)
  then have ok: "cursor_ok (screen_x t) (screen_y t)" by (simp add: visible_ok_def)
  have "screen_x t \<noteq> int NUM_COLS - 1" using assms(3) by (simp add: t_def visible_ok_def cursor_ok_def)
  then have "video_mem (putc 0 t) = store_cell ?c 0 (video_mem s)"
    using putc_visible(1) [OF ok, of 0] by (simp add: visible_def screen_step_def t_def Let_def)
  then have "visible (update_cursor (screen_y u) (screen_x u) u) = (store_cell ?c 0 (video_mem s), screen_x s - 1, screen_y s)"
    by (simp add: visible_def u_def)
  moreover have "line_inv u" "line_of u = butlast (line_of s)"
    using assms(1) nz inv dec by (auto simp: line_inv_def line_of_def u_def t_def b_def butlast_take nth_list_update)
  then have "line_inv (update_cursor (screen_y u) (screen_x u) u)"
    "line_of (update_cursor (screen_y u) (screen_x u) u) = butlast (line_of s)" by (simp_all add: line_inv_def line_of_def)
  moreover have "visible_ok (update_cursor (screen_y u) (screen_x u) u)"
    using assms(3,4) by (simp add: visible_ok_def cursor_ok_def u_def)
  ultimately show ?thesis using run by blast
qed

theorem backspace_erases_witness:
  "\<exists>s'. handle_backspace (keyboard_example\<lparr>keyboard_buf := 65 # 66 # replicate 127 0, keyboard_idx := 2, last_idx := 2\<rparr>) = Some s' \<and>
    line_inv s' \<and> line_of s' = butlast (line_of (keyboard_example\<lparr>keyboard_buf := 65 # 66 # replicate 127 0, keyboard_idx := 2, last_idx := 2\<rparr>)) \<and>
    visible_ok s' \<and>
    visible s' = (store_cell (cell (screen_y keyboard_example) (screen_x keyboard_example - 1)) 0 (video_mem keyboard_example),
      screen_x keyboard_example - 1, screen_y keyboard_example)"
proof -
  let ?s = "keyboard_example\<lparr>keyboard_buf := 65 # 66 # replicate 127 0, keyboard_idx := 2, last_idx := 2\<rparr>"
  have "line_inv ?s" "line_of ?s \<noteq> []"
    by (auto simp: line_inv_def line_of_def MAX_BUF_SIZE_def nth_Cons' less_2_cases_iff)
  moreover have "visible_ok ?s" "0 < screen_x ?s"
    by (simp_all add: visible_ok_def keyboard_example_def console.defs console_example_def files.defs cursor_ok_def screen_consts)
  ultimately show ?thesis using backspace_erases [of ?s] by simp
qed

end
