(* ===== verification/Process.thy ===== *)
theory Process
  imports Keyboard
begin

text \<open>
  Processes and system calls: \<^verbatim>\<open>student-distrib/syscall.c\<close>.

  The process control block of process \<open>p\<close> lies at \<^verbatim>\<open>PHYS_FILE_START - EIGHT_KB * (p + 1)\<close>; the six
  blocks are the list \<open>pcbs\<close>, \<^verbatim>\<open>current_pcb\<close> is the index of the block it points to, and an
  address that is none of the six blocks is \<open>None\<close>.  Physical memory above 8 MB, where the
  programs are loaded, is the function \<open>phys_mem\<close>, and the kernel's stores to user addresses go
  through the page walk of the paging theory.

  The uninitialised arrays of a stack frame and the stack pointers the inline assembly
  saves are the parameter \<open>frame\<close>.  A call that leaves the kernel does not return: the result of
  \<^verbatim>\<open>execute\<close> and \<^verbatim>\<open>halt\<close> says whether the call returned a value, entered a program, or resumed an
  older call with a value.
\<close>

section \<open>State\<close>

definition MAX_FILE :: nat where "MAX_FILE = 8"
definition NUM_PROCESSES :: nat where "NUM_PROCESSES = 6"
definition BUF_SIZE :: nat where "BUF_SIZE = 128"
definition EIGHT_KB :: u32 where "EIGHT_KB = 8192"
definition VIRTUAL_FILE_START :: u32 where "VIRTUAL_FILE_START = 0x8048000"
definition USER_VID_MEM :: u32 where "USER_VID_MEM = 0x9000000"
definition VIDEO :: u32 where "VIDEO = 0xB8000"
definition READ_WHOLE_FILE :: nat where "READ_WHOLE_FILE = 100000"
definition KERNEL_DS :: u16 where "KERNEL_DS = 0x0018"

definition NOT_SET :: nat where "NOT_SET = 0"
definition STDINFLAG :: nat where "STDINFLAG = 1"
definition STDOUTFLAG :: nat where "STDOUTFLAG = 2"
definition RTCFLAG :: nat where "RTCFLAG = 3"
definition FILEFLAG :: nat where "FILEFLAG = 4"
definition DIRFLAG :: nat where "DIRFLAG = 5"

lemmas flag_defs = NOT_SET_def STDINFLAG_def STDOUTFLAG_def RTCFLAG_def FILEFLAG_def DIRFLAG_def

text \<open>The fields \<^verbatim>\<open>jump_table_pointer\<close> of a descriptor and \<^verbatim>\<open>ARGS\<close> of a block are never used.\<close>

record fds =
  fd_inode :: u32
  fd_position :: u32
  fd_flags :: nat

record pcb =
  PID :: u32
  FDs_array :: "fds list"      \<comment> \<open>8 descriptors\<close>
  pcb_args :: "byte list"      \<comment> \<open>128 bytes\<close>
  pcb_names :: "byte list"     \<comment> \<open>\<^verbatim>\<open>file_name[8][32]\<close>, row after row\<close>
  ESP0 :: u32
  EBP0 :: u32
  ESP_SWITCH :: u32
  EBP_SWITCH :: u32
  PPID :: u32

text \<open>The functions a descriptor can lead to.\<close>

datatype fop = Invalid_function | Keyboard_read | Keyboard_write | Terminal_read | Terminal_write
  | Rtc_read | Rtc_write | File_read_setup | Dir_readnew

record kernel = keyboard +
  curr_process :: u32
  process_array :: "u32 list"  \<comment> \<open>6 entries\<close>
  pcbs :: "pcb list"           \<comment> \<open>6 blocks\<close>
  current_pcb :: "nat option"
  fops_table :: "(fop \<times> fop) option list"  \<comment> \<open>6 entries, null before \<^verbatim>\<open>init_fops_table\<close>\<close>
  tss_esp0 :: u32
  tss_ss0 :: u16
  phys_mem :: "u32 \<Rightarrow> byte"

record frame =
  fr_buf :: "byte list"        \<comment> \<open>128 bytes\<close>
  fr_com :: "byte list"        \<comment> \<open>128 bytes\<close>
  fr_buffer :: "byte list"     \<comment> \<open>4 bytes\<close>
  fr_dentry :: dentry
  fr_esp :: u32
  fr_ebp :: u32

datatype outcome = Returned int | Entered u32 | Resumed u32 u32 u32
  \<comment> \<open>a return value; the entry point; \<^verbatim>\<open>eax\<close>, \<^verbatim>\<open>esp\<close> and \<^verbatim>\<open>ebp\<close>\<close>

definition the_pcb :: "u32 \<Rightarrow> 'a kernel_scheme \<Rightarrow> pcb option" where
  "the_pcb p s = aget (pcbs s) (unat p)"

definition upd_pcb :: "u32 \<Rightarrow> (pcb \<Rightarrow> pcb option) \<Rightarrow> 'a kernel_scheme \<Rightarrow> 'a kernel_scheme option" where
  "upd_pcb p f s = do {
     b \<leftarrow> the_pcb p s;
     b \<leftarrow> f b;
     Some (s\<lparr>pcbs := (pcbs s)[unat p := b]\<rparr>)
   }"

definition upd_fd :: "nat \<Rightarrow> (fds \<Rightarrow> fds) \<Rightarrow> pcb \<Rightarrow> pcb option" where
  "upd_fd i f b = do {
     d \<leftarrow> aget (FDs_array b) i;
     Some (b\<lparr>FDs_array := (FDs_array b)[i := f d]\<rparr>)
   }"

section \<open>The process table\<close>

function get_process_loop :: "nat \<Rightarrow> 'a kernel_scheme \<Rightarrow> (int \<times> 'a kernel_scheme) option" where
  "get_process_loop i s =
     (if i < NUM_PROCESSES then do {
        v \<leftarrow> aget (process_array s) i;
        if v = 0 then Some (int i, s\<lparr>process_array := (process_array s)[i := 1]\<rparr>)
        else get_process_loop (Suc i) s
      } else Some (-1, s))"
  by pat_completeness auto
termination
  by (relation "measure (\<lambda>(i, s). NUM_PROCESSES - i)") auto

declare get_process_loop.simps [simp del]

definition get_process :: "'a kernel_scheme \<Rightarrow> (int \<times> 'a kernel_scheme) option" where
  "get_process s = get_process_loop 0 s"

definition end_process :: "u32 \<Rightarrow> 'a kernel_scheme \<Rightarrow> 'a kernel_scheme option" where
  "end_process proc_num s = do {
     t \<leftarrow> aset (process_array s) (unat proc_num) 0;
     Some (s\<lparr>process_array := t\<rparr>)
   }"

definition clear_process :: "'a kernel_scheme \<Rightarrow> 'a kernel_scheme" where
  "clear_process s = s\<lparr>process_array := fill_for 0 NUM_PROCESSES (\<lambda>i. 0) (process_array s)\<rparr>"

definition get_current_process :: "'a kernel_scheme \<Rightarrow> u32" where
  "get_current_process s = curr_process s"

definition get_pcb_pointer :: "int \<Rightarrow> 'a kernel_scheme \<Rightarrow> nat option" where
  "get_pcb_pointer p s = (if 0 \<le> p \<and> nat p < length (pcbs s) then Some (nat p) else None)"

text \<open>The address itself, and the size of a block: the six words, eight descriptors of four words,
  the arguments and the eight names.\<close>

definition pcb_address :: "u32 \<Rightarrow> u32" where
  "pcb_address process = PHYS_FILE_START - EIGHT_KB * (process + 1)"

definition sizeof_pcb :: nat where
  "sizeof_pcb = 4 + 8 * 16 + 128 + 8 * 32 + 6 * 4"

definition set_process_sys :: "int \<Rightarrow> 'a kernel_scheme \<Rightarrow> 'a kernel_scheme" where
  "set_process_sys p s = s\<lparr>curr_process := of_int p\<rparr>"

section \<open>File descriptors\<close>

definition init_fops_table :: "'a kernel_scheme \<Rightarrow> 'a kernel_scheme option" where
  "init_fops_table s = do {
     let t = fops_table s;
     t \<leftarrow> aset t NOT_SET (Some (Invalid_function, Invalid_function));
     t \<leftarrow> aset t STDINFLAG (Some (Keyboard_read, Keyboard_write));
     t \<leftarrow> aset t STDOUTFLAG (Some (Terminal_read, Terminal_write));
     t \<leftarrow> aset t RTCFLAG (Some (Rtc_read, Rtc_write));
     t \<leftarrow> aset t FILEFLAG (Some (File_read_setup, Invalid_function));
     t \<leftarrow> aset t DIRFLAG (Some (Dir_readnew, Invalid_function));
     Some (s\<lparr>fops_table := t\<rparr>)
   }"

definition invalid_function :: int where "invalid_function = -1"

definition file_read_setup :: "dentry \<Rightarrow> int \<Rightarrow> byte list \<Rightarrow> int \<Rightarrow> 'a kernel_scheme \<Rightarrow> (int \<times> byte list \<times> 'a kernel_scheme) option" where
  "file_read_setup dst fd buf nbytes s = do {
     b \<leftarrow> the_pcb (curr_process s) s;
     d \<leftarrow> aget (FDs_array b) (nat fd);
     (read_bytes, out) \<leftarrow> file_read s (drop (32 * nat fd) (pcb_names b)) (unat (fd_position d)) (nat nbytes) dst;
     buf \<leftarrow> overwrite out buf;
     s \<leftarrow> upd_pcb (curr_process s) (upd_fd (nat fd) (\<lambda>d. d\<lparr>fd_position := fd_position d + of_int read_bytes\<rparr>)) s;
     Some (read_bytes, buf, s)
   }"

text \<open>The call through \<^verbatim>\<open>fops_table[flags].read\<close> and \<^verbatim>\<open>.write\<close>.  A call of a write function as a reader,
  which no entry makes, is \<open>None\<close>.  The buffer is \<open>None\<close> for the null pointer.\<close>

definition call_read :: "fop \<Rightarrow> dentry \<Rightarrow> int \<Rightarrow> byte list \<Rightarrow> int \<Rightarrow> 'a kernel_scheme \<Rightarrow> (int \<times> byte list \<times> 'a kernel_scheme) option" where
  "call_read f dst fd buf nbytes s =
     (case f of
        Invalid_function \<Rightarrow> Some (invalid_function, buf, s)
      | Keyboard_read \<Rightarrow> keyboard_read buf nbytes s
      | Terminal_read \<Rightarrow> Some (terminal_read, buf, s)
      | Rtc_read \<Rightarrow> do { (r, s) \<leftarrow> rtc_read s; Some (r, buf, s) }
      | File_read_setup \<Rightarrow> file_read_setup dst fd buf nbytes s
      | Dir_readnew \<Rightarrow> dir_readnew buf s
      | _ \<Rightarrow> None)"

definition sys_read :: "dentry \<Rightarrow> int \<Rightarrow> byte list option \<Rightarrow> int \<Rightarrow> 'a kernel_scheme
    \<Rightarrow> (int \<times> byte list option \<times> 'a kernel_scheme) option" where
  "sys_read dst fd buf nbytes s =
     (case buf of None \<Rightarrow> Some (-1, None, s)
      | Some bs \<Rightarrow>
         if nbytes < 0 \<or> fd > int MAX_FILE - 1 \<or> fd < 0 then Some (-1, Some bs, s)
         else do {
           k \<leftarrow> current_pcb s;
           b \<leftarrow> aget (pcbs s) k;
           d \<leftarrow> aget (FDs_array b) (nat fd);
           e \<leftarrow> aget (fops_table s) (fd_flags d);
           (f, _) \<leftarrow> e;
           (r, bs, s) \<leftarrow> call_read f dst fd bs nbytes s;
           Some (r, Some bs, s)
         })"

definition call_write :: "fop \<Rightarrow> byte list \<Rightarrow> int \<Rightarrow> 'a kernel_scheme \<Rightarrow> (int \<times> 'a kernel_scheme) option" where
  "call_write f buf nbytes s =
     (case f of
        Invalid_function \<Rightarrow> Some (invalid_function, s)
      | Keyboard_write \<Rightarrow> keyboard_write buf s
      | Terminal_write \<Rightarrow> terminal_write (Some buf) nbytes s
      | Rtc_write \<Rightarrow> rtc_write (Some buf) nbytes s
      | _ \<Rightarrow> None)"

definition sys_write :: "int \<Rightarrow> byte list option \<Rightarrow> int \<Rightarrow> 'a kernel_scheme \<Rightarrow> (int \<times> 'a kernel_scheme) option" where
  "sys_write fd buf nbytes s =
     (case buf of None \<Rightarrow> Some (-1, s)
      | Some bs \<Rightarrow>
         if nbytes < 0 \<or> fd < 0 \<or> fd > int MAX_FILE - 1 then Some (-1, s)
         else do {
           k \<leftarrow> current_pcb s;
           b \<leftarrow> aget (pcbs s) k;
           d \<leftarrow> aget (FDs_array b) (nat fd);
           e \<leftarrow> aget (fops_table s) (fd_flags d);
           (_, f) \<leftarrow> e;
           call_write f bs nbytes s
         })"

text \<open>The search for a free descriptor in \<^verbatim>\<open>open\<close>, from \<open>i\<close> on.\<close>

function open_loop :: "byte list \<Rightarrow> dentry \<Rightarrow> nat \<Rightarrow> 'a kernel_scheme \<Rightarrow> (int \<times> 'a kernel_scheme) option" where
  "open_loop filename temp_dentry i s =
     (if i < 8 then do {
        b \<leftarrow> the_pcb (curr_process s) s;
        d \<leftarrow> aget (FDs_array b) i;
        if fd_flags d = NOT_SET then
          if file_type temp_dentry = RTCTYPE then do {
            s \<leftarrow> upd_pcb (curr_process s) (upd_fd i (\<lambda>d. d\<lparr>fd_flags := RTCFLAG, fd_position := 0\<rparr>)) s;
            Some (int i, s)
          } else if file_type temp_dentry = DIRTYPE then do {
            s \<leftarrow> upd_pcb (curr_process s) (\<lambda>b. do {
               b \<leftarrow> upd_fd i (\<lambda>d. d\<lparr>fd_inode := of_nat (inode temp_dentry), fd_position := 0, fd_flags := DIRFLAG\<rparr>) b;
               n \<leftarrow> at_off (32 * i) (\<lambda>r. strcpy r filename) (pcb_names b);
               Some (b\<lparr>pcb_names := n\<rparr>) }) s;
            Some (int i, s)
          } else if file_type temp_dentry = FILETYPE then do {
            s \<leftarrow> upd_pcb (curr_process s) (\<lambda>b. do {
               b \<leftarrow> upd_fd i (\<lambda>d. d\<lparr>fd_inode := of_nat (inode temp_dentry), fd_position := 0, fd_flags := FILEFLAG\<rparr>) b;
               n \<leftarrow> at_off (32 * i) (\<lambda>r. strcpy r filename) (pcb_names b);
               Some (b\<lparr>pcb_names := n\<rparr>) }) s;
            Some (int i, s)
          } else Some (0, s)
        else open_loop filename temp_dentry (Suc i) s
      } else Some (-1, s))"
  by pat_completeness auto
termination
  by (relation "measure (\<lambda>(filename, temp_dentry, i, s). 8 - i)") auto

declare open_loop.simps [simp del]

definition sys_open :: "dentry \<Rightarrow> byte list \<Rightarrow> 'a kernel_scheme \<Rightarrow> (int \<times> 'a kernel_scheme) option" where
  "sys_open temp_dentry filename s = do {
     c \<leftarrow> strncmp filename (cstr ''stdin'') 5;
     if c = 0 then do {
       s \<leftarrow> upd_pcb (curr_process s) (upd_fd STDINFLAG (\<lambda>d. d\<lparr>fd_flags := STDINFLAG\<rparr>)) s;
       Some (0, s)
     } else do {
       c \<leftarrow> strncmp filename (cstr ''stdout'') 6;
       if c = 0 then do {
         s \<leftarrow> upd_pcb (curr_process s) (upd_fd STDOUTFLAG (\<lambda>d. d\<lparr>fd_flags := STDOUTFLAG\<rparr>)) s;
         Some (0, s)
       } else do {
         (r, temp_dentry) \<leftarrow> read_dentry_by_name s filename temp_dentry;
         if r \<noteq> 0 then Some (-1, s) else open_loop filename temp_dentry 2 s
       }
     }
   }"

definition sys_close :: "int \<Rightarrow> 'a kernel_scheme \<Rightarrow> (int \<times> 'a kernel_scheme) option" where
  "sys_close fd s =
     (if fd = 0 \<or> fd = 1 \<or> fd > int MAX_FILE - 1 \<or> fd < 0 then Some (-1, s)
      else do {
        b \<leftarrow> the_pcb (curr_process s) s;
        d \<leftarrow> aget (FDs_array b) (nat fd);
        if fd_flags d = NOT_SET then Some (-1, s)
        else do {
          s \<leftarrow> upd_pcb (curr_process s) (upd_fd (nat fd) (\<lambda>d. d\<lparr>fd_inode := 0, fd_position := 0, fd_flags := NOT_SET\<rparr>)) s;
          Some (0, s)
        }
      })"

section \<open>Tables of slots\<close>

text \<open>The process table and the descriptors of a process are both tables of slots: a slot is taken
  by searching for the first free one and given back by its number.  The locale states this
  contract and what a client of either table can rely on.\<close>

locale slot_table =
  fixes alloc :: "'s \<Rightarrow> (int \<times> 's) option"
    and free :: "nat \<Rightarrow> 's \<Rightarrow> 's option"
    and used :: "'s \<Rightarrow> nat set"
    and lo hi :: nat
    and wf :: "'s \<Rightarrow> bool"
  assumes alloc_least: "\<lbrakk>wf s; lo \<le> i; i < hi; i \<notin> used s; \<forall>j. lo \<le> j \<and> j < i \<longrightarrow> j \<in> used s\<rbrakk> \<Longrightarrow>
      \<exists>s'. alloc s = Some (int i, s') \<and> wf s' \<and> used s' = insert i (used s)"
    and alloc_full: "\<lbrakk>wf s; {lo..<hi} \<subseteq> used s\<rbrakk> \<Longrightarrow> alloc s = Some (-1, s)"
    and free_used: "\<lbrakk>wf s; i \<in> used s; lo \<le> i; i < hi\<rbrakk> \<Longrightarrow> \<exists>s'. free i s = Some s' \<and> wf s' \<and> used s' = used s - {i}"
begin

text \<open>A request succeeds exactly when a slot is free, and the slot is the least one that was free.\<close>

lemma alloc_cases:
  assumes "wf s"
  obtains (full) "{lo..<hi} \<subseteq> used s" "alloc s = Some (-1, s)"
  | (got) i s' where "lo \<le> i" "i < hi" "i \<notin> used s" "alloc s = Some (int i, s')" "wf s'" "used s' = insert i (used s)"
      "\<forall>j. lo \<le> j \<and> j < i \<longrightarrow> j \<in> used s"
proof (cases "{lo..<hi} \<subseteq> used s")
  case True
  then show thesis using full alloc_full [OF assms] by blast
next
  case False
  define i where "i = (LEAST i. lo \<le> i \<and> i < hi \<and> i \<notin> used s)"
  from False have "\<exists>k. lo \<le> k \<and> k < hi \<and> k \<notin> used s" by (auto simp: subset_iff)
  then obtain k where "lo \<le> k \<and> k < hi \<and> k \<notin> used s" ..
  from LeastI [where P = "\<lambda>i. lo \<le> i \<and> i < hi \<and> i \<notin> used s", OF this]
  have i: "lo \<le> i" "i < hi" "i \<notin> used s" by (simp_all add: i_def)
  have "\<forall>j. lo \<le> j \<and> j < i \<longrightarrow> j \<in> used s"
    using not_less_Least [of _ "\<lambda>i. lo \<le> i \<and> i < hi \<and> i \<notin> used s"] i(2) unfolding i_def by (meson less_trans)
  then show thesis using alloc_least [OF assms i] got [OF i] by blast
qed

text \<open>Two requests in a row never return the same slot, and a slot that is given back at once
  leaves the table as it was.\<close>

lemma alloc_twice:
  "\<lbrakk>wf s; alloc s = Some (int i, s'); alloc s' = Some (int j, s'')\<rbrakk> \<Longrightarrow> i \<noteq> j"
  using alloc_cases [of s] alloc_cases [of s']
  by (metis insertCI nat_int of_nat_eq_iff option.inject prod.inject int_nat_eq neg_0_le_iff_le not_one_le_zero of_nat_0_le_iff)

lemma alloc_free:
  assumes "wf s" and "alloc s = Some (int i, s')"
  shows "\<exists>s''. free i s' = Some s'' \<and> wf s'' \<and> used s'' = used s"
  using assms(1)
proof (cases rule: alloc_cases)
  case full
  then show ?thesis using assms(2) by simp
next
  case (got k t)
  then have "k = i" "t = s'" using assms(2) by auto
  then show ?thesis using free_used [of s' i] got by auto
qed

end

section \<open>The process table as a table of slots\<close>

definition proc_used :: "'a kernel_scheme \<Rightarrow> nat set" where
  "proc_used s = {i. i < NUM_PROCESSES \<and> process_array s ! i \<noteq> 0}"

definition proc_table_ok :: "'a kernel_scheme \<Rightarrow> bool" where
  "proc_table_ok s \<longleftrightarrow> length (process_array s) = NUM_PROCESSES"

lemma get_process_loop_eq:
  assumes "proc_table_ok s"
  shows "get_process_loop i s = (case List.find (\<lambda>j. process_array s ! j = 0) [i..<NUM_PROCESSES] of
     None \<Rightarrow> Some (-1, s)
   | Some j \<Rightarrow> Some (int j, s\<lparr>process_array := (process_array s)[j := 1]\<rparr>))"
proof (induction "NUM_PROCESSES - i" arbitrary: i)
  case 0
  then show ?case by (simp add: get_process_loop.simps)
next
  case (Suc n)
  have i: "i < NUM_PROCESSES" using Suc.hyps(2) by simp
  moreover have "get_process_loop (Suc i) s = (case List.find (\<lambda>j. process_array s ! j = 0) [Suc i..<NUM_PROCESSES] of
     None \<Rightarrow> Some (-1, s)
   | Some j \<Rightarrow> Some (int j, s\<lparr>process_array := (process_array s)[j := 1]\<rparr>))"
    by (rule Suc.hyps(1)) (use Suc.hyps(2) in simp)
  ultimately show ?case
    using assms by (simp add: get_process_loop.simps [of i] upt_conv_Cons proc_table_ok_def)
qed

interpretation proc: slot_table get_process "\<lambda>i. end_process (of_nat i)" proc_used 0 NUM_PROCESSES proc_table_ok
proof
  fix s :: "'a kernel_scheme" and i
  assume s: "proc_table_ok s" "i < NUM_PROCESSES" "i \<notin> proc_used s" "\<forall>j. 0 \<le> j \<and> j < i \<longrightarrow> j \<in> proc_used s"
  then have "List.find (\<lambda>j. process_array s ! j = 0) [0..<NUM_PROCESSES] = Some i"
    unfolding find_index_least by (auto simp: proc_used_def)
  then have "get_process s = Some (int i, s\<lparr>process_array := (process_array s)[i := 1]\<rparr>)"
    using get_process_loop_eq [OF s(1), of 0] by (simp add: get_process_def)
  moreover have "proc_used (s\<lparr>process_array := (process_array s)[i := 1]\<rparr>) = insert i (proc_used s)"
    using s(1,2) by (auto simp: proc_used_def proc_table_ok_def nth_list_update)
  ultimately show "\<exists>s'. get_process s = Some (int i, s') \<and> proc_table_ok s' \<and> proc_used s' = insert i (proc_used s)"
    using s(1) by (simp add: proc_table_ok_def)
next
  fix s :: "'a kernel_scheme"
  assume s: "proc_table_ok s" "{0..<NUM_PROCESSES} \<subseteq> proc_used s"
  then have "List.find (\<lambda>j. process_array s ! j = 0) [0..<NUM_PROCESSES] = None"
    unfolding find_index_None by (auto simp: proc_used_def)
  then show "get_process s = Some (-1, s)"
    using get_process_loop_eq [OF s(1), of 0] by (simp add: get_process_def)
next
  fix s :: "'a kernel_scheme" and i
  assume s: "proc_table_ok s" "i \<in> proc_used s" "i < NUM_PROCESSES"
  then have "unat (of_nat i :: u32) = i" by (simp add: NUM_PROCESSES_def unsigned_of_nat take_bit_nat_eq_self)
  then show "\<exists>s'. end_process (of_nat i) s = Some s' \<and> proc_table_ok s' \<and> proc_used s' = proc_used s - {i}"
    using s by (auto simp: end_process_def proc_used_def proc_table_ok_def nth_list_update)
qed

section \<open>The descriptors of a process as a table of slots\<close>

definition pcb_ok :: "pcb \<Rightarrow> bool" where
  "pcb_ok b \<longleftrightarrow> length (FDs_array b) = MAX_FILE \<and> length (pcb_names b) = 32 * MAX_FILE \<and>
     length (pcb_args b) = BUF_SIZE \<and> (\<forall>d \<in> set (FDs_array b). fd_flags d < 6)"

definition procs_ok :: "'a kernel_scheme \<Rightarrow> bool" where
  "procs_ok s \<longleftrightarrow> length (pcbs s) = NUM_PROCESSES \<and> (\<forall>b \<in> set (pcbs s). pcb_ok b) \<and>
     unat (curr_process s) < NUM_PROCESSES"

definition cur_pcb :: "'a kernel_scheme \<Rightarrow> pcb" where
  "cur_pcb s = pcbs s ! unat (curr_process s)"

definition set_cur_pcb :: "pcb \<Rightarrow> 'a kernel_scheme \<Rightarrow> 'a kernel_scheme" where
  "set_cur_pcb b s = s\<lparr>pcbs := (pcbs s)[unat (curr_process s) := b]\<rparr>"

lemma procs_ok_cur:
  assumes "procs_ok s"
  shows "the_pcb (curr_process s) s = Some (cur_pcb s)" "pcb_ok (cur_pcb s)"
    "cur_pcb (set_cur_pcb b s) = b" "pcb_ok b \<Longrightarrow> procs_ok (set_cur_pcb b s)"
    "curr_process (set_cur_pcb b s) = curr_process s"
    "upd_pcb (curr_process s) f s = map_option (\<lambda>b. set_cur_pcb b s) (f (cur_pcb s))"
  using assms
  by (auto simp: procs_ok_def the_pcb_def cur_pcb_def set_cur_pcb_def upd_pcb_def map_option_case
      dest!: set_update_subset_insert [THEN subsetD] split: option.splits bind_splits)

lemma set_cur_pcb_twice [simp]: "set_cur_pcb b (set_cur_pcb c s) = set_cur_pcb b s"
  by (simp add: set_cur_pcb_def)

text \<open>The flag of a descriptor that \<^verbatim>\<open>open\<close> makes for the file or the directory \<open>e\<close>.\<close>

definition slot_flag :: "dentry \<Rightarrow> nat" where
  "slot_flag e = (if file_type e = DIRTYPE then DIRFLAG else FILEFLAG)"

definition opened :: "byte list \<Rightarrow> dentry \<Rightarrow> nat \<Rightarrow> pcb \<Rightarrow> pcb" where
  "opened fname e i b = b\<lparr>
     FDs_array := (FDs_array b)[i := (FDs_array b ! i)\<lparr>fd_inode := of_nat (inode e), fd_position := 0, fd_flags := slot_flag e\<rparr>],
     pcb_names := take (32 * i) (pcb_names b) @ chars fname @ 0 # drop (32 * i + Suc (length (chars fname))) (pcb_names b)\<rparr>"

lemma opened_ok:
  "\<lbrakk>pcb_ok b; i < MAX_FILE; length (chars fname) < 32\<rbrakk> \<Longrightarrow> pcb_ok (opened fname e i b)"
  by (auto simp: pcb_ok_def opened_def MAX_FILE_def slot_flag_def flag_defs dest!: set_update_subset_insert [THEN subsetD])

lemma opened_name:
  assumes "pcb_ok b" and "i < MAX_FILE" and "length (chars fname) < 32"
  shows "drop (32 * i) (pcb_names (opened fname e i b)) =
    chars fname @ 0 # drop (32 * i + Suc (length (chars fname))) (pcb_names b)"
  using assms by (simp add: opened_def pcb_ok_def MAX_FILE_def)

lemma open_loop_file:
  assumes "procs_ok s" and "0 \<in> set fname" and "length (chars fname) < 32" and "file_type e = FILETYPE \<or> file_type e = DIRTYPE"
  shows "open_loop fname e i s = (case List.find (\<lambda>j. fd_flags (FDs_array (cur_pcb s) ! j) = NOT_SET) [i..<MAX_FILE] of
     None \<Rightarrow> Some (-1, s)
   | Some j \<Rightarrow> Some (int j, set_cur_pcb (opened fname e j (cur_pcb s)) s))"
proof (induction "MAX_FILE - i" arbitrary: i)
  case 0
  then show ?case by (simp add: open_loop.simps MAX_FILE_def)
next
  case (Suc n)
  have i: "i < MAX_FILE" "i < 8" using Suc.hyps(2) by (simp_all add: MAX_FILE_def)
  have IH: "open_loop fname e (Suc i) s = (case List.find (\<lambda>j. fd_flags (FDs_array (cur_pcb s) ! j) = NOT_SET) [Suc i..<MAX_FILE] of
     None \<Rightarrow> Some (-1, s)
   | Some j \<Rightarrow> Some (int j, set_cur_pcb (opened fname e j (cur_pcb s)) s))"
    by (rule Suc.hyps(1)) (use Suc.hyps(2) in simp)
  note cur = procs_ok_cur [OF assms(1)]
  have len: "length (FDs_array (cur_pcb s)) = MAX_FILE" "length (pcb_names (cur_pcb s)) = 32 * MAX_FILE"
    using cur(2) by (simp_all add: pcb_ok_def)
  have "length (chars fname) < length (drop (32 * i) (pcb_names (cur_pcb s)))"
    using len(2) assms(3) i by (simp add: MAX_FILE_def)
  from strcpy_chars [OF assms(2) this]
  have name: "at_off (32 * i) (\<lambda>r. strcpy r fname) (pcb_names (cur_pcb s)) = Some (pcb_names (opened fname e i (cur_pcb s)))"
    using len(2) i by (simp add: at_off_def opened_def MAX_FILE_def add.commute)
  show ?case
    using i IH cur(1,6) len(1) name assms(4)
    by (auto simp: open_loop.simps [of fname e i] upt_conv_Cons upd_fd_def opened_def slot_flag_def RTCTYPE_def DIRTYPE_def FILETYPE_def)
qed

definition fd_used :: "'a kernel_scheme \<Rightarrow> nat set" where
  "fd_used s = {i. 2 \<le> i \<and> i < MAX_FILE \<and> fd_flags (FDs_array (cur_pcb s) ! i) \<noteq> NOT_SET}"

text \<open>The name \<open>fname\<close> leads to the regular file or directory \<open>e\<close>.\<close>

definition names_entry :: "byte list \<Rightarrow> dentry \<Rightarrow> 'a files_scheme \<Rightarrow> bool" where
  "names_entry fname e s \<longleftrightarrow> dentries_wf s \<and> 0 \<in> set fname \<and> chars fname \<noteq> [] \<and> length (chars fname) < 32 \<and>
     take 5 (chars fname) \<noteq> lit ''stdin'' \<and> take 6 (chars fname) \<noteq> lit ''stdout'' \<and>
     List.find (\<lambda>d. chars (file_name d) = chars fname) (dentries s) = Some e \<and> (file_type e = FILETYPE \<or> file_type e = DIRTYPE)"

definition names_file :: "byte list \<Rightarrow> dentry \<Rightarrow> 'a files_scheme \<Rightarrow> bool" where
  "names_file fname e s \<longleftrightarrow> names_entry fname e s \<and> file_type e = FILETYPE"

text \<open>A name that \<^verbatim>\<open>open\<close> does not take for a standard stream is looked up in the directory.\<close>

lemma sys_open_named:
  assumes "0 \<in> set fname" and "take 5 (chars fname) \<noteq> lit ''stdin''" and "take 6 (chars fname) \<noteq> lit ''stdout''"
  shows "sys_open dst fname s = do {
    (r, temp_dentry) \<leftarrow> read_dentry_by_name s fname dst;
    if r \<noteq> 0 then Some (-1, s) else open_loop fname temp_dentry 2 s }"
proof -
  have std: "0 \<in> set (cstr ''stdin'')" "0 \<in> set (cstr ''stdout'')" "chars (cstr ''stdin'') = lit ''stdin''"
    "chars (cstr ''stdout'') = lit ''stdout''" by (simp_all add: cstr_def chars_def)
  obtain c c' where c: "strncmp fname (cstr ''stdin'') 5 = Some c" "strncmp fname (cstr ''stdout'') 6 = Some c'"
    using strncmp_defined [OF assms(1)] std(1,2) by metis
  have "c \<noteq> 0" "c' \<noteq> 0"
    using c strncmp_zero_chars [OF assms(1) std(1), of 5] strncmp_zero_chars [OF assms(1) std(2), of 6] assms(2,3)
    by (auto simp: std(3,4))
  then show ?thesis using c by (simp add: sys_open_def)
qed

lemma sys_open_missing:
  assumes "dentries_wf s" and "0 \<in> set fname" and "take 5 (chars fname) \<noteq> lit ''stdin''" and "take 6 (chars fname) \<noteq> lit ''stdout''"
    and "length (file_name dst) = 33" and "chars fname = [] \<or> (\<forall>e \<in> set (dentries s). chars (file_name e) \<noteq> chars fname)"
  shows "sys_open dst fname s = Some (-1, s)"
proof -
  have "(if chars fname = [] then None else List.find (\<lambda>e. chars (file_name e) = chars fname) (dentries s)) = None"
    using assms(6) by (auto simp: find_None_iff)
  then show ?thesis using sys_open_named [OF assms(2-4), of dst s] read_dentry_by_name_eq [OF assms(1,2,5)] by simp
qed

lemma sys_open_file:
  assumes "procs_ok s" and "names_entry fname e s" and "length (file_name dst) = 33"
  shows "sys_open dst fname s = (case List.find (\<lambda>j. fd_flags (FDs_array (cur_pcb s) ! j) = NOT_SET) [2..<MAX_FILE] of
     None \<Rightarrow> Some (-1, s)
   | Some j \<Rightarrow> Some (int j, set_cur_pcb (opened fname e j (cur_pcb s)) s))"
proof -
  have n: "dentries_wf s" "0 \<in> set fname" "chars fname \<noteq> []" "length (chars fname) < 32" "file_type e = FILETYPE \<or> file_type e = DIRTYPE"
    "take 5 (chars fname) \<noteq> lit ''stdin''" "take 6 (chars fname) \<noteq> lit ''stdout''"
    using assms(2) by (simp_all add: names_entry_def)
  show ?thesis
    using n sys_open_named [OF n(2,6,7), of dst s] read_dentry_by_name_eq [OF n(1,2) assms(3)] assms(2)
      open_loop_file [OF assms(1) n(2,4), of "dst\<lparr>file_name := chars fname @ 0 # replicate (32 - length (chars fname)) SPC,
        file_type := file_type e, inode := inode e\<rparr>" 2]
    by (simp add: names_entry_def opened_def slot_flag_def split: option.split)
qed

definition fd_table_ok :: "byte list \<Rightarrow> dentry \<Rightarrow> 'a kernel_scheme \<Rightarrow> bool" where
  "fd_table_ok fname e s \<longleftrightarrow> procs_ok s \<and> names_entry fname e s"

lemma names_entry_pcb [simp]: "names_entry fname e (set_cur_pcb b s) = names_entry fname e s"
  by (simp add: names_entry_def set_cur_pcb_def dentries_wf_def dentries_def)

definition blank_dentry :: dentry where
  "blank_dentry = \<lparr>file_name = replicate 33 0, file_type = 0, inode = 0\<rparr>"

definition closed_fd :: "nat \<Rightarrow> pcb \<Rightarrow> pcb" where
  "closed_fd i b = b\<lparr>FDs_array := (FDs_array b)[i := (FDs_array b ! i)\<lparr>fd_inode := 0, fd_position := 0, fd_flags := NOT_SET\<rparr>]\<rparr>"

lemma closed_fd_ok: "pcb_ok b \<Longrightarrow> pcb_ok (closed_fd i b)"
  by (auto simp: pcb_ok_def closed_fd_def NOT_SET_def dest!: set_update_subset_insert [THEN subsetD])

lemma sys_close_used:
  assumes "procs_ok s" and "2 \<le> i" and "i < MAX_FILE"
  shows "sys_close (int i) s = (if fd_flags (FDs_array (cur_pcb s) ! i) = NOT_SET then Some (-1, s)
    else Some (0, set_cur_pcb (closed_fd i (cur_pcb s)) s))"
  using assms procs_ok_cur [OF assms(1)]
  by (simp add: sys_close_def upd_fd_def closed_fd_def pcb_ok_def)

lemma fd_used_opened:
  assumes "procs_ok s" and "2 \<le> i" and "i < MAX_FILE"
  shows "fd_used (set_cur_pcb (opened fname e i (cur_pcb s)) s) = insert i (fd_used s)"
  using assms procs_ok_cur(2,3) [OF assms(1)]
  by (auto simp: fd_used_def opened_def pcb_ok_def nth_list_update slot_flag_def flag_defs)

lemma fd_used_closed:
  assumes "procs_ok s" and "i < MAX_FILE"
  shows "fd_used (set_cur_pcb (closed_fd i (cur_pcb s)) s) = fd_used s - {i}"
  using assms(2) procs_ok_cur(2,3) [OF assms(1)]
  by (auto simp: fd_used_def closed_fd_def pcb_ok_def nth_list_update NOT_SET_def)

interpretation fd: slot_table "sys_open blank_dentry fname" "\<lambda>i s. map_option snd (sys_close (int i) s)" fd_used 2 MAX_FILE
  "fd_table_ok fname e" for fname e
proof
  fix s :: "'a kernel_scheme" and i
  assume s: "fd_table_ok fname e s" "2 \<le> i" "i < MAX_FILE" "i \<notin> fd_used s" "\<forall>j. 2 \<le> j \<and> j < i \<longrightarrow> j \<in> fd_used s"
  then have ok: "procs_ok s" "names_entry fname e s" "length (chars fname) < 32"
    by (simp_all add: fd_table_ok_def names_entry_def)
  have "List.find (\<lambda>j. fd_flags (FDs_array (cur_pcb s) ! j) = NOT_SET) [2..<MAX_FILE] = Some i"
    unfolding find_index_least using s by (auto simp: fd_used_def)
  then have "sys_open blank_dentry fname s = Some (int i, set_cur_pcb (opened fname e i (cur_pcb s)) s)"
    using sys_open_file [OF ok(1,2), of blank_dentry] by (simp add: blank_dentry_def)
  moreover have "fd_used (set_cur_pcb (opened fname e i (cur_pcb s)) s) = insert i (fd_used s)"
    by (rule fd_used_opened [OF ok(1) s(2,3)])
  moreover have "fd_table_ok fname e (set_cur_pcb (opened fname e i (cur_pcb s)) s)"
    using ok opened_ok [OF procs_ok_cur(2) [OF ok(1)] s(3) ok(3)] procs_ok_cur(4) [OF ok(1)] by (simp add: fd_table_ok_def)
  ultimately show "\<exists>s'. sys_open blank_dentry fname s = Some (int i, s') \<and> fd_table_ok fname e s' \<and> fd_used s' = insert i (fd_used s)"
    by blast
next
  fix s :: "'a kernel_scheme"
  assume s: "fd_table_ok fname e s" "{2..<MAX_FILE} \<subseteq> fd_used s"
  then have "List.find (\<lambda>j. fd_flags (FDs_array (cur_pcb s) ! j) = NOT_SET) [2..<MAX_FILE] = None"
    unfolding find_index_None by (auto simp: fd_used_def)
  then show "sys_open blank_dentry fname s = Some (-1, s)"
    using s(1) sys_open_file [of s fname e blank_dentry] by (simp add: fd_table_ok_def blank_dentry_def)
next
  fix s :: "'a kernel_scheme" and i
  assume s: "fd_table_ok fname e s" "i \<in> fd_used s" "2 \<le> i" "i < MAX_FILE"
  then have ok: "procs_ok s" "names_entry fname e s" by (simp_all add: fd_table_ok_def)
  have "fd_used (set_cur_pcb (closed_fd i (cur_pcb s)) s) = fd_used s - {i}" by (rule fd_used_closed [OF ok(1) s(4)])
  then show "\<exists>s'. map_option snd (sys_close (int i) s) = Some s' \<and> fd_table_ok fname e s' \<and> fd_used s' = fd_used s - {i}"
    using sys_close_used [OF ok(1) s(3,4)] s(2) ok procs_ok_cur(2,4) [OF ok(1)] closed_fd_ok
    by (auto simp: fd_table_ok_def fd_used_def)
qed

section \<open>Reading through a descriptor\<close>

definition std_fops :: "(fop \<times> fop) option list" where
  "std_fops = [Some (Invalid_function, Invalid_function), Some (Keyboard_read, Keyboard_write),
     Some (Terminal_read, Terminal_write), Some (Rtc_read, Rtc_write),
     Some (File_read_setup, Invalid_function), Some (Dir_readnew, Invalid_function)]"

lemma init_fops_table_std:
  assumes "length (fops_table s) = 6"
  shows "init_fops_table s = Some (s\<lparr>fops_table := std_fops\<rparr>)"
proof -
  obtain a b c d e f where "fops_table s = [a, b, c, d, e, f]"
    using assms by (auto simp: length_Suc_conv numeral_eq_Suc)
  then show ?thesis by (simp add: init_fops_table_def std_fops_def flag_defs aset_def numeral_eq_Suc)
qed

text \<open>The process whose descriptors \<^verbatim>\<open>read\<close> and \<^verbatim>\<open>write\<close> use is the current one.\<close>

definition calls_ok :: "'a kernel_scheme \<Rightarrow> bool" where
  "calls_ok s \<longleftrightarrow> procs_ok s \<and> fops_table s = std_fops \<and> current_pcb s = Some (unat (curr_process s))"

lemma calls_ok_dispatch:
  assumes "calls_ok s" and "0 \<le> fd" and "fd < int MAX_FILE" and "0 \<le> nbytes"
  shows "sys_read dst fd (Some buf) nbytes s = do {
      (f, _) \<leftarrow> std_fops ! fd_flags (FDs_array (cur_pcb s) ! nat fd);
      (r, bs, s) \<leftarrow> call_read f dst fd buf nbytes s;
      Some (r, Some bs, s) }"
    and "sys_write fd (Some buf) nbytes s = do {
      (_, f) \<leftarrow> std_fops ! fd_flags (FDs_array (cur_pcb s) ! nat fd);
      call_write f buf nbytes s }"
proof -
  have s: "procs_ok s" "fops_table s = std_fops" "current_pcb s = Some (unat (curr_process s))"
    using assms(1) by (simp_all add: calls_ok_def)
  have "nat fd < length (FDs_array (cur_pcb s))" and flag: "fd_flags (FDs_array (cur_pcb s) ! nat fd) < 6"
    using procs_ok_cur(2) [OF s(1)] assms(2,3) by (auto simp: pcb_ok_def)
  moreover have "length std_fops = 6" by (simp add: std_fops_def)
  moreover have "aget (pcbs s) (unat (curr_process s)) = Some (cur_pcb s)"
    using s(1) by (simp add: procs_ok_def cur_pcb_def)
  ultimately show "sys_read dst fd (Some buf) nbytes s = do {
      (f, _) \<leftarrow> std_fops ! fd_flags (FDs_array (cur_pcb s) ! nat fd);
      (r, bs, s) \<leftarrow> call_read f dst fd buf nbytes s;
      Some (r, Some bs, s) }"
    and "sys_write fd (Some buf) nbytes s = do {
      (_, f) \<leftarrow> std_fops ! fd_flags (FDs_array (cur_pcb s) ! nat fd);
      call_write f buf nbytes s }"
    using s(2,3) assms(2-4) by (simp_all add: sys_read_def sys_write_def)
qed

definition moved_fd :: "nat \<Rightarrow> nat \<Rightarrow> pcb \<Rightarrow> pcb" where
  "moved_fd i n b = b\<lparr>FDs_array := (FDs_array b)[i :=
     (FDs_array b ! i)\<lparr>fd_position := fd_position (FDs_array b ! i) + of_nat n\<rparr>]\<rparr>"

lemma moved_fd_ok: "pcb_ok b \<Longrightarrow> i < MAX_FILE \<Longrightarrow> pcb_ok (moved_fd i n b)"
  by (auto simp: pcb_ok_def moved_fd_def dest!: set_update_subset_insert [THEN subsetD])

text \<open>Descriptor \<open>i\<close> of the current process is the open file \<open>e\<close>.\<close>

definition open_at :: "nat \<Rightarrow> dentry \<Rightarrow> 'a kernel_scheme \<Rightarrow> bool" where
  "open_at i e s \<longleftrightarrow> fs_wf s \<and> dentries_wf s \<and> inode e < num_inodes s \<and> i < MAX_FILE \<and>
     fd_flags (FDs_array (cur_pcb s) ! i) = FILEFLAG \<and>
     0 \<in> set (drop (32 * i) (pcb_names (cur_pcb s))) \<and> chars (drop (32 * i) (pcb_names (cur_pcb s))) \<noteq> [] \<and>
     List.find (\<lambda>d. chars (file_name d) = chars (drop (32 * i) (pcb_names (cur_pcb s)))) (dentries s) = Some e"

lemma sys_read_file:
  assumes "calls_ok s" and "open_at i e s" and "0 \<le> nbytes" and "length (file_name dst) = 33"
    and "pos = unat (fd_position (FDs_array (cur_pcb s) ! i))" and "pos \<le> file_length s (inode e)"
    and "out = take (nat nbytes) (take (file_length s (inode e) - pos) (drop (read_start pos) (file_content s (inode e))))"
    and "length out \<le> length buf"
  shows "sys_read dst (int i) (Some buf) nbytes s =
    Some (int (length out), Some (out @ drop (length out) buf), set_cur_pcb (moved_fd i (length out) (cur_pcb s)) s)"
proof -
  have o: "fs_wf s" "dentries_wf s" "inode e < num_inodes s" "i < MAX_FILE"
    "fd_flags (FDs_array (cur_pcb s) ! i) = FILEFLAG"
    "0 \<in> set (drop (32 * i) (pcb_names (cur_pcb s)))" using assms(2) by (simp_all add: open_at_def)
  have ok: "procs_ok s" using assms(1) by (simp add: calls_ok_def)
  have "file_read s (drop (32 * i) (pcb_names (cur_pcb s))) pos (nat nbytes) dst = Some (int (length out), out)"
    using read_dentry_by_name_eq [OF o(2,6) assms(4)] assms(2,6,7) read_data_eq [OF o(1,3), of pos "nat nbytes"]
    by (simp add: file_read_def open_at_def Let_def)
  then have "file_read_setup dst (int i) buf nbytes s =
      Some (int (length out), out @ drop (length out) buf, set_cur_pcb (moved_fd i (length out) (cur_pcb s)) s)"
    using procs_ok_cur [OF ok] o(4) assms(5,8)
    by (simp add: file_read_setup_def upd_fd_def moved_fd_def pcb_ok_def)
  moreover have "std_fops ! FILEFLAG = Some (File_read_setup, Invalid_function)"
    by (simp add: std_fops_def FILEFLAG_def)
  ultimately show ?thesis
    using calls_ok_dispatch(1) [OF assms(1), of "int i"] o(4,5) assms(3) by (simp add: call_read_def)
qed

lemma set_cur_pcb_files [simp]:
  "fs_wf (set_cur_pcb b s) = fs_wf s" "dentries_wf (set_cur_pcb b s) = dentries_wf s"
  "num_inodes (set_cur_pcb b s) = num_inodes s" "dentries (set_cur_pcb b s) = dentries s"
  "file_content (set_cur_pcb b s) k = file_content s k" "file_length (set_cur_pcb b s) k = file_length s k"
  by (simp_all add: set_cur_pcb_def fs_wf_def dentries_wf_def dentries_def file_length_def file_content_def
      inode_word_def file_byte_def)

lemma calls_ok_set: "\<lbrakk>calls_ok s; pcb_ok b\<rbrakk> \<Longrightarrow> calls_ok (set_cur_pcb b s)"
  using procs_ok_cur(4) [of s b] by (simp add: calls_ok_def set_cur_pcb_def)

section \<open>Properties\<close>

definition pcb_example :: pcb where
  "pcb_example = \<lparr>PID = 0, FDs_array = replicate 8 \<lparr>fd_inode = 0, fd_position = 0, fd_flags = 0\<rparr>,
     pcb_args = replicate 128 0, pcb_names = replicate 256 0, ESP0 = 0, EBP0 = 0, ESP_SWITCH = 0, EBP_SWITCH = 0, PPID = -1\<rparr>"

definition kernel_example :: kernel where
  "kernel_example = keyboard.extend keyboard_example \<lparr>curr_process = 0, process_array = [1, 0, 0, 0, 0, 0],
     pcbs = replicate 6 pcb_example, current_pcb = Some 0, fops_table = std_fops, tss_esp0 = 0, tss_ss0 = 0,
     phys_mem = (\<lambda>_. 0)\<rparr>"

lemma kernel_example_files [simp]:
  "fs_wf kernel_example" "dentries_wf kernel_example" "num_inodes kernel_example = 4"
  "dentries kernel_example = dentries mounted_example" "file_content kernel_example i = file_content mounted_example i"
  "file_length kernel_example i = file_length mounted_example i"
  using mounted_example_facts(1-3)
  by (simp_all add: kernel_example_def keyboard.defs keyboard_example_def console.defs console_example_def files.defs
      fs_wf_def dentries_wf_def dentries_def file_length_def file_content_def inode_word_def file_byte_def)

lemma kernel_example_calls [simp]: "calls_ok kernel_example" "procs_ok kernel_example"
  by (simp_all add: kernel_example_def keyboard.defs calls_ok_def procs_ok_def pcb_example_def pcb_ok_def
      NUM_PROCESSES_def MAX_FILE_def BUF_SIZE_def)

lemma files_example_lookup:
  assumes "i < length files_example"
  shows "\<exists>e. List.find (\<lambda>d. chars (file_name d) = ff_name (files_example ! i)) (dentries mounted_example) = Some e \<and>
    inode e = i \<and> file_type e = ff_type (files_example ! i)"
  by (rule mounted_lookup [OF mounted_example_ok(1) files_example_ok assms])

text \<open>The entry of \<^verbatim>\<open>frame0.txt\<close>.\<close>

definition frame0_entry :: dentry where
  "frame0_entry = the (List.find (\<lambda>d. chars (file_name d) = lit ''frame0.txt'') (dentries mounted_example))"

lemma frame0_entry_facts:
  "List.find (\<lambda>d. chars (file_name d) = lit ''frame0.txt'') (dentries mounted_example) = Some frame0_entry"
  "inode frame0_entry = Suc 0" "file_type frame0_entry = FILETYPE"
  using files_example_lookup [of 1] by (auto simp: frame0_entry_def files_example_def FILETYPE_def)

lemma frame0_named: "names_file (cstr ''frame0.txt'') frame0_entry kernel_example"
  using frame0_entry_facts by (simp add: names_file_def names_entry_def cstr_def chars_def)

text \<open>C16: descriptors.  Opening a file or a directory either fails, with nothing changed, because descriptors
  2 to 7 are all taken, or returns the least of them that was free and takes that one only; closing
  it gives exactly that one back.  The value is the descriptor, not the 0 that the comment above \<^verbatim>\<open>open\<close> announces.\<close>

theorem descriptor_allocation:
  assumes "fd_table_ok fname e s"
  shows "({2..<MAX_FILE} \<subseteq> fd_used s \<and> sys_open blank_dentry fname s = Some (-1, s)) \<or>
    (\<exists>i s' s''. 2 \<le> i \<and> i < MAX_FILE \<and> i \<notin> fd_used s \<and> {2..<i} \<subseteq> fd_used s \<and> sys_open blank_dentry fname s = Some (int i, s') \<and>
       fd_used s' = insert i (fd_used s) \<and> sys_close (int i) s' = Some (0, s'') \<and> fd_used s'' = fd_used s)"
  using assms
proof (cases rule: fd.alloc_cases)
  case full
  then show ?thesis by blast
next
  case (got i s')
  obtain s'' where s'': "map_option snd (sys_close (int i) s') = Some s''" "fd_used s'' = fd_used s"
    using fd.alloc_free [OF assms got(4)] by blast
  have "i \<in> fd_used s'" "procs_ok s'" using got(5,6) by (simp_all add: fd_table_ok_def)
  then have "sys_close (int i) s' = Some (0, s'')"
    using sys_close_used [of s' i] got(1,2) s''(1) by (simp add: fd_used_def)
  moreover have "{2..<i} \<subseteq> fd_used s" using got(7) by auto
  ultimately show ?thesis using got(1-6) s''(2) by blast
qed

theorem descriptor_allocation_witness:
  "({2..<MAX_FILE} \<subseteq> fd_used kernel_example \<and> sys_open blank_dentry (cstr ''frame0.txt'') kernel_example = Some (-1, kernel_example)) \<or>
    (\<exists>i s' s''. 2 \<le> i \<and> i < MAX_FILE \<and> i \<notin> fd_used kernel_example \<and> {2..<i} \<subseteq> fd_used kernel_example \<and>
       sys_open blank_dentry (cstr ''frame0.txt'') kernel_example = Some (int i, s') \<and>
       fd_used s' = insert i (fd_used kernel_example) \<and> sys_close (int i) s' = Some (0, s'') \<and>
       fd_used s'' = fd_used kernel_example)"
  by (rule descriptor_allocation [of _ frame0_entry]) (use frame0_named in \<open>simp add: fd_table_ok_def names_file_def\<close>)

text \<open>C17: open, read, close.  A process that opens a regular file by its name and reads from the new
  descriptor gets the first bytes of that file in its buffer, as many as it asked for or the
  file has, the rest of the buffer unchanged; a second read continues where the first ended,
  unless that is byte 4096; and the descriptor can be closed.\<close>

theorem open_read_close:
  assumes "calls_ok s" and "names_file fname e s" and "fs_wf s" and "inode e < num_inodes s"
    and "\<not> {2..<MAX_FILE} \<subseteq> fd_used s" and "0 \<le> nbytes" and "0 \<le> nbytes'"
    and "out = take (nat nbytes) (file_content s (inode e))" and "length out \<noteq> BLOCK_SIZE"
    and "out' = take (nat nbytes') (drop (length out) (file_content s (inode e)))"
    and "length out \<le> length buf" and "length out' \<le> length buf'" and "file_length s (inode e) < 2 ^ 32"
  shows "\<exists>i s1 s2 s3 s4. sys_open blank_dentry fname s = Some (int i, s1) \<and>
    sys_read blank_dentry (int i) (Some buf) nbytes s1 = Some (int (length out), Some (out @ drop (length out) buf), s2) \<and>
    sys_read blank_dentry (int i) (Some buf') nbytes' s2 = Some (int (length out'), Some (out' @ drop (length out') buf'), s3) \<and>
    sys_close (int i) s3 = Some (0, s4)"
proof -
  have ok: "procs_ok s" "fd_table_ok fname e s" using assms(1,2) by (simp_all add: calls_ok_def fd_table_ok_def names_file_def)
  have n: "0 \<in> set fname" "chars fname \<noteq> []" "length (chars fname) < 32" "dentries_wf s"
    "List.find (\<lambda>d. chars (file_name d) = chars fname) (dentries s) = Some e"
    using assms(2) by (simp_all add: names_file_def names_entry_def)
  obtain i where i: "2 \<le> i" "i < MAX_FILE" "sys_open blank_dentry fname s = Some (int i, set_cur_pcb (opened fname e i (cur_pcb s)) s)"
  proof -
    have "List.find (\<lambda>j. fd_flags (FDs_array (cur_pcb s) ! j) = NOT_SET) [2..<MAX_FILE] \<noteq> None"
      unfolding find_index_None using assms(5) by (auto simp: fd_used_def)
    then obtain i where f: "List.find (\<lambda>j. fd_flags (FDs_array (cur_pcb s) ! j) = NOT_SET) [2..<MAX_FILE] = Some i" by blast
    have "sys_open blank_dentry fname s = Some (int i, set_cur_pcb (opened fname e i (cur_pcb s)) s)"
      using sys_open_file [OF ok(1), of fname e blank_dentry] assms(2) f by (simp add: blank_dentry_def names_file_def)
    then show thesis using that f unfolding find_index_least by blast
  qed
  let ?b1 = "opened fname e i (cur_pcb s)"
  let ?s1 = "set_cur_pcb ?b1 s"
  let ?b2 = "moved_fd i (length out) ?b1"
  let ?s2 = "set_cur_pcb ?b2 s"
  let ?s3 = "set_cur_pcb (moved_fd i (length out') ?b2) s"
  have b: "pcb_ok ?b1" "pcb_ok ?b2" "pcb_ok (moved_fd i (length out') ?b2)"
    using opened_ok [OF procs_ok_cur(2) [OF ok(1)] i(2) n(3)] moved_fd_ok i(2) by blast+
  have flag: "slot_flag e = FILEFLAG" using assms(2) by (simp add: names_file_def slot_flag_def FILETYPE_def DIRTYPE_def)
  have fds: "length (FDs_array (cur_pcb s)) = MAX_FILE" using procs_ok_cur(2) [OF ok(1)] by (simp add: pcb_ok_def)
  have row: "drop (32 * i) (pcb_names ?b1) = chars fname @ 0 # drop (32 * i + Suc (length (chars fname))) (pcb_names (cur_pcb s))"
    by (rule opened_name [OF procs_ok_cur(2) [OF ok(1)] i(2) n(3)])
  have open1: "open_at i e ?s1" "open_at i e ?s2"
    using assms(3,4) n(2,4,5) i(2) fds row procs_ok_cur(3) [OF ok(1)]
    by (simp_all add: open_at_def opened_def moved_fd_def flag)
  have lens: "length out \<le> file_length s (inode e)" using assms(8) by simp
  have read1: "sys_read blank_dentry (int i) (Some buf) nbytes ?s1 = Some (int (length out), Some (out @ drop (length out) buf), ?s2)"
    using sys_read_file [OF calls_ok_set [OF assms(1) b(1)] open1(1) assms(6), of blank_dentry 0 out buf] assms(8,11) fds i(2)
      procs_ok_cur(3) [OF ok(1)]
    by (simp add: read_start_def BLOCK_SIZE_def blank_dentry_def opened_def)
  have pos: "unat (fd_position (FDs_array ?b2 ! i)) = length out"
    using fds i(2) lens assms(13) by (simp add: moved_fd_def opened_def unsigned_of_nat take_bit_nat_eq_self)
  have "take (nat nbytes') (take (file_length s (inode e) - length out) (drop (length out) (file_content s (inode e)))) = out'"
    unfolding assms(10) by (simp add: take_all_iff)
  then have read2: "sys_read blank_dentry (int i) (Some buf') nbytes' ?s2 = Some (int (length out'), Some (out' @ drop (length out') buf'), ?s3)"
    using sys_read_file [OF calls_ok_set [OF assms(1) b(2)] open1(2) assms(7), of blank_dentry "length out" out' buf'] assms(9,12) pos lens
      procs_ok_cur(3) [OF ok(1)]
    by (simp add: read_start_def blank_dentry_def)
  have "fd_flags (FDs_array (moved_fd i (length out') ?b2) ! i) = FILEFLAG"
    using fds i(2) by (simp add: moved_fd_def opened_def flag)
  then have "\<exists>s4. sys_close (int i) ?s3 = Some (0, s4)"
    using sys_close_used [OF _ i(1,2), of ?s3] procs_ok_cur(3,4) [OF ok(1)] b(3) by (simp add: flag_defs)
  then show ?thesis using i(3) read1 read2 by blast
qed

theorem open_read_close_witness:
  "\<exists>i s1 s2 s3 s4. sys_open blank_dentry (cstr ''frame0.txt'') kernel_example = Some (int i, s1) \<and>
    sys_read blank_dentry (int i) (Some (replicate 8 0)) 3 s1 =
      Some (int (length (lit ''fis'')), Some (lit ''fis'' @ drop (length (lit ''fis'')) (replicate 8 0)), s2) \<and>
    sys_read blank_dentry (int i) (Some (replicate 8 0)) 3 s2 =
      Some (int (length (lit ''h'')), Some (lit ''h'' @ drop (length (lit ''h'')) (replicate 8 0)), s3) \<and>
    sys_close (int i) s3 = Some (0, s4)"
proof (rule open_read_close [of _ _ frame0_entry])
  show "\<not> {2..<MAX_FILE} \<subseteq> fd_used kernel_example"
    by (simp add: fd_used_def cur_pcb_def kernel_example_def keyboard.defs pcb_example_def NOT_SET_def subset_iff MAX_FILE_def)
      (auto intro: exI [of _ 2])
qed (simp_all add: frame0_named frame0_entry_facts BLOCK_SIZE_def)

text \<open>bad arguments.  A null buffer, a negative count or a descriptor outside 0 to 7 makes \<^verbatim>\<open>read\<close> and
  \<^verbatim>\<open>write\<close> return -1 with no effect, and so does writing through a descriptor of a file or a
  directory, or closing one of the two standard descriptors or one that is not open.\<close>

theorem bad_calls_rejected:
  "(buf = None \<or> nbytes < 0 \<or> fd < 0 \<or> int MAX_FILE \<le> fd \<longrightarrow>
      sys_read dst fd buf nbytes s = Some (-1, buf, s) \<and> sys_write fd buf nbytes s = Some (-1, s)) \<and>
   (calls_ok s \<and> 0 \<le> fd \<and> fd < int MAX_FILE \<and> fd_flags (FDs_array (cur_pcb s) ! nat fd) \<in> {FILEFLAG, DIRFLAG, NOT_SET} \<longrightarrow>
      sys_write fd buf nbytes s = Some (-1, s)) \<and>
   (procs_ok s \<and> (fd < 2 \<or> int MAX_FILE \<le> fd \<or> fd_flags (FDs_array (cur_pcb s) ! nat fd) = NOT_SET) \<longrightarrow>
      sys_close fd s = Some (-1, s))"
proof (intro conjI impI)
  assume "calls_ok s \<and> 0 \<le> fd \<and> fd < int MAX_FILE \<and> fd_flags (FDs_array (cur_pcb s) ! nat fd) \<in> {FILEFLAG, DIRFLAG, NOT_SET}"
  then show "sys_write fd buf nbytes s = Some (-1, s)"
    using calls_ok_dispatch(2) [of s fd nbytes]
    by (cases buf; cases "nbytes < 0")
      (auto simp: sys_write_def call_write_def std_fops_def flag_defs invalid_function_def simp del: not_less)
next
  assume p: "procs_ok s \<and> (fd < 2 \<or> int MAX_FILE \<le> fd \<or> fd_flags (FDs_array (cur_pcb s) ! nat fd) = NOT_SET)"
  show "sys_close fd s = Some (-1, s)"
  proof (cases "2 \<le> fd \<and> fd < int MAX_FILE")
    case True
    then show ?thesis using sys_close_used [of s "nat fd"] p by auto
  next
    case False
    then show ?thesis by (auto simp: sys_close_def MAX_FILE_def)
  qed
qed (auto simp: sys_read_def sys_write_def split: option.splits)

theorem bad_calls_rejected_witness:
  "sys_read blank_dentry 8 (Some [0]) 1 kernel_example = Some (-1, Some [0], kernel_example) \<and>
   sys_write 8 (Some [0]) 1 kernel_example = Some (-1, kernel_example)"
  using bad_calls_rejected [of "Some [0]" 1 8 blank_dentry kernel_example] by (simp add: MAX_FILE_def)

end
