(* ===== verification/Exec.thy ===== *)
theory Exec
  imports Process AsmMem
begin

text \<open>
  The life of a process: \<^verbatim>\<open>execute\<close>, \<^verbatim>\<open>halt\<close> and \<^verbatim>\<open>halt_from_exc\<close> of \<^verbatim>\<open>student-distrib/syscall.c\<close>, the
  remaining system calls, and the dispatch of \<^verbatim>\<open>syscall_link.S\<close>.
\<close>

section \<open>Execute\<close>

text \<open>The loop that copies the command word.\<close>

function parse_loop :: "byte list \<Rightarrow> byte list \<Rightarrow> byte list \<Rightarrow> nat \<Rightarrow> (nat \<times> byte list) option" where
  "parse_loop buf command com i =
     (if i < length buf then
        if buf ! i \<noteq> 0 \<and> buf ! i \<noteq> SPC \<and> buf ! i \<noteq> NL then do {
          c \<leftarrow> aget command i;
          com \<leftarrow> aset com i c;
          parse_loop buf command com (Suc i)
        } else Some (i, com)
      else None)"
  by pat_completeness auto
termination
  by (relation "measure (\<lambda>(buf, command, com, i). length buf - i)") auto

function skip_spaces :: "byte list \<Rightarrow> nat \<Rightarrow> nat option" where
  "skip_spaces command i =
     (if i < length command then if command ! i = SPC then skip_spaces command (Suc i) else Some i else None)"
  by pat_completeness auto
termination
  by (relation "measure (\<lambda>(command, i). length command - i)") auto

function copy_args :: "byte list \<Rightarrow> nat \<Rightarrow> nat \<Rightarrow> byte list \<Rightarrow> (nat \<times> byte list) option" where
  "copy_args command arg_start i args =
     (if i < length command then
        if command ! i \<noteq> 0 then do {
          args \<leftarrow> aset args (i - arg_start) (command ! i);
          copy_args command arg_start (Suc i) args
        } else Some (i, args)
      else None)"
  by pat_completeness auto
termination
  by (relation "measure (\<lambda>(command, arg_start, i, args). length command - i)") auto

declare parse_loop.simps [simp del] skip_spaces.simps [simp del] copy_args.simps [simp del]

text \<open>Stores of the kernel to consecutive virtual addresses; an unmapped address is \<open>None\<close>.\<close>

fun store_virt :: "u32 \<Rightarrow> byte list \<Rightarrow> 'a kernel_scheme \<Rightarrow> 'a kernel_scheme option" where
  "store_virt va [] s = Some s"
| "store_virt va (b # bs) s = do {
     pa \<leftarrow> translate False s va;
     store_virt (va + 1) bs (s\<lparr>phys_mem := (phys_mem s)(pa := b)\<rparr>)
   }"

text \<open>\<^verbatim>\<open>terminals[get_cur_term()]\<close>.\<close>

definition cur_terminal :: "'a console_scheme \<Rightarrow> terminal option" where
  "cur_terminal s = (if 0 \<le> get_cur_term s then aget (terminals s) (nat (get_cur_term s)) else None)"

definition upd_cur_terminal :: "(terminal \<Rightarrow> terminal) \<Rightarrow> 'a console_scheme \<Rightarrow> 'a console_scheme option" where
  "upd_cur_terminal f s = (if 0 \<le> get_cur_term s then upd_term (nat (get_cur_term s)) f s else None)"

definition fresh_fds :: "fds list \<Rightarrow> fds list" where
  "fresh_fds t = fill_for 0 MAX_FILE (\<lambda>i. \<lparr>fd_inode = - 1, fd_position = 0, fd_flags = NOT_SET\<rparr>) t"

text \<open>The page is mapped, the program copied and control passed to it; \<^verbatim>\<open>iret\<close> enters the program with
  interrupts enabled.\<close>

definition execute_enter :: "frame \<Rightarrow> u32 \<Rightarrow> nat \<Rightarrow> u32 \<Rightarrow> 'a kernel_scheme \<Rightarrow> (outcome \<times> 'a kernel_scheme) option" where
  "execute_enter fr new_process ino file_start s = do {
     let s = map_page VIRTUAL_FILE_PAGE (PHYS_FILE_START + PHYS_FILE_OFFSET * new_process) s;
     (_, out) \<leftarrow> read_data s ino 0 READ_WHOLE_FILE;
     s \<leftarrow> store_virt VIRTUAL_FILE_START out s;
     let s = s\<lparr>tss_ss0 := KERNEL_DS, tss_esp0 := PHYS_FILE_START - EIGHT_KB * new_process - 4\<rparr>;
     s \<leftarrow> upd_pcb new_process (\<lambda>b. Some (b\<lparr>EBP0 := fr_ebp fr, ESP0 := fr_esp fr\<rparr>)) s;
     s \<leftarrow> upd_cur_terminal (\<lambda>t. t\<lparr>tm_ESP := fr_esp fr, tm_EBP := fr_ebp fr\<rparr>) s;
     Some (Entered file_start, sti s)
   }"

text \<open>The entry point is read and the process control block filled in.\<close>

definition execute_load :: "frame \<Rightarrow> u32 \<Rightarrow> nat \<Rightarrow> byte list \<Rightarrow> 'a kernel_scheme \<Rightarrow> (outcome \<times> 'a kernel_scheme) option" where
  "execute_load fr new_process ino buffer s = do {
     (_, out) \<leftarrow> read_data s ino 24 4;
     buffer \<leftarrow> overwrite out buffer;
     file_start \<leftarrow> le32 buffer;
     t \<leftarrow> cur_terminal s;
     let parent = (if tm_active t = 0 then - 1 else curr_process s);
     s \<leftarrow> (if tm_active t = 0 then upd_cur_terminal (\<lambda>t. t\<lparr>tm_active := 1\<rparr>) s else Some s);
     s \<leftarrow> upd_pcb new_process (\<lambda>b. Some (b\<lparr>PPID := parent, PID := new_process\<rparr>)) s;
     s \<leftarrow> set_curr_process (sint new_process) (s\<lparr>curr_process := new_process\<rparr>);
     s \<leftarrow> upd_pcb new_process (\<lambda>b. do {
       t \<leftarrow> Some (fresh_fds (FDs_array b));
       d \<leftarrow> aget t 0;
       t \<leftarrow> aset t 0 (d\<lparr>fd_flags := STDINFLAG\<rparr>);
       d \<leftarrow> aget t 1;
       t \<leftarrow> aset t 1 (d\<lparr>fd_flags := STDOUTFLAG\<rparr>);
       Some (b\<lparr>FDs_array := t\<rparr>) }) s;
     execute_enter fr new_process ino file_start s
   }"

definition execute :: "frame \<Rightarrow> byte list \<Rightarrow> 'a kernel_scheme \<Rightarrow> (outcome \<times> 'a kernel_scheme) option" where
  "execute fr command s = do {
     buf \<leftarrow> strcpy (fr_buf fr) command;
     let s = cli s;
     (i, com) \<leftarrow> parse_loop buf command (fr_com fr) 0;
     com \<leftarrow> aset com i 0;
     i \<leftarrow> skip_spaces command i;
     (new_process, s) \<leftarrow> get_process s;
     if new_process = -1 then do {
       (_, s) \<leftarrow> puts (cstr ''too many processes\<newline>'') s;
       Some (Returned 0, s)
     } else do {
       let p = of_int new_process;
       let s = s\<lparr>current_pcb := Some (nat new_process)\<rparr>;
       let arg_start = i mod 256;
       s \<leftarrow> upd_pcb p (\<lambda>b. do {
         (i, args) \<leftarrow> copy_args command arg_start i (pcb_args b);
         args \<leftarrow> aset args (i - arg_start) 0;
         Some (b\<lparr>pcb_args := args\<rparr>) }) s;
       (r, d) \<leftarrow> read_dentry_by_name s com (fr_dentry fr);
       if r \<noteq> 0 then Some (Returned (-1), clear_process s)
       else do {
         (_, out) \<leftarrow> read_data s (inode d) 0 4;
         buffer \<leftarrow> overwrite out (fr_buffer fr);
         if take 4 buffer \<noteq> [0x7F, 0x45, 0x4C, 0x46] then Some (Returned (-1), s)
         else execute_load fr p (inode d) buffer s
       }
     }
   }"

section \<open>Halt\<close>

function close_loop :: "nat \<Rightarrow> u32 \<Rightarrow> 'a kernel_scheme \<Rightarrow> 'a kernel_scheme option" where
  "close_loop i p s =
     (if i < MAX_FILE then do {
        b \<leftarrow> the_pcb p s;
        d \<leftarrow> aget (FDs_array b) i;
        s \<leftarrow> (if fd_flags d \<noteq> 0 then map_option snd (sys_close (int i) s) else Some s);
        close_loop (Suc i) p s
      } else Some s)"
  by pat_completeness auto
termination
  by (relation "measure (\<lambda>(i, p, s). MAX_FILE - i)") auto

declare close_loop.simps [simp del]

text \<open>The second half of \<^verbatim>\<open>halt\<close>: back to the parent.  \<open>child\<close> is the process that ends.\<close>

definition halt_tail :: "u32 \<Rightarrow> u32 \<Rightarrow> 'a kernel_scheme \<Rightarrow> (outcome \<times> 'a kernel_scheme) option" where
  "halt_tail eax child s = do {
     b \<leftarrow> the_pcb (curr_process s) s;
     let cur_ppid = PPID b;
     let s = s\<lparr>tss_esp0 := PHYS_FILE_START - EIGHT_KB * cur_ppid - 4, curr_process := cur_ppid\<rparr>;
     s \<leftarrow> set_curr_process (sint cur_ppid) s;
     let s = map_page VIRTUAL_FILE_PAGE (PHYS_FILE_START + PHYS_FILE_OFFSET * cur_ppid) s;
     s \<leftarrow> close_loop 2 cur_ppid s;
     c \<leftarrow> the_pcb child s;
     Some (Resumed eax (ESP0 c) (EBP0 c), s)
   }"

text \<open>The body that \<^verbatim>\<open>halt\<close> and \<^verbatim>\<open>halt_from_exc\<close> share.  The shell of a terminal has no parent and is
  started again; only when that fails does the code go on.\<close>

definition halt_body :: "frame \<Rightarrow> u32 \<Rightarrow> 'a kernel_scheme \<Rightarrow> (outcome \<times> 'a kernel_scheme) option" where
  "halt_body fr eax s = do {
     s \<leftarrow> end_process (curr_process s) s;
     let child = curr_process s;
     b \<leftarrow> the_pcb child s;
     if PPID b = - 1 then do {
       s \<leftarrow> upd_cur_terminal (\<lambda>t. t\<lparr>tm_active := 0\<rparr>) s;
       (oc, s) \<leftarrow> execute fr (cstr ''shell'' @ [0]) s;
       case oc of Returned _ \<Rightarrow> halt_tail eax child s | _ \<Rightarrow> Some (oc, s)
     } else halt_tail eax child s
   }"

definition halt :: "frame \<Rightarrow> byte \<Rightarrow> 'a kernel_scheme \<Rightarrow> (outcome \<times> 'a kernel_scheme) option" where
  "halt fr status s = halt_body fr (ucast status) s"

definition halt_from_exc :: "frame \<Rightarrow> 'a kernel_scheme \<Rightarrow> (outcome \<times> 'a kernel_scheme) option" where
  "halt_from_exc fr s = halt_body fr 256 s"

section \<open>The other calls\<close>

definition getargs :: "byte list option \<Rightarrow> int \<Rightarrow> 'a kernel_scheme \<Rightarrow> (int \<times> byte list option) option" where
  "getargs buf nbytes s =
     (case buf of None \<Rightarrow> Some (-1, None)
      | Some bs \<Rightarrow> do {
         b \<leftarrow> the_pcb (curr_process s) s;
         bs \<leftarrow> strcpy bs (pcb_args b);
         Some (0, Some bs)
       })"

text \<open>\<open>screen_start\<close> is the address of the pointer to fill in; the second result is what is stored there.\<close>

definition vidmap :: "u32 \<Rightarrow> 'a paging_scheme \<Rightarrow> int \<times> u32 option \<times> 'a paging_scheme" where
  "vidmap screen_start s =
     (if screen_start = 0 \<or> screen_start < 0x700000 then (-1, None, s)
      else (0, Some USER_VID_MEM, map_w_pt USER_VID_MEM VIDEO s))"

definition set_handler :: "int \<Rightarrow> u32 \<Rightarrow> int" where "set_handler signum handler_address = -1"
definition sigreturn :: int where "sigreturn = -1"

section \<open>What \<^verbatim>\<open>execute\<close> makes of the command line\<close>

definition word_char :: "byte \<Rightarrow> bool" where
  "word_char c \<longleftrightarrow> c \<noteq> SPC \<and> c \<noteq> NL"

definition cmd_word :: "byte list \<Rightarrow> byte list" where
  "cmd_word command = takeWhile word_char (chars command)"

definition cmd_rest :: "byte list \<Rightarrow> byte list" where
  "cmd_rest command = dropWhile word_char (chars command)"

definition cmd_args :: "byte list \<Rightarrow> byte list" where
  "cmd_args command = dropWhile (\<lambda>c. c = SPC) (cmd_rest command)"

lemma cmd_split: "chars command = cmd_word command @ cmd_rest command"
  by (simp add: cmd_word_def cmd_rest_def)

lemma cmd_word_no_nul [simp]: "0 \<notin> set (cmd_word command)"
  by (metis Un_iff chars_no_nul cmd_split set_append)

lemma nth_chars: "i < length (chars s) \<Longrightarrow> s ! i = chars s ! i"
  by (simp add: chars_def takeWhile_nth)

lemma nth_end_chars: "0 \<in> set s \<Longrightarrow> s ! length (chars s) = 0"
  by (erule terminatedE) (metis nth_append_length)

lemma chars_nth_nonzero: "i < length (chars s) \<Longrightarrow> chars s ! i \<noteq> 0"
  by (metis chars_no_nul nth_mem)

text \<open>The character after the command word ends it.\<close>

lemma cmd_word_end:
  assumes "0 \<in> set command"
  shows "command ! length (cmd_word command) = 0 \<or> \<not> word_char (command ! length (cmd_word command))"
proof (cases "length (cmd_word command) < length (chars command)")
  case True
  then have "\<not> word_char (chars command ! length (cmd_word command))"
    unfolding cmd_word_def by (rule nth_length_takeWhile)
  then show ?thesis using nth_chars [OF True] by simp
next
  case False
  then have "length (cmd_word command) = length (chars command)"
    using cmd_split [of command] by (metis le_neq_implies_less length_append le_add1)
  then show ?thesis using nth_end_chars [OF assms] by simp
qed

lemma cmd_word_in:
  assumes "i < length (cmd_word command)"
  shows "command ! i = cmd_word command ! i" "command ! i \<noteq> 0" "word_char (command ! i)"
proof -
  have "i < length (chars command)" using assms cmd_split [of command] by (metis length_append trans_less_add1)
  moreover have "chars command ! i = cmd_word command ! i"
    using assms cmd_split [of command] by (metis nth_append)
  moreover have "word_char (cmd_word command ! i)"
    using assms unfolding cmd_word_def by (metis nth_mem set_takeWhileD)
  ultimately show "command ! i = cmd_word command ! i" "command ! i \<noteq> 0" "word_char (command ! i)"
    using nth_chars [of i command] chars_nth_nonzero by metis+
qed

lemma parse_loop_word:
  assumes "0 \<in> set command" and "buf = chars command @ 0 # r"
  shows "\<lbrakk>i \<le> length (cmd_word command); length (cmd_word command) \<le> length com;
      take i com = take i (cmd_word command)\<rbrakk> \<Longrightarrow>
    parse_loop buf command com i =
      Some (length (cmd_word command), cmd_word command @ drop (length (cmd_word command)) com)"
proof (induction "length (cmd_word command) - i" arbitrary: i com)
  case 0
  have le: "length (cmd_word command) \<le> length (chars command)" using cmd_split [of command] by (metis length_append le_add1)
  have i: "i = length (cmd_word command)" using 0 by simp
  have "buf ! i = command ! i"
    using le i nth_chars [of i command] nth_end_chars [OF assms(1)] unfolding assms(2)
    by (cases "i < length (chars command)") (auto simp: nth_append)
  moreover have "i < length buf" using le i by (simp add: assms(2))
  moreover have "com = cmd_word command @ drop (length (cmd_word command)) com"
    using 0(4) i append_take_drop_id [of i com] by simp
  ultimately show ?case
    using cmd_word_end [OF assms(1)] i by (auto simp: parse_loop.simps [of buf] word_char_def)
next
  case (Suc n)
  have i: "i < length (cmd_word command)" using Suc.hyps(2) by simp
  then have ic: "i < length (chars command)" using cmd_split [of command] by (metis length_append trans_less_add1)
  have b: "buf ! i = command ! i" "i < length buf" "i < length command" "i < length com"
    using ic nth_chars [OF ic] length_chars_less [OF assms(1)] i Suc.prems(2) by (auto simp: assms(2) nth_append)
  have "parse_loop buf command (com[i := command ! i]) (Suc i) =
      Some (length (cmd_word command), cmd_word command @ drop (length (cmd_word command)) (com[i := command ! i]))"
    using Suc.hyps(2) i b(4) Suc.prems cmd_word_in(1) [OF i]
    by (intro Suc.hyps(1)) (auto simp: take_Suc_conv_app_nth)
  then show ?case
    using b i cmd_word_in [OF i] by (simp add: parse_loop.simps [of buf command com] word_char_def)
qed

lemma skip_spaces_eq:
  assumes "0 \<in> set command"
  shows "i \<le> length (chars command) \<Longrightarrow>
    skip_spaces command i = Some (i + length (takeWhile (\<lambda>c. c = SPC) (drop i (chars command))))"
proof (induction "length (chars command) - i" arbitrary: i)
  case 0
  then have "i = length (chars command)" by simp
  then show ?case
    using nth_end_chars [OF assms] length_chars_less [OF assms] by (simp add: skip_spaces.simps)
next
  case (Suc n)
  have i: "i < length (chars command)" using Suc.hyps(2) by simp
  then have d: "drop i (chars command) = command ! i # drop (Suc i) (chars command)"
    using nth_chars [OF i] by (simp add: Cons_nth_drop_Suc)
  have "skip_spaces command (Suc i) =
      Some (Suc i + length (takeWhile (\<lambda>c. c = SPC) (drop (Suc i) (chars command))))"
    using Suc.hyps(2) i by (intro Suc.hyps(1)) auto
  then show ?case
    using i d length_chars_less [OF assms] by (simp add: skip_spaces.simps [of command i])
qed

lemma skip_spaces_args:
  assumes "0 \<in> set command"
  shows "skip_spaces command (length (cmd_word command)) = Some (length (chars command) - length (cmd_args command))"
proof -
  let ?sp = "takeWhile (\<lambda>c. c = SPC) (cmd_rest command)"
  have r: "drop (length (cmd_word command)) (chars command) = cmd_rest command" by (simp add: cmd_split [of command])
  have "cmd_rest command = ?sp @ cmd_args command" by (simp add: cmd_args_def)
  then have "length (cmd_rest command) = length ?sp + length (cmd_args command)" by (metis length_append)
  moreover have "length (chars command) = length (cmd_word command) + length (cmd_rest command)"
    by (simp add: cmd_split [of command])
  ultimately show ?thesis
    using skip_spaces_eq [OF assms, of "length (cmd_word command)"] r by simp
qed

lemma cmd_args_suffix: "drop (length (chars command) - length (cmd_args command)) (chars command) = cmd_args command"
proof -
  have "chars command = (cmd_word command @ takeWhile (\<lambda>c. c = SPC) (cmd_rest command)) @ cmd_args command"
    by (simp add: cmd_args_def cmd_split)
  then show ?thesis by (metis append_eq_conv_conj diff_add_inverse2 length_append)
qed

lemma cmd_args_length: "length (cmd_args command) \<le> length (chars command)"
  by (metis cmd_args_suffix diff_le_self length_drop)

lemma copy_args_eq:
  assumes "0 \<in> set command"
  shows "\<lbrakk>start \<le> i; i \<le> length (chars command); length (chars command) - start < length args\<rbrakk> \<Longrightarrow>
    copy_args command start i args = Some (length (chars command),
      take (i - start) args @ drop i (chars command) @ drop (length (chars command) - start) args)"
proof (induction "length (chars command) - i" arbitrary: i args)
  case 0
  then have "i = length (chars command)" by simp
  then show ?case
    using nth_end_chars [OF assms] length_chars_less [OF assms] by (simp add: copy_args.simps)
next
  case (Suc n)
  have i: "i < length (chars command)" using Suc.hyps(2) by simp
  then have d: "drop i (chars command) = command ! i # drop (Suc i) (chars command)" "command ! i \<noteq> 0"
    using nth_chars [OF i] chars_nth_nonzero [OF i] by (simp_all add: Cons_nth_drop_Suc)
  let ?args = "args[i - start := command ! i]"
  have "copy_args command start (Suc i) ?args = Some (length (chars command),
      take (Suc i - start) ?args @ drop (Suc i) (chars command) @ drop (length (chars command) - start) ?args)"
    using Suc.hyps(2) Suc.prems i by (intro Suc.hyps(1)) auto
  moreover have "take (Suc i - start) ?args = take (i - start) args @ [command ! i]"
    using Suc.prems i by (simp add: Suc_diff_le take_Suc_conv_app_nth)
  ultimately show ?case
    using i d Suc.prems length_chars_less [OF assms] by (simp add: copy_args.simps [of command start i])
qed

section \<open>Loading a program\<close>

lemma store_virt_linear:
  assumes "length bs \<le> 2 ^ 32" and "\<forall>i < length bs. translate False s (va + of_nat i) = Some (pa + of_nat i)"
  shows "store_virt va bs s = Some (s\<lparr>phys_mem := patch pa (length bs) ((!) bs) (phys_mem s)\<rparr>)"
  using assms
proof (induction bs arbitrary: va pa s)
  case Nil
  then show ?case by simp
next
  case (Cons b bs)
  let ?s = "s\<lparr>phys_mem := (phys_mem s)(pa := b)\<rparr>"
  have "translate False ?s a = translate False s a" for a
    by (simp add: translate_def table_at_def Let_def)
  moreover have "translate False s (va + 1 + of_nat i) = Some (pa + 1 + of_nat i)" if "i < length bs" for i
    using spec [OF Cons.prems(2), of "Suc i"] that by (simp add: add.assoc)
  ultimately have "store_virt (va + 1) bs ?s = Some (?s\<lparr>phys_mem := patch (pa + 1) (length bs) ((!) bs) (phys_mem ?s)\<rparr>)"
    using Cons.prems(1) by (intro Cons.IH) auto
  moreover have "patch (pa + 1) (length bs) ((!) bs) ((phys_mem s)(pa := b)) = patch pa (Suc (length bs)) ((!) (b # bs)) (phys_mem s)"
    using patch_patch [of 1 "length bs" pa "(!) (b # bs)" "phys_mem s"] Cons.prems(1) by (simp add: patch_1)
  ultimately show ?case
    using spec [OF Cons.prems(2), of 0] by simp
qed

text \<open>The physical address of byte \<open>k\<close> of the image of process \<open>p\<close>.\<close>

definition image_addr :: "nat \<Rightarrow> nat \<Rightarrow> u32" where
  "image_addr p k = PHYS_FILE_START + PHYS_FILE_OFFSET * of_nat p + 0x48000 + of_nat k"

lemma program_page_offset:
  assumes "k < 3850000"
  shows "drop_bit 22 (VIRTUAL_FILE_START + of_nat k) = drop_bit 22 VIRTUAL_FILE_PAGE"
    and "take_bit 22 (VIRTUAL_FILE_START + of_nat k) = 0x48000 + of_nat k"
proof -
  have u: "unat (VIRTUAL_FILE_START + of_nat k) = 0x8048000 + k" "unat (0x48000 + of_nat k :: u32) = 0x48000 + k"
    using assms by (simp_all add: VIRTUAL_FILE_START_def unat_word_ariths unsigned_of_nat take_bit_nat_eq_self)
  have d: "(0x8048000 + k) div 2 ^ 22 = 32" using assms by (simp add: div_nat_eqI)
  moreover have "(0x8048000 + k) mod 2 ^ 22 = 0x48000 + k" unfolding modulo_nat_def d by simp
  ultimately show "drop_bit 22 (VIRTUAL_FILE_START + of_nat k) = drop_bit 22 VIRTUAL_FILE_PAGE"
    and "take_bit 22 (VIRTUAL_FILE_START + of_nat k) = 0x48000 + of_nat k"
    using u by (simp_all add: word_unat_eq_iff drop_bit_eq_div take_bit_eq_mod unat_div unat_mod VIRTUAL_FILE_PAGE_def)
qed

lemma or_is_add: "(a :: u32) AND b = 0 \<Longrightarrow> a OR b = a + b"
  using word_plus_and_or [of a b] by simp

lemma program_translate:
  assumes "paging_wf s" and "p < 6" and "k < 3850000"
  shows "translate user (map_page VIRTUAL_FILE_PAGE (PHYS_FILE_START + PHYS_FILE_OFFSET * of_nat p) s) (VIRTUAL_FILE_START + of_nat k) =
    Some (image_addr p k)"
proof -
  let ?f = "PHYS_FILE_START + PHYS_FILE_OFFSET * of_nat p" and ?o = "0x48000 + of_nat k :: u32"
  have "?f AND ?o = 0"
    using aligned_bits [OF process_frame(1) [OF assms(2)]] program_page_offset(2) [OF assms(3)]
    by (intro bit_word_eqI) (metis bit_0_eq bit_and_iff bit_take_bit_iff bot_apply bot_bool_def)
  then show ?thesis
    using big.hit [OF assms(1) TrueI process_frame(1) [OF assms(2)], of "VIRTUAL_FILE_START + of_nat k" VIRTUAL_FILE_PAGE user]
      program_page_offset [OF assms(3)] or_is_add [of ?f ?o]
    by (simp add: image_addr_def add.assoc)
qed

section \<open>The calls on a well-formed kernel\<close>

definition frame_ok :: "frame \<Rightarrow> bool" where
  "frame_ok fr \<longleftrightarrow> length (fr_buf fr) = BUF_SIZE \<and> length (fr_com fr) = BUF_SIZE \<and> length (fr_buffer fr) = 4 \<and>
     length (file_name (fr_dentry fr)) = 33"

text \<open>The type invariant of the process state: the tables have their lengths, the indices are in
  range, and the mounted image and the page tables are well-formed.\<close>

definition tasks_ok :: "'a kernel_scheme \<Rightarrow> bool" where
  "tasks_ok s \<longleftrightarrow> procs_ok s \<and> proc_table_ok s \<and> fs_wf s \<and> dentries_wf s \<and> paging_wf s \<and>
     length (terminals s) = 3 \<and> 0 \<le> get_cur_term s \<and> get_cur_term s < 3 \<and> get_curr_exec_term s < 3"

text \<open>What holds besides once the kernel has booted: the table of operations is the one that \<^verbatim>\<open>init_fops_table\<close> fills in, the block
  that \<^verbatim>\<open>read\<close> and \<^verbatim>\<open>write\<close> use is one of the six, and user code reaches nothing through a null pointer.\<close>

definition kernel_ok :: "'a kernel_scheme \<Rightarrow> bool" where
  "kernel_ok s \<longleftrightarrow> tasks_ok s \<and> fops_table s = std_fops \<and> (\<exists>k < NUM_PROCESSES. current_pcb s = Some k) \<and> translate True s 0 = None"

definition cmd_ok :: "byte list \<Rightarrow> bool" where
  "cmd_ok command \<longleftrightarrow> 0 \<in> set command \<and> length (chars command) < BUF_SIZE"

text \<open>Process \<open>p\<close> is the first free slot of the process table.\<close>

definition next_slot :: "nat \<Rightarrow> 'a kernel_scheme \<Rightarrow> bool" where
  "next_slot p s \<longleftrightarrow> p < NUM_PROCESSES \<and> p \<notin> proc_used s \<and> (\<forall>j<p. j \<in> proc_used s)"

definition set_args :: "byte list \<Rightarrow> pcb \<Rightarrow> pcb" where
  "set_args a b = b\<lparr>pcb_args := a @ 0 # drop (Suc (length a)) (pcb_args b)\<rparr>"

text \<open>The state in which \<^verbatim>\<open>execute\<close> looks for the file.\<close>

definition reserved :: "nat \<Rightarrow> byte list \<Rightarrow> 'a kernel_scheme \<Rightarrow> 'a kernel_scheme" where
  "reserved p command s = s\<lparr>int_flag := False, process_array := (process_array s)[p := 1], current_pcb := Some p,
     pcbs := (pcbs s)[p := set_args (cmd_args command) (pcbs s ! p)]\<rparr>"

lemma reserved_files [simp]:
  "fs_wf (reserved p command s) = fs_wf s" "dentries_wf (reserved p command s) = dentries_wf s"
  "num_inodes (reserved p command s) = num_inodes s" "dentries (reserved p command s) = dentries s"
  "file_content (reserved p command s) k = file_content s k" "file_length (reserved p command s) k = file_length s k"
  "paging_wf (reserved p command s) = paging_wf s" "terminals (reserved p command s) = terminals s"
  "get_cur_term (reserved p command s) = get_cur_term s" "get_curr_exec_term (reserved p command s) = get_curr_exec_term s"
  "curr_process (reserved p command s) = curr_process s"
  by (simp_all add: reserved_def fs_wf_def dentries_wf_def dentries_def file_length_def file_content_def
      inode_word_def file_byte_def paging_wf_def get_cur_term_def get_curr_exec_term_def)

lemma set_args_ok: "\<lbrakk>pcb_ok b; length a < BUF_SIZE\<rbrakk> \<Longrightarrow> pcb_ok (set_args a b)"
  by (simp add: pcb_ok_def set_args_def)

lemma list_update_pcbs_ok: "\<lbrakk>\<forall>b \<in> set bs. pcb_ok b; pcb_ok c\<rbrakk> \<Longrightarrow> \<forall>b \<in> set (bs[p := c]). pcb_ok b"
  by (auto dest!: set_update_subset_insert [THEN subsetD])

lemma tasks_ok_reserved:
  assumes "tasks_ok s" and "cmd_ok command" and "p < NUM_PROCESSES"
  shows "tasks_ok (reserved p command s)"
proof -
  have "pcb_ok (pcbs s ! p)" using assms(1,3) by (simp add: tasks_ok_def procs_ok_def)
  then have "pcb_ok (set_args (cmd_args command) (pcbs s ! p))"
    using assms(2) cmd_args_length [of command] by (intro set_args_ok) (auto simp: cmd_ok_def)
  then show ?thesis
    using assms(1) list_update_pcbs_ok [of "pcbs s"]
    by (simp add: tasks_ok_def procs_ok_def proc_table_ok_def) (simp add: reserved_def)
qed

lemma get_process_next:
  assumes "proc_table_ok s" and "next_slot p s"
  shows "get_process s = Some (int p, s\<lparr>process_array := (process_array s)[p := 1]\<rparr>)"
proof -
  have "List.find (\<lambda>j. process_array s ! j = 0) [0..<NUM_PROCESSES] = Some p"
    unfolding find_index_least using assms(2) by (auto simp: next_slot_def proc_used_def)
  then show ?thesis using get_process_loop_eq [OF assms(1), of 0] by (simp add: get_process_def)
qed

lemma unat_slot: "p < NUM_PROCESSES \<Longrightarrow> unat (of_nat p :: u32) = p"
  by (simp add: NUM_PROCESSES_def unsigned_of_nat take_bit_nat_eq_self)

lemma execute_prepare:
  assumes "tasks_ok s" and "frame_ok fr" and "cmd_ok command" and "next_slot p s"
  shows "execute fr command s = do {
     (r, d) \<leftarrow> read_dentry_by_name (reserved p command s)
       (cmd_word command @ 0 # drop (Suc (length (cmd_word command))) (fr_com fr)) (fr_dentry fr);
     if r \<noteq> 0 then Some (Returned (-1), clear_process (reserved p command s))
     else do {
       (_, out) \<leftarrow> read_data (reserved p command s) (inode d) 0 4;
       buffer \<leftarrow> overwrite out (fr_buffer fr);
       if take 4 buffer \<noteq> [0x7F, 0x45, 0x4C, 0x46] then Some (Returned (-1), reserved p command s)
       else execute_load fr (of_nat p) (inode d) buffer (reserved p command s)
     } }"
proof -
  let ?w = "cmd_word command" and ?n = "length (chars command)" and ?a = "cmd_args command"
  have c: "0 \<in> set command" "?n < BUF_SIZE" using assms(3) by (simp_all add: cmd_ok_def)
  have fr: "length (fr_buf fr) = BUF_SIZE" "length (fr_com fr) = BUF_SIZE" using assms(2) by (simp_all add: frame_ok_def)
  have p: "p < NUM_PROCESSES" "unat (of_nat p :: u32) = p" using assms(4) unat_slot by (auto simp: next_slot_def)
  have le: "length ?w \<le> ?n" by (simp add: cmd_split [of command])
  have buf: "strcpy (fr_buf fr) command = Some (chars command @ 0 # drop (Suc ?n) (fr_buf fr))"
    using strcpy_chars [OF c(1)] c(2) fr(1) by simp
  have parse: "parse_loop (chars command @ 0 # drop (Suc ?n) (fr_buf fr)) command (fr_com fr) 0 =
      Some (length ?w, ?w @ drop (length ?w) (fr_com fr))"
    using le c fr by (intro parse_loop_word) auto
  have com: "aset (?w @ drop (length ?w) (fr_com fr)) (length ?w) 0 = Some (?w @ 0 # drop (Suc (length ?w)) (fr_com fr))"
    using le c(2) fr(2) by (simp add: aset_def list_update_append Cons_nth_drop_Suc [symmetric])
  have ok: "length (pcbs s) = NUM_PROCESSES" "length (pcb_args (pcbs s ! p)) = BUF_SIZE" "proc_table_ok s"
    using assms(1) p(1) by (simp_all add: tasks_ok_def procs_ok_def pcb_ok_def)
  have small: "(?n - length ?a) mod 256 = ?n - length ?a" using c(2) by (simp add: BUF_SIZE_def)
  have copy: "copy_args command (?n - length ?a) (?n - length ?a) (pcb_args (pcbs s ! p)) =
      Some (?n, ?a @ drop (length ?a) (pcb_args (pcbs s ! p)))"
    using copy_args_eq [OF c(1), of "?n - length ?a" "?n - length ?a" "pcb_args (pcbs s ! p)"]
      cmd_args_suffix [of command] cmd_args_length [of command] c(2) ok(2) by simp
  have args: "aset (?a @ drop (length ?a) (pcb_args (pcbs s ! p))) (length ?a) 0 =
      Some (?a @ 0 # drop (Suc (length ?a)) (pcb_args (pcbs s ! p)))"
    using cmd_args_length [of command] c(2) ok(2)
    by (simp add: aset_def list_update_append Cons_nth_drop_Suc [symmetric])
  have "next_slot p (cli s)" "proc_table_ok (cli s)"
    using assms(4) ok(3) by (simp_all add: next_slot_def proc_used_def cli_def proc_table_ok_def)
  then have got: "get_process (cli s) = Some (int p, (cli s)\<lparr>process_array := (process_array s)[p := 1]\<rparr>)"
    using get_process_next [of "cli s" p] by (simp add: cli_def)
  have "((cli s)\<lparr>process_array := (process_array s)[p := 1], current_pcb := Some p,
      pcbs := (pcbs s)[p := (pcbs s ! p)\<lparr>pcb_args := ?a @ 0 # drop (Suc (length ?a)) (pcb_args (pcbs s ! p))\<rparr>]\<rparr>) = reserved p command s"
    by (simp add: reserved_def cli_def set_args_def)
  then show ?thesis
    using buf parse com skip_spaces_args [OF c(1)] got small copy args ok(1) p cmd_args_length [of command]
    by (simp add: execute_def upd_pcb_def the_pcb_def cli_def cong: if_cong)
qed

text \<open>The file a command line names.\<close>

definition program_of :: "byte list \<Rightarrow> 'a files_scheme \<Rightarrow> dentry option" where
  "program_of command s =
     (if cmd_word command = [] then None else List.find (\<lambda>e. chars (file_name e) = cmd_word command) (dentries s))"

definition ELF :: "byte list" where "ELF = [0x7F, 0x45, 0x4C, 0x46]"

lemma execute_program:
  assumes "tasks_ok s" and "frame_ok fr" and "cmd_ok command" and "next_slot p s"
  shows "program_of command s = None \<Longrightarrow> execute fr command s = Some (Returned (-1), clear_process (reserved p command s))"
    and "\<lbrakk>program_of command s = Some e; inode e < num_inodes s; 4 \<le> file_length s (inode e)\<rbrakk> \<Longrightarrow>
      execute fr command s =
        (if take 4 (file_content s (inode e)) = ELF
         then execute_load fr (of_nat p) (inode e) (take 4 (file_content s (inode e))) (reserved p command s)
         else Some (Returned (-1), reserved p command s))"
proof -
  let ?f = "cmd_word command @ 0 # drop (Suc (length (cmd_word command))) (fr_com fr)"
  have t: "fs_wf s" "dentries_wf s" using assms(1) by (simp_all add: tasks_ok_def)
  have f: "0 \<in> set ?f" "chars ?f = cmd_word command" "length (file_name (fr_dentry fr)) = 33" "length (fr_buffer fr) = 4"
    using assms(2) by (simp_all add: frame_ok_def)
  have name: "read_dentry_by_name (reserved p command s) ?f (fr_dentry fr) =
    (case program_of command s of None \<Rightarrow> Some (-1, fr_dentry fr)
     | Some e \<Rightarrow> Some (0, (fr_dentry fr)\<lparr>file_name := cmd_word command @ 0 # replicate (32 - length (cmd_word command)) SPC,
         file_type := file_type e, inode := inode e\<rparr>))"
    using read_dentry_by_name_eq [of "reserved p command s" ?f "fr_dentry fr"] t(2) f
    by (simp add: program_of_def split: option.splits)
  show "program_of command s = None \<Longrightarrow> execute fr command s = Some (Returned (-1), clear_process (reserved p command s))"
    unfolding execute_prepare [OF assms] name by simp
  assume e: "program_of command s = Some e" "inode e < num_inodes s" "4 \<le> file_length s (inode e)"
  let ?h = "take 4 (file_content s (inode e))"
  have "read_data (reserved p command s) (inode e) 0 4 = Some (int (length ?h), ?h)"
    using read_data_eq [of "reserved p command s" "inode e" 0 4] t(1) e(2)
    by (simp add: read_start_def BLOCK_SIZE_def)
  moreover have "overwrite ?h (fr_buffer fr) = Some ?h" using e(3) f(4) by simp
  ultimately show "execute fr command s =
        (if ?h = ELF then execute_load fr (of_nat p) (inode e) ?h (reserved p command s)
         else Some (Returned (-1), reserved p command s))"
    unfolding execute_prepare [OF assms] name by (simp add: e(1) ELF_def)
qed

definition std_fds :: "fds list" where
  "std_fds = map (\<lambda>i. \<lparr>fd_inode = - 1, fd_position = 0,
     fd_flags = (if i = 0 then STDINFLAG else if i = 1 then STDOUTFLAG else NOT_SET)\<rparr>) [0..<MAX_FILE]"

definition parent_of :: "'a kernel_scheme \<Rightarrow> u32" where
  "parent_of s = (if tm_active (terminals s ! nat (get_cur_term s)) = 0 then - 1 else curr_process s)"

definition program_pcb :: "frame \<Rightarrow> nat \<Rightarrow> u32 \<Rightarrow> pcb \<Rightarrow> pcb" where
  "program_pcb fr p parent b =
     b\<lparr>PPID := parent, PID := of_nat p, FDs_array := std_fds, EBP0 := fr_ebp fr, ESP0 := fr_esp fr\<rparr>"

definition activate :: "terminal \<Rightarrow> terminal" where
  "activate t = t\<lparr>tm_active := (if tm_active t = 0 then 1 else tm_active t)\<rparr>"

definition started_terms :: "frame \<Rightarrow> nat \<Rightarrow> 'a kernel_scheme \<Rightarrow> terminal list" where
  "started_terms fr p s =
     (let c = nat (get_cur_term s); x = get_curr_exec_term s;
          ts = (terminals s)[c := activate (terminals s ! c)];
          ts = ts[x := (ts ! x)\<lparr>tm_current_process := int p\<rparr>]
      in ts[c := (ts ! c)\<lparr>tm_ESP := fr_esp fr, tm_EBP := fr_ebp fr\<rparr>])"

text \<open>The state in which the program \<open>prog\<close> starts.\<close>

definition started :: "frame \<Rightarrow> nat \<Rightarrow> byte list \<Rightarrow> 'a kernel_scheme \<Rightarrow> 'a kernel_scheme" where
  "started fr p prog s = (map_page VIRTUAL_FILE_PAGE (PHYS_FILE_START + PHYS_FILE_OFFSET * of_nat p) s)
     \<lparr>int_flag := True, terminals := started_terms fr p s, curr_process := of_nat p,
      pcbs := (pcbs s)[p := program_pcb fr p (parent_of s) (pcbs s ! p)],
      tss_ss0 := KERNEL_DS, tss_esp0 := PHYS_FILE_START - EIGHT_KB * of_nat p - 4,
      phys_mem := patch (image_addr p 0) (length prog) ((!) prog) (phys_mem s)\<rparr>"

lemma fresh_fds_std:
  "length t = MAX_FILE \<Longrightarrow> (fresh_fds t)[0 := (fresh_fds t ! 0)\<lparr>fd_flags := STDINFLAG\<rparr>,
     Suc 0 := ((fresh_fds t)[0 := (fresh_fds t ! 0)\<lparr>fd_flags := STDINFLAG\<rparr>] ! Suc 0)\<lparr>fd_flags := STDOUTFLAG\<rparr>] = std_fds"
  by (rule nth_equalityI) (auto simp: fresh_fds_def std_fds_def nth_list_update MAX_FILE_def)

lemma sint_slot: "p < NUM_PROCESSES \<Longrightarrow> sint (of_nat p :: u32) = int p"
proof -
  assume "p < NUM_PROCESSES"
  then have "p \<in> {0, 1, 2, 3, 4, 5}" by (auto simp: NUM_PROCESSES_def)
  then show ?thesis by auto
qed

lemma activate_active: "tm_active t \<noteq> 0 \<Longrightarrow> activate t = t"
  by (simp add: activate_def)

lemma execute_load_eq:
  assumes "tasks_ok s" and "p < NUM_PROCESSES" and "ino < num_inodes s" and "28 \<le> file_length s ino"
    and "length buffer = 4" and "le32 (take 4 (drop 24 (file_content s ino))) = Some entry"
  shows "execute_load fr (of_nat p) ino buffer s =
    Some (Entered entry, started fr p (take READ_WHOLE_FILE (file_content s ino)) s)"
proof -
  have t: "fs_wf s" "paging_wf s" "length (terminals s) = 3" "0 \<le> get_cur_term s" "nat (get_cur_term s) < 3"
    "get_curr_exec_term s < 3" "length (pcbs s) = NUM_PROCESSES" "length (FDs_array (pcbs s ! p)) = MAX_FILE"
    using assms(1,2) by (auto simp: tasks_ok_def procs_ok_def pcb_ok_def)
  let ?c = "nat (get_cur_term s)"
  have entry: "read_data s ino 24 4 = Some (4, take 4 (drop 24 (file_content s ino)))"
    using read_data_eq [OF t(1) assms(3), of 24 4] assms(4) by (simp add: read_start_def BLOCK_SIZE_def)
  have buf: "overwrite (take 4 (drop 24 (file_content s ino))) buffer = Some (take 4 (drop 24 (file_content s ino)))"
    using assms(4,5) by simp
  define ts where "ts = (let ts = (terminals s)[?c := activate (terminals s ! ?c)] in
      ts[get_curr_exec_term s := (ts ! get_curr_exec_term s)\<lparr>tm_current_process := int p\<rparr>])"
  define b where "b = (pcbs s ! p)\<lparr>PPID := parent_of s, PID := of_nat p, FDs_array := std_fds\<rparr>"
  define s1 where "s1 = s\<lparr>curr_process := of_nat p, terminals := ts, pcbs := (pcbs s)[p := b]\<rparr>"
  have act: "(terminals s)[?c := activate (terminals s ! ?c)] = terminals s" if "tm_active (terminals s ! ?c) \<noteq> 0"
    using activate_active [OF that] by simp
  have "length (fresh_fds (FDs_array (pcbs s ! p))) = MAX_FILE" using t(8) by (simp add: fresh_fds_def)
  then have prefix: "execute_load fr (of_nat p) ino buffer s = execute_enter fr (of_nat p) ino entry s1"
    using entry buf assms(2,6) t(3-8) fresh_fds_std [OF t(8)] act unat_slot [OF assms(2)] sint_slot [OF assms(2)]
    by (cases "tm_active (terminals s ! ?c) = 0")
      (simp_all add: execute_load_def s1_def b_def ts_def cur_terminal_def upd_cur_terminal_def upd_term_def upd_pcb_def the_pcb_def
        set_curr_process_def get_curr_exec_term_def get_cur_term_def Let_def activate_def parent_of_def MAX_FILE_def)
  let ?img = "take READ_WHOLE_FILE (file_content s ino)"
  define s2 where "s2 = map_page VIRTUAL_FILE_PAGE (PHYS_FILE_START + PHYS_FILE_OFFSET * of_nat p) s1"
  have "fs_wf s2" "file_content s2 ino = file_content s ino" "num_inodes s2 = num_inodes s" "file_length s2 ino = file_length s ino"
    using t(1) files_only [of s2 s] by (simp_all add: s2_def s1_def map_page_def flush_tlb_def)
  then have body: "read_data s2 ino 0 READ_WHOLE_FILE = Some (int (length ?img), ?img)"
    using read_data_eq [of s2 ino 0 READ_WHOLE_FILE] assms(3) by (simp add: read_start_def BLOCK_SIZE_def)
  have "paging_wf s1" using t(2) by (simp add: s1_def paging_wf_def)
  then have "translate False s2 (VIRTUAL_FILE_START + of_nat i) = Some (image_addr p 0 + of_nat i)" if "i < length ?img" for i
    using that program_translate [of s1 p i False] assms(2)
    by (simp add: s2_def NUM_PROCESSES_def READ_WHOLE_FILE_def image_addr_def)
  then have store: "store_virt VIRTUAL_FILE_START ?img s2 =
      Some (s2\<lparr>phys_mem := patch (image_addr p 0) (length ?img) ((!) ?img) (phys_mem s2)\<rparr>)"
    by (intro store_virt_linear) (auto simp: READ_WHOLE_FILE_def)
  have "length ts = 3" using t(3) by (simp add: ts_def Let_def)
  moreover have "started_terms fr p s = ts[?c := (ts ! ?c)\<lparr>tm_ESP := fr_esp fr, tm_EBP := fr_ebp fr\<rparr>]"
    by (simp add: started_terms_def ts_def Let_def)
  moreover have "program_pcb fr p (parent_of s) (pcbs s ! p) = b\<lparr>EBP0 := fr_ebp fr, ESP0 := fr_esp fr\<rparr>"
    by (simp add: program_pcb_def b_def)
  moreover have "phys_mem s2 = phys_mem s" by (simp add: s2_def s1_def map_page_def flush_tlb_def)
  ultimately show ?thesis
    using t(4-7) assms(2) unat_slot [OF assms(2)]
    by (simp add: prefix execute_enter_def body store flip: s2_def)
      (simp add: s2_def s1_def map_page_def flush_tlb_def upd_pcb_def the_pcb_def upd_cur_terminal_def upd_term_def started_def
        sti_def get_cur_term_def)
qed

lemma image_addr_frame:
  assumes "p < 6" and "k < 3850000"
  shows "drop_bit 22 (image_addr p k) = of_nat p + 2"
proof -
  let ?f = "PHYS_FILE_START + PHYS_FILE_OFFSET * of_nat p" and ?o = "0x48000 + of_nat k :: u32"
  have o: "take_bit 22 ?o = ?o" using program_page_offset(2) [OF assms(2)] by (metis take_bit_take_bit min.idem)
  have "?f AND ?o = 0"
    using aligned_bits [OF process_frame(1) [OF assms(1)]] o
    by (intro bit_word_eqI) (metis bit_0_eq bit_and_iff bit_take_bit_iff bot_apply bot_bool_def)
  then have "image_addr p k = ?f OR ?o" using or_is_add [of ?f ?o] by (simp add: image_addr_def add.assoc)
  moreover have "drop_bit 22 ?o = 0" using o by (metis drop_bit_take_bit diff_self_eq_0 take_bit_0)
  ultimately show ?thesis using process_frame(2) [OF assms(1)] by simp
qed

lemma patch_image:
  assumes "p < 6" and "n \<le> 3850000"
  shows "k < n \<Longrightarrow> patch (image_addr p 0) n f m (image_addr p k) = f k"
    and "drop_bit 22 a \<noteq> of_nat p + 2 \<Longrightarrow> patch (image_addr p 0) n f m a = m a"
proof -
  have d: "image_addr p j = image_addr p 0 + of_nat j" for j by (simp add: image_addr_def)
  show "k < n \<Longrightarrow> patch (image_addr p 0) n f m (image_addr p k) = f k"
    using assms(2) by (simp add: patch_def d [of k] unsigned_of_nat take_bit_nat_eq_self)
  assume a: "drop_bit 22 a \<noteq> of_nat p + 2"
  have "\<not> unat (a - image_addr p 0) < n"
  proof
    assume "unat (a - image_addr p 0) < n"
    moreover have "a = image_addr p (unat (a - image_addr p 0))" using d [of "unat (a - image_addr p 0)"] by simp
    ultimately show False using a image_addr_frame [OF assms(1), of "unat (a - image_addr p 0)"] assms(2) by simp
  qed
  then show "patch (image_addr p 0) n f m a = m a" by (simp add: patch_def)
qed

lemma program_pcb_ok: "pcb_ok b \<Longrightarrow> pcb_ok (program_pcb fr p parent b)"
  by (auto simp: pcb_ok_def program_pcb_def std_fds_def flag_defs)

lemma started_ok:
  assumes "tasks_ok s" and "p < NUM_PROCESSES"
  shows "tasks_ok (started fr p prog s)"
proof -
  let ?m = "map_page VIRTUAL_FILE_PAGE (PHYS_FILE_START + PHYS_FILE_OFFSET * of_nat p) s"
  have "pcb_ok (pcbs s ! p)" using assms by (simp add: tasks_ok_def procs_ok_def)
  then have "\<forall>b \<in> set (pcbs (started fr p prog s)). pcb_ok b"
    using assms(1) list_update_pcbs_ok [of "pcbs s", OF _ program_pcb_ok] by (simp add: started_def tasks_ok_def procs_ok_def)
  moreover have "paging_wf ?m" using assms(1) big.wf_map [OF _ TrueI, of s] by (simp add: tasks_ok_def)
  then have "paging_wf (started fr p prog s)" by (simp add: started_def paging_wf_def)
  moreover have "fs_wf (started fr p prog s) = fs_wf s"
    by (rule files_only) (simp_all add: started_def map_page_def flush_tlb_def)
  ultimately show ?thesis
    using assms unat_slot [OF assms(2)]
    by (simp add: tasks_ok_def procs_ok_def) (simp add: started_def map_page_def flush_tlb_def proc_table_ok_def dentries_wf_def
        get_cur_term_def get_curr_exec_term_def started_terms_def Let_def)
qed

lemma cmd_args_no_nul: "0 \<notin> set (cmd_args command)"
  by (metis chars_no_nul cmd_args_suffix in_set_dropD)

lemma execute_started:
  assumes "tasks_ok s" and "frame_ok fr" and "cmd_ok command" and "next_slot p s"
    and "program_of command s = Some e" and "inode e < num_inodes s" and "prog = file_content s (inode e)"
    and "28 \<le> length prog" and "length prog \<le> READ_WHOLE_FILE" and "take 4 prog = ELF" and "le32 (take 4 (drop 24 prog)) = Some entry"
  shows "execute fr command s = Some (Entered entry, started fr p prog (reserved p command s))"
proof -
  have p: "p < NUM_PROCESSES" using assms(4) by (simp add: next_slot_def)
  have "execute fr command s = execute_load fr (of_nat p) (inode e) (take 4 prog) (reserved p command s)"
    using execute_program(2) [OF assms(1-6)] assms(7,8,10) by simp
  also have "\<dots> = Some (Entered entry, started fr p (take READ_WHOLE_FILE prog) (reserved p command s))"
    using execute_load_eq [OF tasks_ok_reserved [OF assms(1,3) p] p, of "inode e" "take 4 prog" entry fr] assms(6,8,11)
    unfolding reserved_files assms(7) by (simp del: take_append)
  finally show ?thesis using assms(9) by simp
qed

lemma started_image:
  assumes "tasks_ok s" and "p < NUM_PROCESSES" and "k < length prog" and "length prog \<le> READ_WHOLE_FILE"
  shows "translate user (started fr p prog s) (VIRTUAL_FILE_START + of_nat k) = Some (image_addr p k)"
    and "phys_mem (started fr p prog s) (image_addr p k) = prog ! k"
proof -
  let ?m = "map_page VIRTUAL_FILE_PAGE (PHYS_FILE_START + PHYS_FILE_OFFSET * of_nat p) s"
  have p: "p < 6" using assms(2) by (simp add: NUM_PROCESSES_def)
  have "translate user (started fr p prog s) va = translate user ?m va" for va
    by (rule tables_only) (simp_all add: started_def)
  then show "translate user (started fr p prog s) (VIRTUAL_FILE_START + of_nat k) = Some (image_addr p k)"
    using program_translate [OF _ p, of s k user] assms by (simp add: tasks_ok_def READ_WHOLE_FILE_def)
  show "phys_mem (started fr p prog s) (image_addr p k) = prog ! k"
    using patch_image(1) [OF p _ assms(3)] assms(4) by (simp add: started_def READ_WHOLE_FILE_def)
qed

section \<open>Messages leave the process state alone\<close>

lemma puts_chars: "0 \<in> set str \<Longrightarrow> puts str s = Some (int (length (chars str)), fold putc (chars str) s)"
proof -
  have "0 \<notin> set b \<Longrightarrow> puts_loop (b @ 0 # r) k s = Some (k + int (length b), fold putc b s)" for b r k and s :: "'a console_scheme"
    by (induction b arbitrary: k s) auto
  then show "0 \<in> set str \<Longrightarrow> ?thesis" by (metis add_0 chars_no_nul puts_def terminatedE)
qed

lemma rest_kernel:
  fixes s s' :: "'a kernel_scheme"
  assumes "but_visible s' = but_visible s"
  shows "curr_process s' = curr_process s" "process_array s' = process_array s" "pcbs s' = pcbs s"
    "current_pcb s' = current_pcb s" "int_flag s' = int_flag s" "phys_mem s' = phys_mem s" "tasks_ok s' = tasks_ok s"
    "dentries s' = dentries s" "file_content s' k = file_content s k" "num_inodes s' = num_inodes s"
    "page_directory s' = page_directory s"
proof -
  have "curr_process (but_visible t) = curr_process t" "process_array (but_visible t) = process_array t"
    "pcbs (but_visible t) = pcbs t" "current_pcb (but_visible t) = current_pcb t" "int_flag (but_visible t) = int_flag t"
    "phys_mem (but_visible t) = phys_mem t" "dentries (but_visible t) = dentries t" "num_inodes (but_visible t) = num_inodes t"
    "page_directory (but_visible t) = page_directory t" for t :: "'a kernel_scheme"
    by (simp_all add: but_visible_def dentries_def)
  moreover have "file_content (but_visible t) k = file_content t k" "fs_wf (but_visible t) = fs_wf t" for t :: "'a kernel_scheme"
    by (rule files_only; simp add: but_visible_def)+
  moreover have "paging_wf (but_visible t) = paging_wf t" for t :: "'a kernel_scheme"
    by (rule tables_only) (simp_all add: but_visible_def)
  moreover have "tasks_ok (but_visible t) = tasks_ok t" for t :: "'a kernel_scheme"
    using calculation(1-3) [of t] calculation(11,12) [of t]
    by (simp add: tasks_ok_def procs_ok_def proc_table_ok_def) (simp add: but_visible_def dentries_wf_def get_cur_term_def get_curr_exec_term_def)
  ultimately show "curr_process s' = curr_process s" "process_array s' = process_array s" "pcbs s' = pcbs s"
    "current_pcb s' = current_pcb s" "int_flag s' = int_flag s" "phys_mem s' = phys_mem s" "tasks_ok s' = tasks_ok s"
    "dentries s' = dentries s" "file_content s' k = file_content s k" "num_inodes s' = num_inodes s"
    "page_directory s' = page_directory s"
    using assms by metis+
qed

lemma execute_full:
  assumes "tasks_ok s" and "frame_ok fr" and "cmd_ok command" and "{0..<NUM_PROCESSES} \<subseteq> proc_used s"
  shows "execute fr command s = Some (Returned 0, fold putc (lit ''too many processes\<newline>'') (cli s))"
proof -
  let ?w = "cmd_word command" and ?n = "length (chars command)"
  have c: "0 \<in> set command" "?n < BUF_SIZE" using assms(3) by (simp_all add: cmd_ok_def)
  have fr: "length (fr_buf fr) = BUF_SIZE" "length (fr_com fr) = BUF_SIZE" using assms(2) by (simp_all add: frame_ok_def)
  have le: "length ?w \<le> ?n" by (simp add: cmd_split [of command])
  have parse: "parse_loop (chars command @ 0 # drop (Suc ?n) (fr_buf fr)) command (fr_com fr) 0 =
      Some (length ?w, ?w @ drop (length ?w) (fr_com fr))"
    using le c fr by (intro parse_loop_word) auto
  have "proc_table_ok (cli s)" "{0..<NUM_PROCESSES} \<subseteq> proc_used (cli s)"
    using assms(1,4) by (simp_all add: tasks_ok_def proc_table_ok_def cli_def proc_used_def)
  then have "get_process (cli s) = Some (-1, cli s)" by (rule proc.alloc_full)
  moreover have "puts (cstr ''too many processes\<newline>'') (cli s) = Some (19, fold putc (lit ''too many processes\<newline>'') (cli s))"
    by (subst puts_chars) (simp_all add: cstr_def chars_def)
  ultimately show ?thesis
    using strcpy_chars [OF c(1), of "fr_buf fr"] parse skip_spaces_args [OF c(1)] le c(2) fr
    by (simp add: execute_def cong: if_cong)
qed

section \<open>Back to the parent\<close>

definition close_all :: "nat \<Rightarrow> pcb \<Rightarrow> pcb" where
  "close_all i b = b\<lparr>FDs_array := map (\<lambda>j. if j < i \<or> fd_flags (FDs_array b ! j) = NOT_SET then FDs_array b ! j
     else \<lparr>fd_inode = 0, fd_position = 0, fd_flags = NOT_SET\<rparr>) [0..<length (FDs_array b)]\<rparr>"

lemma close_all_ok: "pcb_ok b \<Longrightarrow> pcb_ok (close_all i b)"
  by (auto simp: pcb_ok_def close_all_def flag_defs)

lemma close_all_end: "MAX_FILE \<le> i \<Longrightarrow> pcb_ok b \<Longrightarrow> close_all i b = b"
  by (auto simp: pcb_ok_def close_all_def intro!: pcb.equality nth_equalityI)

lemma close_all_step:
  assumes "pcb_ok b" and "i < MAX_FILE"
  shows "close_all i b = close_all (Suc i) (if fd_flags (FDs_array b ! i) = NOT_SET then b else closed_fd i b)"
  using assms by (auto simp: pcb_ok_def close_all_def closed_fd_def nth_list_update less_Suc_eq intro!: pcb.equality nth_equalityI)

lemma close_loop_eq:
  assumes "procs_ok s" and "2 \<le> i"
  shows "close_loop i (curr_process s) s = Some (set_cur_pcb (close_all i (cur_pcb s)) s)"
  using assms
proof (induction "MAX_FILE - i" arbitrary: i s)
  case 0
  have "set_cur_pcb (cur_pcb s) s = s" by (simp add: set_cur_pcb_def cur_pcb_def)
  then show ?case
    using 0 close_all_end [OF _ procs_ok_cur(2) [OF 0(2)], of i] by (simp add: close_loop.simps)
next
  case (Suc n)
  note ok = procs_ok_cur [OF Suc.prems(1)]
  have i: "i < MAX_FILE" using Suc.hyps(2) by simp
  let ?b = "if fd_flags (FDs_array (cur_pcb s) ! i) = NOT_SET then cur_pcb s else closed_fd i (cur_pcb s)"
  let ?s = "set_cur_pcb ?b s"
  have b: "pcb_ok ?b" using ok(2) closed_fd_ok by simp
  have same: "set_cur_pcb (cur_pcb s) s = s" by (simp add: set_cur_pcb_def cur_pcb_def)
  have step: "(if fd_flags (FDs_array (cur_pcb s) ! i) \<noteq> 0 then map_option snd (sys_close (int i) s) else Some s) = Some ?s"
    using sys_close_used [OF Suc.prems(1,2) i] same by (simp add: NOT_SET_def)
  have "close_loop (Suc i) (curr_process ?s) ?s = Some (set_cur_pcb (close_all (Suc i) (cur_pcb ?s)) ?s)"
    using Suc.hyps(2) Suc.prems ok(4) [OF b] by (intro Suc.hyps(1)) auto
  then have "close_loop (Suc i) (curr_process s) ?s = Some (set_cur_pcb (close_all i (cur_pcb s)) s)"
    using ok(3,5) close_all_step [OF ok(2) i] by simp
  moreover have "length (FDs_array (cur_pcb s)) = MAX_FILE" using ok(2) by (simp add: pcb_ok_def)
  ultimately show ?case
    using i ok(1) step by (simp add: close_loop.simps [of i])
qed

text \<open>The kernel after the process that runs in \<open>child\<close> has ended and \<open>q\<close> is its parent.\<close>

definition resumed :: "u32 \<Rightarrow> 'a kernel_scheme \<Rightarrow> 'a kernel_scheme" where
  "resumed q s = (map_page VIRTUAL_FILE_PAGE (PHYS_FILE_START + PHYS_FILE_OFFSET * q) s)
     \<lparr>terminals := (terminals s)[get_curr_exec_term s := (terminals s ! get_curr_exec_term s)\<lparr>tm_current_process := sint q\<rparr>],
      curr_process := q, tss_esp0 := PHYS_FILE_START - EIGHT_KB * q - 4,
      pcbs := (pcbs s)[unat q := close_all 2 (pcbs s ! unat q)]\<rparr>"

lemma halt_tail_eq:
  assumes "tasks_ok s" and "unat child < NUM_PROCESSES" and "PPID (cur_pcb s) = q" and "unat q < NUM_PROCESSES"
  shows "halt_tail eax child s = Some (Resumed eax (ESP0 (pcbs s ! unat child)) (EBP0 (pcbs s ! unat child)), resumed q s)"
proof -
  have ok: "procs_ok s" "length (pcbs s) = NUM_PROCESSES" "get_curr_exec_term s < length (terminals s)"
    using assms(1) by (simp_all add: tasks_ok_def procs_ok_def)
  define s1 where "s1 = map_page VIRTUAL_FILE_PAGE (PHYS_FILE_START + PHYS_FILE_OFFSET * q)
     (s\<lparr>tss_esp0 := PHYS_FILE_START - EIGHT_KB * q - 4, curr_process := q,
        terminals := (terminals s)[get_curr_exec_term s := (terminals s ! get_curr_exec_term s)\<lparr>tm_current_process := sint q\<rparr>]\<rparr>)"
  have s1: "procs_ok s1" "curr_process s1 = q" "pcbs s1 = pcbs s"
    using ok(1) assms(4) by (simp_all add: s1_def procs_ok_def map_page_def flush_tlb_def)
  have close: "close_loop 2 q s1 = Some (set_cur_pcb (close_all 2 (cur_pcb s1)) s1)"
    using close_loop_eq [OF s1(1), of 2] s1(2) by simp
  have final: "set_cur_pcb (close_all 2 (cur_pcb s1)) s1 = resumed q s"
    by (simp add: set_cur_pcb_def cur_pcb_def s1(2,3)) (simp add: s1_def resumed_def map_page_def flush_tlb_def)
  have stacks: "ESP0 (pcbs (resumed q s) ! unat child) = ESP0 (pcbs s ! unat child)" "EBP0 (pcbs (resumed q s) ! unat child) = EBP0 (pcbs s ! unat child)"
    "length (pcbs (resumed q s)) = NUM_PROCESSES"
    using ok(2) assms(4) by (auto simp: resumed_def close_all_def nth_list_update)
  have "halt_tail eax child s = do { s \<leftarrow> close_loop 2 q s1; c \<leftarrow> the_pcb child s; Some (Resumed eax (ESP0 c) (EBP0 c), s) }"
    using procs_ok_cur(1) [OF ok(1)] assms(3) ok(3)
    by (simp add: halt_tail_def s1_def set_curr_process_def upd_term_def get_curr_exec_term_def map_page_def flush_tlb_def Let_def)
  then show ?thesis
    using close final stacks assms(2) by (simp add: the_pcb_def)
qed

definition ended :: "u32 \<Rightarrow> 'a kernel_scheme \<Rightarrow> 'a kernel_scheme" where
  "ended p s = s\<lparr>process_array := (process_array s)[unat p := 0]\<rparr>"

lemma ended_ok: "tasks_ok s \<Longrightarrow> tasks_ok (ended p s)"
  using files_only(1) [of "ended p s" s] tables_only(2) [of "ended p s" s]
  by (simp add: tasks_ok_def procs_ok_def proc_table_ok_def) (simp add: ended_def dentries_wf_def get_cur_term_def get_curr_exec_term_def)

lemma resumed_ok:
  assumes "tasks_ok s" and "unat q < NUM_PROCESSES"
  shows "tasks_ok (resumed q s)"
proof -
  let ?m = "map_page VIRTUAL_FILE_PAGE (PHYS_FILE_START + PHYS_FILE_OFFSET * q) s"
  have "pcb_ok (pcbs s ! unat q)" using assms by (simp add: tasks_ok_def procs_ok_def)
  then have "\<forall>b \<in> set (pcbs (resumed q s)). pcb_ok b"
    using assms(1) list_update_pcbs_ok [of "pcbs s", OF _ close_all_ok] by (simp add: resumed_def tasks_ok_def procs_ok_def)
  moreover have "paging_wf ?m" using assms(1) big.wf_map [OF _ TrueI, of s] by (simp add: tasks_ok_def)
  then have "paging_wf (resumed q s)" using tables_only(2) [of "resumed q s" ?m] by (simp add: resumed_def)
  moreover have "fs_wf (resumed q s) = fs_wf s"
    by (rule files_only) (simp_all add: resumed_def map_page_def flush_tlb_def)
  ultimately show ?thesis
    using assms
    by (simp add: tasks_ok_def procs_ok_def) (simp add: resumed_def map_page_def flush_tlb_def proc_table_ok_def dentries_wf_def
        get_cur_term_def get_curr_exec_term_def)
qed

lemma halt_body_child:
  assumes "tasks_ok s" and "PPID (cur_pcb s) = q" and "unat q < NUM_PROCESSES"
  shows "halt_body fr eax s =
    Some (Resumed eax (ESP0 (cur_pcb s)) (EBP0 (cur_pcb s)), resumed q (ended (curr_process s) s))"
proof -
  let ?e = "ended (curr_process s) s"
  have ok: "unat (curr_process s) < NUM_PROCESSES" "length (process_array s) = NUM_PROCESSES" "procs_ok s"
    using assms(1) by (simp_all add: tasks_ok_def procs_ok_def proc_table_ok_def)
  have e: "curr_process ?e = curr_process s" "pcbs ?e = pcbs s" "cur_pcb ?e = cur_pcb s"
    by (simp_all add: ended_def cur_pcb_def)
  have "q \<noteq> -1" using assms(3) by (auto simp: NUM_PROCESSES_def unsigned_minus_1_eq_mask mask_eq_exp_minus_1)
  moreover have "halt_tail eax (curr_process s) ?e = Some (Resumed eax (ESP0 (cur_pcb s)) (EBP0 (cur_pcb s)), resumed q ?e)"
    using halt_tail_eq [OF ended_ok [OF assms(1)] ok(1), of "curr_process s" q eax] assms(2,3) e
    by (simp add: cur_pcb_def)
  ultimately show ?thesis
    using ok procs_ok_cur(1) [OF ok(3)] assms(2) e by (simp add: halt_body_def end_process_def the_pcb_def flip: ended_def)
qed

section \<open>The shell is started again\<close>

lemma next_slot_exists:
  assumes "p < NUM_PROCESSES" and "p \<notin> proc_used s"
  obtains k where "next_slot k s" and "k \<le> p"
proof -
  define k where "k = (LEAST k. k \<notin> proc_used s)"
  have "k \<notin> proc_used s" unfolding k_def using assms(2) by (rule LeastI)
  moreover have "k \<le> p" unfolding k_def using assms(2) by (rule Least_le)
  moreover have "\<forall>j<k. j \<in> proc_used s" using not_less_Least unfolding k_def by blast
  ultimately show thesis using that [of k] assms(1) by (simp add: next_slot_def)
qed

definition idle :: "'a kernel_scheme \<Rightarrow> 'a kernel_scheme" where
  "idle s = s\<lparr>terminals := (terminals s)[nat (get_cur_term s) := (terminals s ! nat (get_cur_term s))\<lparr>tm_active := 0\<rparr>]\<rparr>"

lemma idle_ok: "tasks_ok s \<Longrightarrow> tasks_ok (idle s)"
  using files_only(1) [of "idle s" s] tables_only(2) [of "idle s" s]
  by (simp add: tasks_ok_def procs_ok_def proc_table_ok_def) (simp add: idle_def dentries_wf_def get_cur_term_def get_curr_exec_term_def)

definition shell_line :: "byte list" where "shell_line = cstr ''shell'' @ [0]"

lemma shell_line_ok: "cmd_ok shell_line" "cmd_word shell_line = lit ''shell''" "cmd_args shell_line = []"
  by (simp_all add: shell_line_def cmd_ok_def cmd_word_def cmd_args_def cmd_rest_def cstr_def chars_def word_char_def BUF_SIZE_def)

lemma halt_body_root:
  assumes "tasks_ok s" and "frame_ok fr" and "PPID (cur_pcb s) = -1" and "program_of shell_line s = Some e"
    and "inode e < num_inodes s" and "prog = file_content s (inode e)" and "28 \<le> length prog" and "length prog \<le> READ_WHOLE_FILE"
    and "take 4 prog = ELF" and "le32 (take 4 (drop 24 prog)) = Some entry"
  obtains p where "p \<le> unat (curr_process s)" and "p = unat (curr_process s) \<or> p \<notin> proc_used s" and "p < NUM_PROCESSES"
    and "\<forall>eax. halt_body fr eax s =
      Some (Entered entry, started fr p prog (reserved p shell_line (idle (ended (curr_process s) s))))"
proof -
  let ?c = "unat (curr_process s)" and ?e = "ended (curr_process s) s"
  let ?i = "idle ?e"
  have ok: "?c < NUM_PROCESSES" "length (process_array s) = NUM_PROCESSES" "procs_ok s" "nat (get_cur_term s) < length (terminals s)"
    "0 \<le> get_cur_term s"
    using assms(1) by (auto simp: tasks_ok_def procs_ok_def proc_table_ok_def)
  have used: "proc_used ?i = proc_used s - {?c}"
    using ok(1,2) by (auto simp: proc_used_def idle_def ended_def nth_list_update split: if_splits)
  obtain p where p: "next_slot p ?i" "p \<le> ?c" using next_slot_exists [OF ok(1), of ?i] used by blast
  have same: "file_content ?i k = file_content s k" "num_inodes ?i = num_inodes s" "dentries ?i = dentries s" for k
    using files_only(2) [of ?i s k] by (simp_all add: idle_def ended_def dentries_def)
  have start: "execute fr shell_line ?i = Some (Entered entry, started fr p prog (reserved p shell_line ?i))"
  proof (rule execute_started [OF _ assms(2) shell_line_ok(1) p(1)])
    show "tasks_ok ?i" by (rule idle_ok [OF ended_ok [OF assms(1)]])
    show "program_of shell_line ?i = Some e" using assms(4) unfolding program_of_def same(3) .
  qed (use assms(5-10) same in simp_all)
  have "\<forall>eax. halt_body fr eax s = Some (Entered entry, started fr p prog (reserved p shell_line ?i))"
    using ok procs_ok_cur(1) [OF ok(3)] assms(3) start
    by (simp add: halt_body_def end_process_def upd_cur_terminal_def upd_term_def the_pcb_def shell_line_def
        idle_def ended_def get_cur_term_def)
  moreover have "p = ?c \<or> p \<notin> proc_used s" "p < NUM_PROCESSES" using p(1) used by (auto simp: next_slot_def)
  ultimately show thesis using that p(2) by blast
qed

section \<open>Properties\<close>

definition exec_example :: kernel where
  "exec_example = kernel_example\<lparr>page_directory := replicate 1024 0, page_table := replicate 1024 0,
     user_video_page_table := replicate 1024 0, page_table_addr := 0x410000, user_video_page_table_addr := 0x411000\<rparr>"

definition frame_example :: frame where
  "frame_example = \<lparr>fr_buf = replicate 128 0xAA, fr_com = replicate 128 0xAA, fr_buffer = replicate 4 0xAA,
     fr_dentry = blank_dentry, fr_esp = 0x7FBF00, fr_ebp = 0x7FBF80\<rparr>"

lemma frame_example_ok [simp]: "frame_ok frame_example"
  by (simp add: frame_ok_def frame_example_def BUF_SIZE_def blank_dentry_def)

lemma exec_example_files [simp]:
  "dentries exec_example = dentries mounted_example" "num_inodes exec_example = 4"
  "file_content exec_example k = file_content mounted_example k" "file_length exec_example k = file_length mounted_example k"
proof -
  have "fs_image exec_example = fs_image kernel_example" "num_inodes exec_example = num_inodes kernel_example"
    "num_data_blocks exec_example = num_data_blocks kernel_example" "inodes exec_example = inodes kernel_example"
    "data_blocks exec_example = data_blocks kernel_example" by (simp_all add: exec_example_def)
  from files_only(2,3) [OF this, of k] show
    "file_content exec_example k = file_content mounted_example k" "file_length exec_example k = file_length mounted_example k"
    by simp_all
  show "dentries exec_example = dentries mounted_example" "num_inodes exec_example = 4"
    using kernel_example_files(3,4) by (simp_all add: exec_example_def dentries_def)
qed

lemma exec_example_ok [simp]: "tasks_ok exec_example"
proof -
  have "fs_wf exec_example" using kernel_example_files(1) files_only(1) [of exec_example kernel_example] by (simp add: exec_example_def)
  moreover have "dentries_wf exec_example" using kernel_example_files(2) by (simp add: exec_example_def dentries_wf_def)
  moreover have "procs_ok exec_example" using kernel_example_calls(2) by (simp add: exec_example_def procs_ok_def)
  moreover have "proc_table_ok exec_example" "length (terminals exec_example) = 3" "get_cur_term exec_example = 0"
    "get_curr_exec_term exec_example = 0" "paging_wf exec_example"
    by (simp_all add: exec_example_def kernel_example_def keyboard.defs keyboard_example_def console.defs console_example_def files.defs
        proc_table_ok_def NUM_PROCESSES_def get_cur_term_def get_curr_exec_term_def paging_wf_def)
  ultimately show ?thesis by (simp add: tasks_ok_def)
qed

definition shell_entry :: dentry where
  "shell_entry = the (List.find (\<lambda>d. chars (file_name d) = lit ''shell'') (dentries mounted_example))"

lemma shell_entry_facts:
  "List.find (\<lambda>d. chars (file_name d) = lit ''shell'') (dentries mounted_example) = Some shell_entry"
  "inode shell_entry = 3"
  using files_example_lookup [of 3] by (auto simp: shell_entry_def files_example_def)

lemma exec_example_slot [simp]: "next_slot (Suc 0) exec_example"
  by (simp add: next_slot_def proc_used_def exec_example_def kernel_example_def keyboard.defs NUM_PROCESSES_def)

lemma shell_command: "cmd_ok (cstr ''shell x'')" "cmd_word (cstr ''shell x'') = lit ''shell''" "cmd_args (cstr ''shell x'') = lit ''x''"
  by (simp_all add: cmd_ok_def cmd_word_def cmd_args_def cmd_rest_def cstr_def chars_def word_char_def BUF_SIZE_def)

lemma shell_program: "program_of (cstr ''shell x'') exec_example = Some shell_entry"
  using shell_entry_facts(1) unfolding program_of_def shell_command(2) by simp

text \<open>C6: starting a program.  When the first word of the command line names a file that starts with
  the ELF magic and fits the 100000 bytes the kernel reads, and \<open>p\<close> is the first free process,
  \<^verbatim>\<open>execute\<close> enters the program at the address in bytes 24 to 27 of the file, with interrupts on.
  Process \<open>p\<close> is then the current one and the only one newly taken, its arguments are the rest of
  the line without the leading spaces, it has the two standard descriptors only, its parent is
  the caller, or none on a terminal that was idle, user code at \<^verbatim>\<open>0x8048000 + k\<close> sees byte \<open>k\<close> of the
  file, and the memory and the control blocks of the other processes are as before.\<close>

theorem execute_starts_program:
  assumes "tasks_ok s" and "frame_ok fr" and "cmd_ok command" and "next_slot p s"
    and "program_of command s = Some e" and "inode e < num_inodes s" and "prog = file_content s (inode e)"
    and "28 \<le> length prog" and "length prog \<le> READ_WHOLE_FILE" and "take 4 prog = ELF" and "le32 (take 4 (drop 24 prog)) = Some entry"
  shows "\<exists>s'. execute fr command s = Some (Entered entry, s') \<and> tasks_ok s' \<and> int_flag s' \<and>
    curr_process s' = of_nat p \<and> current_pcb s' = Some p \<and> proc_used s' = insert p (proc_used s) \<and>
    chars (pcb_args (cur_pcb s')) = cmd_args command \<and> FDs_array (cur_pcb s') = std_fds \<and>
    PPID (cur_pcb s') = parent_of s \<and> PID (cur_pcb s') = of_nat p \<and>
    (\<forall>k < length prog. \<exists>a. translate True s' (VIRTUAL_FILE_START + of_nat k) = Some a \<and> phys_mem s' a = prog ! k) \<and>
    (\<forall>a. drop_bit 22 a \<noteq> of_nat p + 2 \<longrightarrow> phys_mem s' a = phys_mem s a) \<and>
    (\<forall>q < NUM_PROCESSES. q \<noteq> p \<longrightarrow> pcbs s' ! q = pcbs s ! q)"
proof -
  let ?r = "reserved p command s"
  let ?s' = "started fr p prog ?r"
  have p: "p < NUM_PROCESSES" "p < 6" using assms(4) by (auto simp: next_slot_def NUM_PROCESSES_def)
  note start = execute_started [OF assms]
  have ok: "tasks_ok ?r" by (rule tasks_ok_reserved [OF assms(1,3) p(1)])
  have len: "length (pcbs s) = NUM_PROCESSES" using assms(1) by (simp add: tasks_ok_def procs_ok_def)
  have mem: "\<exists>a. translate True ?s' (VIRTUAL_FILE_START + of_nat k) = Some a \<and> phys_mem ?s' a = prog ! k" if "k < length prog" for k
    using that started_image [OF ok p(1) that] assms(9) by blast
  have other: "phys_mem ?s' a = phys_mem s a" if "drop_bit 22 a \<noteq> of_nat p + 2" for a
    using patch_image(2) [OF p(2) _ that] assms(9) by (simp add: started_def reserved_def READ_WHOLE_FILE_def)
  have block: "cur_pcb ?s' = program_pcb fr p (parent_of s) (set_args (cmd_args command) (pcbs s ! p))"
    using len p(1) unat_slot [OF p(1)] by (simp add: cur_pcb_def started_def parent_of_def) (simp add: reserved_def)
  have "chars (pcb_args (cur_pcb ?s')) = cmd_args command"
    using cmd_args_no_nul by (simp add: block program_pcb_def set_args_def)
  moreover have "proc_used ?s' = insert p (proc_used s)" "current_pcb ?s' = Some p"
    using p(1) assms(1) by (auto simp: proc_used_def started_def reserved_def map_page_def flush_tlb_def tasks_ok_def
        proc_table_ok_def nth_list_update)
  moreover have "pcbs ?s' ! q = pcbs s ! q" if "q \<noteq> p" for q using that by (simp add: started_def reserved_def)
  moreover have "int_flag ?s'" "curr_process ?s' = of_nat p" by (simp_all add: started_def)
  ultimately show ?thesis
    using start started_ok [OF ok p(1)] mem other block by (intro exI [of _ ?s']) (simp add: program_pcb_def)
qed

theorem execute_starts_program_witness:
  "\<exists>s'. execute frame_example (cstr ''shell x'') exec_example = Some (Entered 0x8048094, s') \<and> tasks_ok s' \<and> int_flag s' \<and>
    curr_process s' = of_nat 1 \<and> current_pcb s' = Some 1 \<and> proc_used s' = insert 1 (proc_used exec_example) \<and>
    chars (pcb_args (cur_pcb s')) = cmd_args (cstr ''shell x'') \<and> FDs_array (cur_pcb s') = std_fds \<and>
    PPID (cur_pcb s') = parent_of exec_example \<and> PID (cur_pcb s') = of_nat 1 \<and>
    (\<forall>k < length (file_content exec_example 3). \<exists>a. translate True s' (VIRTUAL_FILE_START + of_nat k) = Some a \<and>
       phys_mem s' a = file_content exec_example 3 ! k) \<and>
    (\<forall>a. drop_bit 22 a \<noteq> of_nat 1 + 2 \<longrightarrow> phys_mem s' a = phys_mem exec_example a) \<and>
    (\<forall>q < NUM_PROCESSES. q \<noteq> 1 \<longrightarrow> pcbs s' ! q = pcbs exec_example ! q)"
  by (rule execute_starts_program [OF exec_example_ok frame_example_ok shell_command(1), of _ shell_entry])
    (simp_all add: shell_program shell_entry_facts(2) READ_WHOLE_FILE_def ELF_def le32_def)

lemma resumed_facts:
  assumes "tasks_ok s" and "unat q < NUM_PROCESSES" and "s' = resumed q (ended (curr_process s) s)"
  shows "tasks_ok s'" "proc_used s' = proc_used s - {unat (curr_process s)}" "curr_process s' = q"
    "tm_current_process (terminals s' ! get_curr_exec_term s') = sint q"
    "k < 3850000 \<Longrightarrow> translate True s' (VIRTUAL_FILE_START + of_nat k) = Some (image_addr (unat q) k)"
    "tss_esp0 s' = PHYS_FILE_START - EIGHT_KB * q - 4" "phys_mem s' = phys_mem s" "fd_used s' = {}" "current_pcb s' = current_pcb s"
proof -
  let ?e = "ended (curr_process s) s"
  let ?m = "map_page VIRTUAL_FILE_PAGE (PHYS_FILE_START + PHYS_FILE_OFFSET * q) ?e"
  have q: "unat q < 6" "of_nat (unat q) = q" using assms(2) by (simp_all add: NUM_PROCESSES_def)
  have ok: "tasks_ok ?e" "length (pcbs s) = NUM_PROCESSES" "length (FDs_array (pcbs s ! unat q)) = MAX_FILE"
    using ended_ok [OF assms(1)] assms(1,2) by (auto simp: tasks_ok_def procs_ok_def pcb_ok_def)
  show "translate True s' (VIRTUAL_FILE_START + of_nat k) = Some (image_addr (unat q) k)" if "k < 3850000"
    using program_translate [OF _ q(1) that, of ?e True] q(2) ok(1) tables_only(1) [of s' ?m True]
    by (simp add: resumed_def tasks_ok_def assms(3))
  show "fd_used s' = {}"
    using ok(2,3) assms(2) by (auto simp: fd_used_def cur_pcb_def resumed_def ended_def close_all_def assms(3))
  show "proc_used s' = proc_used s - {unat (curr_process s)}"
    using assms(1) by (auto simp: proc_used_def resumed_def ended_def map_page_def flush_tlb_def tasks_ok_def proc_table_ok_def procs_ok_def
        nth_list_update assms(3) split: if_splits)
  show "tm_current_process (terminals s' ! get_curr_exec_term s') = sint q"
    using assms(1) by (simp add: resumed_def ended_def map_page_def flush_tlb_def tasks_ok_def get_curr_exec_term_def assms(3))
  show "curr_process s' = q" "tss_esp0 s' = PHYS_FILE_START - EIGHT_KB * q - 4" "phys_mem s' = phys_mem s"
    "current_pcb s' = current_pcb s"
    by (simp_all add: resumed_def ended_def map_page_def flush_tlb_def assms(3))
  show "tasks_ok s'" using resumed_ok [OF ok(1) assms(2)] by (simp add: assms(3))
qed

text \<open>C10: a process ends.  When a process with a parent halts, the caller's \<^verbatim>\<open>execute\<close> resumes on the stack
  pointers the process was started from and returns the status (256 after an exception), the
  process's slot alone becomes free, the parent is the current process of the executing terminal,
  its program page is mapped again, the kernel stack of the task state segment is the
  parent's and no program memory changes.  The descriptors that are closed are those of the parent, and \<^verbatim>\<open>read\<close> and
  \<^verbatim>\<open>write\<close>, which go by \<^verbatim>\<open>current_pcb\<close>, still use the block of the process that ended.\<close>

theorem halt_resumes_parent:
  assumes "tasks_ok s" and "PPID (cur_pcb s) = q" and "unat q < NUM_PROCESSES"
  shows "\<exists>s'. halt fr status s = Some (Resumed (ucast status) (ESP0 (cur_pcb s)) (EBP0 (cur_pcb s)), s') \<and>
    halt_from_exc fr s = Some (Resumed 256 (ESP0 (cur_pcb s)) (EBP0 (cur_pcb s)), s') \<and> tasks_ok s' \<and>
    proc_used s' = proc_used s - {unat (curr_process s)} \<and> curr_process s' = q \<and>
    tm_current_process (terminals s' ! get_curr_exec_term s') = sint q \<and>
    (\<forall>k < 3850000. translate True s' (VIRTUAL_FILE_START + of_nat k) = Some (image_addr (unat q) k)) \<and>
    tss_esp0 s' = PHYS_FILE_START - EIGHT_KB * q - 4 \<and> phys_mem s' = phys_mem s \<and>
    fd_used s' = {} \<and> current_pcb s' = current_pcb s"
  using halt_body_child [OF assms] resumed_facts [OF assms(1,3) refl]
  by (intro exI [of _ "resumed q (ended (curr_process s) s)"]) (simp add: halt_def halt_from_exc_def)

definition child_example :: kernel where
  "child_example = exec_example\<lparr>curr_process := 1, process_array := [1, 1, 0, 0, 0, 0],
     pcbs := (pcbs exec_example)[1 := pcb_example\<lparr>PPID := 0, ESP0 := 0x7FBF00, EBP0 := 0x7FBF80\<rparr>]\<rparr>"

lemma child_example_ok [simp]: "tasks_ok child_example" "cur_pcb child_example = pcb_example\<lparr>PPID := 0, ESP0 := 0x7FBF00, EBP0 := 0x7FBF80\<rparr>"
proof -
  have "pcbs exec_example = replicate 6 pcb_example" by (simp add: exec_example_def kernel_example_def keyboard.defs)
  then show "cur_pcb child_example = pcb_example\<lparr>PPID := 0, ESP0 := 0x7FBF00, EBP0 := 0x7FBF80\<rparr>"
    by (simp add: child_example_def cur_pcb_def)
  have "pcb_ok (pcb_example\<lparr>PPID := 0, ESP0 := 0x7FBF00, EBP0 := 0x7FBF80\<rparr>)"
    by (simp add: pcb_ok_def pcb_example_def MAX_FILE_def BUF_SIZE_def)
  then have "procs_ok child_example"
    using exec_example_ok list_update_pcbs_ok [of "pcbs exec_example"]
    by (simp add: child_example_def procs_ok_def tasks_ok_def NUM_PROCESSES_def)
  then show "tasks_ok child_example"
    using exec_example_ok files_only(1) [of child_example exec_example] tables_only(2) [of child_example exec_example]
    by (simp add: tasks_ok_def) (simp add: child_example_def proc_table_ok_def NUM_PROCESSES_def dentries_wf_def get_cur_term_def get_curr_exec_term_def)
qed

theorem halt_resumes_parent_witness:
  "\<exists>s'. halt frame_example 5 child_example = Some (Resumed (ucast (5 :: byte)) (ESP0 (cur_pcb child_example)) (EBP0 (cur_pcb child_example)), s') \<and>
    halt_from_exc frame_example child_example = Some (Resumed 256 (ESP0 (cur_pcb child_example)) (EBP0 (cur_pcb child_example)), s') \<and> tasks_ok s' \<and>
    proc_used s' = proc_used child_example - {unat (curr_process child_example)} \<and> curr_process s' = 0 \<and>
    tm_current_process (terminals s' ! get_curr_exec_term s') = sint (0 :: u32) \<and>
    (\<forall>k < 3850000. translate True s' (VIRTUAL_FILE_START + of_nat k) = Some (image_addr (unat (0 :: u32)) k)) \<and>
    tss_esp0 s' = PHYS_FILE_START - EIGHT_KB * 0 - 4 \<and> phys_mem s' = phys_mem child_example \<and>
    fd_used s' = {} \<and> current_pcb s' = current_pcb child_example"
  by (rule halt_resumes_parent) (simp_all add: NUM_PROCESSES_def)

text \<open>C9: starting and ending a program is a round trip.  A live process on an active terminal that
  executes a program gets control back, when that program halts, with the status as the result,
  on the stack it called from, as the same process, with the same processes running, its
  own program memory mapped and unchanged, and its control block as before except that its
  descriptors 2 to 7 are closed.\<close>

theorem execute_halt_roundtrip:
  assumes "tasks_ok s" and "frame_ok fr" and "cmd_ok command" and "next_slot p s"
    and "program_of command s = Some e" and "inode e < num_inodes s" and "prog = file_content s (inode e)"
    and "28 \<le> length prog" and "length prog \<le> READ_WHOLE_FILE" and "take 4 prog = ELF" and "le32 (take 4 (drop 24 prog)) = Some entry"
    and "q = unat (curr_process s)" and "q \<in> proc_used s" and "tm_active (terminals s ! nat (get_cur_term s)) \<noteq> 0"
  shows "\<exists>s1 s2. execute fr command s = Some (Entered entry, s1) \<and>
    halt fr' status s1 = Some (Resumed (ucast status) (fr_esp fr) (fr_ebp fr), s2) \<and> tasks_ok s2 \<and>
    curr_process s2 = curr_process s \<and> proc_used s2 = proc_used s \<and> cur_pcb s2 = close_all 2 (cur_pcb s) \<and>
    (\<forall>k < 3850000. translate True s2 (VIRTUAL_FILE_START + of_nat k) = Some (image_addr q k) \<and>
       phys_mem s2 (image_addr q k) = phys_mem s (image_addr q k))"
proof -
  let ?r = "reserved p command s"
  let ?s1 = "started fr p prog ?r"
  let ?e = "ended (of_nat p) ?s1"
  let ?s2 = "resumed (curr_process s) ?e"
  let ?m = "map_page VIRTUAL_FILE_PAGE (PHYS_FILE_START + PHYS_FILE_OFFSET * curr_process s) ?e"
  have p: "p < NUM_PROCESSES" "p < 6" "unat (of_nat p :: u32) = p" using assms(4) unat_slot by (auto simp: next_slot_def NUM_PROCESSES_def)
  have pq: "p \<noteq> q" using assms(4,13) by (auto simp: next_slot_def)
  have q: "q < NUM_PROCESSES" "q < 6" "of_nat q = curr_process s"
    using assms(1,12) by (simp_all add: tasks_ok_def procs_ok_def NUM_PROCESSES_def)
  have len: "length (pcbs s) = NUM_PROCESSES" "length (process_array s) = NUM_PROCESSES" "process_array s ! p = 0"
    using assms(1,4) p(1) by (simp_all add: tasks_ok_def procs_ok_def proc_table_ok_def next_slot_def proc_used_def)
  have ok1: "tasks_ok ?s1" by (rule started_ok [OF tasks_ok_reserved [OF assms(1,3) p(1)] p(1)])
  have cur1: "curr_process ?s1 = of_nat p" by (simp add: started_def)
  have block: "cur_pcb ?s1 = program_pcb fr p (curr_process s) (set_args (cmd_args command) (pcbs s ! p))"
    using len(1) p assms(14) by (simp add: cur_pcb_def started_def parent_of_def) (simp add: reserved_def)
  have halt: "halt fr' status ?s1 = Some (Resumed (ucast status) (fr_esp fr) (fr_ebp fr), ?s2)"
    using halt_body_child [OF ok1, of "curr_process s" fr' "ucast status"] block q(1) assms(12) cur1
    by (simp add: halt_def program_pcb_def)
  have ok2: "tasks_ok ?e" "tasks_ok ?s2" using resumed_ok ended_ok ok1 q(1) assms(12) by blast+
  have mem: "translate True ?s2 (VIRTUAL_FILE_START + of_nat k) = Some (image_addr q k) \<and>
      phys_mem ?s2 (image_addr q k) = phys_mem s (image_addr q k)" if k: "k < 3850000" for k
  proof
    show "translate True ?s2 (VIRTUAL_FILE_START + of_nat k) = Some (image_addr q k)"
      using program_translate [OF _ q(2) k, of ?e True] ok2(1) q(3) tables_only(1) [of ?s2 ?m True]
      by (simp add: resumed_def tasks_ok_def)
    have "drop_bit 22 (image_addr q k) \<noteq> of_nat p + 2"
      using image_addr_frame [OF q(2) k] pq p(2) q(2) by (simp add: word_of_nat_eq_iff take_bit_nat_eq_self)
    then show "phys_mem ?s2 (image_addr q k) = phys_mem s (image_addr q k)"
      using patch_image(2) [OF p(2)] assms(9) by (simp add: resumed_def ended_def started_def reserved_def map_page_def flush_tlb_def READ_WHOLE_FILE_def)
  qed
  have "process_array ?s2 = (process_array s)[p := 0]"
    using p(3) by (simp add: resumed_def ended_def started_def reserved_def map_page_def flush_tlb_def)
  then have "process_array ?s2 = process_array s" using len(3) by (metis list_update_id)
  moreover have "cur_pcb ?s2 = close_all 2 (cur_pcb s)"
    using q(1) len(1) assms(12) pq by (simp add: cur_pcb_def resumed_def ended_def started_def reserved_def)
  ultimately show ?thesis
    using execute_started [OF assms(1-11)] halt ok2(2) mem
    by (intro exI [of _ ?s1] exI [of _ ?s2]) (simp add: proc_used_def resumed_def)
qed

theorem execute_halt_roundtrip_witness:
  "\<exists>s1 s2. execute frame_example (cstr ''shell x'') exec_example = Some (Entered 0x8048094, s1) \<and>
    halt frame_example 7 s1 = Some (Resumed (ucast (7 :: byte)) (fr_esp frame_example) (fr_ebp frame_example), s2) \<and> tasks_ok s2 \<and>
    curr_process s2 = curr_process exec_example \<and> proc_used s2 = proc_used exec_example \<and> cur_pcb s2 = close_all 2 (cur_pcb exec_example) \<and>
    (\<forall>k < 3850000. translate True s2 (VIRTUAL_FILE_START + of_nat k) = Some (image_addr 0 k) \<and>
       phys_mem s2 (image_addr 0 k) = phys_mem exec_example (image_addr 0 k))"
proof (rule execute_halt_roundtrip [where prog = "file_content exec_example 3", OF exec_example_ok frame_example_ok shell_command(1) exec_example_slot shell_program])
  show "0 = unat (curr_process exec_example)" "0 \<in> proc_used exec_example"
    "tm_active (terminals exec_example ! nat (get_cur_term exec_example)) \<noteq> 0"
    by (simp_all add: exec_example_def kernel_example_def keyboard.defs keyboard_example_def console.defs console_example_def
        files.defs get_cur_term_def proc_used_def NUM_PROCESSES_def)
qed (simp_all add: shell_entry_facts(2) READ_WHOLE_FILE_def ELF_def le32_def)

text \<open>C32: failing to start a program.  With no free process \<^verbatim>\<open>execute\<close> prints a message and returns 0, as
  for a program that halted with status 0.  A file that is not an executable makes it return -1
  and leaves the slot it took occupied for good.  A command that names no file makes it return -1
  and marks every process, the running ones too, as free.  All three return with interrupts
  off, and the last two leave \<^verbatim>\<open>current_pcb\<close> on the block of the process that was not started.\<close>

theorem execute_failures:
  assumes "tasks_ok s" and "frame_ok fr" and "cmd_ok command"
  shows "({0..<NUM_PROCESSES} \<subseteq> proc_used s \<longrightarrow>
      (\<exists>s'. execute fr command s = Some (Returned 0, s') \<and> but_visible s' = but_visible (cli s))) \<and>
    (\<forall>p. next_slot p s \<and> program_of command s = None \<longrightarrow>
      (\<exists>s'. execute fr command s = Some (Returned (-1), s') \<and> proc_used s' = {} \<and> \<not> int_flag s' \<and>
         curr_process s' = curr_process s \<and> current_pcb s' = Some p)) \<and>
    (\<forall>p e. next_slot p s \<and> program_of command s = Some e \<and> inode e < num_inodes s \<and> 4 \<le> file_length s (inode e) \<and>
       take 4 (file_content s (inode e)) \<noteq> ELF \<longrightarrow>
      (\<exists>s'. execute fr command s = Some (Returned (-1), s') \<and> proc_used s' = insert p (proc_used s) \<and> \<not> int_flag s' \<and>
         curr_process s' = curr_process s \<and> current_pcb s' = Some p))"
proof (intro conjI allI impI)
  assume "{0..<NUM_PROCESSES} \<subseteq> proc_used s"
  then show "\<exists>s'. execute fr command s = Some (Returned 0, s') \<and> but_visible s' = but_visible (cli s)"
    using execute_full [OF assms] fold_putc_rest by blast
next
  fix p assume p: "next_slot p s \<and> program_of command s = None"
  let ?s' = "clear_process (reserved p command s)"
  have "proc_used ?s' = {}"
    using assms(1) by (auto simp: proc_used_def clear_process_def reserved_def tasks_ok_def proc_table_ok_def)
  moreover have "\<not> int_flag ?s'" "curr_process ?s' = curr_process s" "current_pcb ?s' = Some p"
    by (simp_all add: clear_process_def reserved_def)
  ultimately show "\<exists>s'. execute fr command s = Some (Returned (-1), s') \<and> proc_used s' = {} \<and> \<not> int_flag s' \<and>
      curr_process s' = curr_process s \<and> current_pcb s' = Some p"
    using execute_program(1) [OF assms] p by blast
next
  fix p e
  assume p: "next_slot p s \<and> program_of command s = Some e \<and> inode e < num_inodes s \<and> 4 \<le> file_length s (inode e) \<and>
       take 4 (file_content s (inode e)) \<noteq> ELF"
  let ?s' = "reserved p command s"
  have "proc_used ?s' = insert p (proc_used s)"
    using assms(1) p by (auto simp: proc_used_def reserved_def tasks_ok_def proc_table_ok_def next_slot_def nth_list_update)
  moreover have "\<not> int_flag ?s'" "curr_process ?s' = curr_process s" "current_pcb ?s' = Some p"
    by (simp_all add: reserved_def)
  ultimately show "\<exists>s'. execute fr command s = Some (Returned (-1), s') \<and> proc_used s' = insert p (proc_used s) \<and> \<not> int_flag s' \<and>
         curr_process s' = curr_process s \<and> current_pcb s' = Some p"
    using execute_program(2) [OF assms, of p e] p by simp
qed

lemma no_such_command: "cmd_ok (cstr ''nosuch'')" "program_of (cstr ''nosuch'') exec_example = None"
proof -
  have w: "cmd_word (cstr ''nosuch'') = lit ''nosuch''"
    by (simp add: cmd_word_def cstr_def chars_def word_char_def)
  have "lit ''nosuch'' \<notin> set (map (\<lambda>d. chars (file_name d)) (dentries mounted_example))"
    unfolding mounted_example_names by simp
  then have "List.find (\<lambda>d. chars (file_name d) = lit ''nosuch'') (dentries mounted_example) = None"
    by (simp add: find_None_iff) (metis image_eqI)
  then show "program_of (cstr ''nosuch'') exec_example = None" unfolding program_of_def w exec_example_files(1) by simp
qed (simp add: cmd_ok_def cstr_def chars_def BUF_SIZE_def)

theorem execute_failures_witness:
  "next_slot 1 exec_example \<and> program_of (cstr ''nosuch'') exec_example = None \<and>
   (\<exists>s'. execute frame_example (cstr ''nosuch'') exec_example = Some (Returned (-1), s') \<and> proc_used s' = {} \<and> \<not> int_flag s' \<and>
     curr_process s' = curr_process exec_example \<and> current_pcb s' = Some 1)"
  using execute_failures [OF exec_example_ok frame_example_ok no_such_command(1)] no_such_command(2) exec_example_slot by simp

text \<open>C31: a terminal never loses its shell.  When a process without a parent ends, whichever slot it had, by \<^verbatim>\<open>halt\<close> or by an
  exception, \<^verbatim>\<open>execute\<close> starts the shell in a free slot, again without a parent, and all other processes keep their slots.
  The new shell becomes the current process of the terminal that executes, on which the old one ran, and no other terminal gets
  another current process.  The active flag and the saved stack pointers are written in the terminal that is shown,
  which may be another one; everything else of the terminals is as before.\<close>

theorem halt_restarts_shell:
  assumes "tasks_ok s" and "frame_ok fr" and "PPID (cur_pcb s) = -1" and "program_of shell_line s = Some e"
    and "inode e < num_inodes s" and "prog = file_content s (inode e)" and "28 \<le> length prog" and "length prog \<le> READ_WHOLE_FILE"
    and "take 4 prog = ELF" and "le32 (take 4 (drop 24 prog)) = Some entry"
  shows "\<exists>p s'. halt fr status s = Some (Entered entry, s') \<and> halt_from_exc fr s = Some (Entered entry, s') \<and> tasks_ok s' \<and>
    curr_process s' = of_nat p \<and> (p = unat (curr_process s) \<or> p \<notin> proc_used s) \<and>
    proc_used s' = insert p (proc_used s - {unat (curr_process s)}) \<and> PPID (cur_pcb s') = -1 \<and>
    get_curr_exec_term s' = get_curr_exec_term s \<and> get_cur_term s' = get_cur_term s \<and>
    tm_current_process (terminals s' ! get_curr_exec_term s) = int p \<and> tm_active (terminals s' ! nat (get_cur_term s)) = 1 \<and>
    (\<forall>k < 3. terminals s' ! k = (terminals s ! k)
       \<lparr>tm_current_process := (if k = get_curr_exec_term s then int p else tm_current_process (terminals s ! k)),
        tm_active := (if k = nat (get_cur_term s) then 1 else tm_active (terminals s ! k)),
        tm_ESP := (if k = nat (get_cur_term s) then fr_esp fr else tm_ESP (terminals s ! k)),
        tm_EBP := (if k = nat (get_cur_term s) then fr_ebp fr else tm_EBP (terminals s ! k))\<rparr>)"
proof -
  let ?e = "ended (curr_process s) s"
  let ?i = "idle ?e"
  obtain p where p: "p = unat (curr_process s) \<or> p \<notin> proc_used s" "p < NUM_PROCESSES"
    "\<forall>eax. halt_body fr eax s = Some (Entered entry, started fr p prog (reserved p shell_line ?i))"
    using halt_body_root [OF assms] by blast
  have t: "length (pcbs s) = NUM_PROCESSES" "length (process_array s) = NUM_PROCESSES" "unat (curr_process s) < NUM_PROCESSES"
    "nat (get_cur_term s) < length (terminals s)" "get_curr_exec_term s < length (terminals s)"
    using assms(1) by (auto simp: tasks_ok_def procs_ok_def proc_table_ok_def)
  let ?s' = "started fr p prog (reserved p shell_line ?i)"
  have "tasks_ok ?s'" by (intro started_ok tasks_ok_reserved idle_ok ended_ok assms(1) shell_line_ok(1) p(2))
  moreover have "proc_used ?s' = insert p (proc_used s - {unat (curr_process s)})"
    using t(2,3) p(2) by (auto simp: proc_used_def started_def reserved_def idle_def ended_def map_page_def flush_tlb_def
        nth_list_update split: if_splits)
  moreover have "parent_of (reserved p shell_line ?i) = -1"
    using t(4) by (simp add: parent_of_def) (simp add: idle_def ended_def get_cur_term_def)
  then have "PPID (cur_pcb ?s') = -1"
    using t(1) p(2) unat_slot [OF p(2)]
    by (simp add: cur_pcb_def started_def program_pcb_def) (simp add: reserved_def idle_def ended_def)
  moreover have same: "get_curr_exec_term ?s' = get_curr_exec_term s" "get_cur_term ?s' = get_cur_term s"
    by (simp_all add: started_def reserved_def idle_def ended_def map_page_def flush_tlb_def get_cur_term_def get_curr_exec_term_def)
  moreover have terms: "terminals ?s' ! k = (terminals s ! k)
       \<lparr>tm_current_process := (if k = get_curr_exec_term s then int p else tm_current_process (terminals s ! k)),
        tm_active := (if k = nat (get_cur_term s) then 1 else tm_active (terminals s ! k)),
        tm_ESP := (if k = nat (get_cur_term s) then fr_esp fr else tm_ESP (terminals s ! k)),
        tm_EBP := (if k = nat (get_cur_term s) then fr_ebp fr else tm_EBP (terminals s ! k))\<rparr>" for k
    using t(4,5) by (simp add: started_def started_terms_def reserved_def idle_def ended_def map_page_def flush_tlb_def
        get_cur_term_def get_curr_exec_term_def Let_def activate_def nth_list_update)
  moreover have "tm_active (terminals ?s' ! nat (get_cur_term s)) = 1"
    "tm_current_process (terminals ?s' ! get_curr_exec_term s) = int p" unfolding terms by simp_all
  moreover have "curr_process ?s' = of_nat p" by (simp add: started_def)
  ultimately show ?thesis
    using p(1,3) by (intro exI [of _ p] exI [of _ ?s']) (simp add: halt_def halt_from_exc_def)
qed

lemma shell_program_line: "program_of shell_line exec_example = Some shell_entry"
  using shell_entry_facts(1) unfolding program_of_def shell_line_ok(2) by simp

theorem halt_restarts_shell_witness:
  "\<exists>p s'. halt frame_example 0 exec_example = Some (Entered 0x8048094, s') \<and> halt_from_exc frame_example exec_example = Some (Entered 0x8048094, s') \<and> tasks_ok s' \<and>
    curr_process s' = of_nat p \<and> (p = unat (curr_process exec_example) \<or> p \<notin> proc_used exec_example) \<and>
    proc_used s' = insert p (proc_used exec_example - {unat (curr_process exec_example)}) \<and> PPID (cur_pcb s') = -1 \<and>
    get_curr_exec_term s' = get_curr_exec_term exec_example \<and> get_cur_term s' = get_cur_term exec_example \<and>
    tm_current_process (terminals s' ! get_curr_exec_term exec_example) = int p \<and> tm_active (terminals s' ! nat (get_cur_term exec_example)) = 1 \<and>
    (\<forall>k < 3. terminals s' ! k = (terminals exec_example ! k)
       \<lparr>tm_current_process := (if k = get_curr_exec_term exec_example then int p else tm_current_process (terminals exec_example ! k)),
        tm_active := (if k = nat (get_cur_term exec_example) then 1 else tm_active (terminals exec_example ! k)),
        tm_ESP := (if k = nat (get_cur_term exec_example) then fr_esp frame_example else tm_ESP (terminals exec_example ! k)),
        tm_EBP := (if k = nat (get_cur_term exec_example) then fr_ebp frame_example else tm_EBP (terminals exec_example ! k))\<rparr>)"
proof (rule halt_restarts_shell [where prog = "file_content exec_example 3", OF exec_example_ok frame_example_ok _ shell_program_line])
  show "PPID (cur_pcb exec_example) = -1"
    by (simp add: exec_example_def kernel_example_def keyboard.defs cur_pcb_def pcb_example_def)
qed (simp_all add: shell_entry_facts(2) READ_WHOLE_FILE_def ELF_def le32_def)

lemma stack_area:
  assumes "p < NUM_PROCESSES" and "esp = unat (PHYS_FILE_START - EIGHT_KB * of_nat p - 4)" and "blk = unat (pcb_address (of_nat p))"
  shows "blk + sizeof_pcb + 7648 = esp" "esp + 4 = blk + unat EIGHT_KB" "0x400000 \<le> blk" "esp + 4 \<le> 0x800000"
    "\<lbrakk>q < NUM_PROCESSES; q \<noteq> p\<rbrakk> \<Longrightarrow>
      unat (pcb_address (of_nat q)) + unat EIGHT_KB \<le> blk \<or> esp + 4 \<le> unat (pcb_address (of_nat q))"
proof -
  have p: "p \<in> {0, 1, 2, 3, 4, 5}" using assms(1) by (auto simp: NUM_PROCESSES_def)
  then show "blk + sizeof_pcb + 7648 = esp" "esp + 4 = blk + unat EIGHT_KB" "0x400000 \<le> blk" "esp + 4 \<le> 0x800000"
    using assms(2,3) by (auto simp: pcb_address_def PHYS_FILE_START_def EIGHT_KB_def sizeof_pcb_def)
  assume "q < NUM_PROCESSES" "q \<noteq> p"
  moreover from this have "q \<in> {0, 1, 2, 3, 4, 5}" by (auto simp: NUM_PROCESSES_def)
  ultimately show "unat (pcb_address (of_nat q)) + unat EIGHT_KB \<le> blk \<or> esp + 4 \<le> unat (pcb_address (of_nat q))"
    using p assms(2,3) by (auto simp: pcb_address_def PHYS_FILE_START_def EIGHT_KB_def)
qed

text \<open>C33: kernel stacks and control blocks.  When \<^verbatim>\<open>execute\<close> has entered a program, the kernel stack that the task state
  segment names for it and the control block of the process that is then current are the two ends of one area of 8 KB: the block of 540 bytes at the
  bottom, the stack from the last word down, with 7648 bytes before it reaches the block.  The area lies inside the kernel
  page and has no byte in common with the areas of the other five processes.\<close>

theorem kernel_stack_layout:
  assumes "tasks_ok s" and "frame_ok fr" and "cmd_ok command" and "next_slot p s"
    and "program_of command s = Some e" and "inode e < num_inodes s" and "prog = file_content s (inode e)"
    and "28 \<le> length prog" and "length prog \<le> READ_WHOLE_FILE" and "take 4 prog = ELF" and "le32 (take 4 (drop 24 prog)) = Some entry"
  shows "\<exists>s'. execute fr command s = Some (Entered entry, s') \<and> tss_ss0 s' = KERNEL_DS \<and>
    (let esp = unat (tss_esp0 s'); blk = unat (pcb_address (curr_process s')) in
       blk + sizeof_pcb + 7648 = esp \<and> esp + 4 = blk + unat EIGHT_KB \<and> 0x400000 \<le> blk \<and> esp + 4 \<le> 0x800000 \<and>
       (\<forall>q < NUM_PROCESSES. of_nat q \<noteq> curr_process s' \<longrightarrow>
          unat (pcb_address (of_nat q)) + unat EIGHT_KB \<le> blk \<or> esp + 4 \<le> unat (pcb_address (of_nat q))))"
proof -
  let ?s' = "started fr p prog (reserved p command s)"
  have p: "p < NUM_PROCESSES" using assms(4) by (simp add: next_slot_def)
  have "tss_ss0 ?s' = KERNEL_DS" "tss_esp0 ?s' = PHYS_FILE_START - EIGHT_KB * of_nat p - 4" "curr_process ?s' = of_nat p"
    by (simp_all add: started_def)
  then show ?thesis
    using execute_started [OF assms] stack_area [OF p refl refl] unfolding Let_def by (intro exI [of _ ?s']) auto
qed

theorem kernel_stack_layout_witness:
  "\<exists>s'. execute frame_example (cstr ''shell x'') exec_example = Some (Entered 0x8048094, s') \<and> tss_ss0 s' = KERNEL_DS \<and>
    (let esp = unat (tss_esp0 s'); blk = unat (pcb_address (curr_process s')) in
       blk + sizeof_pcb + 7648 = esp \<and> esp + 4 = blk + unat EIGHT_KB \<and> 0x400000 \<le> blk \<and> esp + 4 \<le> 0x800000 \<and>
       (\<forall>q < NUM_PROCESSES. of_nat q \<noteq> curr_process s' \<longrightarrow>
          unat (pcb_address (of_nat q)) + unat EIGHT_KB \<le> blk \<or> esp + 4 \<le> unat (pcb_address (of_nat q))))"
  by (rule kernel_stack_layout [where prog = "file_content exec_example 3", OF exec_example_ok frame_example_ok shell_command(1) exec_example_slot shell_program])
    (simp_all add: shell_entry_facts(2) READ_WHOLE_FILE_def ELF_def le32_def)

text \<open>arguments.  \<^verbatim>\<open>getargs\<close> gives the process the argument string that \<^verbatim>\<open>execute\<close> stored for it, whatever
  \<^verbatim>\<open>nbytes\<close> says; a buffer that is too short for it is overrun.\<close>

theorem getargs_returns:
  assumes "tasks_ok s" and "cmd_ok command" and "p < NUM_PROCESSES"
    and "s' = started fr p prog (reserved p command s)" and "a = cmd_args command"
  shows "getargs (Some buf) nbytes s' =
    (if length a < length buf then Some (0, Some (a @ 0 # drop (Suc (length a)) buf)) else None) \<and>
    getargs None nbytes s' = Some (-1, None)"
proof -
  have len: "length (pcbs s) = NUM_PROCESSES" using assms(1) by (simp add: tasks_ok_def procs_ok_def)
  have "the_pcb (curr_process s') s' = Some (program_pcb fr p (parent_of (reserved p command s)) (set_args a (pcbs s ! p)))"
    using len assms(3,5) unat_slot [OF assms(3)] by (simp add: assms(4) the_pcb_def started_def) (simp add: reserved_def)
  moreover have "strcpy buf (a @ 0 # r) = (if length a < length buf then Some (a @ 0 # drop (Suc (length a)) buf) else None)" for r
    using strcpy_terminated cmd_args_no_nul assms(5) by metis
  ultimately show ?thesis
    by (simp add: getargs_def program_pcb_def set_args_def)
qed

theorem getargs_returns_witness:
  "getargs (Some (replicate 8 0xAA)) 1 (started frame_example 1 [] (reserved 1 (cstr ''shell x'') exec_example)) =
    (if length (cmd_args (cstr ''shell x'')) < length (replicate 8 (0xAA :: byte)) then
       Some (0, Some (cmd_args (cstr ''shell x'') @ 0 # drop (Suc (length (cmd_args (cstr ''shell x'')))) (replicate 8 0xAA))) else None) \<and>
    getargs None 1 (started frame_example 1 [] (reserved 1 (cstr ''shell x'') exec_example)) = Some (-1, None)"
  by (rule getargs_returns [OF exec_example_ok shell_command(1) _ refl refl]) (simp add: NUM_PROCESSES_def)

end
