(* ===== verification/Switching.thy ===== *)
theory Switching
  imports Exec
begin

text \<open>
  Which terminal is shown and which one runs: \<^verbatim>\<open>save_terminal_state\<close>, \<^verbatim>\<open>restore_terminal_state\<close> and
  \<^verbatim>\<open>switch_terminal\<close> of \<^verbatim>\<open>student-distrib/terminal.c\<close>, and \<^verbatim>\<open>switch_task\<close> of \<^verbatim>\<open>student-distrib/scheduler.c\<close>.

  Link-time and stack values are parameters: \<open>screen_addr k\<close> is the address of \<^verbatim>\<open>terminals[k].screen\<close>,
  and the record \<open>switch_frame\<close> holds the stack pointers the inline assembly saves, the address of
  the local \<^verbatim>\<open>screen_start\<close> and its uninitialised value.  The scheduler first looks at
  \<^verbatim>\<open>terminals[curr_term + 1]\<close>; for terminal 2 that is the byte after the array, the parameter \<open>past\<close>.
  Its loop need not end, so it is a partial function; its value \<open>None\<close> is a loop that never ends.
\<close>

section \<open>Saving and restoring the visible terminal\<close>

definition SCREEN_BYTES :: int where "SCREEN_BYTES = 2 * int (NUM_ROWS * NUM_COLS)"

definition save_terminal_state :: "'a keyboard_scheme \<Rightarrow> 'a keyboard_scheme option" where
  "save_terminal_state s = do {
     let k = nat (curr_terminal_number s);
     t \<leftarrow> (if 0 \<le> curr_terminal_number s then aget (terminals s) k else None);
     bs \<leftarrow> img_bytes (keyboard_buf s) 0 MAX_BUF_SIZE;
     ib \<leftarrow> overwrite bs (tm_input_buf t);
     upd_term k (\<lambda>t. t\<lparr>tm_x := screen_x s, tm_y := screen_y s,
       tm_screen := blit SCREEN_BYTES (video_mem s) (tm_screen t), tm_input_buf := ib,
       tm_keyboard_last_index := get_keyboard_last_index s, tm_keyboard_index := get_keyboard_index s\<rparr>) s
   }"

definition restore_terminal_state :: "int \<Rightarrow> 'a keyboard_scheme \<Rightarrow> 'a keyboard_scheme option" where
  "restore_terminal_state newt s = do {
     t \<leftarrow> (if 0 \<le> newt then aget (terminals s) (nat newt) else None);
     let s = s\<lparr>video_mem := blit SCREEN_BYTES (tm_screen t) (video_mem s), screen_x := tm_x t, screen_y := tm_y t\<rparr>;
     let s = update_cursor (screen_y s) (screen_x s) s;
     bs \<leftarrow> img_bytes (tm_input_buf t) 0 MAX_BUF_SIZE;
     kb \<leftarrow> overwrite bs (keyboard_buf s);
     Some (set_keyboard_index (tm_keyboard_index t)
       (set_keyboard_last_index (tm_keyboard_last_index t) (s\<lparr>keyboard_buf := kb\<rparr>)))
   }"

section \<open>Switching the visible terminal\<close>

record switch_frame =
  sw_esp :: u32
  sw_ebp :: u32
  sw_var :: u32       \<comment> \<open>the address of \<^verbatim>\<open>screen_start\<close>\<close>
  sw_garbage :: u32   \<comment> \<open>its value before \<^verbatim>\<open>vidmap\<close>\<close>

text \<open>\<^verbatim>\<open>vidmap(&screen_start)\<close> and the value of the variable afterwards.\<close>

definition local_vidmap :: "switch_frame \<Rightarrow> 'a paging_scheme \<Rightarrow> u32 \<times> 'a paging_scheme" where
  "local_vidmap sf s = (case vidmap (sw_var sf) s of (_, v, s) \<Rightarrow> (case v of None \<Rightarrow> sw_garbage sf | Some a \<Rightarrow> a, s))"

text \<open>Storing the stack pointers in the block a \<^verbatim>\<open>pcb_t*\<close> points to.\<close>

definition save_switch :: "switch_frame \<Rightarrow> nat \<Rightarrow> 'a kernel_scheme \<Rightarrow> 'a kernel_scheme option" where
  "save_switch sf k s = upd_pcb (of_nat k) (\<lambda>b. Some (b\<lparr>EBP_SWITCH := sw_ebp sf, ESP_SWITCH := sw_esp sf\<rparr>)) s"

definition switch_terminal :: "(nat \<Rightarrow> u32) \<Rightarrow> switch_frame \<Rightarrow> frame \<Rightarrow> int \<Rightarrow> 'a kernel_scheme \<Rightarrow> (outcome \<times> 'a kernel_scheme) option" where
  "switch_terminal screen_addr sf fr newt s =
     (if newt = curr_terminal_number s then Some (Returned 0, s)
      else if newt > 2 then Some (Returned 0, s)
      else do {
        t \<leftarrow> (if 0 \<le> newt then aget (terminals s) (nat newt) else None);
        if tm_active t = 0 then do {
          s \<leftarrow> save_terminal_state s;
          old \<leftarrow> cur_terminal s;
          old_pcb \<leftarrow> get_pcb_pointer (tm_current_process old) s;
          let s = s\<lparr>curr_terminal_number := newt\<rparr>;
          s \<leftarrow> save_switch sf old_pcb s;
          let s = set_curr_exec_term newt s;
          s \<leftarrow> clear_screen s;
          (oc, s) \<leftarrow> execute fr (cstr ''shell'' @ [0]) s;
          case oc of Returned _ \<Rightarrow> Some (Returned 0, s) | _ \<Rightarrow> Some (oc, s)
        } else do {
          s \<leftarrow> save_terminal_state s;
          s \<leftarrow> restore_terminal_state newt s;
          let s = s\<lparr>curr_terminal_number := newt\<rparr>;
          let (screen_start, s) = local_vidmap sf s;
          let s = (if int (get_curr_exec_term s) \<noteq> curr_terminal_number s
                   then map_video_w_pt screen_start (screen_addr (nat (curr_terminal_number s))) s else s);
          Some (Returned 0, s)
        }
      })"

section \<open>The scheduler\<close>

text \<open>\<^verbatim>\<open>terminals[k].active\<close> for the index the loop has reached.\<close>

definition active_at :: "byte \<Rightarrow> terminal list \<Rightarrow> byte \<Rightarrow> byte option" where
  "active_at past ts k =
     (if unat k < length ts then Some (tm_active (ts ! unat k)) else if unat k = length ts then Some past else None)"

partial_function (option) next_term_loop :: "byte \<Rightarrow> terminal list \<Rightarrow> byte \<Rightarrow> byte option" where
  "next_term_loop past ts k = do {
     a \<leftarrow> active_at past ts k;
     if a = 0 then next_term_loop past ts (if k + 1 > 2 then 0 else k + 1) else Some k
   }"

text \<open>The loop that sets the attribute byte of every cell of the saved screen.\<close>

definition attrib_loop :: "cells \<Rightarrow> cells" where
  "attrib_loop m = fold (\<lambda>i m. m(int i * 2 + 1 := ATTRIB)) [0..<NUM_ROWS * NUM_COLS] m"

text \<open>The switch to terminal \<^verbatim>\<open>curr_term\<close> once it is chosen.  The result is the pair of stack pointers on
  which the code goes on.\<close>

definition switch_to :: "(nat \<Rightarrow> u32) \<Rightarrow> switch_frame \<Rightarrow> u32 \<Rightarrow> 'a kernel_scheme \<Rightarrow> ((u32 \<times> u32) \<times> 'a kernel_scheme) option" where
  "switch_to screen_addr sf screen_start s = do {
     let k = get_curr_exec_term s;
     s \<leftarrow> upd_term k (\<lambda>t. t\<lparr>tm_screen := attrib_loop (tm_screen t)\<rparr>) s;
     new \<leftarrow> aget (terminals s) k;
     let s = s\<lparr>curr_task := of_int (tm_current_process new)\<rparr>;
     old \<leftarrow> aget (terminals s) (unat (last_term s));
     old_pcb \<leftarrow> get_pcb_pointer (tm_current_process old) s;
     new_pcb \<leftarrow> get_pcb_pointer (tm_current_process new) s;
     let s = s\<lparr>current_pcb := Some new_pcb, curr_process := ucast (curr_task s)\<rparr>;
     let s = map_page VIRTUAL_FILE_PAGE (PHYS_FILE_START + PHYS_FILE_OFFSET * ucast (curr_task s)) s;
     let s = (if int k \<noteq> get_cur_term s then map_video_w_pt screen_start (screen_addr k) s else s);
     let s = s\<lparr>tss_ss0 := KERNEL_DS, tss_esp0 := PHYS_FILE_START - EIGHT_KB * of_int (tm_current_process new) - 4\<rparr>;
     s \<leftarrow> save_switch sf old_pcb s;
     b \<leftarrow> aget (pcbs s) new_pcb;
     Some ((ESP_SWITCH b, EBP_SWITCH b), sti s)
   }"

definition switch_task :: "byte \<Rightarrow> (nat \<Rightarrow> u32) \<Rightarrow> switch_frame \<Rightarrow> 'a kernel_scheme \<Rightarrow> ((u32 \<times> u32) \<times> 'a kernel_scheme) option" where
  "switch_task past screen_addr sf s = do {
     let s = cli s;
     let s = s\<lparr>last_task := curr_task s, last_term := curr_term s, curr_term := curr_term s + 1\<rparr>;
     let s = send_eoi 0 s;
     k \<leftarrow> next_term_loop past (terminals s) (curr_term s);
     let s = s\<lparr>curr_term := k\<rparr>;
     let (screen_start, s) = local_vidmap sf s;
     switch_to screen_addr sf screen_start s
   }"

section \<open>Round robin\<close>

abbreviation is_active :: "terminal \<Rightarrow> bool" where
  "is_active t \<equiv> tm_active t \<noteq> 0"

text \<open>The terminal that follows \<open>c\<close> in the rotation, \<open>c\<close> itself last.\<close>

definition next_active :: "terminal list \<Rightarrow> nat \<Rightarrow> nat option" where
  "next_active ts c = List.find (\<lambda>j. is_active (ts ! j)) [(c + 1) mod 3, (c + 2) mod 3, c]"

lemma next_term_loop_active:
  assumes "next_term_loop past ts k = Some y"
  shows "(past = 0 \<or> unat k < length ts) \<and> length ts = 3 \<longrightarrow> unat y < 3 \<and> is_active (ts ! unat y)"
proof (rule next_term_loop.raw_induct [OF _ assms])
  fix rec past ts k y
  assume IH: "\<And>past ts k y. rec past ts k = Some y \<Longrightarrow>
      (past = 0 \<or> unat k < length ts) \<and> length ts = 3 \<longrightarrow> unat y < 3 \<and> is_active (ts ! unat y)"
    and body: "active_at past ts k \<bind> (\<lambda>a. if a = 0 then rec past ts (if 2 < k + 1 then 0 else k + 1) else Some k) = Some y"
  then obtain a where a: "active_at past ts k = Some a" by (cases "active_at past ts k") auto
  show "(past = 0 \<or> unat k < length ts) \<and> length ts = 3 \<longrightarrow> unat y < 3 \<and> is_active (ts ! unat y)"
  proof (cases "a = 0")
    case True
    have "unat (if 2 < k + 1 then 0 else k + 1) < 3" by (auto simp: word_less_nat_alt not_less word_le_nat_alt)
    then show ?thesis using IH [of past ts "if 2 < k + 1 then 0 else k + 1" y] body a True by auto
  next
    case False
    then show ?thesis using body a by (auto simp: active_at_def split: if_splits)
  qed
qed

lemma next_term_loop_step:
  assumes "length ts = 3"
  shows "next_term_loop past ts 0 = (if is_active (ts ! 0) then Some 0 else next_term_loop past ts 1)"
    "next_term_loop past ts 1 = (if is_active (ts ! 1) then Some 1 else next_term_loop past ts 2)"
    "next_term_loop past ts 2 = (if is_active (ts ! 2) then Some 2 else next_term_loop past ts 0)"
    "past = 0 \<Longrightarrow> next_term_loop past ts 3 = next_term_loop past ts 0"
  using assms by (simp_all add: active_at_def next_term_loop.simps [of past ts 0] next_term_loop.simps [of past ts 1]
      next_term_loop.simps [of past ts 2])
    (simp add: active_at_def next_term_loop.simps [of 0 ts 3])

lemma all_less_3: "(\<forall>j<3. P j) \<longleftrightarrow> P 0 \<and> P 1 \<and> P (2 :: nat)"
  by (auto simp: less_Suc_eq numeral_3_eq_3 numeral_2_eq_2)

lemma next_term_loop_eq:
  assumes "length ts = 3" and "c < 3" and "past = 0 \<or> c < 2"
  shows "next_term_loop past ts (of_nat c + 1) = map_option of_nat (next_active ts c)"
proof (cases "is_active (ts ! 0) \<or> is_active (ts ! 1) \<or> is_active (ts ! 2)")
  case True
  have "c = 0 \<or> c = 1 \<or> c = 2" using assms(2) by auto
  then show ?thesis
    using True assms(3) next_term_loop_step [OF assms(1), of past]
    by (cases "is_active (ts ! 0)"; cases "is_active (ts ! 1)"; cases "is_active (ts ! 2)") (auto simp: next_active_def numeral_2_eq_2)
next
  case False
  then have idle: "\<not> is_active (ts ! j)" if "j < 3" for j using all_less_3 [of "\<lambda>j. \<not> is_active (ts ! j)"] that by blast
  have "past = 0 \<or> c = 0 \<or> c = 1" using assms(3) by auto
  then have "past = 0 \<or> unat (of_nat c + 1 :: byte) < length ts" using assms(1) by auto
  then have "next_term_loop past ts (of_nat c + 1) = None"
    using next_term_loop_active [of past ts "of_nat c + 1"] idle assms(1) by (metis not_None_eq)
  moreover have "next_active ts c = None" using idle assms(2) by (simp add: next_active_def)
  ultimately show ?thesis by simp
qed

lemma next_active_facts:
  assumes "next_active ts c = Some j" and "c < 3"
  shows "j < 3" "is_active (ts ! j)"
  using assms by (auto simp: next_active_def split: if_splits)

lemma next_active_None_iff:
  assumes "c < 3"
  shows "next_active ts c = None \<longleftrightarrow> (\<forall>j<3. \<not> is_active (ts ! j))"
proof -
  have "c = 0 \<or> c = 1 \<or> c = 2" using assms by auto
  then show ?thesis unfolding all_less_3 by (auto simp: next_active_def numeral_2_eq_2 split: if_splits)
qed

section \<open>A task switch\<close>

text \<open>The process that runs on terminal \<open>k\<close>.\<close>

definition running :: "'a console_scheme \<Rightarrow> nat \<Rightarrow> nat" where
  "running s k = nat (tm_current_process (terminals s ! k))"

definition sched_ok :: "'a kernel_scheme \<Rightarrow> bool" where
  "sched_ok s \<longleftrightarrow> tasks_ok s \<and> (\<forall>k<3. is_active (terminals s ! k) \<or> k = get_curr_exec_term s \<longrightarrow>
     0 \<le> tm_current_process (terminals s ! k) \<and> tm_current_process (terminals s ! k) < int NUM_PROCESSES)"

lemma ucast_slot: "p < NUM_PROCESSES \<Longrightarrow> (ucast (of_nat p :: byte) :: u32) = of_nat p"
proof -
  assume "p < NUM_PROCESSES"
  then have "p \<in> {0, 1, 2, 3, 4, 5}" by (auto simp: NUM_PROCESSES_def)
  then show ?thesis by auto
qed

lemma unat_term: "j < 3 \<Longrightarrow> unat (of_nat j :: byte) = j"
  by (simp add: unsigned_of_nat take_bit_nat_eq_self)

text \<open>The state with terminal \<open>j\<close> chosen, and the kernel after the switch to it.\<close>

definition picked :: "nat \<Rightarrow> 'a kernel_scheme \<Rightarrow> 'a kernel_scheme" where
  "picked j s = map_w_pt USER_VID_MEM VIDEO
     ((send_eoi 0 (s\<lparr>int_flag := False, last_task := curr_task s, last_term := curr_term s\<rparr>))\<lparr>curr_term := of_nat j\<rparr>)"

definition switched :: "(nat \<Rightarrow> u32) \<Rightarrow> switch_frame \<Rightarrow> nat \<Rightarrow> 'a kernel_scheme \<Rightarrow> 'a kernel_scheme" where
  "switched screen_addr sf j s =
     (let p = running s j; q = running s (get_curr_exec_term s);
          t = map_page VIRTUAL_FILE_PAGE (PHYS_FILE_START + PHYS_FILE_OFFSET * of_nat p) (picked j s);
          t = (if int j \<noteq> get_cur_term s then map_video_w_pt USER_VID_MEM (screen_addr j) t else t)
      in t\<lparr>int_flag := True, curr_task := of_nat p,
        terminals := (terminals s)[j := (terminals s ! j)\<lparr>tm_screen := attrib_loop (tm_screen (terminals s ! j))\<rparr>],
        current_pcb := Some p, curr_process := of_nat p, tss_ss0 := KERNEL_DS,
        tss_esp0 := PHYS_FILE_START - EIGHT_KB * of_nat p - 4,
        pcbs := (pcbs s)[q := (pcbs s ! q)\<lparr>EBP_SWITCH := sw_ebp sf, ESP_SWITCH := sw_esp sf\<rparr>]\<rparr>)"

lemma picked_fields [simp]:
  "terminals (picked j s) = terminals s" "pcbs (picked j s) = pcbs s" "get_cur_term (picked j s) = get_cur_term s"
  "last_term (picked j s) = curr_term s" "curr_term (picked j s) = of_nat j" "phys_mem (picked j s) = phys_mem s"
  "process_array (picked j s) = process_array s"
  by (simp_all add: picked_def map_w_pt_def flush_tlb_def send_eoi.simps outb_def get_cur_term_def)

lemma switch_task_pick:
  assumes "next_term_loop past (terminals s) (curr_term s + 1) = Some (of_nat j)" and "0x700000 \<le> sw_var sf"
  shows "switch_task past screen_addr sf s = switch_to screen_addr sf USER_VID_MEM (picked j s)"
proof -
  have "vidmap (sw_var sf) t = (0, Some USER_VID_MEM, map_w_pt USER_VID_MEM VIDEO t)" for t :: "'a kernel_scheme"
    using assms(2) by (auto simp: vidmap_def)
  then show ?thesis
    using assms(1) by (simp add: switch_task_def picked_def local_vidmap_def send_eoi.simps outb_def cli_def)
qed

lemma switch_to_eq:
  assumes "j = get_curr_exec_term s" and "j < length (terminals s)" and "c = unat (last_term s)" and "c < length (terminals s)"
    and "tm_current_process (terminals s ! j) = int p" and "tm_current_process (terminals s ! c) = int q"
    and "p < NUM_PROCESSES" and "q < NUM_PROCESSES" and "length (pcbs s) = NUM_PROCESSES"
    and "t = map_page VIRTUAL_FILE_PAGE (PHYS_FILE_START + PHYS_FILE_OFFSET * of_nat p) s"
    and "t' = (if int j \<noteq> get_cur_term s then map_video_w_pt screen_start (screen_addr j) t else t)
      \<lparr>int_flag := True, curr_task := of_nat p,
        terminals := (terminals s)[j := (terminals s ! j)\<lparr>tm_screen := attrib_loop (tm_screen (terminals s ! j))\<rparr>],
        current_pcb := Some p, curr_process := of_nat p, tss_ss0 := KERNEL_DS,
        tss_esp0 := PHYS_FILE_START - EIGHT_KB * of_nat p - 4,
        pcbs := (pcbs s)[q := (pcbs s ! q)\<lparr>EBP_SWITCH := sw_ebp sf, ESP_SWITCH := sw_esp sf\<rparr>]\<rparr>"
  shows "switch_to screen_addr sf screen_start s = Some ((ESP_SWITCH (pcbs t' ! p), EBP_SWITCH (pcbs t' ! p)), t')"
proof -
  define s1 where "s1 = s\<lparr>terminals := (terminals s)[j := (terminals s ! j)\<lparr>tm_screen := attrib_loop (tm_screen (terminals s ! j))\<rparr>]\<rparr>"
  have run: "tm_current_process (terminals s1 ! j) = int p" "tm_current_process (terminals s1 ! c) = int q"
    using assms(2,4-6) by (simp_all add: s1_def nth_list_update)
  have "upd_term j (\<lambda>t. t\<lparr>tm_screen := attrib_loop (tm_screen t)\<rparr>) s = Some s1"
    using assms(2) by (simp add: upd_term_def s1_def)
  moreover have "aget (terminals s1) j = Some (terminals s1 ! j)" "aget (terminals s1) c = Some (terminals s1 ! c)"
    using assms(2,4) by (simp_all add: s1_def)
  moreover have "last_term s1 = last_term s" "pcbs s1 = pcbs s" "get_cur_term s1 = get_cur_term s"
    by (simp_all add: s1_def get_cur_term_def)
  ultimately have "switch_to screen_addr sf screen_start s = do {
     let s = s1\<lparr>curr_task := of_nat p, current_pcb := Some p, curr_process := of_nat p\<rparr>;
     let s = map_page VIRTUAL_FILE_PAGE (PHYS_FILE_START + PHYS_FILE_OFFSET * of_nat p) s;
     let s = (if int j \<noteq> get_cur_term s then map_video_w_pt screen_start (screen_addr j) s else s);
     let s = s\<lparr>tss_ss0 := KERNEL_DS, tss_esp0 := PHYS_FILE_START - EIGHT_KB * of_nat p - 4\<rparr>;
     s \<leftarrow> save_switch sf q s;
     b \<leftarrow> aget (pcbs s) p;
     Some ((ESP_SWITCH b, EBP_SWITCH b), sti s) }"
    using assms(1,3,7-9) run ucast_slot [OF assms(7)] by (simp add: switch_to_def get_pcb_pointer_def Let_def cong: if_cong)
  also have "\<dots> = Some ((ESP_SWITCH (pcbs t' ! p), EBP_SWITCH (pcbs t' ! p)), t')"
    using assms(7-9) unat_slot [OF assms(8)] unfolding assms(10,11)
    by (simp add: s1_def save_switch_def upd_pcb_def the_pcb_def sti_def map_page_def map_video_w_pt_def flush_tlb_def get_cur_term_def)
  finally show ?thesis .
qed

lemma sched_okD:
  assumes "sched_ok s" and "next_active (terminals s) (get_curr_exec_term s) = Some j"
  shows "j < 3" "running s j < NUM_PROCESSES" "running s (get_curr_exec_term s) < NUM_PROCESSES"
    "tm_current_process (terminals s ! j) = int (running s j)"
    "tm_current_process (terminals s ! get_curr_exec_term s) = int (running s (get_curr_exec_term s))"
proof -
  have c: "get_curr_exec_term s < 3" using assms(1) by (simp add: sched_ok_def tasks_ok_def)
  have j: "j < 3" "is_active (terminals s ! j)" using next_active_facts [OF assms(2) c] .
  then show "j < 3" "running s j < NUM_PROCESSES" "running s (get_curr_exec_term s) < NUM_PROCESSES"
    "tm_current_process (terminals s ! j) = int (running s j)"
    "tm_current_process (terminals s ! get_curr_exec_term s) = int (running s (get_curr_exec_term s))"
    using assms(1) c by (auto simp: sched_ok_def running_def nat_less_iff)
qed

lemma switch_task_eq:
  assumes "sched_ok s" and "past = 0 \<or> get_curr_exec_term s < 2" and "next_active (terminals s) (get_curr_exec_term s) = Some j"
    and "0x700000 \<le> sw_var sf" and "s' = switched screen_addr sf j s" and "p = running s j"
  shows "switch_task past screen_addr sf s = Some ((ESP_SWITCH (pcbs s' ! p), EBP_SWITCH (pcbs s' ! p)), s')"
proof -
  let ?c = "get_curr_exec_term s"
  have c: "?c < 3" "length (terminals s) = 3" "length (pcbs s) = NUM_PROCESSES"
    using assms(1) by (simp_all add: sched_ok_def tasks_ok_def procs_ok_def)
  note d = sched_okD [OF assms(1,3)]
  have "next_term_loop past (terminals s) (curr_term s + 1) = Some (of_nat j)"
    using next_term_loop_eq [OF c(2,1) assms(2)] assms(3) by (simp add: get_curr_exec_term_def)
  from switch_task_pick [OF this assms(4)] show ?thesis
    using switch_to_eq [where j = j and s = "picked j s" and c = ?c and p = p and q = "running s ?c" and t' = s' and sf = sf
        and screen_start = USER_VID_MEM and screen_addr = screen_addr, OF _ _ _ _ _ _ _ _ _ refl]
      c d unat_term [OF d(1)] unfolding assms(5,6)
    by (simp add: get_curr_exec_term_def switched_def Let_def cong: if_cong)
qed

lemma picked_ok:
  assumes "tasks_ok s" and "j < 3"
  shows "tasks_ok (picked j s)"
proof -
  let ?t = "(send_eoi 0 (s\<lparr>int_flag := False, last_task := curr_task s, last_term := curr_term s\<rparr>))\<lparr>curr_term := of_nat j\<rparr>"
  have "paging_wf ?t = paging_wf s" by (rule tables_only) (simp_all add: send_eoi.simps outb_def)
  then have "paging_wf (picked j s)"
    unfolding picked_def using assms(1) by (intro vid.wf_map) (simp_all add: USER_VID_MEM_def tasks_ok_def)
  moreover have "fs_wf (picked j s) = fs_wf s"
    by (rule files_only) (simp_all add: picked_def map_w_pt_def flush_tlb_def send_eoi.simps outb_def)
  ultimately show ?thesis
    using assms unat_term [OF assms(2)]
    by (simp add: tasks_ok_def procs_ok_def proc_table_ok_def get_curr_exec_term_def)
      (simp add: picked_def map_w_pt_def flush_tlb_def send_eoi.simps outb_def dentries_wf_def)
qed

lemma switched_fields:
  assumes "j < 3"
  shows "get_curr_exec_term (switched sa sf j s) = j" "curr_process (switched sa sf j s) = of_nat (running s j)"
    "current_pcb (switched sa sf j s) = Some (running s j)" "phys_mem (switched sa sf j s) = phys_mem s"
    "process_array (switched sa sf j s) = process_array s" "get_cur_term (switched sa sf j s) = get_cur_term s"
    "int_flag (switched sa sf j s)"
    "terminals (switched sa sf j s) = (terminals s)[j := (terminals s ! j)\<lparr>tm_screen := attrib_loop (tm_screen (terminals s ! j))\<rparr>]"
    "pcbs (switched sa sf j s) = (let q = running s (get_curr_exec_term s) in
       (pcbs s)[q := (pcbs s ! q)\<lparr>EBP_SWITCH := sw_ebp sf, ESP_SWITCH := sw_esp sf\<rparr>])"
    "tss_esp0 (switched sa sf j s) = PHYS_FILE_START - EIGHT_KB * of_nat (running s j) - 4"
  using unat_term [OF assms]
  by (simp_all add: switched_def Let_def get_curr_exec_term_def get_cur_term_def map_page_def map_video_w_pt_def flush_tlb_def)
    (simp_all add: picked_def map_w_pt_def flush_tlb_def send_eoi.simps outb_def)

lemma switched_paging:
  assumes "tasks_ok s" and "j < 3" and "running s j < NUM_PROCESSES"
  shows "paging_wf (switched sa sf j s)"
    and "k < 3850000 \<Longrightarrow> translate user (switched sa sf j s) (VIRTUAL_FILE_START + of_nat k) = Some (image_addr (running s j) k)"
proof -
  let ?m = "map_page VIRTUAL_FILE_PAGE (PHYS_FILE_START + PHYS_FILE_OFFSET * of_nat (running s j)) (picked j s)"
  let ?v = "if int j \<noteq> get_cur_term s then map_video_w_pt USER_VID_MEM (sa j) ?m else ?m"
  have p: "paging_wf (picked j s)" "running s j < 6"
    using picked_ok [OF assms(1,2)] assms(3) by (simp_all add: tasks_ok_def NUM_PROCESSES_def)
  have m: "paging_wf ?m" by (rule big.wf_map [OF p(1) TrueI])
  have tab: "translate u (switched sa sf j s) a = translate u ?v a" "paging_wf (switched sa sf j s) = paging_wf ?v" for u a
    by (rule tables_only; simp add: switched_def Let_def)+
  show "paging_wf (switched sa sf j s)"
    using tab(2) m vid_hidden.wf_map [OF m] by (simp add: USER_VID_MEM_def)
  assume k: "k < 3850000"
  have "drop_bit 22 (VIRTUAL_FILE_START + of_nat k) \<noteq> drop_bit 22 (0x9000000 :: u32)"
    using program_page_offset(1) [OF k] by (simp add: VIRTUAL_FILE_PAGE_def)
  then have "translate user ?v (VIRTUAL_FILE_START + of_nat k) = translate user ?m (VIRTUAL_FILE_START + of_nat k)"
    using vid_hidden.miss [OF m] by (simp add: USER_VID_MEM_def)
  then show "translate user (switched sa sf j s) (VIRTUAL_FILE_START + of_nat k) = Some (image_addr (running s j) k)"
    using tab(1) program_translate [OF p k, of user] by simp
qed

lemma switched_ok:
  assumes "sched_ok s" and "next_active (terminals s) (get_curr_exec_term s) = Some j"
  shows "sched_ok (switched sa sf j s)"
proof -
  let ?s' = "switched sa sf j s" and ?q = "running s (get_curr_exec_term s)"
  note d = sched_okD [OF assms]
  note f = switched_fields [OF d(1), of sa sf s]
  have t: "tasks_ok s" using assms(1) by (simp add: sched_ok_def)
  then have "pcb_ok ((pcbs s ! ?q)\<lparr>EBP_SWITCH := sw_ebp sf, ESP_SWITCH := sw_esp sf\<rparr>)"
    using d(3) by (auto simp: tasks_ok_def procs_ok_def pcb_ok_def)
  then have pcbs: "procs_ok ?s'"
    using t d(2) list_update_pcbs_ok [of "pcbs s"] unat_slot [OF d(2)] f(2,9) by (simp add: tasks_ok_def procs_ok_def Let_def)
  have "fs_wf ?s' = fs_wf s" "dentries_wf ?s' = dentries_wf s"
    by (rule files_only; simp add: switched_def Let_def map_page_def map_video_w_pt_def flush_tlb_def picked_def map_w_pt_def send_eoi.simps outb_def)
      (simp add: dentries_wf_def switched_def Let_def map_page_def map_video_w_pt_def flush_tlb_def picked_def map_w_pt_def send_eoi.simps outb_def)
  then have "tasks_ok ?s'"
    using t pcbs f switched_paging(1) [OF t d(1,2), of sa sf] d(1) by (simp add: tasks_ok_def proc_table_ok_def)
  moreover have "is_active (terminals ?s' ! k) = is_active (terminals s ! k)"
    "tm_current_process (terminals ?s' ! k) = tm_current_process (terminals s ! k)" for k
    using f(8) d(1) t by (cases "k = j"; simp add: tasks_ok_def)+
  ultimately show ?thesis
    using assms d f(1) by (auto simp: sched_ok_def)
qed

section \<open>Switching the visible terminal\<close>

definition terms_ok :: "'a keyboard_scheme \<Rightarrow> bool" where
  "terms_ok s \<longleftrightarrow> length (terminals s) = 3 \<and> 0 \<le> curr_terminal_number s \<and> curr_terminal_number s < 3 \<and>
     length (keyboard_buf s) = 129 \<and> (\<forall>t \<in> set (terminals s). length (tm_input_buf t) = 129)"

text \<open>What a terminal shows and what has been typed on it: the screen, the cursor and the line.\<close>

definition shown :: "'a keyboard_scheme \<Rightarrow> terminal \<Rightarrow> terminal" where
  "shown s t = t\<lparr>tm_x := screen_x s, tm_y := screen_y s, tm_screen := blit SCREEN_BYTES (video_mem s) (tm_screen t),
     tm_input_buf := take 128 (keyboard_buf s) @ drop 128 (tm_input_buf t),
     tm_keyboard_last_index := last_idx s, tm_keyboard_index := keyboard_idx s\<rparr>"

lemma save_terminal_state_eq:
  assumes "terms_ok s" and "a = nat (curr_terminal_number s)"
  shows "save_terminal_state s = Some (s\<lparr>terminals := (terminals s)[a := shown s (terminals s ! a)]\<rparr>)"
proof -
  have "terminals s ! a \<in> set (terminals s)" using assms by (auto simp: terms_ok_def)
  then have "length (tm_input_buf (terminals s ! a)) = 129" using assms(1) by (simp add: terms_ok_def)
  then show ?thesis
    using assms by (simp add: save_terminal_state_def shown_def terms_ok_def img_bytes_def MAX_BUF_SIZE_def upd_term_def
        get_keyboard_last_index_def get_keyboard_index_def nat_less_iff Let_def)
qed

lemma restore_terminal_state_eq:
  assumes "terms_ok s" and "0 \<le> newt" and "newt < 3" and "t = terminals s ! nat newt"
  obtains s' where "restore_terminal_state newt s = Some s'" "terminals s' = terminals s"
    "video_mem s' = blit SCREEN_BYTES (tm_screen t) (video_mem s)" "screen_x s' = tm_x t" "screen_y s' = tm_y t"
    "keyboard_buf s' = take 128 (tm_input_buf t) @ drop 128 (keyboard_buf s)"
    "keyboard_idx s' = tm_keyboard_index t" "last_idx s' = tm_keyboard_last_index t" "curr_term s' = curr_term s"
proof -
  have "t \<in> set (terminals s)" using assms by (auto simp: terms_ok_def)
  then have "length (tm_input_buf t) = 129" using assms(1) by (simp add: terms_ok_def)
  then show thesis
    using that assms by (simp add: restore_terminal_state_def terms_ok_def img_bytes_def MAX_BUF_SIZE_def nat_less_iff
        set_keyboard_index_def set_keyboard_last_index_def)
qed

lemma switch_terminal_active:
  fixes s :: "'a kernel_scheme"
  assumes "terms_ok s" and "0 \<le> newt" and "newt < 3" and "newt \<noteq> curr_terminal_number s" and "t = terminals s ! nat newt"
    and "is_active t" and "a = nat (curr_terminal_number s)"
  obtains s' where "switch_terminal screen_addr sf fr newt s = Some (Returned 0, s')" "curr_terminal_number s' = newt"
    "terminals s' = (terminals s)[a := shown s (terminals s ! a)]"
    "video_mem s' = blit SCREEN_BYTES (tm_screen t) (video_mem s)" "screen_x s' = tm_x t" "screen_y s' = tm_y t"
    "keyboard_buf s' = take 128 (tm_input_buf t) @ drop 128 (keyboard_buf s)"
    "keyboard_idx s' = tm_keyboard_index t" "last_idx s' = tm_keyboard_last_index t" "terms_ok s'"
proof -
  let ?s = "s\<lparr>terminals := (terminals s)[a := shown s (terminals s ! a)]\<rparr>"
  have len: "length (tm_input_buf (terminals s ! k)) = 129" if "k < 3" for k using assms(1) that by (simp add: terms_ok_def)
  have a: "a < 3" using assms(1,7) by (simp add: terms_ok_def nat_less_iff)
  have "length (tm_input_buf (shown s (terminals s ! a))) = 129"
    using len [OF a] assms(1) by (simp add: shown_def terms_ok_def)
  then have ok: "terms_ok ?s" using assms(1) by (auto simp: terms_ok_def dest!: set_update_subset_insert [THEN subsetD])
  have t: "terminals ?s ! nat newt = t" using assms(1,2,4,5,7) by (simp add: terms_ok_def eq_nat_nat_iff)
  obtain s1 where s1: "restore_terminal_state newt ?s = Some s1" "terminals s1 = terminals ?s"
    "video_mem s1 = blit SCREEN_BYTES (tm_screen t) (video_mem ?s)" "screen_x s1 = tm_x t" "screen_y s1 = tm_y t"
    "keyboard_buf s1 = take 128 (tm_input_buf t) @ drop 128 (keyboard_buf ?s)"
    "keyboard_idx s1 = tm_keyboard_index t" "last_idx s1 = tm_keyboard_last_index t"
    using restore_terminal_state_eq [OF ok assms(2,3) t [symmetric]] by metis
  let ?s2 = "s1\<lparr>curr_terminal_number := newt\<rparr>"
  obtain v s3 where v: "local_vidmap sf ?s2 = (v, s3)" by fastforce
  have frame: "terminals s3 = terminals ?s2" "video_mem s3 = video_mem ?s2" "screen_x s3 = screen_x ?s2" "screen_y s3 = screen_y ?s2"
    "keyboard_buf s3 = keyboard_buf ?s2" "keyboard_idx s3 = keyboard_idx ?s2" "last_idx s3 = last_idx ?s2"
    "curr_terminal_number s3 = newt"
    using v by (auto simp: local_vidmap_def vidmap_def map_w_pt_def flush_tlb_def split: if_splits)
  define s' where "s' = (if int (get_curr_exec_term s3) \<noteq> curr_terminal_number s3
     then map_video_w_pt v (screen_addr (nat (curr_terminal_number s3))) s3 else s3)"
  have "switch_terminal screen_addr sf fr newt s = Some (Returned 0, s')"
    using assms(1-7) save_terminal_state_eq [OF assms(1,7)] s1(1) v
    by (simp add: switch_terminal_def s'_def terms_ok_def nat_less_iff)
  moreover have "terminals s' = terminals s3" "video_mem s' = video_mem s3" "screen_x s' = screen_x s3" "screen_y s' = screen_y s3"
    "keyboard_buf s' = keyboard_buf s3" "keyboard_idx s' = keyboard_idx s3" "last_idx s' = last_idx s3"
    "curr_terminal_number s' = curr_terminal_number s3"
    by (simp_all add: s'_def map_video_w_pt_def flush_tlb_def)
  moreover have "terms_ok s'"
    using ok s1(2,6) len [of "nat newt"] assms(2,3,5) frame calculation(2,6,9) by (simp add: terms_ok_def)
  ultimately show thesis using that s1 frame by simp
qed

section \<open>Properties\<close>

definition sched_example :: kernel where
  "sched_example = exec_example\<lparr>terminals := [(terminals exec_example ! 0)\<lparr>tm_current_process := 0\<rparr>,
     (terminals exec_example ! 0)\<lparr>tm_current_process := 1\<rparr>, (terminals exec_example ! 0)\<lparr>tm_active := 0, tm_current_process := -1\<rparr>]\<rparr>"

definition switch_example :: switch_frame where
  "switch_example = \<lparr>sw_esp = 0x7FFF00, sw_ebp = 0x7FFF40, sw_var = 0x7FFF10, sw_garbage = 0xAAAAAAAA\<rparr>"

lemma sched_example_ok [simp]: "sched_ok sched_example" "get_curr_exec_term sched_example = 0" "length (terminals sched_example) = 3"
  "next_active (terminals sched_example) 0 = Some (Suc 0)" "next_active (terminals sched_example) (Suc 0) = Some 0"
proof -
  have t: "tm_active (terminals exec_example ! 0) = 1" "get_curr_exec_term exec_example = 0"
    by (simp_all add: exec_example_def kernel_example_def keyboard.defs keyboard_example_def console.defs console_example_def
        files.defs get_curr_exec_term_def)
  then show "get_curr_exec_term sched_example = 0" "length (terminals sched_example) = 3"
    "next_active (terminals sched_example) 0 = Some (Suc 0)" "next_active (terminals sched_example) (Suc 0) = Some 0"
    by (simp_all add: sched_example_def get_curr_exec_term_def next_active_def)
  have "tasks_ok sched_example"
    using exec_example_ok files_only(1) [of sched_example exec_example] tables_only(2) [of sched_example exec_example]
    by (simp add: tasks_ok_def procs_ok_def) (simp add: sched_example_def proc_table_ok_def dentries_wf_def get_cur_term_def get_curr_exec_term_def)
  moreover have "\<forall>k<3. is_active (terminals sched_example ! k) \<or> k = get_curr_exec_term sched_example \<longrightarrow>
     0 \<le> tm_current_process (terminals sched_example ! k) \<and> tm_current_process (terminals sched_example ! k) < int NUM_PROCESSES"
    unfolding all_less_3 using t by (simp add: sched_example_def get_curr_exec_term_def NUM_PROCESSES_def)
  ultimately show "sched_ok sched_example" by (simp add: sched_ok_def)
qed

text \<open>C11: the search of the scheduler ends exactly when some terminal is active, and then its result is
  the next active terminal in the order of their numbers, wrapping around, the current one
  last.  When terminal 2 is running this needs the byte after the array to be 0.\<close>

theorem scheduler_terminates:
  assumes "length (terminals s) = 3" and "get_curr_exec_term s < 3" and "past = 0 \<or> get_curr_exec_term s < 2"
  shows "((\<exists>k. next_term_loop past (terminals s) (curr_term s + 1) = Some k) \<longleftrightarrow> (\<exists>j<3. is_active (terminals s ! j))) \<and>
    next_term_loop past (terminals s) (curr_term s + 1) = map_option of_nat (next_active (terminals s) (get_curr_exec_term s))"
proof -
  have "next_term_loop past (terminals s) (curr_term s + 1) = map_option of_nat (next_active (terminals s) (get_curr_exec_term s))"
    using next_term_loop_eq [OF assms] by (simp add: get_curr_exec_term_def)
  then show ?thesis
    using next_active_None_iff [OF assms(2), of "terminals s"] by (cases "next_active (terminals s) (get_curr_exec_term s)") auto
qed

theorem scheduler_terminates_witness:
  "((\<exists>k. next_term_loop 0 (terminals sched_example) (curr_term sched_example + 1) = Some k) \<longleftrightarrow>
      (\<exists>j<3. is_active (terminals sched_example ! j))) \<and>
    next_term_loop 0 (terminals sched_example) (curr_term sched_example + 1) =
      map_option of_nat (next_active (terminals sched_example) (get_curr_exec_term sched_example))"
  by (rule scheduler_terminates) simp_all

text \<open>C8: a task switch.  With \<open>j\<close> the next active terminal and \<open>p\<close> its process, \<^verbatim>\<open>switch_task\<close> stores the stack pointers
  of the process that ran and goes on with those stored for \<open>p\<close>, with interrupts on; \<open>p\<close> is the current
  process in every variable that says so, user code sees the memory of \<open>p\<close> at \<^verbatim>\<open>0x8048000\<close>, the
  kernel stack is that of \<open>p\<close>, and no program memory, process slot or other control block changes.\<close>

theorem task_switch:
  assumes "sched_ok s" and "past = 0 \<or> get_curr_exec_term s < 2" and "next_active (terminals s) (get_curr_exec_term s) = Some j"
    and "0x700000 \<le> sw_var sf" and "p = running s j" and "q = running s (get_curr_exec_term s)"
  shows "\<exists>s'. switch_task past screen_addr sf s = Some (if p = q then (sw_esp sf, sw_ebp sf)
        else (ESP_SWITCH (pcbs s ! p), EBP_SWITCH (pcbs s ! p)), s') \<and>
    sched_ok s' \<and> int_flag s' \<and> get_curr_exec_term s' = j \<and> curr_process s' = of_nat p \<and> current_pcb s' = Some p \<and>
    ESP_SWITCH (pcbs s' ! q) = sw_esp sf \<and> EBP_SWITCH (pcbs s' ! q) = sw_ebp sf \<and> (\<forall>i. i \<noteq> q \<longrightarrow> pcbs s' ! i = pcbs s ! i) \<and>
    (\<forall>k < 3850000. translate True s' (VIRTUAL_FILE_START + of_nat k) = Some (image_addr p k)) \<and>
    tss_esp0 s' = PHYS_FILE_START - EIGHT_KB * of_nat p - 4 \<and> phys_mem s' = phys_mem s \<and> proc_used s' = proc_used s"
proof -
  let ?s' = "switched screen_addr sf j s"
  have t: "tasks_ok s" "length (pcbs s) = NUM_PROCESSES" using assms(1) by (simp_all add: sched_ok_def tasks_ok_def procs_ok_def)
  note d = sched_okD [OF assms(1,3)]
  note f = switched_fields [OF d(1), of screen_addr sf s]
  have "(ESP_SWITCH (pcbs ?s' ! p), EBP_SWITCH (pcbs ?s' ! p)) =
      (if p = q then (sw_esp sf, sw_ebp sf) else (ESP_SWITCH (pcbs s ! p), EBP_SWITCH (pcbs s ! p)))"
    using f(9) d(2,3) t(2) assms(5,6) by (simp add: Let_def nth_list_update)
  moreover have "ESP_SWITCH (pcbs ?s' ! q) = sw_esp sf" "EBP_SWITCH (pcbs ?s' ! q) = sw_ebp sf" "\<forall>i. i \<noteq> q \<longrightarrow> pcbs ?s' ! i = pcbs s ! i"
    using f(9) d(3) t(2) assms(6) by (simp_all add: Let_def)
  moreover have "proc_used ?s' = proc_used s" using f(5) by (simp add: proc_used_def)
  ultimately show ?thesis
    using switch_task_eq [OF assms(1-4) refl assms(5), of screen_addr] switched_ok [OF assms(1,3)]
      switched_paging(2) [OF t(1) d(1,2)] f assms(5)
    by (intro exI [of _ ?s']) simp
qed

theorem task_switch_witness:
  "\<exists>s'. switch_task 0 (\<lambda>k. 0x420000) switch_example sched_example = Some (if (1 :: nat) = 0 then (sw_esp switch_example, sw_ebp switch_example)
        else (ESP_SWITCH (pcbs sched_example ! 1), EBP_SWITCH (pcbs sched_example ! 1)), s') \<and>
    sched_ok s' \<and> int_flag s' \<and> get_curr_exec_term s' = 1 \<and> curr_process s' = of_nat 1 \<and> current_pcb s' = Some 1 \<and>
    ESP_SWITCH (pcbs s' ! 0) = sw_esp switch_example \<and> EBP_SWITCH (pcbs s' ! 0) = sw_ebp switch_example \<and>
    (\<forall>i. i \<noteq> 0 \<longrightarrow> pcbs s' ! i = pcbs sched_example ! i) \<and>
    (\<forall>k < 3850000. translate True s' (VIRTUAL_FILE_START + of_nat k) = Some (image_addr 1 k)) \<and>
    tss_esp0 s' = PHYS_FILE_START - EIGHT_KB * of_nat 1 - 4 \<and> phys_mem s' = phys_mem sched_example \<and> proc_used s' = proc_used sched_example"
  by (rule task_switch) (simp_all add: switch_example_def running_def, simp_all add: sched_example_def)

text \<open>C13: a process that is switched away resumes where it was.  When two terminals with different processes
  are active, the switch away from the first and the next switch back continue with the stack
  pointers of the first call, as the same process with the same memory.\<close>

theorem task_switch_roundtrip:
  assumes "sched_ok s" and "past = 0" and "c = get_curr_exec_term s" and "next_active (terminals s) c = Some j"
    and "next_active (terminals s) j = Some c" and "0x700000 \<le> sw_var sf" and "0x700000 \<le> sw_var sf'"
    and "running s j \<noteq> running s c"
  shows "\<exists>s1 s2 r. switch_task past screen_addr sf s = Some (r, s1) \<and>
    switch_task past screen_addr sf' s1 = Some ((sw_esp sf, sw_ebp sf), s2) \<and> sched_ok s2 \<and>
    get_curr_exec_term s2 = c \<and> curr_process s2 = of_nat (running s c) \<and> current_pcb s2 = Some (running s c) \<and>
    (\<forall>k < 3850000. translate True s2 (VIRTUAL_FILE_START + of_nat k) = Some (image_addr (running s c) k) \<and>
       phys_mem s2 (image_addr (running s c) k) = phys_mem s (image_addr (running s c) k))"
proof -
  let ?s1 = "switched screen_addr sf j s"
  let ?s2 = "switched screen_addr sf' c ?s1"
  have n: "next_active (terminals s) (get_curr_exec_term s) = Some j" using assms(3,4) by simp
  note d = sched_okD [OF assms(1) n]
  note f = switched_fields [OF d(1), of screen_addr sf s]
  have len: "length (terminals s) = 3" "length (pcbs s) = NUM_PROCESSES" using assms(1) by (simp_all add: sched_ok_def tasks_ok_def procs_ok_def)
  have c: "c < 3" using assms(1,3) by (simp add: sched_ok_def tasks_ok_def)
  have same: "is_active (terminals ?s1 ! k) = is_active (terminals s ! k)" "running ?s1 k = running s k" for k
    using f(8) d(1) len(1) by (cases "k = j"; simp add: running_def)+
  have n1: "next_active (terminals ?s1) (get_curr_exec_term ?s1) = Some c"
    using assms(5) f(1) by (simp add: next_active_def same)
  have ok1: "sched_ok ?s1" by (rule switched_ok [OF assms(1) n])
  note g = switched_fields [OF c, of screen_addr sf' ?s1]
  have ret: "switch_task past screen_addr sf' ?s1 = Some ((ESP_SWITCH (pcbs ?s2 ! running s c), EBP_SWITCH (pcbs ?s2 ! running s c)), ?s2)"
    using switch_task_eq [OF ok1 _ n1 assms(7) refl refl] same(2) assms(2) by simp
  have "pcbs ?s2 ! running s c = pcbs ?s1 ! running s c"
    using g(9) f(1) same(2) assms(8) by (simp add: Let_def)
  moreover have "ESP_SWITCH (pcbs ?s1 ! running s c) = sw_esp sf" "EBP_SWITCH (pcbs ?s1 ! running s c) = sw_ebp sf"
    using f(9) d(3) len(2) assms(3) by (simp_all add: Let_def)
  ultimately have "switch_task past screen_addr sf' ?s1 = Some ((sw_esp sf, sw_ebp sf), ?s2)" using ret by simp
  moreover have "translate True ?s2 (VIRTUAL_FILE_START + of_nat k) = Some (image_addr (running s c) k)" if "k < 3850000" for k
    using switched_paging(2) [OF _ c _ that, of ?s1] ok1 same(2) d(3) assms(3) by (simp add: sched_ok_def)
  ultimately show ?thesis
    using switch_task_eq [OF assms(1) _ n assms(6) refl refl, of past screen_addr] assms(2) switched_ok [OF ok1 n1] g f same(2)
    by (intro exI [of _ ?s1] exI [of _ ?s2]) simp
qed

theorem task_switch_roundtrip_witness:
  "\<exists>s1 s2 r. switch_task 0 (\<lambda>k. 0x420000) switch_example sched_example = Some (r, s1) \<and>
    switch_task 0 (\<lambda>k. 0x420000) switch_example s1 = Some ((sw_esp switch_example, sw_ebp switch_example), s2) \<and> sched_ok s2 \<and>
    get_curr_exec_term s2 = 0 \<and> curr_process s2 = of_nat (running sched_example 0) \<and> current_pcb s2 = Some (running sched_example 0) \<and>
    (\<forall>k < 3850000. translate True s2 (VIRTUAL_FILE_START + of_nat k) = Some (image_addr (running sched_example 0) k) \<and>
       phys_mem s2 (image_addr (running sched_example 0) k) = phys_mem sched_example (image_addr (running sched_example 0) k))"
  by (rule task_switch_roundtrip [where j = 1]) (simp_all add: switch_example_def running_def, simp_all add: sched_example_def)

text \<open>C12: switching the visible terminal.  Switching to another active terminal shows its saved screen,
  cursor and half-typed line; switching back restores the first terminal's exactly, and both
  terminals' saved state is what was last on display.\<close>

theorem terminal_switch_roundtrip:
  fixes s :: "'a kernel_scheme"
  assumes "terms_ok s" and "a = curr_terminal_number s" and "0 \<le> b" and "b < 3" and "b \<noteq> a"
    and "is_active (terminals s ! nat a)" and "is_active (terminals s ! nat b)" and "t = terminals s ! nat b"
  shows "\<exists>s1 s2. switch_terminal screen_addr sf fr b s = Some (Returned 0, s1) \<and>
    (\<forall>i. 0 \<le> i \<and> i < SCREEN_BYTES \<longrightarrow> video_mem s1 i = tm_screen t i) \<and> screen_x s1 = tm_x t \<and> screen_y s1 = tm_y t \<and>
    take 128 (keyboard_buf s1) = take 128 (tm_input_buf t) \<and> keyboard_idx s1 = tm_keyboard_index t \<and>
    switch_terminal screen_addr sf' fr' a s1 = Some (Returned 0, s2) \<and> curr_terminal_number s2 = a \<and>
    video_mem s2 = video_mem s \<and> screen_x s2 = screen_x s \<and> screen_y s2 = screen_y s \<and>
    keyboard_buf s2 = keyboard_buf s \<and> keyboard_idx s2 = keyboard_idx s \<and> last_idx s2 = last_idx s \<and> terms_ok s2"
proof -
  have a: "0 \<le> a" "a < 3" "nat a \<noteq> nat b" using assms(1-5) by (simp_all add: terms_ok_def eq_nat_nat_iff)
  have kb: "length (keyboard_buf s) = 129" "length (terminals s) = 3" "length (tm_input_buf t) = 129"
    using assms(1,3,4,8) by (auto simp: terms_ok_def)
  obtain s1 where s1: "switch_terminal screen_addr sf fr b s = Some (Returned 0, s1)" "curr_terminal_number s1 = b"
    "terminals s1 = (terminals s)[nat a := shown s (terminals s ! nat a)]"
    "video_mem s1 = blit SCREEN_BYTES (tm_screen t) (video_mem s)" "screen_x s1 = tm_x t" "screen_y s1 = tm_y t"
    "keyboard_buf s1 = take 128 (tm_input_buf t) @ drop 128 (keyboard_buf s)"
    "keyboard_idx s1 = tm_keyboard_index t" "terms_ok s1"
    using switch_terminal_active [OF assms(1,3,4) _ assms(8) _ refl, of screen_addr sf fr] assms(2,5,7,8) by metis
  have again: "terminals s1 ! nat a = shown s (terminals s ! nat a)" using s1(3) kb(2) a by (simp add: nat_less_iff)
  then have "is_active (terminals s1 ! nat a)" using assms(6) by (simp add: shown_def)
  then obtain s2 where s2: "switch_terminal screen_addr sf' fr' a s1 = Some (Returned 0, s2)" "curr_terminal_number s2 = a"
    "video_mem s2 = blit SCREEN_BYTES (tm_screen (terminals s1 ! nat a)) (video_mem s1)" "screen_x s2 = tm_x (terminals s1 ! nat a)"
    "screen_y s2 = tm_y (terminals s1 ! nat a)"
    "keyboard_buf s2 = take 128 (tm_input_buf (terminals s1 ! nat a)) @ drop 128 (keyboard_buf s1)"
    "keyboard_idx s2 = tm_keyboard_index (terminals s1 ! nat a)" "last_idx s2 = tm_keyboard_last_index (terminals s1 ! nat a)" "terms_ok s2"
    using switch_terminal_active [OF s1(9) a(1,2) _ refl _ refl, of screen_addr sf' fr'] s1(2) assms(5) by metis
  have "video_mem s2 = video_mem s" by (auto simp: s2(3) again shown_def s1(4) blit_def fun_eq_iff)
  moreover have "keyboard_buf s2 = keyboard_buf s" using kb by (simp add: s2(6) again shown_def s1(7))
  ultimately show ?thesis
    using s1(1,2,4-8) s2 kb again [unfolded shown_def] by - (rule exI [of _ s1], rule exI [of _ s2], simp)
qed

theorem terminal_switch_roundtrip_witness:
  "\<exists>s1 s2. switch_terminal (\<lambda>k. 0x420000) switch_example frame_example 1 sched_example = Some (Returned 0, s1) \<and>
    (\<forall>i. 0 \<le> i \<and> i < SCREEN_BYTES \<longrightarrow> video_mem s1 i = tm_screen (terminals sched_example ! 1) i) \<and>
    screen_x s1 = tm_x (terminals sched_example ! 1) \<and> screen_y s1 = tm_y (terminals sched_example ! 1) \<and>
    take 128 (keyboard_buf s1) = take 128 (tm_input_buf (terminals sched_example ! 1)) \<and>
    keyboard_idx s1 = tm_keyboard_index (terminals sched_example ! 1) \<and>
    switch_terminal (\<lambda>k. 0x420000) switch_example frame_example 0 s1 = Some (Returned 0, s2) \<and> curr_terminal_number s2 = 0 \<and>
    video_mem s2 = video_mem sched_example \<and> screen_x s2 = screen_x sched_example \<and> screen_y s2 = screen_y sched_example \<and>
    keyboard_buf s2 = keyboard_buf sched_example \<and> keyboard_idx s2 = keyboard_idx sched_example \<and>
    last_idx s2 = last_idx sched_example \<and> terms_ok s2"
proof (rule terminal_switch_roundtrip)
  show "terms_ok sched_example" "0 = curr_terminal_number sched_example"
    "is_active (terminals sched_example ! nat 0)" "is_active (terminals sched_example ! nat 1)"
    by (simp_all add: sched_example_def exec_example_def kernel_example_def keyboard.defs keyboard_example_def console.defs
        console_example_def files.defs terms_ok_def)
qed simp_all

text \<open>the video page of a terminal in the background.  The page table entry that the scheduler writes
  for it has only 20 address bits: whatever the address of the saved screen, user code that
  writes at \<^verbatim>\<open>0x9000000 + i\<close> reaches byte \<open>i\<close> of the page that contains the start of the screen, not byte \<open>i\<close>
  of the screen, unless the array happens to start on a page boundary.\<close>

theorem background_video_page:
  assumes "sched_ok s" and "past = 0 \<or> get_curr_exec_term s < 2" and "next_active (terminals s) (get_curr_exec_term s) = Some j"
    and "0x700000 \<le> sw_var sf" and "int j \<noteq> get_cur_term s" and "i < 4096"
  shows "\<exists>r s'. switch_task past screen_addr sf s = Some (r, s') \<and>
    translate True s' (USER_VID_MEM + of_nat i) = Some (push_bit 12 (drop_bit 12 (screen_addr j)) OR of_nat i) \<and>
    (take_bit 12 (screen_addr j) \<noteq> 0 \<longrightarrow> translate True s' USER_VID_MEM \<noteq> Some (screen_addr j))"
proof -
  let ?s' = "switched screen_addr sf j s"
  let ?m = "map_page VIRTUAL_FILE_PAGE (PHYS_FILE_START + PHYS_FILE_OFFSET * of_nat (running s j)) (picked j s)"
  note d = sched_okD [OF assms(1,3)]
  have m: "paging_wf ?m"
    using big.wf_map [OF _ TrueI, of "picked j s"] picked_ok [OF _ d(1), of s] assms(1) by (simp add: sched_ok_def tasks_ok_def)
  have tab: "translate True ?s' a = translate True (map_w_pt 0x9000000 (screen_addr j) ?m) a" for a
    using assms(5) by (intro tables_only; simp add: switched_def Let_def map_video_eq USER_VID_MEM_def)
  have page: "drop_bit 12 (USER_VID_MEM + of_nat k) = drop_bit 12 (0x9000000 :: u32)" "take_bit 12 (USER_VID_MEM + of_nat k) = of_nat k"
    if "k < 4096" for k
  proof -
    have "unat (USER_VID_MEM + of_nat k) = 0x9000000 + k"
      using that by (simp add: USER_VID_MEM_def unat_word_ariths unsigned_of_nat take_bit_nat_eq_self)
    moreover have "(0x9000000 + k) div 2 ^ 12 = 0x9000" using that by (simp add: div_nat_eqI)
    moreover from this have "(0x9000000 + k) mod 2 ^ 12 = k" unfolding modulo_nat_def by simp
    ultimately show "drop_bit 12 (USER_VID_MEM + of_nat k) = drop_bit 12 (0x9000000 :: u32)"
      "take_bit 12 (USER_VID_MEM + of_nat k) = of_nat k"
      using that by (simp_all add: word_unat_eq_iff drop_bit_eq_div take_bit_eq_mod unat_div unat_mod unsigned_of_nat take_bit_nat_eq_self)
  qed
  have tr: "translate True ?s' (USER_VID_MEM + of_nat k) = Some (push_bit 12 (drop_bit 12 (screen_addr j)) OR of_nat k)" if "k < 4096" for k
    using tab map_w_pt_frame [OF m page(1) [OF that], of True "screen_addr j"] page(2) [OF that] by simp
  have "push_bit 12 (drop_bit 12 (screen_addr j)) \<noteq> screen_addr j" if "take_bit 12 (screen_addr j) \<noteq> 0"
    using that bits_ident [of 12 "screen_addr j"] by (metis add_cancel_left_right)
  then show ?thesis
    using switch_task_eq [OF assms(1-4) refl refl, of screen_addr] tr [OF assms(6)] tr [of 0] by auto
qed

theorem background_video_page_witness:
  "\<exists>r s'. switch_task 0 (\<lambda>k. 0x4200A4) switch_example sched_example = Some (r, s') \<and>
    translate True s' (USER_VID_MEM + of_nat 2) = Some (push_bit 12 (drop_bit 12 0x4200A4) OR of_nat 2) \<and>
    (take_bit 12 (0x4200A4 :: u32) \<noteq> 0 \<longrightarrow> translate True s' USER_VID_MEM \<noteq> Some 0x4200A4)"
proof (rule background_video_page [where j = 1])
  show "int 1 \<noteq> get_cur_term sched_example"
    by (simp add: sched_example_def exec_example_def kernel_example_def keyboard.defs keyboard_example_def console.defs
        console_example_def files.defs get_cur_term_def)
qed (simp_all add: switch_example_def)

end
