(* ===== verification/Interrupts.thy ===== *)
theory Interrupts
  imports Switching
begin

text \<open>
  The entry points of the kernel: the whole of \<^verbatim>\<open>keyboard_handler\<close> (\<^verbatim>\<open>student-distrib/keyboard.c\<close>) and the
  exception handlers of \<^verbatim>\<open>student-distrib/idt.c\<close>.

  The key combinations of the handler print files with the globals \<^verbatim>\<open>i\<close>, \<^verbatim>\<open>copied\<close> and \<^verbatim>\<open>file_size\<close>, which
  nothing else reads; they are local here.  Uninitialised arrays are parameters: \<open>temp\<close> is that of
  \<^verbatim>\<open>dir_read\<close> and \<open>vla\<close> gives the bytes of the array of \<^verbatim>\<open>file_size + 1\<close> bytes.
\<close>

section \<open>The keyboard interrupt\<close>

definition KEYBOARD_STATUS_PORT :: u16 where "KEYBOARD_STATUS_PORT = 0x64"
definition KEYBOARD_DATA_PORT :: u16 where "KEYBOARD_DATA_PORT = 0x60"
definition MAX_PRESS_CODE :: nat where "MAX_PRESS_CODE = 0x7F"
definition SHIFT_DOWN_L :: nat where "SHIFT_DOWN_L = 0x2A"
definition SHIFT_UP_L :: nat where "SHIFT_UP_L = 0xAA"
definition SHIFT_UP_R :: nat where "SHIFT_UP_R = 0xB6"
definition SHIFT_DOWN_R :: nat where "SHIFT_DOWN_R = 0x36"
definition CAPS_DOWN :: nat where "CAPS_DOWN = 0x3A"
definition CTRL_DOWN :: nat where "CTRL_DOWN = 0x1D"
definition CTRL_UP :: nat where "CTRL_UP = 0x9D"
definition BACKSPACE :: nat where "BACKSPACE = 0x0E"
definition ALT_DOWN :: nat where "ALT_DOWN = 0x38"
definition ALT_UP :: nat where "ALT_UP = 0xB8"
definition F1 :: nat where "F1 = 0x3B"
definition F3 :: nat where "F3 = 0x3D"

lemmas key_codes = MAX_PRESS_CODE_def SHIFT_DOWN_L_def SHIFT_UP_L_def SHIFT_UP_R_def SHIFT_DOWN_R_def CAPS_DOWN_def
  CTRL_DOWN_def CTRL_UP_def BACKSPACE_def ALT_DOWN_def ALT_UP_def F1_def F3_def

text \<open>\<^verbatim>\<open>sti(); lock = 0; return;\<close>\<close>

definition release :: "'a keyboard_scheme \<Rightarrow> 'a keyboard_scheme" where
  "release s = (sti s)\<lparr>kb_lock := 0\<rparr>"

text \<open>Ctrl+1: list all files.\<close>

function list_files_loop :: "byte list \<Rightarrow> nat \<Rightarrow> nat \<Rightarrow> 'a keyboard_scheme \<Rightarrow> 'a keyboard_scheme option" where
  "list_files_loop temp n i s =
     (if i < n then do {
        b \<leftarrow> strncpy (one_line_buf s) (cstr '' '') (NUM_COLS + 1);
        (_, b, s) \<leftarrow> dir_read temp b s;
        let s = s\<lparr>one_line_buf := b\<rparr>;
        m \<leftarrow> strlen b;
        (_, s) \<leftarrow> terminal_write (Some b) (int m) s;
        list_files_loop temp n (Suc i) (putc NL s)
      } else Some s)"
  by pat_completeness auto
termination
  by (relation "measure (\<lambda>(temp, n, i, s). n - i)") auto

declare list_files_loop.simps [simp del]

text \<open>The file that \<open>d\<close> names is printed, then its name.\<close>

definition show_file :: "(nat \<Rightarrow> byte) \<Rightarrow> dentry \<Rightarrow> 'a keyboard_scheme \<Rightarrow> 'a keyboard_scheme option" where
  "show_file vla d s = do {
     file_size \<leftarrow> img32 (fs_image s) (block_addr (inodes s) (inode d));
     (copied, out) \<leftarrow> read_data s (inode d) 0 file_size;
     buf \<leftarrow> overwrite out (map vla [0..<file_size + 1]);
     let copied = (if copied = 0 then int file_size else copied);
     bs \<leftarrow> img_bytes buf 0 (nat copied);
     let s = putc NL (fold putc bs s);
     (_, s) \<leftarrow> terminal_write (Some (cstr ''file_name:'')) 10 s;
     m \<leftarrow> strlen (file_name d);
     (_, s) \<leftarrow> terminal_write (Some (file_name d)) (int m) s;
     Some s
   }"

text \<open>Ctrl+2: read a file by name.\<close>

definition show_by_name :: "(nat \<Rightarrow> byte) \<Rightarrow> 'a keyboard_scheme \<Rightarrow> 'a keyboard_scheme option" where
  "show_by_name vla s = do {
     f \<leftarrow> strcpy (my_file_name s) (cstr ''frame0.txt'');
     (r, d) \<leftarrow> read_dentry_by_name s f (kb_dentry s);
     let s = s\<lparr>my_file_name := f, kb_dentry := d\<rparr>;
     if r = 0 then show_file vla d s else Some s
   }"

text \<open>Ctrl+3: read a file by index, the next one each time.\<close>

definition show_by_index :: "(nat \<Rightarrow> byte) \<Rightarrow> 'a keyboard_scheme \<Rightarrow> 'a keyboard_scheme option" where
  "show_by_index vla s = do {
     let s = (if kb_count s \<ge> num_dentries s then s\<lparr>kb_count := 0\<rparr> else s);
     (r, d) \<leftarrow> read_dentry_by_index s (kb_count s) (kb_dentry s);
     let s = s\<lparr>kb_dentry := d\<rparr>;
     if r = 0 then do { s \<leftarrow> show_file vla d s; Some (s\<lparr>kb_count := Suc (kb_count s)\<rparr>) } else Some s
   }"

text \<open>The cases of a key that has a character.\<close>

definition handle_ascii :: "byte list \<Rightarrow> (nat \<Rightarrow> byte) \<Rightarrow> nat \<Rightarrow> byte \<Rightarrow> 'a keyboard_scheme \<Rightarrow> 'a keyboard_scheme option" where
  "handle_ascii temp vla keycode ascii s =
     (if ascii = 0 then Some s
      else if ctrl s \<noteq> 0 \<and> ascii = 108 then map_option reset_line (clear_screen s)
      else if ascii = NL then press_enter ascii s
      else if ctrl s \<noteq> 0 \<and> ascii = 49 then do { s \<leftarrow> clear_screen s; list_files_loop temp (num_dentries s) 0 s }
      else if ctrl s \<noteq> 0 \<and> ascii = 50 then do { s \<leftarrow> clear_screen s; show_by_name vla s }
      else if ctrl s \<noteq> 0 \<and> ascii = 51 then do { s \<leftarrow> clear_screen s; show_by_index vla s }
      else if ctrl s \<noteq> 0 \<and> ascii = 52 then map_option toggle_freq (clear_screen s)
      else if ctrl s \<noteq> 0 \<and> ascii = 53 then map_option (\<lambda>s. snd (set_rate 0 s)) (clear_screen s)
      else press_char keycode ascii s)"

text \<open>The modifier keys; \<open>None\<close> for any other key code.\<close>

definition modifier_key :: "nat \<Rightarrow> 'a keyboard_scheme \<Rightarrow> 'a keyboard_scheme option" where
  "modifier_key keycode s =
     (if keycode > MAX_PRESS_CODE then
        Some (if keycode = SHIFT_UP_L \<or> keycode = SHIFT_UP_R then s\<lparr>shift := 0\<rparr>
              else if keycode = CTRL_UP then s\<lparr>ctrl := 0\<rparr>
              else if keycode = ALT_UP then s\<lparr>alt := 0\<rparr> else s)
      else if keycode = SHIFT_DOWN_L \<or> keycode = SHIFT_DOWN_R then Some (s\<lparr>shift := 1\<rparr>)
      else if keycode = CAPS_DOWN then Some (if caps s = 1 then s\<lparr>caps := 0\<rparr> else s\<lparr>caps := 1\<rparr>)
      else if keycode = CTRL_DOWN then Some (s\<lparr>ctrl := 1\<rparr>)
      else if keycode = ALT_DOWN then Some (s\<lparr>alt := 1\<rparr>)
      else None)"

definition handle_key :: "(nat \<Rightarrow> u32) \<Rightarrow> switch_frame \<Rightarrow> frame \<Rightarrow> byte list \<Rightarrow> (nat \<Rightarrow> byte) \<Rightarrow> nat \<Rightarrow> 'a kernel_scheme
    \<Rightarrow> (outcome \<times> 'a kernel_scheme) option" where
  "handle_key screen_addr sf fr temp vla keycode s =
     (if keycode = BACKSPACE \<and> screen_x s + screen_y s \<noteq> 0 then do {
        s \<leftarrow> handle_backspace s;
        Some (Returned 0, release s)
      } else case modifier_key keycode s of
        Some s \<Rightarrow> Some (Returned 0, release s)
      | None \<Rightarrow>
          if alt s \<noteq> 0 \<and> keycode \<ge> F1 \<and> keycode \<le> F3 then do {
            (oc, s) \<leftarrow> switch_terminal screen_addr sf fr (int (keycode - F1)) (s\<lparr>kb_lock := 0\<rparr>);
            case oc of Returned _ \<Rightarrow> Some (Returned 0, release s) | _ \<Rightarrow> Some (oc, s)
          } else do {
            ascii \<leftarrow> map_key keycode (shift s);
            s \<leftarrow> handle_ascii temp vla keycode ascii s;
            Some (Returned 0, release s)
          })"

definition keyboard_handler :: "(nat \<Rightarrow> u32) \<Rightarrow> switch_frame \<Rightarrow> frame \<Rightarrow> byte list \<Rightarrow> (nat \<Rightarrow> byte) \<Rightarrow> 'a kernel_scheme
    \<Rightarrow> (outcome \<times> 'a kernel_scheme) option" where
  "keyboard_handler screen_addr sf fr temp vla s =
     (if kb_lock s = 0 then
        let s = send_eoi 1 (cli (s\<lparr>kb_lock := 1\<rparr>));
            (status, s) = inb KEYBOARD_STATUS_PORT s
        in if bit status 0 then
             let (data, s) = inb KEYBOARD_DATA_PORT s
             in handle_key screen_addr sf fr temp vla (unat data) s
           else Some (Returned 0, release s)
      else Some (Returned 0, s))"

section \<open>The keyboard as a line editor\<close>

text \<open>The scan code that the handler reads in a state, if the keyboard has one.\<close>

definition scan_code :: "'a kernel_scheme \<Rightarrow> nat option" where
  "scan_code s =
     (let log = io_log (send_eoi 1 s) in
      if bit (devices s log KEYBOARD_STATUS_PORT) 0
      then Some (unat (devices s (In KEYBOARD_STATUS_PORT # log) KEYBOARD_DATA_PORT)) else None)"

record editor =
  ed_line :: "byte list"
  ed_shift :: u32
  ed_caps :: u32

definition editor_of :: "'a keyboard_scheme \<Rightarrow> editor" where
  "editor_of s = \<lparr>ed_line = line_of s, ed_shift = shift s, ed_caps = caps s\<rparr>"

text \<open>What a key does to the line: the Shift keys and Caps Lock set the modifiers, a key that
  stands for a character appends it while there is room.\<close>

definition edit :: "nat \<Rightarrow> editor \<Rightarrow> editor" where
  "edit c e =
     (if c > MAX_PRESS_CODE then if c = SHIFT_UP_L \<or> c = SHIFT_UP_R then e\<lparr>ed_shift := 0\<rparr> else e
      else if c = SHIFT_DOWN_L \<or> c = SHIFT_DOWN_R then e\<lparr>ed_shift := 1\<rparr>
      else if c = CAPS_DOWN then e\<lparr>ed_caps := (if ed_caps e = 1 then 0 else 1)\<rparr>
      else case key_char c (ed_shift e) (ed_caps e) of
        None \<Rightarrow> e
      | Some ch \<Rightarrow> if length (ed_line e) < MAX_BUF_SIZE then e\<lparr>ed_line := ed_line e @ [ch]\<rparr> else e)"

text \<open>Keys that only edit: not Enter, Backspace, Ctrl or Alt.\<close>

definition plain_key :: "nat \<Rightarrow> bool" where
  "plain_key c \<longleftrightarrow> c < 256 \<and> c \<noteq> 0x1C \<and> c \<noteq> BACKSPACE \<and> c \<noteq> CTRL_DOWN \<and> c \<noteq> ALT_DOWN"

definition kbd_inv :: "'a keyboard_scheme \<Rightarrow> bool" where
  "kbd_inv s \<longleftrightarrow> line_inv s \<and> kb_lock s = 0 \<and> ctrl s = 0 \<and> alt s = 0 \<and> (shift s = 0 \<or> shift s = 1) \<and> keyboard_pre s \<noteq> NL"

lemma keyboard_map_newline:
  "list_all (\<lambda>(l, u). l \<noteq> NL \<and> u \<noteq> NL) (take 28 keyboard_map)" "list_all (\<lambda>(l, u). l \<noteq> NL \<and> u \<noteq> NL) (drop 29 keyboard_map)"
  "length keyboard_map = 128"
  by (simp_all add: keyboard_map_def list_all_iff)

lemma map_key_defined:
  assumes "c < 128" and "sh = 0 \<or> sh = 1"
  shows "\<exists>a. map_key c sh = Some a \<and> (c \<noteq> 0x1C \<longrightarrow> a \<noteq> NL)"
proof -
  obtain l u where lu: "keyboard_map ! c = (l, u)" by fastforce
  have "l \<noteq> NL \<and> u \<noteq> NL" if "c \<noteq> 0x1C"
  proof (cases "c < 28")
    case True
    then have "keyboard_map ! c \<in> set (take 28 keyboard_map)"
      using keyboard_map_newline(3) nth_mem [of c "take 28 keyboard_map"] by simp
    then show ?thesis using keyboard_map_newline(1) lu by (auto simp: list_all_iff)
  next
    case False
    then have "keyboard_map ! c \<in> set (drop 29 keyboard_map)"
      using that assms(1) keyboard_map_newline(3) nth_mem [of "c - 29" "drop 29 keyboard_map"] by simp
    then show ?thesis using keyboard_map_newline(2) lu by (auto simp: list_all_iff)
  qed
  then show ?thesis
    using assms lu keyboard_map_newline(3) by (auto simp: map_key_def)
qed

text \<open>The state in which the handler looks at the scan code.\<close>

definition polled :: "'a kernel_scheme \<Rightarrow> 'a kernel_scheme" where
  "polled s = s\<lparr>kb_lock := 1, int_flag := False,
     io_log := In KEYBOARD_DATA_PORT # In KEYBOARD_STATUS_PORT # io_log (send_eoi 1 s)\<rparr>"

lemma handler_polls:
  assumes "kb_lock s = 0" and "scan_code s = Some c"
  shows "keyboard_handler screen_addr sf fr temp vla s = handle_key screen_addr sf fr temp vla c (polled s)"
  using assms by (simp add: keyboard_handler_def scan_code_def polled_def send_eoi.simps outb_def cli_def inb_def Let_def split: if_splits)

lemma polled_fields [simp]:
  "line_of (polled s) = line_of s" "line_inv (polled s) = line_inv s" "shift (polled s) = shift s" "caps (polled s) = caps s"
  "ctrl (polled s) = ctrl s" "alt (polled s) = alt s" "keyboard_pre (polled s) = keyboard_pre s" "keyboard_idx (polled s) = keyboard_idx s"
  "terminals (polled s) = terminals s" "curr_term (polled s) = curr_term s" "curr_terminal_number (polled s) = curr_terminal_number s"
  "keyboard_buf (polled s) = keyboard_buf s" "last_idx (polled s) = last_idx s" "displayed (polled s) = displayed s" "exec_ok (polled s) = exec_ok s"
  by (simp_all add: polled_def line_of_def line_inv_def displayed_def exec_ok_def get_curr_exec_term_def get_cur_term_def)

lemma release_fields [simp]:
  "line_of (release s) = line_of s" "line_inv (release s) = line_inv s" "shift (release s) = shift s" "caps (release s) = caps s"
  "ctrl (release s) = ctrl s" "alt (release s) = alt s" "keyboard_pre (release s) = keyboard_pre s" "keyboard_idx (release s) = keyboard_idx s"
  "kb_lock (release s) = 0" "int_flag (release s)"
  "terminals (release s) = terminals s" "curr_term (release s) = curr_term s" "curr_terminal_number (release s) = curr_terminal_number s"
  "keyboard_buf (release s) = keyboard_buf s"
  by (simp_all add: release_def sti_def line_of_def line_inv_def)

lemma line_of_length: "line_inv s \<Longrightarrow> length (line_of s) = unat (keyboard_idx s)"
  by (simp add: line_inv_def line_of_def MAX_BUF_SIZE_def)

lemma key_char_None: "\<lbrakk>c < 128; sh = 0 \<or> sh = 1; map_key c sh = Some a; key_char c sh cp = None\<rbrakk> \<Longrightarrow> a = 0 \<or> a = NL"
  using map_key_defined [of c "if sh = 0 then 1 else 0"] by (auto simp: key_char_def split: if_splits)

text \<open>A key with no modifier function, on a polled state.\<close>

lemma handle_ascii_edits:
  assumes "kbd_inv s" and "c < 128" and "c \<noteq> 0x1C" and "map_key c (shift s) = Some a"
  shows "\<exists>s'. handle_ascii temp vla c a (polled s) = Some s' \<and> line_inv s' \<and> ctrl s' = 0 \<and> alt s' = 0 \<and> shift s' = shift s \<and>
    caps s' = caps s \<and> keyboard_pre s' = keyboard_pre s \<and> terminals s' = terminals s \<and> curr_term s' = curr_term s \<and>
    curr_terminal_number s' = curr_terminal_number s \<and>
    line_of s' = (case key_char c (shift s) (caps s) of None \<Rightarrow> line_of s
      | Some ch \<Rightarrow> if length (line_of s) < MAX_BUF_SIZE then line_of s @ [ch] else line_of s)"
proof -
  have s: "line_inv s" "ctrl s = 0" "alt s = 0" "shift s = 0 \<or> shift s = 1" using assms(1) by (simp_all add: kbd_inv_def)
  have a: "a \<noteq> NL" using map_key_defined [OF assms(2) s(4)] assms(3,4) by auto
  show ?thesis
  proof (cases "key_char c (shift s) (caps s)")
    case None
    then have "a = 0" using key_char_None [OF assms(2) s(4) assms(4)] a by blast
    then show ?thesis using None s by (simp add: handle_ascii_def)
  next
    case (Some ch)
    then have "a \<noteq> 0" using assms(4) by (auto simp: key_char_def)
    then have h: "handle_ascii temp vla c a (polled s) = press_char c a (polled s)"
      using a s(2) by (simp add: handle_ascii_def)
    show ?thesis
    proof (cases "unat (keyboard_idx s) < MAX_BUF_SIZE")
      case True
      then show ?thesis
        using press_char_types [of "polled s" c a ch] s assms(4) Some line_of_length [OF s(1)] by (auto simp: h)
    next
      case False
      then have "unat (keyboard_idx s) = MAX_BUF_SIZE" using s(1) by (simp add: line_inv_def)
      then show ?thesis using h s Some line_of_length [OF s(1)] by (simp add: press_char_def)
    qed
  qed
qed

lemma modifier_key_edits:
  assumes "modifier_key c s = Some s1" and "c \<noteq> CTRL_DOWN" and "c \<noteq> ALT_DOWN"
  shows "editor_of s1 = edit c (editor_of s) \<and> keyboard_buf s1 = keyboard_buf s \<and> keyboard_idx s1 = keyboard_idx s \<and>
    last_idx s1 = last_idx s \<and> (ctrl s1 = ctrl s \<or> ctrl s1 = 0) \<and> (alt s1 = alt s \<or> alt s1 = 0) \<and>
    (shift s1 = shift s \<or> shift s1 = 0 \<or> shift s1 = 1) \<and> keyboard_pre s1 = keyboard_pre s \<and> terminals s1 = terminals s \<and>
    curr_term s1 = curr_term s \<and> curr_terminal_number s1 = curr_terminal_number s"
proof -
  consider (up) "c > MAX_PRESS_CODE" | (shift) "\<not> c > MAX_PRESS_CODE" "c = SHIFT_DOWN_L \<or> c = SHIFT_DOWN_R"
    | (caps) "\<not> c > MAX_PRESS_CODE" "\<not> (c = SHIFT_DOWN_L \<or> c = SHIFT_DOWN_R)" "c = CAPS_DOWN"
    | (other) "\<not> c > MAX_PRESS_CODE" "\<not> (c = SHIFT_DOWN_L \<or> c = SHIFT_DOWN_R)" "c \<noteq> CAPS_DOWN" by blast
  then show ?thesis
  proof cases
    case up
    then have "s1 = (if c = SHIFT_UP_L \<or> c = SHIFT_UP_R then s\<lparr>shift := 0\<rparr>
        else if c = CTRL_UP then s\<lparr>ctrl := 0\<rparr> else if c = ALT_UP then s\<lparr>alt := 0\<rparr> else s)"
      using assms(1) by (simp add: modifier_key_def)
    then show ?thesis using up by (simp add: edit_def editor_of_def line_of_def)
  next
    case shift
    then have "s1 = s\<lparr>shift := 1\<rparr>" using assms(1) by (simp add: modifier_key_def)
    then show ?thesis using shift by (simp add: edit_def editor_of_def line_of_def)
  next
    case caps
    then have "s1 = (if caps s = 1 then s\<lparr>caps := 0\<rparr> else s\<lparr>caps := 1\<rparr>)" using assms(1) by (simp add: modifier_key_def)
    then show ?thesis using caps by (simp add: edit_def editor_of_def line_of_def)
  next
    case other
    then show ?thesis using assms by (simp add: modifier_key_def)
  qed
qed

lemma handler_edits:
  assumes "kbd_inv s" and "scan_code s = Some c" and "plain_key c"
  shows "\<exists>s'. keyboard_handler screen_addr sf fr temp vla s = Some (Returned 0, s') \<and> kbd_inv s' \<and> int_flag s' \<and>
    editor_of s' = edit c (editor_of s) \<and> terminals s' = terminals s \<and> curr_term s' = curr_term s \<and>
    curr_terminal_number s' = curr_terminal_number s"
proof -
  have s: "line_inv s" "kb_lock s = 0" "ctrl s = 0" "alt s = 0" "shift s = 0 \<or> shift s = 1" "keyboard_pre s \<noteq> NL"
    using assms(1) by (simp_all add: kbd_inv_def)
  have c: "c < 256" "c \<noteq> 0x1C" "c \<noteq> BACKSPACE" "c \<noteq> CTRL_DOWN" "c \<noteq> ALT_DOWN" using assms(3) by (simp_all add: plain_key_def)
  note poll = handler_polls [OF s(2) assms(2), of screen_addr sf fr temp vla]
  show ?thesis
  proof (cases "modifier_key c (polled s)")
    case None
    then have k: "c < 128" "c \<noteq> SHIFT_DOWN_L" "c \<noteq> SHIFT_DOWN_R" "c \<noteq> CAPS_DOWN" "\<not> c > MAX_PRESS_CODE"
      by (auto simp: modifier_key_def MAX_PRESS_CODE_def split: if_splits)
    then have up: "c \<noteq> SHIFT_UP_L" "c \<noteq> SHIFT_UP_R" by (auto simp: key_codes)
    obtain a where a: "map_key c (shift s) = Some a" using map_key_defined [OF k(1) s(5)] by blast
    obtain s1 where s1: "handle_ascii temp vla c a (polled s) = Some s1" "line_inv s1" "ctrl s1 = 0" "alt s1 = 0" "shift s1 = shift s"
      "caps s1 = caps s" "keyboard_pre s1 = keyboard_pre s" "terminals s1 = terminals s" "curr_term s1 = curr_term s"
      "curr_terminal_number s1 = curr_terminal_number s"
      "line_of s1 = (case key_char c (shift s) (caps s) of None \<Rightarrow> line_of s
        | Some ch \<Rightarrow> if length (line_of s) < MAX_BUF_SIZE then line_of s @ [ch] else line_of s)"
      using handle_ascii_edits [OF assms(1) k(1) c(2) a] by blast
    have "handle_key screen_addr sf fr temp vla c (polled s) = Some (Returned 0, release s1)"
      using None c(3) s(4) a s1(1) by (simp add: handle_key_def)
    moreover have "editor_of (release s1) = edit c (editor_of s)"
      using k up s1(5,6,11) by (simp add: editor_of_def edit_def split: option.splits)
    ultimately show ?thesis using poll s s1 by (simp add: kbd_inv_def)
  next
    case (Some s1)
    note m = modifier_key_edits [OF Some c(4,5)]
    have "line_inv s1" "ctrl s1 = 0" "alt s1 = 0" "shift s1 = 0 \<or> shift s1 = 1" using m s by (auto simp: line_inv_def)
    moreover have "editor_of s1 = edit c (editor_of s)" using m by (simp add: editor_of_def)
    moreover have "editor_of (release s1) = editor_of s1" by (simp add: editor_of_def)
    moreover have "handle_key screen_addr sf fr temp vla c (polled s) = Some (Returned 0, release s1)"
      using Some c(3) by (simp add: handle_key_def)
    ultimately show ?thesis using poll s m by (simp add: kbd_inv_def)
  qed
qed

text \<open>A run of keyboard interrupts: the codes that the handler read, one after the other.\<close>

inductive key_run :: "(nat \<Rightarrow> u32) \<Rightarrow> switch_frame \<Rightarrow> frame \<Rightarrow> byte list \<Rightarrow> (nat \<Rightarrow> byte) \<Rightarrow> 'a kernel_scheme \<Rightarrow> nat list \<Rightarrow> 'a kernel_scheme \<Rightarrow> bool"
  for screen_addr sf fr temp vla where
  quiet: "key_run screen_addr sf fr temp vla s [] s"
| key: "\<lbrakk>scan_code s = Some c; keyboard_handler screen_addr sf fr temp vla s = Some (Returned 0, s1);
     key_run screen_addr sf fr temp vla s1 cs s2\<rbrakk> \<Longrightarrow> key_run screen_addr sf fr temp vla s (c # cs) s2"

lemma key_run_edits:
  assumes "key_run screen_addr sf fr temp vla s cs s'" and "kbd_inv s" and "\<forall>c \<in> set cs. plain_key c"
  shows "kbd_inv s' \<and> editor_of s' = fold edit cs (editor_of s) \<and> terminals s' = terminals s \<and> curr_term s' = curr_term s \<and>
    curr_terminal_number s' = curr_terminal_number s"
  using assms
proof (induction rule: key_run.induct)
  case (key s c s1 cs s2)
  then show ?case using handler_edits [OF key.prems(1) key.hyps(1), of screen_addr sf fr temp vla] by auto
qed simp

lemma enter_key:
  assumes "kbd_inv s" and "scan_code s = Some 0x1C"
  shows "keyboard_handler screen_addr sf fr temp vla s = map_option (\<lambda>s. (Returned 0, release s)) (press_enter NL (polled s))"
proof -
  have s: "kb_lock s = 0" "ctrl s = 0" "alt s = 0" "shift s = 0 \<or> shift s = 1" using assms(1) by (simp_all add: kbd_inv_def)
  have "map_key 0x1C (shift s) = Some NL" using s(4) by (auto simp: map_key_def aget_def keyboard_map_def)
  moreover have "modifier_key 0x1C (polled s) = None" by (simp add: modifier_key_def key_codes)
  ultimately show ?thesis
    using handler_polls [OF s(1) assms(2), of screen_addr sf fr temp vla] s(2,3)
    by (cases "press_enter NL (polled s)") (simp_all add: handle_key_def handle_ascii_def BACKSPACE_def)
qed

section \<open>Properties of the keyboard interrupt\<close>

text \<open>C15: the keyboard interrupts implement a line editor.  For any run of keyboard interrupts whose
  scan codes are not Enter, Backspace, Ctrl or Alt, the line in the buffer and the modifiers are what the
  abstract editor makes of the codes, the lock is free and no terminal changes.  When Enter follows,
  \<^verbatim>\<open>keyboard_read\<close> on the terminal that is shown and executes returns that line with the newline, cut to
  \<^verbatim>\<open>nbytes\<close>, and the line is empty again.\<close>

theorem interrupts_deliver_line:
  assumes "kbd_inv s" and "displayed s" and "exec_ok s" and "key_run screen_addr sf fr temp vla s cs s1"
    and "\<forall>c \<in> set cs. plain_key c" and "line = ed_line (fold edit cs (editor_of s))" and "length line \<le> 127"
    and "scan_code s1 = Some 0x1C" and "0 \<le> nbytes" and "m = min (nat nbytes) (Suc (length line))" and "m < length buf"
  shows "kbd_inv s1 \<and> editor_of s1 = fold edit cs (editor_of s) \<and> terminals s1 = terminals s \<and>
    (\<exists>s2 s3. keyboard_handler screen_addr sf fr temp vla s1 = Some (Returned 0, s2) \<and>
      keyboard_read buf nbytes s2 = Some (int m, take m (line @ [NL]) @ 0 # drop (Suc m) buf, s3) \<and>
      line_inv s3 \<and> line_of s3 = [])"
proof -
  have run: "kbd_inv s1" "editor_of s1 = fold edit cs (editor_of s)" "terminals s1 = terminals s" "curr_term s1 = curr_term s"
    "curr_terminal_number s1 = curr_terminal_number s"
    using key_run_edits [OF assms(4,1,5)] by auto
  have line: "line_of s1 = line" using arg_cong [OF run(2), of ed_line] assms(6) by (simp add: editor_of_def)
  have inv: "line_inv s1" "keyboard_pre s1 \<noteq> NL" using run(1) by (simp_all add: kbd_inv_def)
  have exec: "displayed s1" "exec_ok s1"
    using assms(2,3) run by (simp_all add: displayed_def exec_ok_def get_curr_exec_term_def get_cur_term_def)
  obtain t rest where t: "press_enter NL (polled s1) = Some t" "keyboard_buf t = line @ NL # rest" "rest \<noteq> []"
    "length (keyboard_buf t) = 129" "keyboard_idx t = keyboard_idx s1" "keyboard_pre t = keyboard_pre s1" "curr_term t = curr_term s1"
    "terminals t = (terminals s1)[get_curr_exec_term s1 := (terminals s1 ! get_curr_exec_term s1)\<lparr>tm_term_enter := 1\<rparr>]"
    using press_enter_line [of "polled s1"] inv(1) exec line assms(7) by (auto simp: MAX_BUF_SIZE_def get_curr_exec_term_def)
  have chars: "0 \<notin> set line" "NL \<notin> set line" using inv(1) line by (auto simp: line_inv_def line_of_def in_set_conv_nth)
  have idx: "unat (keyboard_idx t) = length line" using line_of_length [OF inv(1)] line t(5) by simp
  have "\<exists>s3. keyboard_read buf nbytes (release t) = Some (int m, take m (line @ [NL]) @ 0 # drop (Suc m) buf, s3) \<and>
      line_inv s3 \<and> keyboard_idx s3 = 0 \<and> keyboard_read buf nbytes s3 = None"
    by (rule read_after_enter [OF _ t(3) _ chars _ _ _ _ assms(9-11)])
      (use t idx inv(2) exec(2) in \<open>simp_all add: exec_ok_def get_curr_exec_term_def\<close>)
  then obtain s3 where s3: "keyboard_read buf nbytes (release t) = Some (int m, take m (line @ [NL]) @ 0 # drop (Suc m) buf, s3)"
    "line_inv s3" "keyboard_idx s3 = 0" by blast
  moreover have "keyboard_handler screen_addr sf fr temp vla s1 = Some (Returned 0, release t)"
    using enter_key [OF run(1) assms(8)] t(1) by simp
  moreover have "line_of s3 = []" using s3(3) by (simp add: line_of_def)
  ultimately show ?thesis using run by blast
qed

text \<open>A keyboard that sends Shift and then Enter, on a line that reads \<open>ls\<close>.\<close>

definition kbd_example :: kernel where
  "kbd_example = kernel_example\<lparr>io_log := [],
     devices := (\<lambda>log p. if p = KEYBOARD_STATUS_PORT then 1
        else if p = KEYBOARD_DATA_PORT then if In KEYBOARD_DATA_PORT \<in> set log then 0x1C else 0x2A else 0),
     keyboard_buf := lit ''ls'' @ replicate 126 SPC @ [0], keyboard_idx := 2, last_idx := 2\<rparr>"

definition kbd_example1 :: kernel where
  "kbd_example1 = release ((polled kbd_example)\<lparr>shift := 1\<rparr>)"

lemma kbd_example_facts:
  "kbd_inv kbd_example" "displayed kbd_example" "exec_ok kbd_example" "editor_of kbd_example = \<lparr>ed_line = lit ''ls'', ed_shift = 0, ed_caps = 0\<rparr>"
  "scan_code kbd_example = Some 0x2A" "scan_code kbd_example1 = Some 0x1C"
proof -
  note k = keyboard_example_facts
  have e: "shift kbd_example = 0" "caps kbd_example = 0" "ctrl kbd_example = 0" "alt kbd_example = 0" "kb_lock kbd_example = 0"
    "keyboard_pre kbd_example = 0" "curr_term kbd_example = curr_term keyboard_example" "terminals kbd_example = terminals keyboard_example"
    "curr_terminal_number kbd_example = curr_terminal_number keyboard_example"
    by (simp_all add: kbd_example_def kernel_example_def keyboard.defs keyboard_example_def console.defs)
  show "displayed kbd_example" "exec_ok kbd_example"
    using k(2,3) e by (simp_all add: displayed_def exec_ok_def get_curr_exec_term_def get_cur_term_def)
  have l: "keyboard_buf kbd_example = lit ''ls'' @ replicate 126 SPC @ [0]" "keyboard_idx kbd_example = 2" "last_idx kbd_example = 2"
    by (simp_all add: kbd_example_def)
  have "\<forall>i<2. (lit ''ls'' @ replicate 126 SPC @ [0]) ! i \<noteq> 0 \<and> (lit ''ls'' @ replicate 126 SPC @ [0]) ! i \<noteq> NL"
  proof (intro allI impI)
    fix i :: nat assume "i < 2"
    then have "i = 0 \<or> i = 1" by auto
    then show "(lit ''ls'' @ replicate 126 SPC @ [0]) ! i \<noteq> 0 \<and> (lit ''ls'' @ replicate 126 SPC @ [0]) ! i \<noteq> NL" by auto
  qed
  then show "kbd_inv kbd_example" using e l by (simp add: kbd_inv_def line_inv_def MAX_BUF_SIZE_def)
  show "editor_of kbd_example = \<lparr>ed_line = lit ''ls'', ed_shift = 0, ed_caps = 0\<rparr>"
    using e l by (simp add: editor_of_def line_of_def take_Cons')
  show "scan_code kbd_example = Some 0x2A"
    by (simp add: scan_code_def kbd_example_def send_eoi.simps outb_def KEYBOARD_STATUS_PORT_def KEYBOARD_DATA_PORT_def)
  show "scan_code kbd_example1 = Some 0x1C"
    by (simp add: scan_code_def kbd_example1_def release_def sti_def polled_def kbd_example_def send_eoi.simps outb_def
        KEYBOARD_STATUS_PORT_def KEYBOARD_DATA_PORT_def)
qed

lemma kbd_example_run: "key_run screen_addr sf fr temp vla kbd_example [0x2A] kbd_example1"
proof (rule key_run.key [OF kbd_example_facts(5) _ key_run.quiet])
  have "kb_lock kbd_example = 0" using kbd_example_facts(1) by (simp add: kbd_inv_def)
  from handler_polls [OF this kbd_example_facts(5)]
  show "keyboard_handler screen_addr sf fr temp vla kbd_example = Some (Returned 0, kbd_example1)"
    by (simp add: handle_key_def modifier_key_def key_codes kbd_example1_def)
qed

theorem interrupts_deliver_line_witness:
  "kbd_inv kbd_example1 \<and> editor_of kbd_example1 = fold edit [0x2A] (editor_of kbd_example) \<and> terminals kbd_example1 = terminals kbd_example \<and>
    (\<exists>s2 s3. keyboard_handler (\<lambda>k. 0) switch_example frame_example [] (\<lambda>i. 0) kbd_example1 = Some (Returned 0, s2) \<and>
      keyboard_read (replicate 8 0) 6 s2 = Some (int 3, take 3 (lit ''ls'' @ [NL]) @ 0 # drop (Suc 3) (replicate 8 0), s3) \<and>
      line_inv s3 \<and> line_of s3 = [])"
  by (rule interrupts_deliver_line [OF kbd_example_facts(1-3) kbd_example_run _ _ _ kbd_example_facts(6)])
    (simp_all add: kbd_example_facts(4) plain_key_def key_codes edit_def)

end
