(* ===== verification/Exceptions.thy ===== *)
theory Exceptions
  imports Interrupts
begin

text \<open>
  The exception handlers of \<^verbatim>\<open>student-distrib/idt.c\<close>, and the system call entry of
  \<^verbatim>\<open>student-distrib/syscall_link.S\<close>.

  A handler prints a message and calls \<^verbatim>\<open>halt_from_exc\<close>, which does not return; the endless loop that
  follows the call is \<open>None\<close>.  \<open>conv_buf\<close> is the uninitialised buffer of \<^verbatim>\<open>printf\<close>.
\<close>

section \<open>The handlers\<close>

text \<open>\<^verbatim>\<open>halt_from_exc(); while(1);\<close>\<close>

definition die :: "frame \<Rightarrow> 'a kernel_scheme \<Rightarrow> (outcome \<times> 'a kernel_scheme) option" where
  "die fr s = do {
     (oc, s) \<leftarrow> halt_from_exc fr s;
     case oc of Returned _ \<Rightarrow> None | _ \<Rightarrow> Some (oc, s)
   }"

definition gen_interrupt :: "byte list \<Rightarrow> frame \<Rightarrow> 'a kernel_scheme \<Rightarrow> (outcome \<times> 'a kernel_scheme) option" where
  "gen_interrupt conv_buf fr s = do {
     (_, s) \<leftarrow> printf conv_buf (cstr ''Something happened. We will handle what later.'') [] s;
     die fr s
   }"

definition exc_0 :: "frame \<Rightarrow> 'a kernel_scheme \<Rightarrow> (outcome \<times> 'a kernel_scheme) option" where
  "exc_0 fr s = do { (_, s) \<leftarrow> puts (cstr ''Division by zero'') s; die fr s }"

definition exc_1 :: "frame \<Rightarrow> 'a kernel_scheme \<Rightarrow> (outcome \<times> 'a kernel_scheme) option" where
  "exc_1 fr s = do { (_, s) \<leftarrow> puts (cstr ''Debugger'') s; die fr s }"

definition exc_2 :: "frame \<Rightarrow> 'a kernel_scheme \<Rightarrow> (outcome \<times> 'a kernel_scheme) option" where
  "exc_2 fr s = do { (_, s) \<leftarrow> puts (cstr ''NMI'') s; die fr s }"

definition exc_3 :: "frame \<Rightarrow> 'a kernel_scheme \<Rightarrow> (outcome \<times> 'a kernel_scheme) option" where
  "exc_3 fr s = do { (_, s) \<leftarrow> puts (cstr ''Breakpoint'') s; die fr s }"

definition exc_4 :: "frame \<Rightarrow> 'a kernel_scheme \<Rightarrow> (outcome \<times> 'a kernel_scheme) option" where
  "exc_4 fr s = do { (_, s) \<leftarrow> puts (cstr ''Overflow'') s; die fr s }"

definition exc_5 :: "frame \<Rightarrow> 'a kernel_scheme \<Rightarrow> (outcome \<times> 'a kernel_scheme) option" where
  "exc_5 fr s = do { (_, s) \<leftarrow> puts (cstr ''Bounds'') s; die fr s }"

definition exc_6 :: "frame \<Rightarrow> 'a kernel_scheme \<Rightarrow> (outcome \<times> 'a kernel_scheme) option" where
  "exc_6 fr s = do { (_, s) \<leftarrow> puts (cstr ''Invalid Opcode\<newline>'') s; die fr s }"

definition exc_7 :: "frame \<Rightarrow> 'a kernel_scheme \<Rightarrow> (outcome \<times> 'a kernel_scheme) option" where
  "exc_7 fr s = do { (_, s) \<leftarrow> puts (cstr ''Coprocessor not available'') s; die fr s }"

definition exc_8 :: "frame \<Rightarrow> 'a kernel_scheme \<Rightarrow> (outcome \<times> 'a kernel_scheme) option" where
  "exc_8 fr s = do { (_, s) \<leftarrow> puts (cstr ''Double fault'') s; die fr s }"

definition exc_9 :: "frame \<Rightarrow> 'a kernel_scheme \<Rightarrow> (outcome \<times> 'a kernel_scheme) option" where
  "exc_9 fr s = do { (_, s) \<leftarrow> puts (cstr ''Coprocessor Segment Overrun'') s; die fr s }"

definition exc_10 :: "frame \<Rightarrow> 'a kernel_scheme \<Rightarrow> (outcome \<times> 'a kernel_scheme) option" where
  "exc_10 fr s = do { (_, s) \<leftarrow> puts (cstr ''Invalid Task State Segment'') s; die fr s }"

definition exc_11 :: "frame \<Rightarrow> 'a kernel_scheme \<Rightarrow> (outcome \<times> 'a kernel_scheme) option" where
  "exc_11 fr s = do { (_, s) \<leftarrow> puts (cstr ''Segment not present'') s; die fr s }"

definition exc_12 :: "frame \<Rightarrow> 'a kernel_scheme \<Rightarrow> (outcome \<times> 'a kernel_scheme) option" where
  "exc_12 fr s = do { (_, s) \<leftarrow> puts (cstr ''Stack Fault'') s; die fr s }"

text \<open>The message of a protection fault is a picture in letters.\<close>

definition exc_13_text :: string where
  "exc_13_text = ''General protection fault\<newline>\<newline>\<newline>   R T D C       R T D C R T D C    R T D C        R T D C R    \<newline>   T      R             T           T      R       T            \<newline>   D       T            D           D       T      D            \<newline>   C      D             C           C        D     C            \<newline>   R T D C              R           R        C     R            \<newline>   T      R             T           T        R     T            \<newline>   D       T            D           D       T      D            \<newline>   C        C           C           C R T D        C D T R C    \<newline>''"

definition exc_13 :: "frame \<Rightarrow> 'a kernel_scheme \<Rightarrow> (outcome \<times> 'a kernel_scheme) option" where
  "exc_13 fr s = do { (_, s) \<leftarrow> puts (cstr exc_13_text) s; die fr s }"

definition exc_14 :: "byte list \<Rightarrow> frame \<Rightarrow> 'a kernel_scheme \<Rightarrow> (outcome \<times> 'a kernel_scheme) option" where
  "exc_14 conv_buf fr s = do {
     (_, s) \<leftarrow> puts (cstr ''Page fault\<newline>'') s;
     let fault_addr = cr2 s;
     (_, s) \<leftarrow> printf conv_buf (cstr ''0x%x\<newline>'') [Num fault_addr] s;
     die fr s
   }"

definition exc_15_22_31 :: "frame \<Rightarrow> 'a kernel_scheme \<Rightarrow> (outcome \<times> 'a kernel_scheme) option" where
  "exc_15_22_31 fr s = do { (_, s) \<leftarrow> puts (cstr ''Reserved by Intel: do not use'') s; die fr s }"

definition exc_16 :: "frame \<Rightarrow> 'a kernel_scheme \<Rightarrow> (outcome \<times> 'a kernel_scheme) option" where
  "exc_16 fr s = do { (_, s) \<leftarrow> puts (cstr ''Math Fault'') s; die fr s }"

definition exc_17 :: "frame \<Rightarrow> 'a kernel_scheme \<Rightarrow> (outcome \<times> 'a kernel_scheme) option" where
  "exc_17 fr s = do { (_, s) \<leftarrow> puts (cstr ''Alignment Check'') s; die fr s }"

definition exc_18 :: "frame \<Rightarrow> 'a kernel_scheme \<Rightarrow> (outcome \<times> 'a kernel_scheme) option" where
  "exc_18 fr s = do { (_, s) \<leftarrow> puts (cstr ''Machine Check'') s; die fr s }"

definition exc_19 :: "frame \<Rightarrow> 'a kernel_scheme \<Rightarrow> (outcome \<times> 'a kernel_scheme) option" where
  "exc_19 fr s = do { (_, s) \<leftarrow> puts (cstr ''SIMD Floating-Point Exception'') s; die fr s }"

definition exc_20 :: "frame \<Rightarrow> 'a kernel_scheme \<Rightarrow> (outcome \<times> 'a kernel_scheme) option" where
  "exc_20 fr s = do { (_, s) \<leftarrow> puts (cstr ''Virtualization Exception'') s; die fr s }"

definition exc_21 :: "frame \<Rightarrow> 'a kernel_scheme \<Rightarrow> (outcome \<times> 'a kernel_scheme) option" where
  "exc_21 fr s = do { (_, s) \<leftarrow> puts (cstr ''Control Protection Exception'') s; die fr s }"

text \<open>The vectors whose gates keep the handlers of \<^verbatim>\<open>idt_init\<close>: the timer, the keyboard, the clock and the system call
  have handlers of their own.\<close>

definition exc_vector :: "nat \<Rightarrow> bool" where
  "exc_vector v \<longleftrightarrow> v < 256 \<and> v \<notin> {0x20, 0x21, 0x28, 0x80}"

text \<open>The handler that such a vector leads to.\<close>

definition exception :: "nat \<Rightarrow> byte list \<Rightarrow> frame \<Rightarrow> 'a kernel_scheme \<Rightarrow> (outcome \<times> 'a kernel_scheme) option" where
  "exception v conv_buf fr s =
     (if \<not> exc_vector v then None
      else if v < 22 then ([exc_0, exc_1, exc_2, exc_3, exc_4, exc_5, exc_6, exc_7, exc_8, exc_9, exc_10, exc_11, exc_12, exc_13,
        exc_14 conv_buf, exc_15_22_31, exc_16, exc_17, exc_18, exc_19, exc_20, exc_21] ! v) fr s
      else if v < 32 then exc_15_22_31 fr s else gen_interrupt conv_buf fr s)"

section \<open>What the handlers print\<close>

definition exc_text :: "nat \<Rightarrow> u32 \<Rightarrow> byte list" where
  "exc_text v fault_addr =
     (if v = 14 then lit ''Page fault\<newline>0x'' @ digits 16 (unat fault_addr) @ [NL]
      else if v = 13 then lit exc_13_text
      else if v < 22 then lit ([
        ''Division by zero'', ''Debugger'', ''NMI'', ''Breakpoint'', ''Overflow'', ''Bounds'',
        ''Invalid Opcode\<newline>'', ''Coprocessor not available'', ''Double fault'', ''Coprocessor Segment Overrun'',
        ''Invalid Task State Segment'', ''Segment not present'', ''Stack Fault'', '''', '''',
        ''Reserved by Intel: do not use'', ''Math Fault'', ''Alignment Check'', ''Machine Check'',
        ''SIMD Floating-Point Exception'', ''Virtualization Exception'', ''Control Protection Exception''] ! v)
      else if v < 32 then lit ''Reserved by Intel: do not use''
      else lit ''Something happened. We will handle what later.'')"

lemma puts_lit: "0 \<notin> set (lit m) \<Longrightarrow> puts (cstr m) s = Some (int (length m), fold putc (lit m) s)"
  using puts_chars [of "cstr m" s] by (simp add: cstr_def)

lemma puts_die: "0 \<notin> set (lit m) \<Longrightarrow> (do { (_, s) \<leftarrow> puts (cstr m) s; die fr s }) = die fr (fold putc (lit m) s)"
  by (simp add: puts_lit)

lemmas exc_defs = exc_0_def exc_1_def exc_2_def exc_3_def exc_4_def exc_5_def exc_6_def exc_7_def exc_8_def exc_9_def exc_10_def
  exc_11_def exc_12_def exc_15_22_31_def exc_16_def exc_17_def exc_18_def exc_19_def exc_20_def exc_21_def

lemma exc_13_printable: "0 \<notin> set (lit exc_13_text)"
  by (simp add: exc_13_text_def)

lemma exc_14_prints:
  assumes "length conv_buf = 64"
  shows "exc_14 conv_buf fr s = die fr (fold putc (exc_text 14 (cr2 s)) s)"
proof -
  let ?s = "fold putc (lit ''Page fault\<newline>'') s"
  have "cr2 (fold putc cs t) = cr2 t" for cs and t :: "'a kernel_scheme"
  proof -
    have "cr2 (but_visible u) = cr2 u" for u :: "'a kernel_scheme" by (simp add: but_visible_def)
    then show ?thesis by (metis fold_putc_rest)
  qed
  then have cr2: "cr2 ?s = cr2 s" by blast
  have "render None (cstr ''0x%x\<newline>'') [Num (cr2 s)] = Some (lit ''0x'' @ digits 16 (unat (cr2 s)) @ [NL])"
    by (simp add: cstr_def)
  from printf_loop_renders [OF this assms] obtain n where
    "printf conv_buf (cstr ''0x%x\<newline>'') [Num (cr2 s)] ?s = Some (n, fold putc (lit ''0x'' @ digits 16 (unat (cr2 s)) @ [NL]) ?s)"
    unfolding printf_def by blast
  moreover have "puts (cstr ''Page fault\<newline>'') s = Some (11, ?s)" by (subst puts_lit) simp_all
  moreover have "exc_text 14 (cr2 s) = lit ''Page fault\<newline>'' @ lit ''0x'' @ digits 16 (unat (cr2 s)) @ [NL]"
    by (simp add: exc_text_def)
  ultimately show ?thesis using cr2 by (simp only: exc_14_def Let_def) simp
qed

lemma gen_interrupt_prints:
  assumes "length conv_buf = 64"
  shows "gen_interrupt conv_buf fr s = die fr (fold putc (lit ''Something happened. We will handle what later.'') s)"
proof -
  have "render None (cstr ''Something happened. We will handle what later.'') [] = Some (lit ''Something happened. We will handle what later.'')"
    by (simp add: cstr_def)
  from printf_loop_renders [OF this assms] obtain n where
    "printf conv_buf (cstr ''Something happened. We will handle what later.'') [] s =
      Some (n, fold putc (lit ''Something happened. We will handle what later.'') s)"
    unfolding printf_def by blast
  then show ?thesis by (simp only: gen_interrupt_def) simp
qed

lemma exception_vector: "exception v conv_buf fr s = Some r \<Longrightarrow> exc_vector v"
  by (simp add: exception_def split: if_splits)

lemma exception_prints:
  assumes "length conv_buf = 64" and "exc_vector v"
  shows "exception v conv_buf fr s = die fr (fold putc (exc_text v (cr2 s)) s)"
proof (cases "v < 22")
  case True
  then have "v = 0 \<or> v = 1 \<or> v = 2 \<or> v = 3 \<or> v = 4 \<or> v = 5 \<or> v = 6 \<or> v = 7 \<or> v = 8 \<or> v = 9 \<or> v = 10 \<or>
    v = 11 \<or> v = 12 \<or> v = 13 \<or> v = 14 \<or> v = 15 \<or> v = 16 \<or> v = 17 \<or> v = 18 \<or> v = 19 \<or> v = 20 \<or> v = 21"
    by presburger
  then show ?thesis
    using exc_14_prints [OF assms(1), of fr s] puts_die [OF exc_13_printable, of s fr] assms(2)
    by (auto simp: exception_def exc_text_def exc_defs exc_13_def puts_die)
next
  case False
  then have "exception v conv_buf fr s = (if v < 32 then exc_15_22_31 fr s else gen_interrupt conv_buf fr s)"
    "exc_text v (cr2 s) = (if v < 32 then lit ''Reserved by Intel: do not use'' else lit ''Something happened. We will handle what later.'')"
    using assms(2) by (simp_all add: exception_def exc_text_def)
  moreover have "exc_15_22_31 fr s = die fr (fold putc (lit ''Reserved by Intel: do not use'') s)"
    unfolding exc_15_22_31_def by (rule puts_die) simp
  ultimately show ?thesis using gen_interrupt_prints [OF assms(1), of fr s] by (cases "v < 32") (simp_all only: if_True if_False)
qed

section \<open>Killed by an exception\<close>

lemma die_child:
  assumes "tasks_ok s" and "PPID (cur_pcb s) = q" and "unat q < NUM_PROCESSES"
  shows "die fr s = Some (Resumed 256 (ESP0 (cur_pcb s)) (EBP0 (cur_pcb s)), resumed q (ended (curr_process s) s))"
  using halt_body_child [OF assms] by (simp add: die_def halt_from_exc_def)

lemma killed_by_exception:
  assumes "tasks_ok s" and "PPID (cur_pcb s) = q" and "unat q < NUM_PROCESSES" and "length conv_buf = 64" and "exc_vector v"
  shows "\<exists>s'. exception v conv_buf fr s = Some (Resumed 256 (ESP0 (cur_pcb s)) (EBP0 (cur_pcb s)), s') \<and> tasks_ok s' \<and>
    video_mem s' = video_mem (fold putc (exc_text v (cr2 s)) s) \<and>
    proc_used s' = proc_used s - {unat (curr_process s)} \<and> curr_process s' = q \<and>
    pcbs s' = (pcbs s)[unat q := close_all 2 (pcbs s ! unat q)] \<and>
    (\<forall>k < 3850000. translate True s' (VIRTUAL_FILE_START + of_nat k) = Some (image_addr (unat q) k)) \<and>
    tss_esp0 s' = PHYS_FILE_START - EIGHT_KB * q - 4 \<and> phys_mem s' = phys_mem s"
proof -
  let ?t = "fold putc (exc_text v (cr2 s)) s"
  let ?s' = "resumed q (ended (curr_process ?t) ?t)"
  have t: "tasks_ok ?t" "cur_pcb ?t = cur_pcb s" "proc_used ?t = proc_used s" "curr_process ?t = curr_process s" "phys_mem ?t = phys_mem s"
    "pcbs ?t = pcbs s"
    using assms(1) rest_kernel [OF fold_putc_rest, of "exc_text v (cr2 s)" s] by (simp_all add: cur_pcb_def proc_used_def)
  then have q: "PPID (cur_pcb ?t) = q" using assms(2) by simp
  have "exception v conv_buf fr s = Some (Resumed 256 (ESP0 (cur_pcb s)) (EBP0 (cur_pcb s)), ?s')"
    using exception_prints [OF assms(4,5), of fr s] die_child [OF t(1) q assms(3)] t(2) by simp
  moreover have "video_mem ?s' = video_mem ?t" "pcbs ?s' = (pcbs s)[unat q := close_all 2 (pcbs s ! unat q)]"
    by (simp_all add: resumed_def ended_def map_page_def flush_tlb_def t(6))
  ultimately show ?thesis
    using resumed_facts [OF t(1) assms(3) refl] t(3-5) by (intro exI [of _ ?s']) simp
qed

text \<open>C5: An exception ends the process that caused it.  For every vector whose gate leads to one of the handlers of
  \<^verbatim>\<open>idt.c\<close>, which are all but those of the timer, the keyboard, the clock and the system call, and wherever the
  fault, the handler prints its message on the screen (with the faulting address in hexadecimal for a page fault).
  It does not spin, as the comments above the handlers say: the
  \<^verbatim>\<open>execute\<close> of the parent resumes with the result 256 on the stack it called from, the slot of the process alone
  becomes free, the parent is the current process with its program page mapped again, and no byte of the programs' memory changes.
  The control blocks are as before, but for the parent's, whose descriptors 2 to 7 are closed.\<close>

theorem exception_kills_process:
  assumes "tasks_ok s" and "PPID (cur_pcb s) = q" and "unat q < NUM_PROCESSES" and "length conv_buf = 64" and "exc_vector v"
  shows "\<exists>s'. exception v conv_buf fr s = Some (Resumed 256 (ESP0 (cur_pcb s)) (EBP0 (cur_pcb s)), s') \<and> tasks_ok s' \<and>
    video_mem s' = video_mem (fold putc (exc_text v (cr2 s)) s) \<and>
    proc_used s' = proc_used s - {unat (curr_process s)} \<and> curr_process s' = q \<and>
    pcbs s' = (pcbs s)[unat q := close_all 2 (pcbs s ! unat q)] \<and>
    (\<forall>k < 3850000. translate True s' (VIRTUAL_FILE_START + of_nat k) = Some (image_addr (unat q) k)) \<and>
    tss_esp0 s' = PHYS_FILE_START - EIGHT_KB * q - 4 \<and> phys_mem s' = phys_mem s"
  by (rule killed_by_exception [OF assms])

theorem exception_kills_process_witness:
  "\<exists>s'. exception 14 (replicate 64 0) frame_example child_example =
      Some (Resumed 256 (ESP0 (cur_pcb child_example)) (EBP0 (cur_pcb child_example)), s') \<and> tasks_ok s' \<and>
    video_mem s' = video_mem (fold putc (exc_text 14 (cr2 child_example)) child_example) \<and>
    proc_used s' = proc_used child_example - {unat (curr_process child_example)} \<and> curr_process s' = 0 \<and>
    pcbs s' = (pcbs child_example)[unat (0 :: u32) := close_all 2 (pcbs child_example ! unat (0 :: u32))] \<and>
    (\<forall>k < 3850000. translate True s' (VIRTUAL_FILE_START + of_nat k) = Some (image_addr (unat (0 :: u32)) k)) \<and>
    tss_esp0 s' = PHYS_FILE_START - EIGHT_KB * 0 - 4 \<and> phys_mem s' = phys_mem child_example"
  by (rule exception_kills_process) (simp_all add: NUM_PROCESSES_def exc_vector_def)

end
