(* ===== verification/Invariant.thy ===== *)
theory Invariant
  imports Exceptions
begin

text \<open>
  What no kernel entry breaks, \<open>kernel_ok\<close>: the shape of the process table, of the control blocks, of the page tables, of the
  mounted file system and of the terminals, the table of operations, and that address 0 is not mapped.  An entry is a system call with any arguments, an
  exception or an interrupt; a run of the kernel is any sequence of them.
\<close>

section \<open>The part of the state that the invariant is about\<close>

definition core where
  "core s = ((pcbs s, curr_process s, process_array s, fops_table s, current_pcb s), (fs_image s, num_inodes s, num_data_blocks s, inodes s, data_blocks s, my_dentry s,
     num_dentries s), (page_directory s, page_table s, user_video_page_table s, page_table_addr s, user_video_page_table_addr s),
     (length (terminals s), curr_terminal_number s, curr_term s))"

lemma core_tasks:
  fixes s s' :: "'a kernel_scheme"
  assumes "core s' = core s"
  shows "tasks_ok s' = tasks_ok s"
proof -
  have "fs_wf s' = fs_wf s" by (rule files_only) (use assms in \<open>simp_all add: core_def\<close>)
  moreover have "paging_wf s' = paging_wf s" by (rule tables_only) (use assms in \<open>simp_all add: core_def\<close>)
  ultimately show ?thesis
    using assms by (simp add: tasks_ok_def procs_ok_def proc_table_ok_def dentries_wf_def get_cur_term_def get_curr_exec_term_def core_def)
qed

lemma core_kernel:
  fixes s s' :: "'a kernel_scheme"
  assumes "core s' = core s"
  shows "kernel_ok s' = kernel_ok s"
proof -
  have "translate True s' 0 = translate True s 0" by (rule tables_only) (use assms in \<open>simp_all add: core_def\<close>)
  then show ?thesis using core_tasks [OF assms] assms by (simp add: kernel_ok_def core_def)
qed

named_theorems core_frame \<open>calls that leave the core of the state alone when they return\<close>

lemma core_hw [simp]:
  "core (outb d p s) = core s" "core (cli s) = core s" "core (sti s) = core s" "core (s\<lparr>kb_lock := l\<rparr>) = core s"
  "core (update_cursor y x s) = core s" "core (send_eoi n s) = core s" "core (snd (inb p s)) = core s"
  "core (s\<lparr>screen_x := x\<rparr>) = core s" "core (s\<lparr>screen_y := y\<rparr>) = core s" "core (s\<lparr>video_mem := v\<rparr>) = core s"
  "core (s\<lparr>phys_mem := m\<rparr>) = core s" "core (s\<lparr>tss_ss0 := c, tss_esp0 := e\<rparr>) = core s"
  "core (s\<lparr>keyboard_buf := b\<rparr>) = core s" "core (reset_line s) = core s"
proof -
  show out: "core (outb d p s) = core s" for d p and s :: "'a kernel_scheme" by (simp add: core_def outb_def)
  show "core (send_eoi n s) = core s"
    by (cases "n < 8"; cases "n < 16") (simp_all add: send_eoi.simps [of n] irq_unfold out)
qed (simp_all add: core_def update_cursor_def port_defs reset_line_def Let_def)

lemma core_but_visible: "but_visible s' = but_visible s \<Longrightarrow> core s' = core s" for s s' :: "'a kernel_scheme"
proof -
  have "core (but_visible t) = core t" for t :: "'a kernel_scheme" by (simp add: core_def but_visible_def)
  then show "but_visible s' = but_visible s \<Longrightarrow> core s' = core s" by metis
qed

lemma core_putc [simp]: "core (putc c s) = core s" "core (fold putc cs s) = core s" "core (vert_scroll s) = core s"
  for s :: "'a kernel_scheme"
  by (rule core_but_visible; simp)+

lemma core_upd_term [core_frame]: "upd_term k f s = Some s' \<Longrightarrow> core s' = core s"
  by (auto simp: upd_term_def core_def split: if_splits)

lemma core_term_putc: "term_putc c s = Some s' \<Longrightarrow> core s' = core s" for s s' :: "'a kernel_scheme"
  by (auto simp: term_putc_def putc_nodisplay_def vert_scroll_nodisplay_def bind_eq_Some_conv Let_def dest!: core_upd_term split: if_splits)

lemma core_put_all: "put_all term_putc cs s = Some s' \<Longrightarrow> core s' = core s" for s s' :: "'a kernel_scheme"
  by (induction cs arbitrary: s) (auto simp: bind_eq_Some_conv Let_def dest!: core_term_putc)

lemma core_terminal_write [core_frame]: "terminal_write buf n s = Some (r, s') \<Longrightarrow> core s' = core s" for s s' :: "'a kernel_scheme"
  by (auto simp: terminal_write_def bind_eq_Some_conv Let_def dest!: core_put_all split: option.splits if_splits)

lemma core_puts [core_frame]: "puts str s = Some (r, s') \<Longrightarrow> core s' = core s" for s s' :: "'a kernel_scheme"
proof -
  have "puts_loop str i s = Some (r, s') \<Longrightarrow> core s' = core s" for i and s :: "'a kernel_scheme"
    by (induction str arbitrary: i s) (auto split: if_splits)
  then show "puts str s = Some (r, s') \<Longrightarrow> core s' = core s" by (simp add: puts_def)
qed

lemma core_clear [core_frame]: "clear_screen s = Some s' \<Longrightarrow> core s' = core s" for s s' :: "'a kernel_scheme"
  by (auto simp: clear_screen_def clear_nodisplay_def dest!: core_upd_term split: if_splits)

lemma core_keyboard_read [core_frame]: "keyboard_read buf n s = Some (r, b, s') \<Longrightarrow> core s' = core s" for s s' :: "'a kernel_scheme"
  by (auto simp: keyboard_read_def bind_eq_Some_conv Let_def dest!: core_upd_term split: if_splits)

lemma core_keyboard_write [core_frame]: "keyboard_write buf s = Some (r, s') \<Longrightarrow> core s' = core s" for s s' :: "'a kernel_scheme"
  by (auto simp: keyboard_write_def Let_def split: prod.splits if_splits)

lemma core_set_rate: "core (snd (set_rate f s)) = core s" "core (toggle_freq s) = core s" for s :: "'a kernel_scheme"
  by (simp_all add: set_rate_def toggle_freq_def inb_def outb_def core_def Let_def split: option.split)

lemma core_rtc:
  fixes s s' :: "'a kernel_scheme"
  shows "rtc_read s = Some (r, s') \<Longrightarrow> core s' = core s" "rtc_write buf n s = Some (r, s') \<Longrightarrow> core s' = core s"
    "core (rtc_handler s) = core s" "core (pit_handler s) = core s"
proof -
  show "rtc_read s = Some (r, s') \<Longrightarrow> core s' = core s" by (auto simp: rtc_read_def core_def split: if_splits)
  show "rtc_write buf n s = Some (r, s') \<Longrightarrow> core s' = core s"
    using core_set_rate(1) [of _ "cli s"] by (auto simp: rtc_write_def bind_eq_Some_conv Let_def split: option.splits if_splits) (metis core_hw(2) snd_conv)
  show "core (rtc_handler s) = core s"
    by (simp add: rtc_handler_def irq_unfold inb_def outb_def cli_def sti_def core_def Let_def)
  show "core (pit_handler s) = core s"
    by (simp add: pit_handler_def irq_unfold outb_def cli_def sti_def core_def Let_def)
qed

declare core_rtc(1,2) [core_frame]

lemma core_dir [core_frame]:
  fixes s s' :: "'a kernel_scheme"
  shows "dir_readnew buf s = Some (r, b, s') \<Longrightarrow> core s' = core s" "dir_read temp buf s = Some (r, b, s') \<Longrightarrow> core s' = core s"
  by (auto simp: dir_readnew_def dir_read_def core_def bind_eq_Some_conv Let_def split: if_splits)

section \<open>Updates of the core\<close>

lemma tasks_files: "tasks_ok s \<Longrightarrow> fs_wf s \<and> dentries_wf s \<and> paging_wf s"
  by (simp add: tasks_ok_def)

lemma tasks_upd:
  fixes s :: "'a kernel_scheme"
  assumes "tasks_ok s"
  shows "unat p < NUM_PROCESSES \<Longrightarrow> tasks_ok (s\<lparr>curr_process := p\<rparr>)"
    "\<lbrakk>0 \<le> t; t < 3\<rbrakk> \<Longrightarrow> tasks_ok (s\<lparr>curr_terminal_number := t\<rparr>)"
    "unat c < 3 \<Longrightarrow> tasks_ok (s\<lparr>curr_term := c\<rparr>)"
    "length a = NUM_PROCESSES \<Longrightarrow> tasks_ok (s\<lparr>process_array := a\<rparr>)"
    "\<lbrakk>length bs = NUM_PROCESSES; \<forall>b \<in> set bs. pcb_ok b\<rbrakk> \<Longrightarrow> tasks_ok (s\<lparr>pcbs := bs\<rparr>)"
proof -
  note defs = tasks_ok_def procs_ok_def proc_table_ok_def dentries_wf_def get_cur_term_def get_curr_exec_term_def
  have fs: "fs_wf (s\<lparr>curr_process := p\<rparr>)" "fs_wf (s\<lparr>curr_terminal_number := t\<rparr>)" "fs_wf (s\<lparr>curr_term := c\<rparr>)"
    "fs_wf (s\<lparr>process_array := a\<rparr>)" "fs_wf (s\<lparr>pcbs := bs\<rparr>)"
    by (use tasks_files [OF assms] in \<open>subst files_only(1) [where t = s]; simp\<close>)+
  have pg: "paging_wf (s\<lparr>curr_process := p\<rparr>)" "paging_wf (s\<lparr>curr_terminal_number := t\<rparr>)" "paging_wf (s\<lparr>curr_term := c\<rparr>)"
    "paging_wf (s\<lparr>process_array := a\<rparr>)" "paging_wf (s\<lparr>pcbs := bs\<rparr>)"
    by (use tasks_files [OF assms] in \<open>subst tables_only(2) [where t = s]; simp\<close>)+
  show "unat p < NUM_PROCESSES \<Longrightarrow> tasks_ok (s\<lparr>curr_process := p\<rparr>)" "unat c < 3 \<Longrightarrow> tasks_ok (s\<lparr>curr_term := c\<rparr>)"
    "\<lbrakk>0 \<le> t; t < 3\<rbrakk> \<Longrightarrow> tasks_ok (s\<lparr>curr_terminal_number := t\<rparr>)" "length a = NUM_PROCESSES \<Longrightarrow> tasks_ok (s\<lparr>process_array := a\<rparr>)"
    "\<lbrakk>length bs = NUM_PROCESSES; \<forall>b \<in> set bs. pcb_ok b\<rbrakk> \<Longrightarrow> tasks_ok (s\<lparr>pcbs := bs\<rparr>)"
    using assms fs pg by (simp_all add: defs)
qed

lemma kernel_upd:
  fixes s :: "'a kernel_scheme"
  assumes "kernel_ok s"
  shows "unat p < NUM_PROCESSES \<Longrightarrow> kernel_ok (s\<lparr>curr_process := p\<rparr>)"
    "\<lbrakk>0 \<le> t; t < 3\<rbrakk> \<Longrightarrow> kernel_ok (s\<lparr>curr_terminal_number := t\<rparr>)"
    "unat c < 3 \<Longrightarrow> kernel_ok (s\<lparr>curr_term := c\<rparr>)"
    "length a = NUM_PROCESSES \<Longrightarrow> kernel_ok (s\<lparr>process_array := a\<rparr>)"
    "\<lbrakk>length bs = NUM_PROCESSES; \<forall>b \<in> set bs. pcb_ok b\<rbrakk> \<Longrightarrow> kernel_ok (s\<lparr>pcbs := bs\<rparr>)"
    "k < NUM_PROCESSES \<Longrightarrow> kernel_ok (s\<lparr>current_pcb := Some k\<rparr>)"
proof -
  have tr: "translate True (s\<lparr>curr_process := p\<rparr>) 0 = translate True s 0" "translate True (s\<lparr>curr_terminal_number := t\<rparr>) 0 = translate True s 0"
    "translate True (s\<lparr>curr_term := c\<rparr>) 0 = translate True s 0" "translate True (s\<lparr>process_array := a\<rparr>) 0 = translate True s 0"
    "translate True (s\<lparr>pcbs := bs\<rparr>) 0 = translate True s 0" "translate True (s\<lparr>current_pcb := Some k\<rparr>) 0 = translate True s 0"
    by (rule tables_only; simp)+
  have ok: "tasks_ok s" using assms by (simp add: kernel_ok_def)
  show "unat p < NUM_PROCESSES \<Longrightarrow> kernel_ok (s\<lparr>curr_process := p\<rparr>)" "unat c < 3 \<Longrightarrow> kernel_ok (s\<lparr>curr_term := c\<rparr>)"
    "\<lbrakk>0 \<le> t; t < 3\<rbrakk> \<Longrightarrow> kernel_ok (s\<lparr>curr_terminal_number := t\<rparr>)" "length a = NUM_PROCESSES \<Longrightarrow> kernel_ok (s\<lparr>process_array := a\<rparr>)"
    "\<lbrakk>length bs = NUM_PROCESSES; \<forall>b \<in> set bs. pcb_ok b\<rbrakk> \<Longrightarrow> kernel_ok (s\<lparr>pcbs := bs\<rparr>)"
    using assms tr tasks_upd [OF ok] by (simp_all add: kernel_ok_def)
  have "tasks_ok (s\<lparr>current_pcb := Some k\<rparr>)"
    using ok files_only(1) [of "s\<lparr>current_pcb := Some k\<rparr>" s] tables_only(2) [of "s\<lparr>current_pcb := Some k\<rparr>" s]
    by (simp add: tasks_ok_def procs_ok_def proc_table_ok_def dentries_wf_def get_cur_term_def get_curr_exec_term_def)
  then show "k < NUM_PROCESSES \<Longrightarrow> kernel_ok (s\<lparr>current_pcb := Some k\<rparr>)" using assms tr(6) by (simp add: kernel_ok_def)
qed

text \<open>The kernel maps the program page and the page of the user's video memory only; neither is the page of address 0.\<close>

lemma kernel_map:
  fixes s :: "'a kernel_scheme"
  assumes "kernel_ok s"
  shows "kernel_ok (map_page VIRTUAL_FILE_PAGE p s)" "kernel_ok (map_w_pt USER_VID_MEM p s)" "kernel_ok (map_video_w_pt USER_VID_MEM p s)"
proof -
  note defs = tasks_ok_def procs_ok_def proc_table_ok_def dentries_wf_def get_cur_term_def get_curr_exec_term_def
  let ?v = "VIRTUAL_FILE_PAGE"
  have ok: "tasks_ok s" "paging_wf s" using assms by (simp_all add: kernel_ok_def tasks_ok_def)
  have pg: "paging_wf (map_page ?v p s)" "paging_wf (map_w_pt USER_VID_MEM p s)"
    using ok(2) big.wf_map [of s ?v p] vid.wf_map [of s USER_VID_MEM p] by (simp_all add: USER_VID_MEM_def)
  have fs: "fs_wf (map_page ?v p s) = fs_wf s" "fs_wf (map_w_pt USER_VID_MEM p s) = fs_wf s"
    by (rule files_only; simp add: map_page_def map_w_pt_def flush_tlb_def)+
  have "tasks_ok (map_page ?v p s)" "tasks_ok (map_w_pt USER_VID_MEM p s)"
    using ok(1) fs pg by (simp_all add: defs) (simp_all add: map_page_def map_w_pt_def flush_tlb_def)
  moreover have "translate True (map_page ?v p s) 0 = translate True s 0"
    by (rule big.miss [OF ok(2)]) (simp_all add: VIRTUAL_FILE_PAGE_def drop_bit_eq_div)
  moreover have "translate True (map_w_pt USER_VID_MEM p s) 0 = translate True s 0"
    unfolding USER_VID_MEM_def by (rule map_w_pt_miss [OF ok(2)]) (simp add: drop_bit_eq_div)
  ultimately show 1: "kernel_ok (map_page ?v p s)" "kernel_ok (map_w_pt USER_VID_MEM p s)"
    using assms by (simp_all add: kernel_ok_def) (simp_all add: map_page_def map_w_pt_def flush_tlb_def)
  show "kernel_ok (map_video_w_pt USER_VID_MEM p s)" unfolding map_video_eq by (rule 1)
qed

text \<open>An update of a control block that keeps its shape.\<close>

definition pcb_keeps :: "(pcb \<Rightarrow> pcb option) \<Rightarrow> bool" where
  "pcb_keeps f \<longleftrightarrow> (\<forall>b b'. pcb_ok b \<longrightarrow> f b = Some b' \<longrightarrow> pcb_ok b')"

lemma kernel_upd_pcb:
  assumes "upd_pcb p f s = Some s'" and "kernel_ok s" and "pcb_keeps f"
  shows "kernel_ok s'" "unat p < NUM_PROCESSES"
proof -
  obtain b where b: "unat p < length (pcbs s)" "f (pcbs s ! unat p) = Some b" "s' = s\<lparr>pcbs := (pcbs s)[unat p := b]\<rparr>"
    using assms(1) by (auto simp: upd_pcb_def the_pcb_def bind_eq_Some_conv dest!: aget_SomeD)
  have s: "length (pcbs s) = NUM_PROCESSES" "\<forall>b \<in> set (pcbs s). pcb_ok b" using assms(2) by (simp_all add: kernel_ok_def tasks_ok_def procs_ok_def)
  have "pcb_ok b" using assms(3) b(1,2) s(2) unfolding pcb_keeps_def by (meson nth_mem)
  then show "kernel_ok s'" using b(3) s list_update_pcbs_ok [of "pcbs s" b] by (simp add: kernel_upd(5) [OF assms(2)])
  show "unat p < NUM_PROCESSES" using b(1) s(1) by simp
qed

lemma pcb_keeps_upd_fd:
  assumes "\<And>d. fd_flags d < 6 \<Longrightarrow> fd_flags (f d) < 6"
  shows "pcb_keeps (upd_fd i f)"
  unfolding pcb_keeps_def
proof (intro allI impI)
  fix b b'
  assume b: "pcb_ok b" "upd_fd i f b = Some b'"
  then have i: "i < length (FDs_array b)" and b': "b' = b\<lparr>FDs_array := (FDs_array b)[i := f (FDs_array b ! i)]\<rparr>"
    by (auto simp: upd_fd_def bind_eq_Some_conv dest!: aget_SomeD)
  have "fd_flags (f (FDs_array b ! i)) < 6" using b(1) i by (intro assms) (simp add: pcb_ok_def)
  moreover have "set (FDs_array b') \<subseteq> insert (f (FDs_array b ! i)) (set (FDs_array b))" using b' set_update_subset_insert by simp
  ultimately have "\<forall>d \<in> set (FDs_array b'). fd_flags d < 6" using b(1) by (auto simp: pcb_ok_def)
  then show "pcb_ok b'" using b(1) b' by (simp add: pcb_ok_def)
qed

lemma pcb_keeps_bind: "\<lbrakk>pcb_keeps f; pcb_keeps g\<rbrakk> \<Longrightarrow> pcb_keeps (\<lambda>b. do { b \<leftarrow> f b; g b })"
  unfolding pcb_keeps_def bind_eq_Some_conv by blast

lemma strcpy_length: "strcpy d c = Some d' \<Longrightarrow> length d' = length d"
  by (induction d c arbitrary: d' rule: strcpy.induct) (auto split: if_splits)

lemma pcb_keeps_names: "pcb_keeps (\<lambda>b. do { n \<leftarrow> at_off k (\<lambda>r. strcpy r fname) (pcb_names b); Some (b\<lparr>pcb_names := n\<rparr>) })"
  by (auto simp: pcb_keeps_def at_off_def pcb_ok_def bind_eq_Some_conv dest!: strcpy_length split: if_splits)

lemma pcb_keeps_regs:
  "pcb_keeps (\<lambda>b. Some (b\<lparr>EBP0 := x, ESP0 := y\<rparr>))" "pcb_keeps (\<lambda>b. Some (b\<lparr>PPID := x, PID := y\<rparr>))"
  "pcb_keeps (\<lambda>b. Some (b\<lparr>EBP_SWITCH := x, ESP_SWITCH := y\<rparr>))"
  by (simp_all add: pcb_keeps_def pcb_ok_def)

section \<open>Descriptors\<close>

lemma close_keeps: "\<lbrakk>sys_close fd s = Some (r, s'); kernel_ok s\<rbrakk> \<Longrightarrow> kernel_ok s'"
  by (auto simp: sys_close_def bind_eq_Some_conv NOT_SET_def intro!: pcb_keeps_upd_fd elim!: kernel_upd_pcb(1) split: if_splits)

lemma open_loop_keeps: "\<lbrakk>open_loop fname d i s = Some (r, s'); kernel_ok s\<rbrakk> \<Longrightarrow> kernel_ok s'"
proof (induction fname d i s rule: open_loop.induct)
  case (1 fname d i s)
  have fd: "pcb_keeps (upd_fd i (\<lambda>d. d\<lparr>fd_inode := x, fd_position := 0, fd_flags := DIRFLAG\<rparr>))"
    "pcb_keeps (upd_fd i (\<lambda>d. d\<lparr>fd_inode := x, fd_position := 0, fd_flags := FILEFLAG\<rparr>))"
    "pcb_keeps (upd_fd i (\<lambda>d. d\<lparr>fd_flags := RTCFLAG, fd_position := 0\<rparr>))" for x
    by (rule pcb_keeps_upd_fd; simp add: flag_defs)+
  show ?case
  proof (cases "i < 8")
    case False
    then show ?thesis using 1(2,3) by (simp add: open_loop.simps [of _ _ i])
  next
    case True
    then obtain b e where be: "the_pcb (curr_process s) s = Some b" "aget (FDs_array b) i = Some e"
      using 1(2) by (auto simp: open_loop.simps [of _ _ i] bind_eq_Some_conv)
    show ?thesis
    proof (cases "fd_flags e = NOT_SET")
      case False
      then show ?thesis using 1(1) [OF True be False _ 1(3)] 1(2) be True by (simp add: open_loop.simps [of _ _ i])
    next
      case free: True
      show ?thesis
        using 1(2,3) be True free kernel_upd_pcb(1) [OF _ 1(3) fd(3)] kernel_upd_pcb(1) [OF _ 1(3) pcb_keeps_bind [OF fd(1) pcb_keeps_names]]
          kernel_upd_pcb(1) [OF _ 1(3) pcb_keeps_bind [OF fd(2) pcb_keeps_names]]
        by (auto simp: open_loop.simps [of _ _ i] bind_eq_Some_conv split: if_splits)
    qed
  qed
qed

lemma open_keeps: "\<lbrakk>sys_open d fname s = Some (r, s'); kernel_ok s\<rbrakk> \<Longrightarrow> kernel_ok s'"
  by (auto simp: sys_open_def bind_eq_Some_conv STDINFLAG_def STDOUTFLAG_def intro!: pcb_keeps_upd_fd elim!: kernel_upd_pcb(1)
      dest: open_loop_keeps split: if_splits)

lemma read_keeps: "\<lbrakk>sys_read d fd buf n s = Some (r, b, s'); kernel_ok s\<rbrakk> \<Longrightarrow> kernel_ok s'"
proof -
  assume ok: "kernel_ok s" and read: "sys_read d fd buf n s = Some (r, b, s')"
  have "kernel_ok s'" if "call_read f d fd bs n s = Some (r, bs', s')" for f bs bs'
  proof (cases "f = File_read_setup")
    case True
    then show ?thesis using that ok
      by (auto simp: call_read_def file_read_setup_def bind_eq_Some_conv intro!: pcb_keeps_upd_fd elim!: kernel_upd_pcb(1))
  next
    case False
    then have "core s' = core s" using that by (auto simp: call_read_def bind_eq_Some_conv dest: core_frame split: fop.splits)
    then show ?thesis using ok core_kernel by blast
  qed
  then show "kernel_ok s'" using read ok by (auto simp: sys_read_def bind_eq_Some_conv split: option.splits if_splits)
qed

lemma write_keeps: "\<lbrakk>sys_write fd buf n s = Some (r, s'); kernel_ok s\<rbrakk> \<Longrightarrow> kernel_ok s'"
proof -
  assume ok: "kernel_ok s" and wr: "sys_write fd buf n s = Some (r, s')"
  have "core s' = core s" if "call_write f bs n s = Some (r, s')" for f bs
    using that by (cases f) (auto simp: call_write_def dest: core_frame)
  then have "core s' = core s" using wr by (auto simp: sys_write_def bind_eq_Some_conv split: option.splits if_splits)
  then show "kernel_ok s'" using ok core_kernel by blast
qed

lemma vidmap_keeps: "kernel_ok s \<Longrightarrow> kernel_ok (snd (snd (vidmap a s)))"
  by (simp add: vidmap_def kernel_map)

section \<open>Execute and halt\<close>

lemma kernel_core_step: "\<lbrakk>core s' = core s; kernel_ok s\<rbrakk> \<Longrightarrow> kernel_ok s'" for s s' :: "'a kernel_scheme"
  using core_kernel by blast

lemma core_store_virt: "store_virt va bs s = Some s' \<Longrightarrow> core s' = core s"
  by (induction va bs s rule: store_virt.induct) (auto simp: bind_eq_Some_conv)

lemma core_cur_terminal: "upd_cur_terminal f s = Some s' \<Longrightarrow> core s' = core s"
  by (auto simp: upd_cur_terminal_def dest: core_upd_term split: if_splits)

lemma pcb_keeps_fresh:
  "pcb_keeps (\<lambda>b. do {
       d \<leftarrow> aget (fresh_fds (FDs_array b)) 0;
       t \<leftarrow> aset (fresh_fds (FDs_array b)) 0 (d\<lparr>fd_flags := STDINFLAG\<rparr>);
       d \<leftarrow> aget t 1;
       t \<leftarrow> aset t 1 (d\<lparr>fd_flags := STDOUTFLAG\<rparr>);
       Some (b\<lparr>FDs_array := t\<rparr>) })"
proof -
  have "pcb_ok (b\<lparr>FDs_array := std_fds\<rparr>)" if "pcb_ok b" for b
    using program_pcb_ok [OF that] that by (simp add: pcb_ok_def program_pcb_def)
  then show ?thesis
    using fresh_fds_std by (auto simp: pcb_keeps_def bind_eq_Some_conv pcb_ok_def dest!: aget_SomeD aset_SomeD)
qed

lemma enter_keeps: "\<lbrakk>execute_enter fr p ino start s = Some (oc, s'); kernel_ok s\<rbrakk> \<Longrightarrow> kernel_ok s'"
proof -
  assume ok: "kernel_ok s" and run: "execute_enter fr p ino start s = Some (oc, s')"
  let ?m = "map_page VIRTUAL_FILE_PAGE (PHYS_FILE_START + PHYS_FILE_OFFSET * p) s"
  obtain out s1 s2 s3 where s1: "store_virt VIRTUAL_FILE_START out ?m = Some s1"
    and s2: "upd_pcb p (\<lambda>b. Some (b\<lparr>EBP0 := fr_ebp fr, ESP0 := fr_esp fr\<rparr>))
      (s1\<lparr>tss_ss0 := KERNEL_DS, tss_esp0 := PHYS_FILE_START - EIGHT_KB * p - 4\<rparr>) = Some s2"
    and s3: "upd_cur_terminal (\<lambda>t. t\<lparr>tm_ESP := fr_esp fr, tm_EBP := fr_ebp fr\<rparr>) s2 = Some s3" "s' = sti s3"
    using run by (auto simp: execute_enter_def bind_eq_Some_conv Let_def)
  have "kernel_ok s1" using core_store_virt [OF s1] kernel_map(1) [OF ok] by (rule kernel_core_step)
  then have "kernel_ok s2" by (intro kernel_upd_pcb(1) [OF s2 _ pcb_keeps_regs(1)]) (simp add: core_kernel [OF core_hw(12)])
  then show "kernel_ok s'" using core_cur_terminal [OF s3(1)] s3(2) kernel_core_step core_hw(3) by metis
qed

lemma load_keeps: "\<lbrakk>execute_load fr p ino buffer s = Some (oc, s'); kernel_ok s\<rbrakk> \<Longrightarrow> kernel_ok s'"
proof -
  assume ok: "kernel_ok s" and run: "execute_load fr p ino buffer s = Some (oc, s')"
  from run obtain start s1 s2 s3 s4 parent and t :: terminal where
    s1: "(if tm_active t = 0 then upd_cur_terminal (\<lambda>t. t\<lparr>tm_active := 1\<rparr>) s else Some s) = Some s1"
    and s2: "upd_pcb p (\<lambda>b. Some (b\<lparr>PPID := parent, PID := p\<rparr>)) s1 = Some s2"
    and s3: "set_curr_process (sint p) (s2\<lparr>curr_process := p\<rparr>) = Some s3"
    and s4: "upd_pcb p (\<lambda>b. do {
       d \<leftarrow> aget (fresh_fds (FDs_array b)) 0;
       t \<leftarrow> aset (fresh_fds (FDs_array b)) 0 (d\<lparr>fd_flags := STDINFLAG\<rparr>);
       d \<leftarrow> aget t 1;
       t \<leftarrow> aset t 1 (d\<lparr>fd_flags := STDOUTFLAG\<rparr>);
       Some (b\<lparr>FDs_array := t\<rparr>) }) s3 = Some s4"
    and s': "execute_enter fr p ino start s4 = Some (oc, s')"
    unfolding execute_load_def Let_def by (auto simp: bind_eq_Some_conv)
  have "core s1 = core s" using s1 core_cur_terminal by (auto split: if_splits)
  then have "kernel_ok s1" using ok by (rule kernel_core_step)
  then have "kernel_ok s2" "unat p < NUM_PROCESSES" using kernel_upd_pcb [OF s2 _ pcb_keeps_regs(2)] by blast+
  then have "kernel_ok (s2\<lparr>curr_process := p\<rparr>)" by (rule kernel_upd(1))
  moreover have "core s3 = core (s2\<lparr>curr_process := p\<rparr>)" using s3 core_upd_term by (simp add: set_curr_process_def)
  ultimately have "kernel_ok s3" using kernel_core_step by blast
  then have "kernel_ok s4" by (rule kernel_upd_pcb(1) [OF s4 _ pcb_keeps_fresh])
  then show "kernel_ok s'" by (rule enter_keeps [OF s'])
qed

lemma copy_args_length: "copy_args command a i args = Some (j, args') \<Longrightarrow> length args' = length args"
  by (induction command a i args rule: copy_args.induct)
    (subst (asm) copy_args.simps, auto simp: bind_eq_Some_conv dest!: aset_SomeD split: if_splits)

lemma kernel_slot: "kernel_ok s \<Longrightarrow> kernel_ok (s\<lparr>process_array := (process_array s)[i := v]\<rparr>)"
  by (rule kernel_upd(4)) (simp_all add: kernel_ok_def tasks_ok_def proc_table_ok_def)

lemma get_process_range: "get_process s = Some (r, s') \<Longrightarrow> nat r < NUM_PROCESSES"
proof -
  have "get_process_loop i s = Some (r, s') \<Longrightarrow> nat r < NUM_PROCESSES" for i
    by (induction i s rule: get_process_loop.induct)
      (subst (asm) (2) get_process_loop.simps, auto simp: bind_eq_Some_conv NUM_PROCESSES_def split: if_splits)
  then show "get_process s = Some (r, s') \<Longrightarrow> nat r < NUM_PROCESSES" by (simp add: get_process_def)
qed

lemma get_process_keeps: "\<lbrakk>get_process s = Some (r, s'); kernel_ok s\<rbrakk> \<Longrightarrow> kernel_ok s'"
proof -
  have "kernel_ok s \<Longrightarrow> get_process_loop i s = Some (r, s') \<Longrightarrow> kernel_ok s'" for i
    by (induction i s rule: get_process_loop.induct)
      (subst (asm) (2) get_process_loop.simps, auto simp: bind_eq_Some_conv intro: kernel_slot split: if_splits)
  then show "\<lbrakk>get_process s = Some (r, s'); kernel_ok s\<rbrakk> \<Longrightarrow> kernel_ok s'" by (simp add: get_process_def)
qed

lemma clear_process_keeps: "kernel_ok s \<Longrightarrow> kernel_ok (clear_process s)"
  unfolding clear_process_def by (rule kernel_upd(4)) (simp_all add: kernel_ok_def tasks_ok_def proc_table_ok_def)

lemma pcb_keeps_args:
  "pcb_keeps (\<lambda>b. do {
         (i, args) \<leftarrow> copy_args command a i (pcb_args b);
         args \<leftarrow> aset args (i - a) 0;
         Some (b\<lparr>pcb_args := args\<rparr>) })"
  by (auto simp: pcb_keeps_def pcb_ok_def bind_eq_Some_conv dest!: copy_args_length aset_SomeD)

lemma execute_keeps: "\<lbrakk>execute fr command s = Some (oc, s'); kernel_ok s\<rbrakk> \<Longrightarrow> kernel_ok s'"
proof -
  assume ok: "kernel_ok s" and run: "execute fr command s = Some (oc, s')"
  from run obtain np s1 where gp: "get_process (cli s) = Some (np, s1)"
    and cont: "(\<exists>r. puts (cstr ''too many processes\<newline>'') s1 = Some (r, s')) \<or>
      (\<exists>a i s2. upd_pcb (of_int np) (\<lambda>b. do {
         (i, args) \<leftarrow> copy_args command a i (pcb_args b);
         args \<leftarrow> aset args (i - a) 0;
         Some (b\<lparr>pcb_args := args\<rparr>) }) (s1\<lparr>current_pcb := Some (nat np)\<rparr>) = Some s2 \<and>
       (s' = clear_process s2 \<or> s' = s2 \<or> (\<exists>ino buf. execute_load fr (of_int np) ino buf s2 = Some (oc, s'))))"
    unfolding execute_def Let_def bind_eq_Some_conv
    by (clarsimp simp: bind_eq_Some_conv split: if_splits) blast+
  have "kernel_ok s1" using get_process_keeps [OF gp] ok kernel_core_step [OF core_hw(2)] by blast
  from cont show "kernel_ok s'"
  proof (elim disjE exE conjE)
    fix r
    assume "puts (cstr ''too many processes\<newline>'') s1 = Some (r, s')"
    then show ?thesis using core_puts \<open>kernel_ok s1\<close> kernel_core_step by blast
  next
    fix a i s2
    assume s2: "upd_pcb (of_int np) (\<lambda>b. do {
         (i, args) \<leftarrow> copy_args command a i (pcb_args b);
         args \<leftarrow> aset args (i - a) 0;
         Some (b\<lparr>pcb_args := args\<rparr>) }) (s1\<lparr>current_pcb := Some (nat np)\<rparr>) = Some s2"
    have "kernel_ok (s1\<lparr>current_pcb := Some (nat np)\<rparr>)" using kernel_upd(6) [OF \<open>kernel_ok s1\<close> get_process_range [OF gp]] .
    then have ok2: "kernel_ok s2" by (rule kernel_upd_pcb(1) [OF s2 _ pcb_keeps_args])
    show ?thesis if "s' = clear_process s2" using clear_process_keeps [OF ok2] that by simp
    show ?thesis if "s' = s2" using ok2 that by simp
    show ?thesis if "execute_load fr (of_int np) ino buf s2 = Some (oc, s')" for ino buf using load_keeps [OF that ok2] .
  qed
qed

lemma close_loop_keeps: "\<lbrakk>close_loop i p s = Some s'; kernel_ok s\<rbrakk> \<Longrightarrow> kernel_ok s'"
proof (induction i p s rule: close_loop.induct)
  case (1 i p s)
  show ?case
  proof (cases "i < MAX_FILE")
    case False
    then show ?thesis using 1(2,3) by (simp add: close_loop.simps [of i])
  next
    case True
    then obtain b d t where t: "the_pcb p s = Some b" "aget (FDs_array b) i = Some d"
      "(if fd_flags d \<noteq> 0 then map_option snd (sys_close (int i) s) else Some s) = Some t" "close_loop (Suc i) p t = Some s'"
      using 1(2) by (auto simp: close_loop.simps [of i] bind_eq_Some_conv)
    have "kernel_ok t" using t(3) close_keeps 1(3) by (fastforce split: if_splits)
    then show ?thesis using 1(1) [OF True t(1-3)] t(4) by blast
  qed
qed

lemma close_loop_slot: "close_loop 2 p s = Some s' \<Longrightarrow> unat p < length (pcbs s)"
  by (auto simp: close_loop.simps [of 2] MAX_FILE_def the_pcb_def bind_eq_Some_conv dest!: aget_SomeD)

lemma halt_tail_keeps: "\<lbrakk>halt_tail eax child s = Some (oc, s'); kernel_ok s\<rbrakk> \<Longrightarrow> kernel_ok s'"
proof -
  assume ok: "kernel_ok s" and run: "halt_tail eax child s = Some (oc, s')"
  from run obtain q e s1 where s1: "set_curr_process (sint q) (s\<lparr>tss_esp0 := e, curr_process := q\<rparr>) = Some s1"
    and s': "close_loop 2 q (map_page VIRTUAL_FILE_PAGE (PHYS_FILE_START + PHYS_FILE_OFFSET * q) s1) = Some s'"
    by (auto simp: halt_tail_def bind_eq_Some_conv Let_def)
  have core1: "core s1 = core (s\<lparr>curr_process := q\<rparr>)" using s1 by (auto simp: set_curr_process_def core_def dest!: core_upd_term)
  have "unat q < length (pcbs s1)" using close_loop_slot [OF s'] by (simp add: map_page_def flush_tlb_def)
  then have "unat q < NUM_PROCESSES" using core1 ok by (simp add: core_def kernel_ok_def tasks_ok_def procs_ok_def)
  then have "kernel_ok s1" using core1 kernel_upd(1) [OF ok] kernel_core_step by blast
  then show "kernel_ok s'" using close_loop_keeps [OF s'] kernel_map(1) by blast
qed

lemma halt_keeps: "\<lbrakk>halt_body fr eax s = Some (oc, s'); kernel_ok s\<rbrakk> \<Longrightarrow> kernel_ok s'"
proof -
  assume ok: "kernel_ok s" and run: "halt_body fr eax s = Some (oc, s')"
  from run obtain s1 and b :: pcb where s1: "end_process (curr_process s) s = Some s1"
    and cont: "(if PPID b = - 1 then do {
       s \<leftarrow> upd_cur_terminal (\<lambda>t. t\<lparr>tm_active := 0\<rparr>) s1;
       (oc, s) \<leftarrow> execute fr (cstr ''shell'' @ [0]) s;
       case oc of Returned _ \<Rightarrow> halt_tail eax (curr_process s1) s | _ \<Rightarrow> Some (oc, s)
     } else halt_tail eax (curr_process s1) s1) = Some (oc, s')"
    unfolding halt_body_def bind_eq_Some_conv Let_def by blast
  have ok1: "kernel_ok s1" using s1 kernel_slot [OF ok] by (auto simp: end_process_def bind_eq_Some_conv dest!: aset_SomeD)
  show "kernel_ok s'"
  proof (cases "PPID b = - 1")
    case False
    then show ?thesis using cont halt_tail_keeps [OF _ ok1] by simp
  next
    case True
    then obtain s2 oc' s3 where s2: "upd_cur_terminal (\<lambda>t. t\<lparr>tm_active := 0\<rparr>) s1 = Some s2"
      and s3: "execute fr (cstr ''shell'' @ [0]) s2 = Some (oc', s3)"
      and fin: "(case oc' of Returned _ \<Rightarrow> halt_tail eax (curr_process s1) s3 | _ \<Rightarrow> Some (oc', s3)) = Some (oc, s')"
      using cont by (auto simp del: append_Cons append_Nil simp: bind_eq_Some_conv)
    have "kernel_ok s3" using execute_keeps [OF s3] kernel_core_step [OF core_cur_terminal [OF s2] ok1] .
    then show ?thesis using fin halt_tail_keeps by (auto split: outcome.splits)
  qed
qed

lemma die_keeps: "\<lbrakk>die fr s = Some (oc, s'); kernel_ok s\<rbrakk> \<Longrightarrow> kernel_ok s'"
proof -
  assume run: "die fr s = Some (oc, s')" and ok: "kernel_ok s"
  then obtain oc' t where t: "halt_body fr 256 s = Some (oc', t)" "(case oc' of Returned _ \<Rightarrow> None | _ \<Rightarrow> Some (oc', t)) = Some (oc, s')"
    by (auto simp: die_def halt_from_exc_def bind_eq_Some_conv)
  then have "s' = t" by (cases oc') auto
  then show "kernel_ok s'" using halt_keeps [OF t(1) ok] by simp
qed

lemma exception_keeps: "\<lbrakk>exception v conv_buf fr s = Some (oc, s'); length conv_buf = 64; kernel_ok s\<rbrakk> \<Longrightarrow> kernel_ok s'"
  using die_keeps [OF _ kernel_core_step [OF core_putc(2)]] exception_prints exception_vector by metis

section \<open>Switching\<close>

definition stack_ok :: "switch_frame \<Rightarrow> bool" where
  "stack_ok sf \<longleftrightarrow> 0x700000 \<le> sw_var sf"

lemma local_vidmap_eq: "stack_ok sf \<Longrightarrow> local_vidmap sf s = (USER_VID_MEM, map_w_pt USER_VID_MEM VIDEO s)"
  by (auto simp: stack_ok_def local_vidmap_def vidmap_def)

lemma core_save: "save_terminal_state s = Some s' \<Longrightarrow> core s' = core s"
  by (auto simp: save_terminal_state_def bind_eq_Some_conv Let_def dest!: core_upd_term split: if_splits)

lemma core_restore: "restore_terminal_state t s = Some s' \<Longrightarrow> core s' = core s" for s s' :: "'a kernel_scheme"
  by (auto simp: restore_terminal_state_def bind_eq_Some_conv Let_def set_keyboard_index_def set_keyboard_last_index_def core_def update_cursor_def
      outb_def split: if_splits)

lemma save_switch_keeps: "\<lbrakk>save_switch sf k s = Some s'; kernel_ok s\<rbrakk> \<Longrightarrow> kernel_ok s'"
  unfolding save_switch_def by (rule kernel_upd_pcb(1) [OF _ _ pcb_keeps_regs(3)])

lemma slot_number: "\<lbrakk>0 \<le> n; nat n < NUM_PROCESSES\<rbrakk> \<Longrightarrow> unat (ucast (of_int n :: byte) :: u32) < NUM_PROCESSES"
proof -
  assume n: "0 \<le> n" "nat n < NUM_PROCESSES"
  then have "of_int n = (of_nat (nat n) :: byte)" by simp
  then show "unat (ucast (of_int n :: byte) :: u32) < NUM_PROCESSES"
    using n(2) by (simp add: NUM_PROCESSES_def unsigned_ucast_eq unsigned_of_nat take_bit_nat_eq_self)
qed

lemma switch_to_keeps:
  assumes "switch_to screen_addr sf USER_VID_MEM s = Some (r, s')" and "kernel_ok s"
  shows "kernel_ok s'"
proof -
  let ?k = "get_curr_exec_term s"
  from assms(1) obtain s1 q s3 kk u m ss e and new :: terminal where
    s1: "upd_term ?k (\<lambda>t. t\<lparr>tm_screen := attrib_loop (tm_screen t)\<rparr>) s = Some s1"
    and q: "get_pcb_pointer (tm_current_process new) (s1\<lparr>curr_task := of_int (tm_current_process new)\<rparr>) = Some q"
    and m: "m = map_page VIRTUAL_FILE_PAGE (PHYS_FILE_START + PHYS_FILE_OFFSET * ucast (of_int (tm_current_process new) :: byte))
      (s1\<lparr>curr_task := of_int (tm_current_process new), current_pcb := Some q, curr_process := ucast (of_int (tm_current_process new) :: byte)\<rparr>)"
    and u: "u = m \<or> (\<exists>a. u = map_video_w_pt USER_VID_MEM a m)"
    and s3: "save_switch sf kk (u\<lparr>tss_ss0 := ss, tss_esp0 := e\<rparr>) = Some s3" and s': "s' = sti s3"
    unfolding switch_to_def Let_def by (clarsimp simp: bind_eq_Some_conv split: if_splits) blast+
  let ?p = "ucast (of_int (tm_current_process new) :: byte) :: u32"
  let ?t = "s1\<lparr>curr_task := of_int (tm_current_process new), current_pcb := Some q, curr_process := ?p\<rparr>"
  have ok1: "kernel_ok s1" by (rule kernel_core_step [OF core_upd_term [OF s1] assms(2)])
  then have p: "unat ?p < NUM_PROCESSES" "q < NUM_PROCESSES"
    using q slot_number by (auto simp: get_pcb_pointer_def kernel_ok_def tasks_ok_def procs_ok_def split: if_splits)
  have "kernel_ok (s1\<lparr>current_pcb := Some q, curr_process := ?p\<rparr>)" by (intro kernel_upd p ok1)
  then have "kernel_ok ?t" using kernel_core_step [of ?t "s1\<lparr>current_pcb := Some q, curr_process := ?p\<rparr>"] by (simp add: core_def)
  then have "kernel_ok u" using u m kernel_map by blast
  then have "kernel_ok s3" by (intro save_switch_keeps [OF s3]) (simp add: core_kernel [OF core_hw(12)])
  then show ?thesis using s' kernel_core_step [OF core_hw(3)] by blast
qed

lemma switch_task_keeps:
  assumes "switch_task past screen_addr sf s = Some (r, s')" and "stack_ok sf" and "kernel_ok s"
  shows "kernel_ok s'"
proof -
  obtain k t where t: "switch_to screen_addr sf USER_VID_MEM (map_w_pt USER_VID_MEM VIDEO t) = Some (r, s')"
    "core t = core (s\<lparr>curr_term := k\<rparr>)" "curr_term t = k"
    using assms(1) unfolding switch_task_def Let_def local_vidmap_eq [OF assms(2)]
    by (clarsimp simp: bind_eq_Some_conv) (force simp: core_def cli_def irq_unfold outb_def)
  let ?m = "map_w_pt USER_VID_MEM VIDEO t"
  have "get_curr_exec_term ?m < length (terminals ?m)"
    using t(1) by (auto simp: switch_to_def upd_term_def Let_def bind_eq_Some_conv split: if_splits)
  then have "unat k < 3" using t(2) assms(3) by (simp add: get_curr_exec_term_def map_w_pt_def flush_tlb_def core_def kernel_ok_def tasks_ok_def)
  then have "kernel_ok t" using t(2) kernel_upd(3) [OF assms(3)] kernel_core_step by blast
  then show ?thesis using switch_to_keeps [OF t(1)] kernel_map(2) by blast
qed

lemma switch_terminal_keeps:
  assumes "switch_terminal screen_addr sf fr newt s = Some (oc, s')" and "stack_ok sf" and "kernel_ok s"
  shows "kernel_ok s'"
proof -
  let ?stay = "newt = curr_terminal_number s \<or> newt > 2"
  obtain t where t: "\<not> ?stay \<Longrightarrow> 0 \<le> newt \<and> aget (terminals s) (nat newt) = Some t"
    using assms(1) by (cases ?stay) (auto simp: switch_terminal_def bind_eq_Some_conv split: if_splits)
  consider (stay) ?stay | (start) "\<not> ?stay" "tm_active t = 0" | (swap) "\<not> ?stay" "tm_active t \<noteq> 0" by blast
  then show ?thesis
  proof cases
    case stay
    then show ?thesis using assms by (auto simp: switch_terminal_def split: if_splits)
  next
    case start
    then have n: "0 \<le> newt" "newt < 3" "unat (of_int newt :: byte) < 3" using t by (auto simp: unsigned_of_int take_bit_int_eq_self nat_less_iff)
    obtain s1 q s2 s3 oc' s4 where s1: "save_terminal_state s = Some s1" and s2: "save_switch sf q (s1\<lparr>curr_terminal_number := newt\<rparr>) = Some s2"
      and s3: "clear_screen (set_curr_exec_term newt s2) = Some s3" and s4: "execute fr (cstr ''shell'' @ [0]) s3 = Some (oc', s4)" and "s' = s4"
      using assms(1) start t unfolding switch_terminal_def by (clarsimp simp: bind_eq_Some_conv Let_def) (force split: outcome.splits)
    have "kernel_ok s1" by (rule kernel_core_step [OF core_save [OF s1] assms(3)])
    then have "kernel_ok s2" using save_switch_keeps [OF s2] kernel_upd(2) [OF _ n(1,2)] by blast
    then have "kernel_ok (set_curr_exec_term newt s2)" using kernel_upd(3) [OF _ n(3)] by (simp add: set_curr_exec_term_def)
    then show ?thesis using execute_keeps [OF s4] kernel_core_step [OF core_clear [OF s3]] \<open>s' = s4\<close> by blast
  next
    case swap
    then have n: "0 \<le> newt" "newt < 3" using t by auto
    obtain s1 s2 where s1: "save_terminal_state s = Some s1" and s2: "restore_terminal_state newt s1 = Some s2"
      and s': "s' = (let u = map_w_pt USER_VID_MEM VIDEO (s2\<lparr>curr_terminal_number := newt\<rparr>) in
        if int (get_curr_exec_term u) \<noteq> curr_terminal_number u then map_video_w_pt USER_VID_MEM (screen_addr (nat (curr_terminal_number u))) u else u)"
      using assms(1) swap t unfolding switch_terminal_def by (auto simp: bind_eq_Some_conv Let_def local_vidmap_eq [OF assms(2)])
    have "kernel_ok s2" using kernel_core_step [OF core_restore [OF s2]] kernel_core_step [OF core_save [OF s1] assms(3)] by blast
    then have "kernel_ok (s2\<lparr>curr_terminal_number := newt\<rparr>)" using kernel_upd(2) n by blast
    then show ?thesis unfolding s' by (simp add: Let_def kernel_map)
  qed
qed

section \<open>The keyboard interrupt\<close>

lemma core_kbd_fields [simp]:
  "core (s\<lparr>keyboard_buf := b, last_idx := l\<rparr>) = core s" "core (s\<lparr>keyboard_idx := k\<rparr>) = core s" "core (s\<lparr>last_idx := l\<rparr>) = core s"
  "core (s\<lparr>screen_x := x, screen_y := y, keyboard_idx := k\<rparr>) = core s" "core (s\<lparr>screen_x := x, screen_y := y\<rparr>) = core s"
  "core (s\<lparr>one_line_buf := b\<rparr>) = core s" "core (s\<lparr>my_file_name := f, kb_dentry := d\<rparr>) = core s" "core (s\<lparr>kb_count := n\<rparr>) = core s"
  "core (s\<lparr>kb_dentry := d\<rparr>) = core s" "core (release s) = core s"
  "core (s\<lparr>my_file_name := f\<rparr>) = core s"
  by (simp_all add: core_def release_def sti_def)

lemma core_signal: "signal_enter s = Some s' \<Longrightarrow> core s' = core s"
  by (auto simp: signal_enter_def dest: core_upd_term split: if_splits)

lemma core_store_key: "store_key c a s = Some s' \<Longrightarrow> core s' = core s"
  by (auto simp: store_key_def bind_eq_Some_conv split: if_splits)

lemma core_keys:
  fixes s s' :: "'a kernel_scheme"
  shows "handle_backspace s = Some s' \<Longrightarrow> core s' = core s" "press_enter a s = Some s' \<Longrightarrow> core s' = core s"
    "press_char c a s = Some s' \<Longrightarrow> core s' = core s"
proof -
  show "handle_backspace s = Some s' \<Longrightarrow> core s' = core s"
    by (auto simp: handle_backspace_def bind_eq_Some_conv Let_def dest!: core_keyboard_write split: if_splits)
  show "press_enter a s = Some s' \<Longrightarrow> core s' = core s"
    by (auto simp: press_enter_def bind_eq_Some_conv Let_def dest!: core_signal split: if_splits)
  show "press_char c a s = Some s' \<Longrightarrow> core s' = core s"
    by (auto simp: press_char_def bind_eq_Some_conv Let_def dest!: core_keyboard_write core_store_key core_signal split: if_splits)
qed

lemma core_list_files: "list_files_loop temp n i s = Some s' \<Longrightarrow> core s' = core s" for s s' :: "'a kernel_scheme"
proof (induction temp n i s rule: list_files_loop.induct)
  case (1 temp n i s)
  show ?case
  proof (cases "i < n")
    case False
    then show ?thesis using 1(2) by (simp add: list_files_loop.simps [of _ _ i])
  next
    case True
    then obtain b b' r r' t m u where t: "strncpy (one_line_buf s) (cstr '' '') (NUM_COLS + 1) = Some b" "dir_read temp b s = Some (r, b', t)"
      "strlen b' = Some m" "terminal_write (Some b') (int m) (t\<lparr>one_line_buf := b'\<rparr>) = Some (r', u)"
      "list_files_loop temp n (Suc i) (putc NL u) = Some s'"
      using 1(2) by (auto simp: list_files_loop.simps [of _ _ i] bind_eq_Some_conv Let_def)
    have "core u = core s" using core_dir(2) [OF t(2)] core_terminal_write [OF t(4)] by simp
    then show ?thesis using 1(1) [OF True t(1) t(2) refl refl refl t(3) t(4) refl t(5)] by simp
  qed
qed

lemma core_show:
  fixes s s' :: "'a kernel_scheme"
  shows "show_file vla d s = Some s' \<Longrightarrow> core s' = core s" "show_by_name vla s = Some s' \<Longrightarrow> core s' = core s"
    "show_by_index vla s = Some s' \<Longrightarrow> core s' = core s"
proof -
  show *: "show_file vla d s = Some s' \<Longrightarrow> core s' = core s" for d and s s' :: "'a kernel_scheme"
    by (auto simp: show_file_def bind_eq_Some_conv Let_def dest!: core_terminal_write)
  show "show_by_name vla s = Some s' \<Longrightarrow> core s' = core s"
    by (auto simp: show_by_name_def bind_eq_Some_conv Let_def dest!: * split: if_splits)
  show "show_by_index vla s = Some s' \<Longrightarrow> core s' = core s"
    by (auto simp: show_by_index_def bind_eq_Some_conv Let_def dest!: * split: if_splits)
qed

lemma core_handle_ascii: "handle_ascii temp vla c a s = Some s' \<Longrightarrow> core s' = core s" for s s' :: "'a kernel_scheme"
  by (auto simp: handle_ascii_def bind_eq_Some_conv core_set_rate dest!: core_clear core_list_files core_show core_keys split: if_splits)

lemma core_modifier: "modifier_key c s = Some s' \<Longrightarrow> core s' = core s" for s s' :: "'a kernel_scheme"
  by (auto simp: modifier_key_def core_def split: if_splits)

lemma handle_key_keeps:
  assumes "handle_key screen_addr sf fr temp vla c s = Some (oc, s')" and "stack_ok sf" and "kernel_ok s"
  shows "kernel_ok s'"
proof -
  have "kernel_ok s'" if "switch_terminal screen_addr sf fr n (s\<lparr>kb_lock := 0\<rparr>) = Some (oc', t)" "s' = t \<or> s' = release t" for n oc' t
  proof -
    have "kernel_ok t" using switch_terminal_keeps [OF that(1) assms(2)] kernel_core_step [OF core_hw(4) assms(3)] by blast
    then show ?thesis using that(2) kernel_core_step [OF core_kbd_fields(10)] by blast
  qed
  moreover have "kernel_ok s'" if "s' = release t" "core t = core s" for t
    using that assms(3) kernel_core_step [of s' s] by simp
  moreover have "s' = t \<or> s' = release t" if "(case oc' of Returned _ \<Rightarrow> Some (Returned 0, release t) | _ \<Rightarrow> Some (oc', t)) = Some (oc, s')" for oc' t
    using that by (cases oc') auto
  ultimately show ?thesis
    using assms(1) unfolding handle_key_def
    by (fastforce simp: bind_eq_Some_conv dest: core_keys core_modifier core_handle_ascii split: if_splits option.splits)
qed

lemma keyboard_keeps:
  assumes "keyboard_handler screen_addr sf fr temp vla s = Some (oc, s')" and "stack_ok sf" and "kernel_ok s"
  shows "kernel_ok s'"
proof -
  define t where "t = snd (inb KEYBOARD_STATUS_PORT (send_eoi 1 (cli (s\<lparr>kb_lock := 1\<rparr>))))"
  have "core t = core s" "core (snd (inb KEYBOARD_DATA_PORT t)) = core s" by (simp_all add: t_def)
  then have ok: "kernel_ok (release t)" "kernel_ok (snd (inb KEYBOARD_DATA_PORT t))"
    using assms(3) kernel_core_step core_kbd_fields(10) by metis+
  have "s' = s \<or> s' = release t \<or> (\<exists>c. handle_key screen_addr sf fr temp vla c (snd (inb KEYBOARD_DATA_PORT t)) = Some (oc, s'))"
    using assms(1) by (auto simp: keyboard_handler_def t_def inb_def Let_def split: if_splits)
  then show ?thesis using ok assms(3) handle_key_keeps [OF _ assms(2) ok(2)] by metis
qed

section \<open>Runs of the kernel\<close>

text \<open>One entry into the kernel, with any arguments.  A call whose model has no result, because it waits or because it
  overruns an object, is no step; which calls on descriptors do have one is shown below.\<close>

inductive kernel_step :: "'a kernel_scheme \<Rightarrow> 'a kernel_scheme \<Rightarrow> bool" where
  Read: "sys_read d fd buf n s = Some (r, b, s') \<Longrightarrow> kernel_step s s'"
| Write: "sys_write fd buf n s = Some (r, s') \<Longrightarrow> kernel_step s s'"
| Open: "sys_open d fname s = Some (r, s') \<Longrightarrow> kernel_step s s'"
| Close: "sys_close fd s = Some (r, s') \<Longrightarrow> kernel_step s s'"
| Vidmap: "vidmap a s = (r, v, s') \<Longrightarrow> kernel_step s s'"
| Execute: "execute fr command s = Some (oc, s') \<Longrightarrow> kernel_step s s'"
| Halt: "halt fr status s = Some (oc, s') \<Longrightarrow> kernel_step s s'"
| Exception: "\<lbrakk>exception v conv_buf fr s = Some (oc, s'); length conv_buf = 64\<rbrakk> \<Longrightarrow> kernel_step s s'"
| Clock: "kernel_step s (rtc_handler s)"
| Timer: "kernel_step s (pit_handler s)"
| Task: "\<lbrakk>switch_task past screen_addr sf s = Some (r, s'); stack_ok sf\<rbrakk> \<Longrightarrow> kernel_step s s'"
| Key: "\<lbrakk>keyboard_handler screen_addr sf fr temp vla s = Some (oc, s'); stack_ok sf\<rbrakk> \<Longrightarrow> kernel_step s s'"

lemma kernel_step_keeps: "kernel_step s s' \<Longrightarrow> kernel_ok s \<Longrightarrow> kernel_ok s'"
proof (induction rule: kernel_step.induct)
  case (Vidmap a s r v s')
  then show ?case using vidmap_keeps [of s a] by simp
next
  case (Halt fr status s oc s')
  then show ?case using halt_keeps by (auto simp: halt_def)
next
  case (Clock s)
  then show ?case by (rule kernel_core_step [OF core_rtc(3)])
next
  case (Timer s)
  then show ?case by (rule kernel_core_step [OF core_rtc(4)])
qed (auto dest: read_keeps write_keeps open_keeps close_keeps execute_keeps exception_keeps switch_task_keeps keyboard_keeps)

section \<open>Calls in a state that satisfies the invariant\<close>

text \<open>The pair of functions behind a descriptor of the block that \<^verbatim>\<open>read\<close> and \<^verbatim>\<open>write\<close> use.\<close>

definition fd_ops :: "int \<Rightarrow> 'a kernel_scheme \<Rightarrow> fop \<times> fop" where
  "fd_ops fd s = the (std_fops ! fd_flags (FDs_array (pcbs s ! the (current_pcb s)) ! nat fd))"

lemma std_fops_total: "k < 6 \<Longrightarrow> std_fops ! k \<noteq> None"
  by (simp add: std_fops_def nth_Cons' split: if_splits)

lemma kernel_descriptor:
  assumes "kernel_ok s" and "0 \<le> fd" and "fd < int MAX_FILE"
  shows "\<exists>k b d. current_pcb s = Some k \<and> aget (pcbs s) k = Some b \<and> aget (FDs_array b) (nat fd) = Some d \<and>
    aget (fops_table s) (fd_flags d) = Some (Some (fd_ops fd s)) \<and> Some (fd_ops fd s) \<in> set std_fops"
proof -
  obtain k where k: "k < NUM_PROCESSES" "current_pcb s = Some k" using assms(1) by (auto simp: kernel_ok_def)
  let ?b = "pcbs s ! k" and ?d = "FDs_array (pcbs s ! k) ! nat fd"
  have s: "fops_table s = std_fops" "k < length (pcbs s)" "pcb_ok ?b"
    using assms(1) k(1) by (auto simp: kernel_ok_def tasks_ok_def procs_ok_def)
  then have b: "nat fd < length (FDs_array ?b)" "fd_flags ?d < 6" using assms(2,3) by (auto simp: pcb_ok_def)
  have "std_fops ! fd_flags ?d = Some (fd_ops fd s)" using std_fops_total [OF b(2)] k(2) by (auto simp: fd_ops_def)
  moreover have "fd_flags ?d < length std_fops" using b(2) by (simp add: std_fops_def)
  ultimately show ?thesis using s b(1) k(2) by (metis aget_def nth_mem)
qed

lemma kernel_read:
  assumes "kernel_ok s"
  shows "sys_read d fd buf n s =
    (case buf of None \<Rightarrow> Some (-1, None, s)
     | Some bs \<Rightarrow> if n < 0 \<or> fd < 0 \<or> int MAX_FILE \<le> fd then Some (-1, Some bs, s)
        else map_option (\<lambda>(r, bs, t). (r, Some bs, t)) (call_read (fst (fd_ops fd s)) d fd bs n s))"
proof (cases "buf = None \<or> n < 0 \<or> fd < 0 \<or> int MAX_FILE \<le> fd")
  case True
  then show ?thesis by (auto simp: sys_read_def split: option.splits)
next
  case False
  then obtain bs where bs: "buf = Some bs" by auto
  obtain k b e where *: "current_pcb s = Some k" "aget (pcbs s) k = Some b" "aget (FDs_array b) (nat fd) = Some e"
    "aget (fops_table s) (fd_flags e) = Some (Some (fd_ops fd s))"
    using kernel_descriptor [OF assms, of fd] False by auto
  show ?thesis using False bs * by (auto simp: sys_read_def case_prod_beta map_option_case split: option.splits)
qed

lemma kernel_write:
  assumes "kernel_ok s"
  shows "sys_write fd buf n s =
    (case buf of None \<Rightarrow> Some (-1, s)
     | Some bs \<Rightarrow> if n < 0 \<or> fd < 0 \<or> int MAX_FILE \<le> fd then Some (-1, s) else call_write (snd (fd_ops fd s)) bs n s)"
proof (cases "buf = None \<or> n < 0 \<or> fd < 0 \<or> int MAX_FILE \<le> fd")
  case True
  then show ?thesis by (auto simp: sys_write_def split: option.splits)
next
  case False
  then obtain bs where bs: "buf = Some bs" by auto
  obtain k b e where *: "current_pcb s = Some k" "aget (pcbs s) k = Some b" "aget (FDs_array b) (nat fd) = Some e"
    "aget (fops_table s) (fd_flags e) = Some (Some (fd_ops fd s))"
    using kernel_descriptor [OF assms, of fd] False by auto
  show ?thesis using False bs * by (auto simp: sys_write_def case_prod_beta)
qed

lemma kernel_close:
  assumes "kernel_ok s"
  shows "sys_close fd s =
    (if 2 \<le> fd \<and> fd < int MAX_FILE \<and> fd_flags (FDs_array (cur_pcb s) ! nat fd) \<noteq> NOT_SET
     then Some (0, set_cur_pcb (closed_fd (nat fd) (cur_pcb s)) s) else Some (-1, s))"
proof (cases "2 \<le> fd \<and> fd < int MAX_FILE")
  case True
  moreover have "procs_ok s" using assms by (simp add: kernel_ok_def tasks_ok_def)
  ultimately show ?thesis using sys_close_used [of s "nat fd"] by auto
next
  case False
  then show ?thesis by (auto simp: sys_close_def MAX_FILE_def)
qed

lemma kernel_run_keeps: "\<lbrakk>kernel_step\<^sup>*\<^sup>* s s'; kernel_ok s\<rbrakk> \<Longrightarrow> kernel_ok s'"
  by (induction rule: rtranclp_induct) (auto dest: kernel_step_keeps)


lemma exec_example_kernel: "kernel_ok exec_example"
proof -
  have "current_pcb exec_example = Some (unat (curr_process exec_example))" "fops_table exec_example = std_fops"
    using kernel_example_calls(1) by (simp_all add: exec_example_def calls_ok_def)
  moreover have "unat (curr_process exec_example) < NUM_PROCESSES" using exec_example_ok by (simp add: tasks_ok_def procs_ok_def)
  moreover have "translate True exec_example 0 = None" by (simp add: translate_def exec_example_def)
  ultimately show ?thesis by (simp add: kernel_ok_def)
qed


end
