(* ===== verification/Boot.thy ===== *)
theory Boot
  imports Exceptions
begin

text \<open>
  The start of the kernel: \<^verbatim>\<open>entry\<close> of \<^verbatim>\<open>student-distrib/kernel.c\<close>, with the segment descriptors of
  \<^verbatim>\<open>x86_desc.h\<close> and the structures of \<^verbatim>\<open>multiboot.h\<close>.

  The boot loader leaves its information in memory.  That memory is the parameter \<open>m\<close>, read
  byte by byte at the offsets of the C structures; the kernel writes none of it.  The
  file system image is the bytes of the first module, from its start address to its end address.
  The addresses and sizes of the descriptor tables, which the linker chooses, and the two uninitialised
  descriptors on the stack are parameters.
\<close>

section \<open>Descriptors\<close>

record seg_desc =
  seg_lim_15_00 :: u16
  base_15_00 :: u16
  base_23_16 :: byte
  seg_type :: "4 word"
  seg_sys :: "1 word"
  seg_dpl :: "2 word"
  seg_present :: "1 word"
  seg_lim_19_16 :: "4 word"
  seg_avail :: "1 word"
  seg_reserved :: "1 word"
  opsize :: "1 word"
  granularity :: "1 word"
  base_31_24 :: byte

definition SET_LDT_PARAMS :: "seg_desc \<Rightarrow> u32 \<Rightarrow> u32 \<Rightarrow> seg_desc" where
  "SET_LDT_PARAMS str addr lim = str\<lparr>
     base_31_24 := ucast (drop_bit 24 (addr AND 0xFF000000)),
     base_23_16 := ucast (drop_bit 16 (addr AND 0x00FF0000)),
     base_15_00 := ucast (addr AND 0x0000FFFF),
     seg_lim_19_16 := ucast (drop_bit 16 (lim AND 0x000F0000)),
     seg_lim_15_00 := ucast (lim AND 0x0000FFFF)\<rparr>"

definition SET_TSS_PARAMS :: "seg_desc \<Rightarrow> u32 \<Rightarrow> u32 \<Rightarrow> seg_desc" where
  "SET_TSS_PARAMS str addr lim = str\<lparr>
     base_31_24 := ucast (drop_bit 24 (addr AND 0xFF000000)),
     base_23_16 := ucast (drop_bit 16 (addr AND 0x00FF0000)),
     base_15_00 := ucast (addr AND 0x0000FFFF),
     seg_lim_19_16 := ucast (drop_bit 16 (lim AND 0x000F0000)),
     seg_lim_15_00 := ucast (lim AND 0x0000FFFF)\<rparr>"

text \<open>The two descriptors in the global table, the selector of the local table in the task state segment, and
  the registers that \<^verbatim>\<open>lldt\<close> and \<^verbatim>\<open>ltr\<close> load.\<close>

record booting = kernel +
  ldt_desc_ptr :: seg_desc
  tss_desc_ptr :: seg_desc
  tss_ldt_segment_selector :: u16
  ldtr :: u16
  task_register :: u16

definition KERNEL_TSS :: u16 where "KERNEL_TSS = 0x0030"
definition KERNEL_LDT :: u16 where "KERNEL_LDT = 0x0038"
definition TSS_SIZE :: u32 where "TSS_SIZE = 104"

record layout =
  ldt_addr :: u32
  ldt_size :: u32
  tss_addr :: u32
  tss_size :: u32

definition construct_ldt :: "layout \<Rightarrow> seg_desc \<Rightarrow> 'a booting_scheme \<Rightarrow> 'a booting_scheme" where
  "construct_ldt l the_ldt_desc s =
     (let d = the_ldt_desc\<lparr>granularity := 0, opsize := 1, seg_reserved := 0, seg_avail := 0, seg_present := 1,
            seg_dpl := 0, seg_sys := 0, seg_type := 2\<rparr>;
          d = SET_LDT_PARAMS d (ldt_addr l) (ldt_size l)
      in s\<lparr>ldt_desc_ptr := d, ldtr := KERNEL_LDT\<rparr>)"

definition construct_tss :: "layout \<Rightarrow> seg_desc \<Rightarrow> 'a booting_scheme \<Rightarrow> 'a booting_scheme" where
  "construct_tss l the_tss_desc s =
     (let d = the_tss_desc\<lparr>granularity := 0, opsize := 0, seg_reserved := 0, seg_avail := 0,
            seg_lim_19_16 := ucast (TSS_SIZE AND 0x000F0000), seg_present := 1, seg_dpl := 0, seg_sys := 0, seg_type := 9,
            seg_lim_15_00 := ucast (TSS_SIZE AND 0x0000FFFF)\<rparr>;
          d = SET_TSS_PARAMS d (tss_addr l) (tss_size l)
      in s\<lparr>tss_desc_ptr := d, tss_ldt_segment_selector := KERNEL_LDT, tss_ss0 := KERNEL_DS, tss_esp0 := 0x800000,
           task_register := KERNEL_TSS\<rparr>)"

section \<open>What the boot loader says\<close>

definition MULTIBOOT_BOOTLOADER_MAGIC :: u32 where "MULTIBOOT_BOOTLOADER_MAGIC = 0x2BADB002"

definition rd32 :: "(u32 \<Rightarrow> byte) \<Rightarrow> u32 \<Rightarrow> u32" where
  "rd32 m a = ucast (m a) OR push_bit 8 (ucast (m (a + 1))) OR push_bit 16 (ucast (m (a + 2))) OR push_bit 24 (ucast (m (a + 3)))"

definition mbi_flags :: "(u32 \<Rightarrow> byte) \<Rightarrow> u32 \<Rightarrow> u32" where "mbi_flags m mbi = rd32 m mbi"
definition mbi_cmdline :: "(u32 \<Rightarrow> byte) \<Rightarrow> u32 \<Rightarrow> u32" where "mbi_cmdline m mbi = rd32 m (mbi + 16)"
definition mods_count :: "(u32 \<Rightarrow> byte) \<Rightarrow> u32 \<Rightarrow> u32" where "mods_count m mbi = rd32 m (mbi + 20)"
definition mods_addr :: "(u32 \<Rightarrow> byte) \<Rightarrow> u32 \<Rightarrow> u32" where "mods_addr m mbi = rd32 m (mbi + 24)"
definition mmap_length :: "(u32 \<Rightarrow> byte) \<Rightarrow> u32 \<Rightarrow> u32" where "mmap_length m mbi = rd32 m (mbi + 44)"
definition mmap_addr :: "(u32 \<Rightarrow> byte) \<Rightarrow> u32 \<Rightarrow> u32" where "mmap_addr m mbi = rd32 m (mbi + 48)"

text \<open>The string at an address, with its end; \<open>None\<close> when no byte of memory ends it.\<close>

partial_function (option) mem_str :: "(u32 \<Rightarrow> byte) \<Rightarrow> u32 \<Rightarrow> byte list option" where
  "mem_str m a = (if m a = 0 then Some [0] else do { r \<leftarrow> mem_str m (a + 1); Some (m a # r) })"

definition say :: "byte list \<Rightarrow> string \<Rightarrow> arg list \<Rightarrow> 'a console_scheme \<Rightarrow> 'a console_scheme option" where
  "say conv_buf fmt args s = do { (_, s) \<leftarrow> printf conv_buf (cstr fmt) args s; Some s }"

fun print_bytes :: "byte list \<Rightarrow> (u32 \<Rightarrow> byte) \<Rightarrow> u32 \<Rightarrow> nat list \<Rightarrow> 'a console_scheme \<Rightarrow> 'a console_scheme option" where
  "print_bytes conv_buf m start [] s = Some s"
| "print_bytes conv_buf m start (i # is) s = do {
     s \<leftarrow> say conv_buf ''0x%x '' [Num (scast (m (start + of_nat i)))] s;
     print_bytes conv_buf m start is s
   }"

function print_modules :: "byte list \<Rightarrow> (u32 \<Rightarrow> byte) \<Rightarrow> u32 \<Rightarrow> nat \<Rightarrow> u32 \<Rightarrow> 'a console_scheme \<Rightarrow> 'a console_scheme option" where
  "print_modules conv_buf m mbi mod_count modp s =
     (if mod_count < unat (mods_count m mbi) then do {
        let mod_start = rd32 m modp;
        s \<leftarrow> say conv_buf ''Module %d loaded at address: 0x%#x\<newline>'' [Num (of_nat mod_count), Num mod_start] s;
        s \<leftarrow> say conv_buf ''Module %d ends at address: 0x%#x\<newline>'' [Num (of_nat mod_count), Num (rd32 m (modp + 4))] s;
        s \<leftarrow> say conv_buf ''First few bytes of module:\<newline>'' [] s;
        s \<leftarrow> print_bytes conv_buf m mod_start [0..<16] s;
        s \<leftarrow> say conv_buf ''\<newline>'' [] s;
        print_modules conv_buf m mbi (Suc mod_count) (modp + 16) s
      } else Some s)"
  by pat_completeness auto
termination
  by (relation "measure (\<lambda>(conv_buf, m, mbi, k, modp, s). unat (mods_count m mbi) - k)") auto

declare print_modules.simps [simp del]

partial_function (option) print_mmap :: "byte list \<Rightarrow> (u32 \<Rightarrow> byte) \<Rightarrow> u32 \<Rightarrow> u32 \<Rightarrow> 'a console_scheme \<Rightarrow> 'a console_scheme option" where
  "print_mmap conv_buf m mbi mmap s =
     (if mmap < mmap_addr m mbi + mmap_length m mbi then do {
        s \<leftarrow> say conv_buf '' size = 0x%x,     base_addr = 0x%#x%#x\<newline>     type = 0x%x,  length    = 0x%#x%#x\<newline>''
          [Num (rd32 m mmap), Num (rd32 m (mmap + 8)), Num (rd32 m (mmap + 4)), Num (rd32 m (mmap + 20)),
           Num (rd32 m (mmap + 16)), Num (rd32 m (mmap + 12))] s;
        print_mmap conv_buf m mbi (mmap + rd32 m mmap + 4) s
      } else Some s)"

definition print_info :: "byte list \<Rightarrow> (u32 \<Rightarrow> byte) \<Rightarrow> u32 \<Rightarrow> 'a console_scheme \<Rightarrow> 'a console_scheme option" where
  "print_info conv_buf m mbi s = do {
     s \<leftarrow> say conv_buf ''flags = 0x%#x\<newline>'' [Num (mbi_flags m mbi)] s;
     s \<leftarrow> (if bit (mbi_flags m mbi) 0 then
             say conv_buf ''mem_lower = %uKB, mem_upper = %uKB\<newline>'' [Num (rd32 m (mbi + 4)), Num (rd32 m (mbi + 8))] s
           else Some s);
     s \<leftarrow> (if bit (mbi_flags m mbi) 1 then say conv_buf ''boot_device = 0x%#x\<newline>'' [Num (rd32 m (mbi + 12))] s else Some s);
     s \<leftarrow> (if bit (mbi_flags m mbi) 2 then do {
             str \<leftarrow> mem_str m (mbi_cmdline m mbi);
             say conv_buf ''cmdline = %s\<newline>'' [Str str] s
           } else Some s);
     if bit (mbi_flags m mbi) 3 then print_modules conv_buf m mbi 0 (mods_addr m mbi) s else Some s
   }"

definition print_tables :: "byte list \<Rightarrow> (u32 \<Rightarrow> byte) \<Rightarrow> u32 \<Rightarrow> 'a console_scheme \<Rightarrow> 'a console_scheme option" where
  "print_tables conv_buf m mbi s = do {
     s \<leftarrow> (if bit (mbi_flags m mbi) 5 then
             say conv_buf ''elf_sec: num = %u, size = 0x%#x, addr = 0x%#x, shndx = 0x%#x\<newline>''
               [Num (rd32 m (mbi + 28)), Num (rd32 m (mbi + 32)), Num (rd32 m (mbi + 36)), Num (rd32 m (mbi + 40))] s
           else Some s);
     if bit (mbi_flags m mbi) 6 then do {
       s \<leftarrow> say conv_buf ''mmap_addr = 0x%#x, mmap_length = 0x%x\<newline>'' [Num (mmap_addr m mbi), Num (mmap_length m mbi)] s;
       print_mmap conv_buf m mbi (mmap_addr m mbi) s
     } else Some s
   }"

section \<open>\<^verbatim>\<open>entry\<close>\<close>

text \<open>The bytes of the first module.\<close>

definition first_module :: "(u32 \<Rightarrow> byte) \<Rightarrow> u32 \<Rightarrow> byte list" where
  "first_module m mbi =
     (let modp = mods_addr m mbi; start = rd32 m modp; stop = rd32 m (modp + 4)
      in map (\<lambda>i. m (start + of_nat i)) [0..<unat (stop - start)])"

text \<open>Where the boot loader must have put it for the kernel to reach it once paging is on: in the kernel page, below the
  stacks of the processes.\<close>

definition mod_start :: "(u32 \<Rightarrow> byte) \<Rightarrow> u32 \<Rightarrow> u32" where
  "mod_start m mbi = rd32 m (mods_addr m mbi)"

definition module_placed :: "(u32 \<Rightarrow> byte) \<Rightarrow> u32 \<Rightarrow> bool" where
  "module_placed m mbi \<longleftrightarrow> 0x400000 \<le> mod_start m mbi \<and> mod_start m mbi \<le> rd32 m (mods_addr m mbi + 4) \<and>
     rd32 m (mods_addr m mbi + 4) \<le> 0x7F4000"

definition init_devices :: "(u32 \<Rightarrow> byte) \<Rightarrow> u32 \<Rightarrow> 'a kernel_scheme \<Rightarrow> 'a kernel_scheme option" where
  "init_devices m mbi s = do {
     let s = idt_init s;
     let s = i8259_init s;
     let s = keyboard_init s;
     let s = rtc_init s;
     (_, s) \<leftarrow> rtc_open s;
     (_, s) \<leftarrow> file_init (first_module m mbi) s;
     let (_, s) = paging_init s;
     s \<leftarrow> init_fops_table s;
     s \<leftarrow> terminal_init s;
     let s = pit_init s;
     Some (clear_process s)
   }"

datatype boot_end = Boot_returned | Boot_idle | Boot_running u32
  \<comment> \<open>an early return; the last, endless loop; the entry point of the first program\<close>

definition entry :: "layout \<Rightarrow> seg_desc \<times> seg_desc \<Rightarrow> byte list \<Rightarrow> frame \<Rightarrow> (u32 \<Rightarrow> byte) \<Rightarrow> u32 \<Rightarrow> u32 \<Rightarrow> 'a booting_scheme
    \<Rightarrow> (boot_end \<times> 'a booting_scheme) option" where
  "entry l locals conv_buf fr m magic addr s = do {
     s \<leftarrow> clear_screen s;
     if magic \<noteq> MULTIBOOT_BOOTLOADER_MAGIC then do {
       s \<leftarrow> say conv_buf ''Invalid magic number: 0x%#x\<newline>'' [Num magic] s;
       Some (Boot_returned, s)
     } else do {
       let mbi = addr;
       s \<leftarrow> print_info conv_buf m mbi s;
       if bit (mbi_flags m mbi) 4 \<and> bit (mbi_flags m mbi) 5 then do {
         s \<leftarrow> say conv_buf ''Both bits 4 and 5 are set.\<newline>'' [] s;
         Some (Boot_returned, s)
       } else do {
         s \<leftarrow> print_tables conv_buf m mbi s;
         let s = construct_ldt l (fst locals) s;
         let s = construct_tss l (snd locals) s;
         s \<leftarrow> clear_screen s;
         s \<leftarrow> init_devices m mbi s;
         (oc, s) \<leftarrow> execute fr (cstr ''shell'' @ [0]) s;
         Some (case oc of Entered e \<Rightarrow> Boot_running e | _ \<Rightarrow> Boot_idle, s)
       }
     }
   }"

section \<open>Printing changes the screen only\<close>

definition quiet :: "('a console_scheme \<Rightarrow> 'a console_scheme option) \<Rightarrow> bool" where
  "quiet f \<longleftrightarrow> (\<forall>s. \<exists>s'. f s = Some s' \<and> but_visible s' = but_visible s)"

lemma quiet_Some: "quiet Some"
  by (simp add: quiet_def)

lemma quiet_bind: "\<lbrakk>quiet f; quiet g\<rbrakk> \<Longrightarrow> quiet (\<lambda>s. f s \<bind> g)"
  unfolding quiet_def by (metis Option.bind.bind_lunit)

lemma quiet_if: "\<lbrakk>P \<Longrightarrow> quiet f; \<not> P \<Longrightarrow> quiet g\<rbrakk> \<Longrightarrow> quiet (\<lambda>s. if P then f s else g s)"
  by (cases P) simp_all

lemma quiet_let: "quiet (f x) \<Longrightarrow> quiet (\<lambda>s. let y = x in f y s)"
  by simp

lemma quiet_say:
  assumes "length conv_buf = 64" and "\<exists>t. render None (cstr fmt) args = Some t"
  shows "quiet (say conv_buf fmt args)"
  unfolding quiet_def
proof
  fix s :: "'a console_scheme"
  obtain t where "render None (cstr fmt) args = Some t" using assms(2) by blast
  from printf_loop_renders [OF this assms(1), of 0 s]
  show "\<exists>s'. say conv_buf fmt args s = Some s' \<and> but_visible s' = but_visible s"
    by (auto simp: say_def printf_def)
qed

lemmas quiet_intros = quiet_bind quiet_if quiet_let quiet_Some quiet_say

lemma quiet_print_bytes: "length conv_buf = 64 \<Longrightarrow> quiet (print_bytes conv_buf m start is)"
proof (induction "is")
  case Nil
  have "print_bytes conv_buf m start [] = (Some :: 'a console_scheme \<Rightarrow> _)" by (rule ext) simp
  then show ?case by (simp add: quiet_Some)
next
  case (Cons i "is")
  have "print_bytes conv_buf m start (i # is) = (\<lambda>s :: 'a console_scheme. say conv_buf ''0x%x '' [Num (scast (m (start + of_nat i)))] s \<bind>
      print_bytes conv_buf m start is)" by (rule ext) simp
  then show ?case using Cons by (auto intro!: quiet_intros simp: cstr_def)
qed

lemma quiet_print_modules:
  assumes "length conv_buf = 64"
  shows "quiet (print_modules conv_buf m mbi k modp)"
proof (induction "unat (mods_count m mbi) - k" arbitrary: k modp)
  case 0
  then have "print_modules conv_buf m mbi k modp = (Some :: 'a console_scheme \<Rightarrow> _)"
    by (intro ext) (simp add: print_modules.simps)
  then show ?case by (simp add: quiet_Some)
next
  case (Suc d)
  then have IH: "quiet (print_modules conv_buf m mbi (Suc k) (modp + 16) :: 'a console_scheme \<Rightarrow> _)" by simp
  have "k < unat (mods_count m mbi)" using Suc.hyps(2) by simp
  then have "print_modules conv_buf m mbi k modp = (\<lambda>s :: 'a console_scheme.
      say conv_buf ''Module %d loaded at address: 0x%#x\<newline>'' [Num (of_nat k), Num (rd32 m modp)] s \<bind> (\<lambda>s.
      say conv_buf ''Module %d ends at address: 0x%#x\<newline>'' [Num (of_nat k), Num (rd32 m (modp + 4))] s \<bind> (\<lambda>s.
      say conv_buf ''First few bytes of module:\<newline>'' [] s \<bind> (\<lambda>s.
      print_bytes conv_buf m (rd32 m modp) [0..<16] s \<bind> (\<lambda>s.
      say conv_buf ''\<newline>'' [] s \<bind> print_modules conv_buf m mbi (Suc k) (modp + 16))))))"
    by (intro ext) (simp only: print_modules.simps [of conv_buf m mbi k modp] if_True Let_def)
  then show ?case
    using IH quiet_print_bytes [OF assms] by (auto intro!: quiet_intros simp: assms cstr_def Let_def)
qed

text \<open>A memory map as the boot loader writes it: \<open>n\<close> entries of 24 bytes, each of which says 20.\<close>

definition mmap_entries :: "(u32 \<Rightarrow> byte) \<Rightarrow> u32 \<Rightarrow> nat \<Rightarrow> bool" where
  "mmap_entries m mbi n \<longleftrightarrow> mmap_length m mbi = of_nat (24 * n) \<and> unat (mmap_addr m mbi) + 24 * n < 2 ^ 32 \<and>
     (\<forall>i<n. rd32 m (mmap_addr m mbi + of_nat (24 * i)) = 20)"

lemma quiet_print_mmap:
  assumes "length conv_buf = 64" and "mmap_entries m mbi n" and "i \<le> n"
  shows "quiet (print_mmap conv_buf m mbi (mmap_addr m mbi + of_nat (24 * i)))"
  using assms(3)
proof (induction "n - i" arbitrary: i)
  case 0
  then have "i = n" by simp
  then have "print_mmap conv_buf m mbi (mmap_addr m mbi + of_nat (24 * i)) = (Some :: 'a console_scheme \<Rightarrow> _)"
    using assms(2) by (intro ext) (simp add: print_mmap.simps mmap_entries_def)
  then show ?case by (simp add: quiet_Some)
next
  case (Suc d)
  let ?a = "mmap_addr m mbi + of_nat (24 * i)"
  have i: "i < n" and IH: "quiet (print_mmap conv_buf m mbi (mmap_addr m mbi + of_nat (24 * Suc i)) :: 'a console_scheme \<Rightarrow> _)"
    using Suc.hyps(1) [of "Suc i"] Suc.hyps(2) Suc.prems by (simp_all del: of_nat_mult mult_Suc_right)
  have "unat ?a = unat (mmap_addr m mbi) + 24 * i" "unat (mmap_addr m mbi + mmap_length m mbi) = unat (mmap_addr m mbi) + 24 * n"
    using assms(2) i by (simp_all add: mmap_entries_def unat_word_ariths unat_of_nat del: of_nat_mult)
  then have "?a < mmap_addr m mbi + mmap_length m mbi" using i by (simp add: word_less_nat_alt)
  moreover have "rd32 m ?a = 20" using assms(2) i by (simp add: mmap_entries_def)
  moreover have "?a + 20 + 4 = mmap_addr m mbi + of_nat (24 * Suc i)" by simp
  ultimately have "print_mmap conv_buf m mbi ?a = (\<lambda>s :: 'a console_scheme.
      say conv_buf '' size = 0x%x,     base_addr = 0x%#x%#x\<newline>     type = 0x%x,  length    = 0x%#x%#x\<newline>''
          [Num 20, Num (rd32 m (?a + 8)), Num (rd32 m (?a + 4)), Num (rd32 m (?a + 20)),
           Num (rd32 m (?a + 16)), Num (rd32 m (?a + 12))] s \<bind> print_mmap conv_buf m mbi (mmap_addr m mbi + of_nat (24 * Suc i)))"
    by (intro ext) (subst print_mmap.simps, simp only: if_True)
  then show ?case using IH by (auto intro!: quiet_intros simp: assms(1) cstr_def Let_def)
qed

lemma mem_str_terminated: "mem_str m a = Some b \<Longrightarrow> 0 \<in> set b"
  by (rule mem_str.raw_induct [of "\<lambda>m a b. 0 \<in> set b"]) (auto split: if_splits simp: bind_eq_Some_conv)

definition mbi_ok :: "(u32 \<Rightarrow> byte) \<Rightarrow> u32 \<Rightarrow> bool" where
  "mbi_ok m mbi \<longleftrightarrow> \<not> (bit (mbi_flags m mbi) 4 \<and> bit (mbi_flags m mbi) 5) \<and>
     (bit (mbi_flags m mbi) 2 \<longrightarrow> mem_str m (mbi_cmdline m mbi) \<noteq> None) \<and>
     (bit (mbi_flags m mbi) 6 \<longrightarrow> (\<exists>n. mmap_entries m mbi n))"

lemma quiet_print_info:
  assumes "length conv_buf = 64" and "mbi_ok m mbi"
  shows "quiet (print_info conv_buf m mbi)"
proof -
  have "quiet (\<lambda>s :: 'a console_scheme. mem_str m (mbi_cmdline m mbi) \<bind> (\<lambda>str. say conv_buf ''cmdline = %s\<newline>'' [Str str] s))"
    if "bit (mbi_flags m mbi) 2"
    using that assms mem_str_terminated [of m "mbi_cmdline m mbi"]
    by (auto simp: mbi_ok_def cstr_def intro!: quiet_say)
  then show ?thesis
    unfolding print_info_def
    by (auto intro!: quiet_intros quiet_print_modules simp: assms(1) cstr_def Let_def)
qed

lemma quiet_print_tables:
  assumes "length conv_buf = 64" and "mbi_ok m mbi"
  shows "quiet (print_tables conv_buf m mbi)"
proof -
  have "quiet (print_mmap conv_buf m mbi (mmap_addr m mbi) :: 'a console_scheme \<Rightarrow> _)" if flag: "bit (mbi_flags m mbi) 6"
  proof -
    obtain n where "mmap_entries m mbi n" using flag assms(2) by (auto simp: mbi_ok_def)
    from quiet_print_mmap [OF assms(1) this, of 0] show ?thesis by simp
  qed
  then show ?thesis
    unfolding print_tables_def by (auto intro!: quiet_intros simp: assms(1) cstr_def Let_def)
qed

section \<open>The devices are ready\<close>

text \<open>What the kernel starts from: the arrays have their sizes, the static variables and the memory of the control
  blocks are zero, the page tables are where the linker aligned them.\<close>

definition powered_on :: "'a kernel_scheme \<Rightarrow> bool" where
  "powered_on s \<longleftrightarrow> length (idt s) = 256 \<and> dentry_table_ok s \<and> paging_wf s \<and> length (terminals s) = 3 \<and>
     curr_terminal_number s = 0 \<and> curr_term s = 0 \<and> rtc_lock s = 0 \<and> length (fops_table s) = 6 \<and> procs_ok s \<and> proc_table_ok s"

lemma file_init_loop_frame: "file_init_loop i pos s = Some s' \<Longrightarrow> \<exists>ds. s' = s\<lparr>my_dentry := ds\<rparr>"
proof (induction i pos s rule: file_init_loop.induct)
  case (1 i pos s)
  show ?case
  proof (cases "i < num_dentries s")
    case True
    with "1.prems" obtain nm d fn ft ino where
      *: "img_bytes (fs_image s) pos 32 = Some nm" "aget (my_dentry s) i = Some d" "overwrite nm (file_name d) = Some fn"
        "img32 (fs_image s) (pos + 4 * 8) = Some ft" "img32 (fs_image s) (pos + 4 * 9) = Some ino"
        "file_init_loop (Suc i) (pos + 4 * 16)
          (s\<lparr>my_dentry := (my_dentry s)[i := d\<lparr>file_name := fn, file_type := ft, inode := ino\<rparr>]\<rparr>) = Some s'"
      by (subst (asm) file_init_loop.simps) (auto simp: bind_eq_Some_conv)
    from "1.IH" [OF True *] show ?thesis by auto
  next
    case False
    with "1.prems" have "s' = s\<lparr>my_dentry := my_dentry s\<rparr>" by (subst (asm) file_init_loop.simps) simp
    then show ?thesis ..
  qed
qed

lemma file_init_frame:
  assumes "file_init img s = Some (r, s')"
  shows "\<exists>nd ni nb i db ds. s' = s\<lparr>fs_image := img, num_dentries := nd, num_inodes := ni, num_data_blocks := nb,
    inodes := i, data_blocks := db, my_dentry := ds\<rparr>"
  using assms file_init_loop_frame by (fastforce simp: file_init_def bind_eq_Some_conv)

lemma paging_init_wf: "paging_wf s \<Longrightarrow> paging_wf (snd (paging_init s))"
proof -
  assume wf: "paging_wf s"
  let ?s' = "snd (paging_init s)"
  have "length (page_directory ?s') = 1024" "length (page_table ?s') = 1024" "user_video_page_table ?s' = user_video_page_table s"
    "page_table_addr ?s' = page_table_addr s" "user_video_page_table_addr ?s' = user_video_page_table_addr s"
    using wf by (simp_all add: paging_init_def Let_def paging_wf_def)
  moreover have "push_bit 12 (drop_bit 12 (page_directory ?s' ! i)) \<noteq> user_video_page_table_addr s"
    if "i < 1024" "bit (page_directory ?s' ! i) 0" "\<not> bit (page_directory ?s' ! i) 7" for i
  proof -
    have "take_bit 12 (page_table_addr s) = 0" using wf by (simp add: paging_wf_def)
    then have "push_bit 12 (drop_bit 12 (0x03 OR page_table_addr s)) = page_table_addr s"
      using frame_of_aligned [of 12 "page_table_addr s"] by simp
    then show ?thesis using that paging_init_directory [OF wf that(1)] wf by (auto simp: paging_wf_def split: if_splits)
  qed
  ultimately show ?thesis using wf by (simp add: paging_wf_def)
qed

text \<open>After \<^verbatim>\<open>paging_init\<close> the kernel reaches its own page, and a user program nothing at address 0.\<close>

lemma paging_init_translate:
  assumes "paging_wf s"
  shows "translate True (snd (paging_init s)) 0 = None"
    and "drop_bit 22 va = 1 \<Longrightarrow> translate False (snd (paging_init s)) va = Some va"
proof -
  have "take_bit 12 (page_table_addr s) = 0" using assms by (simp add: paging_wf_def)
  then have "\<not> bit (0x03 OR page_table_addr s) 2" using aligned_bits by (simp add: bit_or_iff)
  then show "translate True (snd (paging_init s)) 0 = None"
    using paging_init_directory [OF assms, of 0] by (simp add: translate_def Let_def)
  assume va: "drop_bit 22 va = 1"
  then have "push_bit 22 (drop_bit 22 (0x400087 :: u32)) OR take_bit 22 va = push_bit 22 (drop_bit 22 va) OR take_bit 22 va" by simp
  also have "\<dots> = va" by (rule bit_word_eqI) (auto simp: bit_or_iff bit_push_bit_iff bit_drop_bit_eq bit_take_bit_iff)
  finally show "translate False (snd (paging_init s)) va = Some va"
    using va paging_init_directory [OF assms, of 1] by (simp add: translate_def Let_def)
qed

lemma module_page:
  assumes "module_placed m mbi" and "k < length (first_module m mbi)"
  shows "drop_bit 22 (mod_start m mbi + of_nat k) = 1"
proof -
  let ?a = "unat (mod_start m mbi)" and ?b = "unat (rd32 m (mods_addr m mbi + 4))"
  have b: "0x400000 \<le> ?a" "?a \<le> ?b" "?b \<le> 0x7F4000"
    using assms(1) by (simp_all add: module_placed_def word_le_nat_alt)
  have "k < ?b - ?a"
    using assms b(2) by (simp add: first_module_def Let_def mod_start_def module_placed_def unat_sub)
  then have k: "?a + k < 0x7F4000" "unat (of_nat k :: u32) = k" using b by (simp_all add: unsigned_of_nat take_bit_nat_eq_self)
  then have "unat (mod_start m mbi + of_nat k) = ?a + k" by (simp add: unat_word_ariths)
  moreover have "(?a + k) div 2 ^ 22 = 1" using b(1) k(1) by (simp add: div_nat_eqI)
  ultimately show ?thesis by (simp add: word_unat_eq_iff drop_bit_eq_div unat_div)
qed

text \<open>Where the vectors lead once the devices have installed their handlers.\<close>

definition boot_handler :: "nat \<Rightarrow> handler" where
  "boot_handler i = (if i = 0x20 then pit_linkage_h else if i = 0x21 then keyboard_linkage_h
     else if i = 0x28 then rtc_linkage_h else vector_handler i)"

definition boot_gates :: "'a hw_scheme \<Rightarrow> bool" where
  "boot_gates s \<longleftrightarrow> length (idt s) = 256 \<and> (\<forall>i<256. idt_offset (idt s ! i) = sym s (boot_handler i) \<and> present (idt s ! i) = 1)"

definition boot_irqs :: "'a pic_scheme \<Rightarrow> bool" where
  "boot_irqs s \<longleftrightarrow> pic_inv s \<and> (\<forall>irq<16. irq_open (io_log s) irq \<longleftrightarrow> irq \<in> {0, 1, 2, 8})"

definition chips_up :: "'a keyboard_scheme \<Rightarrow> 'a keyboard_scheme" where
  "chips_up s = snd (the (rtc_open (rtc_init (keyboard_init (i8259_init (idt_init s))))))"

lemma chips_up_fields:
  assumes "rtc_lock s = 0"
  shows "rtc_open (rtc_init (keyboard_init (i8259_init (idt_init s)))) = Some (0, chips_up s)"
    and "\<exists>log. chips_up s = s\<lparr>io_log := log, rtc_lock := 0, master_mask := 0xF9, slave_mask := 0xFE, enter := 0,
      keyboard_buf := blank_buf (keyboard_buf s), keyboard_idx := 0, last_idx := 0,
      idt := idt (set_idt 0x28 rtc_linkage_h (set_idt 0x21 keyboard_linkage_h (idt_init s)))\<rparr>"
    and "pic_inv (chips_up s)"
proof -
  obtain t where t: "idt_init s = s\<lparr>idt := t\<rparr>"
    using that by (simp add: idt_init_def Let_def idt_for_def set_idt_def)
  note defs = t chips_up_def rtc_open_def rtc_init_def keyboard_init_def i8259_init_def set_rate_def freq_const_def irq_unfold
    outb_def inb_def reset_line_def Let_def set_idt_def
  show "rtc_open (rtc_init (keyboard_init (i8259_init (idt_init s)))) = Some (0, chips_up s)"
    using assms by (simp add: defs)
  show "\<exists>log. chips_up s = s\<lparr>io_log := log, rtc_lock := 0, master_mask := 0xF9, slave_mask := 0xFE, enter := 0,
      keyboard_buf := blank_buf (keyboard_buf s), keyboard_idx := 0, last_idx := 0,
      idt := idt (set_idt 0x28 rtc_linkage_h (set_idt 0x21 keyboard_linkage_h (idt_init s)))\<rparr>"
    using assms by (intro exI [of _ "io_log (chips_up s)"]) (simp add: defs)
  show "pic_inv (chips_up s)" using assms by (simp add: defs pic_inv_def)
qed

text \<open>The state in which the first program is looked for.\<close>

definition ready :: "'a kernel_scheme \<Rightarrow> 'a kernel_scheme" where
  "ready s = clear_process (pit_init (the (terminal_init ((snd (paging_init s))\<lparr>fops_table := std_fops\<rparr>))))"

lemma ready_fields:
  assumes "length (terminals s) = 3" and "length (process_array s) = NUM_PROCESSES"
  shows "\<exists>log. ready s = (snd (paging_init s))\<lparr>fops_table := std_fops, curr_terminal_number := 0,
      terminals := [terminal_init1 0 (terminals s ! 0), terminal_init1 1 (terminals s ! 1), terminal_init1 2 (terminals s ! 2)], io_log := log,
      idt := idt (set_idt 0x20 pit_linkage_h s), master_mask := master_mask s AND NOT 1,
      process_array := replicate NUM_PROCESSES 0\<rparr>"
    and "terminal_init ((snd (paging_init s))\<lparr>fops_table := std_fops\<rparr>) \<noteq> None"
    and "pic_inv s \<Longrightarrow> pic_inv (ready s)"
proof -
  obtain a b c where ts: "terminals s = [a, b, c]" using assms(1) by (auto simp: length_Suc_conv numeral_eq_Suc)
  have p: "fill_for 0 NUM_PROCESSES (\<lambda>i. 0) (process_array s) = replicate NUM_PROCESSES 0"
    using assms(2) by (intro nth_equalityI) simp_all
  note defs = ready_def clear_process_def pit_init_def terminal_init_def upd_term_def paging_init_def irq_unfold outb_def Let_def
    set_idt_def ts p
  show "terminal_init ((snd (paging_init s))\<lparr>fops_table := std_fops\<rparr>) \<noteq> None" by (simp add: defs)
  show "\<exists>log. ready s = (snd (paging_init s))\<lparr>fops_table := std_fops, curr_terminal_number := 0,
      terminals := [terminal_init1 0 (terminals s ! 0), terminal_init1 1 (terminals s ! 1), terminal_init1 2 (terminals s ! 2)], io_log := log,
      idt := idt (set_idt 0x20 pit_linkage_h s), master_mask := master_mask s AND NOT 1,
      process_array := replicate NUM_PROCESSES 0\<rparr>"
    by (intro exI [of _ "io_log (ready s)"]) (simp add: defs)
  show "pic_inv s \<Longrightarrow> pic_inv (ready s)" by (simp add: defs pic_inv_def)
qed

lemma boot_masks:
  assumes "pic_inv s" and "master_mask s = 0xF8" and "slave_mask s = 0xFE"
  shows "boot_irqs s"
proof -
  have "bit (0xF8 :: byte) j \<longleftrightarrow> j \<notin> {0, 1, 2}" "bit (0xFE :: byte) j \<longleftrightarrow> j \<noteq> 0" if "j < 8" for j
  proof -
    have "j = 0 \<or> j = 1 \<or> j = 2 \<or> j = 3 \<or> j = 4 \<or> j = 5 \<or> j = 6 \<or> j = 7" using that by presburger
    then show "bit (0xF8 :: byte) j \<longleftrightarrow> j \<notin> {0, 1, 2}" "bit (0xFE :: byte) j \<longleftrightarrow> j \<noteq> 0" by auto
  qed
  then show ?thesis
    using assms irq_open_masks [OF assms(1)] by (auto simp: boot_irqs_def)
qed

lemma boot_gates_installed:
  assumes "length (idt s) = 256" and "i < 256"
    and "t = idt (set_idt 0x28 rtc_linkage_h (set_idt 0x21 keyboard_linkage_h (idt_init s)))" and "sym u = sym s" and "idt u = t"
  shows "idt_offset (idt (set_idt 0x20 pit_linkage_h u) ! i) = sym s (boot_handler i) \<and> present (idt (set_idt 0x20 pit_linkage_h u) ! i) = 1"
  using assms
  by (simp add: idt_init_def Let_def nth_list_update idt_default_def vector_handler_def boot_handler_def)

lemma init_devices_ready:
  assumes "powered_on s" and "disk_holds fs inos (first_module m mbi)" and "names_ok fs"
  shows "\<exists>s'. init_devices m mbi s = Some s' \<and> tasks_ok s' \<and> mounts fs inos s' \<and> translate True s' 0 = None \<and>
    (\<forall>va. drop_bit 22 va = 1 \<longrightarrow> translate False s' va = Some va) \<and> boot_gates s' \<and> boot_irqs s' \<and>
    fops_table s' = std_fops \<and> proc_used s' = {} \<and> phys_mem s' = phys_mem s \<and>
    (\<forall>k<3. tm_active (terminals s' ! k) = 0) \<and> get_cur_term s' = 0 \<and> get_curr_exec_term s' = 0 \<and> kernel.more s' = kernel.more s"
proof -
  note on = assms(1) [unfolded powered_on_def]
  let ?c = "chips_up s"
  obtain log where c: "?c = s\<lparr>io_log := log, rtc_lock := 0, master_mask := 0xF9, slave_mask := 0xFE, enter := 0,
      keyboard_buf := blank_buf (keyboard_buf s), keyboard_idx := 0, last_idx := 0,
      idt := idt (set_idt 0x28 rtc_linkage_h (set_idt 0x21 keyboard_linkage_h (idt_init s)))\<rparr>"
    using chips_up_fields(2) [of s] on by blast
  have "dentry_table_ok ?c" using on by (simp add: c dentry_table_ok_def)
  from mount_disk [OF assms(2,3) this] obtain f where f: "file_init (first_module m mbi) ?c = Some (0, f)" "mounts fs inos f" by blast
  from file_init_frame [OF f(1)] obtain nd ni nb i db ds where f_eq: "f = ?c\<lparr>fs_image := first_module m mbi, num_dentries := nd, num_inodes := ni,
    num_data_blocks := nb, inodes := i, data_blocks := db, my_dentry := ds\<rparr>" by blast
  have len: "length (terminals f) = 3" "length (process_array f) = NUM_PROCESSES"
    using on by (simp_all add: f_eq c proc_table_ok_def)
  let ?r = "ready f"
  obtain log' where r: "?r = (snd (paging_init f))\<lparr>fops_table := std_fops, curr_terminal_number := 0,
      terminals := [terminal_init1 0 (terminals f ! 0), terminal_init1 1 (terminals f ! 1), terminal_init1 2 (terminals f ! 2)],
      io_log := log', idt := idt (set_idt 0x20 pit_linkage_h f), master_mask := master_mask f AND NOT 1,
      process_array := replicate NUM_PROCESSES 0\<rparr>"
    using ready_fields(1) [OF len] by blast
  have f_fields: "pcbs f = pcbs s" "curr_process f = curr_process s" "fops_table f = fops_table s" "phys_mem f = phys_mem s"
    "curr_term f = curr_term s" "int_flag f = int_flag s" "sym f = sym s" "slave_mask f = 0xFE" "master_mask f = 0xF9"
    "idt f = idt (set_idt 0x28 rtc_linkage_h (set_idt 0x21 keyboard_linkage_h (idt_init s)))" "pic_inv f = pic_inv ?c"
    "length (idt (idt_init s)) = length (idt s)" "kernel.more f = kernel.more s"
    by (simp_all add: f_eq c pic_inv_def idt_init_def Let_def)
  note frame = r paging_init_def Let_def f_fields
  have "length (fops_table (snd (paging_init f))) = 6" using on by (simp add: frame)
  moreover obtain t where "terminal_init ((snd (paging_init f))\<lparr>fops_table := std_fops\<rparr>) = Some t"
    using ready_fields(2) [OF len] by blast
  ultimately have "init_devices m mbi s = Some ?r"
    using chips_up_fields(1) [of s] on f(1) init_fops_table_std [of "snd (paging_init f)"]
    by (simp add: init_devices_def ready_def Let_def split_beta)
  moreover have wf: "paging_wf f" using on by (simp add: f_eq c paging_wf_def)
  have "paging_wf ?r" using paging_init_wf [OF wf] by (simp add: r paging_wf_def)
  moreover have "translate user ?r va = translate user (snd (paging_init f)) va" for user va
    by (rule tables_only) (simp_all add: r)
  then have "translate True ?r 0 = None" "\<forall>va. drop_bit 22 va = 1 \<longrightarrow> translate False ?r va = Some va"
    using paging_init_translate [OF wf] by simp_all
  moreover have "mounts fs inos ?r" using f(2) mounts_only [of ?r f] by (simp add: r paging_init_def Let_def)
  then have "mounts fs inos ?r" "fs_wf ?r" "dentries_wf ?r" by (simp_all add: mounts_def)
  moreover have "procs_ok ?r" "proc_table_ok ?r" using on by (simp_all add: frame procs_ok_def proc_table_ok_def)
  moreover have "proc_used ?r = {}" by (auto simp: r proc_used_def)
  moreover have "boot_gates ?r"
    using boot_gates_installed [of s _ "idt f" f] on by (simp add: boot_gates_def frame)
  moreover have "boot_irqs ?r"
    using ready_fields(3) [OF len] chips_up_fields(3) [of s] on by (intro boot_masks) (simp_all add: frame)
  moreover have "tm_active (terminals ?r ! k) = 0" if "k < 3" for k
    using that by (auto simp: r terminal_init1_def less_Suc_eq numeral_eq_Suc)
  ultimately show ?thesis
    using on by (intro exI [of _ ?r]) (simp add: tasks_ok_def frame get_cur_term_def get_curr_exec_term_def)
qed

section \<open>Properties\<close>

text \<open>The base and the limit that the processor reads out of a descriptor.\<close>

definition seg_base :: "seg_desc \<Rightarrow> u32" where
  "seg_base d = ucast (base_15_00 d) OR push_bit 16 (ucast (base_23_16 d)) OR push_bit 24 (ucast (base_31_24 d))"

definition seg_limit :: "seg_desc \<Rightarrow> u32" where
  "seg_limit d = ucast (seg_lim_15_00 d) OR push_bit 16 (ucast (seg_lim_19_16 d))"

lemma seg_params:
  "seg_base (SET_TSS_PARAMS d addr lim) = addr" "seg_limit (SET_TSS_PARAMS d addr lim) = take_bit 20 lim"
  "SET_LDT_PARAMS d addr lim = SET_TSS_PARAMS d addr lim"
proof -
  have masks: "(0xFF000000 :: u32) = push_bit 24 (mask 8)" "(0x00FF0000 :: u32) = push_bit 16 (mask 8)"
    "(0x000F0000 :: u32) = push_bit 16 (mask 4)" "(0x0000FFFF :: u32) = mask 16"
    by (simp_all add: mask_eq_exp_minus_1 push_bit_eq_mult)
  note bits = bit_or_iff bit_and_iff bit_push_bit_iff bit_ucast_iff bit_drop_bit_eq bit_mask_iff bit_take_bit_iff masks
  show "seg_base (SET_TSS_PARAMS d addr lim) = addr"
  proof (rule bit_word_eqI)
    fix n assume "n < LENGTH(32)"
    then show "bit (seg_base (SET_TSS_PARAMS d addr lim)) n = bit addr n"
      by (cases "n < 24") (auto simp: seg_base_def SET_TSS_PARAMS_def bits simp del: push_bit_numeral)
  qed
  show "seg_limit (SET_TSS_PARAMS d addr lim) = take_bit 20 lim"
    by (rule bit_word_eqI) (auto simp: seg_limit_def SET_TSS_PARAMS_def bits simp del: push_bit_numeral)
  show "SET_LDT_PARAMS d addr lim = SET_TSS_PARAMS d addr lim" by (simp add: SET_LDT_PARAMS_def SET_TSS_PARAMS_def)
qed

lemma powered_on_rest:
  fixes s s' :: "'a kernel_scheme"
  assumes "but_visible s' = but_visible s"
  shows "powered_on s' = powered_on s"
proof -
  have "paging_wf (but_visible t) = paging_wf t" for t :: "'a kernel_scheme"
    by (rule tables_only) (simp_all add: but_visible_def)
  then have "powered_on (but_visible t) = powered_on t" for t :: "'a kernel_scheme"
    by (simp add: powered_on_def) (simp add: but_visible_def dentry_table_ok_def procs_ok_def proc_table_ok_def)
  then show ?thesis using assms by metis
qed

lemma clear_quiet: "powered_on s \<Longrightarrow> \<exists>s'. clear_screen s = Some s' \<and> but_visible s' = but_visible s"
  by (simp add: clear_screen_def powered_on_def get_cur_term_def get_curr_exec_term_def but_visible_def)

lemma booting_more:
  "kernel.more s = kernel.more t \<Longrightarrow> ldt_desc_ptr s = ldt_desc_ptr t \<and> tss_desc_ptr s = tss_desc_ptr t \<and>
     tss_ldt_segment_selector s = tss_ldt_segment_selector t \<and> ldtr s = ldtr t \<and> task_register s = task_register t"
  for s t :: "'a booting_scheme"
  by (cases s, cases t) simp

lemma entry_boots:
  assumes "powered_on s" and "length conv_buf = 64" and "mbi_ok m addr" and "disk_holds fs inos (first_module m addr)" and "names_ok fs"
  shows "\<exists>t. entry l locals conv_buf fr m MULTIBOOT_BOOTLOADER_MAGIC addr s =
      do { (oc, s) \<leftarrow> execute fr shell_line t; Some (case oc of Entered e \<Rightarrow> Boot_running e | _ \<Rightarrow> Boot_idle, s) } \<and>
    tasks_ok t \<and> mounts fs inos t \<and> translate True t 0 = None \<and> (\<forall>va. drop_bit 22 va = 1 \<longrightarrow> translate False t va = Some va) \<and>
    boot_gates t \<and> boot_irqs t \<and> fops_table t = std_fops \<and> proc_used t = {} \<and>
    (\<forall>k<3. tm_active (terminals t ! k) = 0) \<and> get_cur_term t = 0 \<and> get_curr_exec_term t = 0 \<and>
    task_register t = KERNEL_TSS \<and> seg_base (tss_desc_ptr t) = tss_addr l \<and> seg_limit (tss_desc_ptr t) = take_bit 20 (tss_size l)"
proof -
  obtain s1 where s1: "clear_screen s = Some s1" "but_visible s1 = but_visible s" using clear_quiet [OF assms(1)] by blast
  obtain s2 where s2: "print_info conv_buf m addr s1 = Some s2" "but_visible s2 = but_visible s1"
    using quiet_print_info [OF assms(2,3)] unfolding quiet_def by blast
  obtain s3 where s3: "print_tables conv_buf m addr s2 = Some s3" "but_visible s3 = but_visible s2"
    using quiet_print_tables [OF assms(2,3)] unfolding quiet_def by blast
  have on3: "powered_on s3" using powered_on_rest [of s3 s] s1(2) s2(2) s3(2) assms(1) by simp
  let ?s4 = "construct_tss l (snd locals) (construct_ldt l (fst locals) s3)"
  have on4: "powered_on ?s4"
    using on3 by (simp add: powered_on_def construct_tss_def construct_ldt_def Let_def dentry_table_ok_def paging_wf_def
        procs_ok_def proc_table_ok_def)
  then obtain s5 where s5: "clear_screen ?s4 = Some s5" "but_visible s5 = but_visible ?s4" using clear_quiet by blast
  have on5: "powered_on s5" using powered_on_rest [OF s5(2)] on4 by simp
  obtain t where t: "init_devices m addr s5 = Some t" "tasks_ok t \<and> mounts fs inos t \<and> translate True t 0 = None \<and>
    (\<forall>va. drop_bit 22 va = 1 \<longrightarrow> translate False t va = Some va) \<and> boot_gates t \<and> boot_irqs t \<and>
    fops_table t = std_fops \<and> proc_used t = {} \<and> (\<forall>k<3. tm_active (terminals t ! k) = 0) \<and> get_cur_term t = 0 \<and> get_curr_exec_term t = 0"
    "kernel.more t = kernel.more s5"
    using init_devices_ready [OF on5 assms(4,5)] by blast
  have "kernel.more (but_visible u) = kernel.more u" for u :: "'a booting_scheme" by (simp add: but_visible_def)
  then have "kernel.more t = kernel.more ?s4" using t(3) s5(2) by metis
  from booting_more [OF this] have desc: "task_register t = KERNEL_TSS" "seg_base (tss_desc_ptr t) = tss_addr l"
    "seg_limit (tss_desc_ptr t) = take_bit 20 (tss_size l)"
    by (simp_all add: construct_tss_def construct_ldt_def Let_def seg_params)
  have "\<not> (bit (mbi_flags m addr) 4 \<and> bit (mbi_flags m addr) 5)" using assms(3) by (simp add: mbi_ok_def)
  then have "entry l locals conv_buf fr m MULTIBOOT_BOOTLOADER_MAGIC addr s =
      do { (oc, s) \<leftarrow> execute fr shell_line t; Some (case oc of Entered e \<Rightarrow> Boot_running e | _ \<Rightarrow> Boot_idle, s) }"
    using s1(1) s2(1) s3(1) s5(1) t(1) by (simp add: entry_def Let_def shell_line_def) blast
  then show ?thesis using t(2) desc by blast
qed

lemma started_frame:
  assumes "tasks_ok s" and "p < NUM_PROCESSES" and "s' = started fr p prog (reserved p command s)"
  shows "mounts fs inos s' = mounts fs inos s" "boot_gates s' = boot_gates s" "boot_irqs s' = boot_irqs s" "fops_table s' = fops_table s"
    "int_flag s'" "curr_process s' = of_nat p" "current_pcb s' = Some p" "proc_used s' = insert p (proc_used s)"
    "get_cur_term s' = get_cur_term s" "kernel.more s' = kernel.more s" "terminals s' = started_terms fr p s"
    "cur_pcb s' = program_pcb fr p (parent_of s) (set_args (cmd_args command) (pcbs s ! p))"
proof -
  note defs = assms(3) started_def reserved_def map_page_def flush_tlb_def
  show "mounts fs inos s' = mounts fs inos s" by (rule mounts_only) (simp_all add: defs)
  show "boot_gates s' = boot_gates s" "boot_irqs s' = boot_irqs s" "fops_table s' = fops_table s"
    "int_flag s'" "curr_process s' = of_nat p" "current_pcb s' = Some p"
    "get_cur_term s' = get_cur_term s" "kernel.more s' = kernel.more s"
    by (simp_all add: defs boot_gates_def boot_irqs_def pic_inv_def get_cur_term_def)
  show "terminals s' = started_terms fr p s" by (simp add: assms(3) started_def started_terms_def)
  show "cur_pcb s' = program_pcb fr p (parent_of s) (set_args (cmd_args command) (pcbs s ! p))"
    using assms(1,2) unat_slot [OF assms(2)]
    by (simp add: cur_pcb_def started_def parent_of_def assms(3)) (simp add: reserved_def tasks_ok_def procs_ok_def)
  show "proc_used s' = insert p (proc_used s)"
    using assms(1,2) by (auto simp: proc_used_def defs tasks_ok_def proc_table_ok_def nth_list_update)
qed

lemma started_kernel:
  assumes "tasks_ok s" and "p < NUM_PROCESSES" and "s' = started fr p prog (reserved p command s)"
  shows "drop_bit 22 va \<noteq> drop_bit 22 VIRTUAL_FILE_PAGE \<Longrightarrow> translate user s' va = translate user s va"
    and "\<lbrakk>tasks_ok s'; fops_table s = std_fops; translate True s 0 = None\<rbrakk> \<Longrightarrow> kernel_ok s'"
proof -
  show same: "translate user s' va = translate user s va" if "drop_bit 22 va \<noteq> drop_bit 22 VIRTUAL_FILE_PAGE" for user va
  proof -
    let ?r = "reserved p command s"
    let ?m = "map_page VIRTUAL_FILE_PAGE (PHYS_FILE_START + PHYS_FILE_OFFSET * of_nat p) ?r"
    have "translate user s' va = translate user ?m va" by (rule tables_only) (simp_all add: assms(3) started_def)
    also have "\<dots> = translate user ?r va" using big.miss [where s = ?r and v = VIRTUAL_FILE_PAGE and a = va] that assms(1) by (simp add: tasks_ok_def)
    also have "\<dots> = translate user s va" by (rule tables_only) (simp_all add: reserved_def)
    finally show ?thesis .
  qed
  assume "tasks_ok s'" "fops_table s = std_fops" "translate True s 0 = None"
  then show "kernel_ok s'"
    using started_frame(4,7) [OF assms] same [of 0 True] assms(2) by (simp add: kernel_ok_def VIRTUAL_FILE_PAGE_def drop_bit_eq_div)
qed

text \<open>C4: Booting.  When the boot loader hands over a well-formed information structure and has put a first module into the kernel page
  that holds a list of files in the format of the file system, wherever its inodes and blocks are, with an executable \<^verbatim>\<open>shell\<close> among them,
  \<^verbatim>\<open>entry\<close> starts that program at its entry point, as
  process 0 of the active terminal 0, with no parent and the two standard descriptors, with interrupts on,
  its bytes at \<^verbatim>\<open>0x8048000\<close>, and every file of the list mounted; the kernel still reaches every byte of the module where the boot loader
  left it.  The invariant of the kernel holds: address 0 in particular is not mapped for user code.  Every vector of the descriptor table leads to its handler, the
  timer, the keyboard and the clock included; of the sixteen interrupt lines those of these three devices and the cascade are open;
  the task register selects the descriptor of the task state segment, which describes it.\<close>

theorem boot_starts_shell:
  assumes "powered_on s" and "length conv_buf = 64" and "frame_ok fr" and "mbi_ok m addr" and "module_placed m addr"
    and "disk_holds fs inos (first_module m addr)" and "names_ok fs" and "i < length fs" and "ff_name (fs ! i) = lit ''shell''"
    and "prog = ff_data (fs ! i)" and "28 \<le> length prog" and "length prog \<le> READ_WHOLE_FILE" and "take 4 prog = ELF"
    and "le32 (take 4 (drop 24 prog)) = Some eip"
  shows "\<exists>s'. entry l locals conv_buf fr m MULTIBOOT_BOOTLOADER_MAGIC addr s = Some (Boot_running eip, s') \<and>
    kernel_ok s' \<and> tasks_ok s' \<and> calls_ok s' \<and> int_flag s' \<and> mounts fs inos s' \<and> boot_gates s' \<and> boot_irqs s' \<and>
    proc_used s' = {0} \<and> curr_process s' = 0 \<and> PPID (cur_pcb s') = -1 \<and> FDs_array (cur_pcb s') = std_fds \<and>
    get_cur_term s' = 0 \<and> tm_active (terminals s' ! 0) = 1 \<and> tm_current_process (terminals s' ! 0) = 0 \<and>
    (\<forall>k < length prog. \<exists>a. translate True s' (VIRTUAL_FILE_START + of_nat k) = Some a \<and> phys_mem s' a = prog ! k) \<and>
    (\<forall>k < length (first_module m addr). translate False s' (mod_start m addr + of_nat k) = Some (mod_start m addr + of_nat k)) \<and>
    task_register s' = KERNEL_TSS \<and> seg_base (tss_desc_ptr s') = tss_addr l \<and> seg_limit (tss_desc_ptr s') = take_bit 20 (tss_size l)"
proof -
  obtain t where entry: "entry l locals conv_buf fr m MULTIBOOT_BOOTLOADER_MAGIC addr s =
      do { (oc, s) \<leftarrow> execute fr shell_line t; Some (case oc of Entered e \<Rightarrow> Boot_running e | _ \<Rightarrow> Boot_idle, s) }"
    and t: "tasks_ok t" "mounts fs inos t" "boot_gates t" "boot_irqs t" "fops_table t = std_fops" "proc_used t = {}"
      "tm_active (terminals t ! 0) = 0" "get_cur_term t = 0" "get_curr_exec_term t = 0" "task_register t = KERNEL_TSS"
      "seg_base (tss_desc_ptr t) = tss_addr l" "seg_limit (tss_desc_ptr t) = take_bit 20 (tss_size l)"
    and tr: "translate True t 0 = None" "\<forall>va. drop_bit 22 va = 1 \<longrightarrow> translate False t va = Some va"
    using entry_boots [OF assms(1,2,4,6,7), of l locals fr] by auto
  obtain e where e: "program_of shell_line t = Some e" "inode e = inos ! i"
    using mounts_lookup [OF t(2) assms(7,8)] assms(9) by (auto simp: program_of_def shell_line_ok)
  have prog: "inode e < num_inodes t" "prog = file_content t (inode e)"
    using t(2) e(2) assms(8,10) by (simp_all add: mounts_def)
  have slot: "next_slot 0 t" and p: "0 < NUM_PROCESSES" using t(6) by (simp_all add: next_slot_def NUM_PROCESSES_def)
  let ?r = "reserved 0 shell_line t"
  let ?s' = "started fr 0 prog ?r"
  note run = execute_started [OF t(1) assms(3) shell_line_ok(1) slot e(1) prog assms(11-14)]
  have okr: "tasks_ok ?r" by (rule tasks_ok_reserved [OF t(1) shell_line_ok(1) p])
  have ok': "tasks_ok ?s'" by (rule started_ok [OF okr p])
  have mem: "\<exists>a. translate True ?s' (VIRTUAL_FILE_START + of_nat k) = Some a \<and> phys_mem ?s' a = prog ! k" if "k < length prog" for k
    using started_image [OF okr p that assms(12)] by blast
  have "translate False ?s' (mod_start m addr + of_nat k) = Some (mod_start m addr + of_nat k)" if "k < length (first_module m addr)" for k
    using module_page [OF assms(5) that] tr(2) started_kernel(1) [OF t(1) p refl, where va = "mod_start m addr + of_nat k" and user = False]
    by (simp add: VIRTUAL_FILE_PAGE_def drop_bit_eq_div)
  moreover have "kernel_ok ?s'" by (rule started_kernel(2) [OF t(1) p refl ok' t(5) tr(1)])
  moreover note st = started_frame [OF t(1) p refl, where fr = fr and prog = prog and command = shell_line]
  have "length (terminals t) = 3" using t(1) by (simp add: tasks_ok_def)
  then have "tm_active (terminals ?s' ! 0) = 1" "tm_current_process (terminals ?s' ! 0) = 0"
    using t(7-9) by (simp_all add: st started_terms_def Let_def activate_def)
  moreover have "calls_ok ?s'" using ok' st t(5) by (simp add: calls_ok_def tasks_ok_def)
  moreover have "PPID (cur_pcb ?s') = -1" "FDs_array (cur_pcb ?s') = std_fds"
    using t(7,8) by (simp_all add: st program_pcb_def parent_of_def)
  ultimately show ?thesis
    using entry run ok' mem st(1-10) t booting_more [OF st(10)] by (intro exI [of _ ?s']) simp
qed

text \<open>A machine that is switched on, and the memory a boot loader leaves: the information structure at
  \<^verbatim>\<open>0x10000\<close>, with flag 3 set, the table of its one module at \<^verbatim>\<open>0x10100\<close> and the module at \<^verbatim>\<open>0x500000\<close>.\<close>

definition blank_gate :: idt_desc where
  "blank_gate = \<lparr>offset_15_00 = 0, seg_selector = 0, reserved4 = 0, reserved3 = 0, reserved2 = 0, reserved1 = 0, size_bit = 0,
     reserved0 = 0, dpl = 0, present = 0, offset_31_16 = 0\<rparr>"

definition blank_seg :: seg_desc where
  "blank_seg = \<lparr>seg_lim_15_00 = 0, base_15_00 = 0, base_23_16 = 0, seg_type = 0, seg_sys = 0, seg_dpl = 0, seg_present = 0,
     seg_lim_19_16 = 0, seg_avail = 0, seg_reserved = 0, opsize = 0, granularity = 0, base_31_24 = 0\<rparr>"

definition boot_example :: booting where
  "boot_example = kernel.extend (exec_example\<lparr>idt := replicate 256 blank_gate, rtc_lock := 0,
       my_dentry := replicate 64 \<lparr>file_name = replicate 33 0, file_type = 0, inode = 0\<rparr>\<rparr>)
     \<lparr>ldt_desc_ptr = blank_seg, tss_desc_ptr = blank_seg, tss_ldt_segment_selector = 0, ldtr = 0, task_register = 0\<rparr>"

definition boot_mem :: "u32 \<Rightarrow> byte" where
  "boot_mem a =
     (if 0x500000 \<le> a then (let k = unat (a - 0x500000); img = scattered_img in if k < length img then img ! k else 0)
      else if a = 0x10000 then 8 else if a = 0x10014 then 1 else if a = 0x10019 then 1 else if a = 0x1001A then 1
      else if a = 0x10102 then 0x50 else if a = 0x10105 then 0xA0 else if a = 0x10106 then 0x50 else 0)"

lemma boot_example_on: "powered_on boot_example"
proof -
  note ok = exec_example_ok [unfolded tasks_ok_def]
  have "paging_wf boot_example" using ok tables_only(2) [of boot_example exec_example]
    by (simp add: boot_example_def kernel.defs)
  moreover have "procs_ok boot_example" "proc_table_ok boot_example" "length (terminals boot_example) = 3"
    using ok by (simp_all add: boot_example_def kernel.defs procs_ok_def proc_table_ok_def)
  moreover have "curr_terminal_number boot_example = 0" "curr_term boot_example = 0" "length (fops_table boot_example) = 6"
    by (simp_all add: boot_example_def kernel.defs exec_example_def kernel_example_def keyboard.defs keyboard_example_def console.defs
        console_example_def files.defs std_fops_def)
  moreover have "length (idt boot_example) = 256" "dentry_table_ok boot_example" "rtc_lock boot_example = 0"
    by (simp_all add: boot_example_def kernel.defs dentry_table_ok_def)
  ultimately show ?thesis by (simp add: powered_on_def)
qed

lemma boot_mem_mbi: "mbi_ok boot_mem 0x10000" "module_placed boot_mem 0x10000" "first_module boot_mem 0x10000 = scattered_img"
proof -
  have low: "mbi_flags boot_mem 0x10000 = 8" "mods_addr boot_mem 0x10000 = 0x10100"
    "rd32 boot_mem 0x10100 = 0x500000" "rd32 boot_mem 0x10104 = 0x50A000"
    by (simp_all add: mbi_flags_def mods_addr_def rd32_def boot_mem_def)
  show "mbi_ok boot_mem 0x10000" by (simp add: mbi_ok_def low)
  show "module_placed boot_mem 0x10000" by (simp add: module_placed_def mod_start_def low)
  have "boot_mem (0x500000 + of_nat i) = scattered_img ! i" if "i < 40960" for i
  proof -
    have "unat (of_nat i :: u32) = i" "unat (0x500000 + of_nat i :: u32) = 0x500000 + i"
      using that by (simp_all add: unat_word_ariths unat_of_nat)
    then show ?thesis using that scattered_length by (simp add: boot_mem_def Let_def word_le_nat_alt)
  qed
  then show "first_module boot_mem 0x10000 = scattered_img"
    using scattered_length by (intro nth_equalityI) (simp_all add: first_module_def low Let_def)
qed

theorem boot_starts_shell_witness:
  "\<exists>s'. entry \<lparr>ldt_addr = 0x402000, ldt_size = 31, tss_addr = 0x401000, tss_size = 103\<rparr> (blank_seg, blank_seg) (replicate 64 0) frame_example
      boot_mem MULTIBOOT_BOOTLOADER_MAGIC 0x10000 boot_example = Some (Boot_running 0x8048094, s') \<and>
    kernel_ok s' \<and> tasks_ok s' \<and> calls_ok s' \<and> int_flag s' \<and> mounts scattered_files [0, 3, 1] s' \<and> boot_gates s' \<and> boot_irqs s' \<and>
    proc_used s' = {0} \<and> curr_process s' = 0 \<and> PPID (cur_pcb s') = -1 \<and> FDs_array (cur_pcb s') = std_fds \<and>
    get_cur_term s' = 0 \<and> tm_active (terminals s' ! 0) = 1 \<and> tm_current_process (terminals s' ! 0) = 0 \<and>
    (\<forall>k < length (ff_data (scattered_files ! 2)). \<exists>a. translate True s' (VIRTUAL_FILE_START + of_nat k) = Some a \<and>
       phys_mem s' a = ff_data (scattered_files ! 2) ! k) \<and>
    (\<forall>k < length scattered_img. translate False s' (mod_start boot_mem 0x10000 + of_nat k) = Some (mod_start boot_mem 0x10000 + of_nat k)) \<and>
    task_register s' = KERNEL_TSS \<and> seg_base (tss_desc_ptr s') = 0x401000 \<and> seg_limit (tss_desc_ptr s') = 103"
proof -
  have "disk_holds scattered_files [0, 3, 1] (first_module boot_mem 0x10000)" unfolding boot_mem_mbi(3) by (rule scattered_holds)
  from boot_starts_shell [OF boot_example_on _ frame_example_ok boot_mem_mbi(1,2) this scattered_names, of "replicate 64 0" 2
      "ff_data (scattered_files ! 2)" "0x8048094" "\<lparr>ldt_addr = 0x402000, ldt_size = 31, tss_addr = 0x401000, tss_size = 103\<rparr>" "(blank_seg, blank_seg)"]
  show ?thesis unfolding boot_mem_mbi(3) by (simp add: scattered_files_def READ_WHOLE_FILE_def ELF_def le32_def)
qed

end
