(* ===== verification/Userland.thy ===== *)
theory Userland
  imports Boot
begin

text \<open>
  The library of the user programs, \<^verbatim>\<open>syscalls/ece391support.c\<close>, the entry of the system calls,
  \<^verbatim>\<open>student-distrib/syscall_link.S\<close>, and the small programs of \<^verbatim>\<open>syscalls/\<close>.

  A program is a function of the kernel state that returns the value of \<^verbatim>\<open>main\<close> and the state its
  system calls leave; a program that waits or loops for ever is \<open>None\<close>.  Its arrays are lists
  of bytes, their uninitialised contents are parameters; \<open>d\<close> is the uninitialised directory entry on the
  kernel stack that \<^verbatim>\<open>open\<close> and \<^verbatim>\<open>read\<close> fill in.
\<close>

section \<open>The library\<close>

fun ece391_strlen :: "byte list \<Rightarrow> nat option" where
  "ece391_strlen [] = None"
| "ece391_strlen (c # s) = (if 0 \<noteq> c then map_option Suc (ece391_strlen s) else Some 0)"

fun ece391_strcpy :: "byte list \<Rightarrow> byte list \<Rightarrow> byte list option" where
  "ece391_strcpy (d # dst) (c # src) = (if 0 \<noteq> c then map_option ((#) c) (ece391_strcpy dst src) else Some (c # dst))"
| "ece391_strcpy _ _ = None"

fun ece391_strcmp :: "byte list \<Rightarrow> byte list \<Rightarrow> int option" where
  "ece391_strcmp (a # s1) (b # s2) = (if a = b then if a = 0 then Some 0 else ece391_strcmp s1 s2 else Some (uint a - uint b))"
| "ece391_strcmp _ _ = None"

fun ece391_strncmp_loop :: "byte list \<Rightarrow> byte list \<Rightarrow> nat \<Rightarrow> int option" where
  "ece391_strncmp_loop (a # s1) (b # s2) n =
     (if a = b then if a = 0 \<or> n - 1 = 0 then Some 0 else ece391_strncmp_loop s1 s2 (n - 1) else Some (uint a - uint b))"
| "ece391_strncmp_loop _ _ n = None"

definition ece391_strncmp :: "byte list \<Rightarrow> byte list \<Rightarrow> nat \<Rightarrow> int option" where
  "ece391_strncmp s1 s2 n = (if 0 = n then Some 0 else ece391_strncmp_loop s1 s2 n)"

function ece391_strrev_loop :: "byte list \<Rightarrow> int \<Rightarrow> int \<Rightarrow> byte list option" where
  "ece391_strrev_loop s beg end =
     (if beg < end then do {
        tmp \<leftarrow> aget s (nat end);
        b \<leftarrow> aget s (nat beg);
        s \<leftarrow> aset s (nat end) b;
        s \<leftarrow> aset s (nat beg) tmp;
        ece391_strrev_loop s (beg + 1) (end - 1)
      } else Some s)"
  by pat_completeness auto
termination
  by (relation "measure (\<lambda>(s, beg, end). nat (end - beg))") auto

declare ece391_strrev_loop.simps [simp del]

definition ece391_strrev :: "byte list \<Rightarrow> byte list option" where
  "ece391_strrev s = do {
     n \<leftarrow> ece391_strlen s;
     if int n - 1 \<le> 0 then Some s else ece391_strrev_loop s 0 (int n - 1)
   }"

function ece391_itoa_loop :: "nat \<Rightarrow> nat \<Rightarrow> byte list \<Rightarrow> byte list option" where
  "ece391_itoa_loop newval radix newbuf =
     (if newval > 0 then
        if radix < 2 then None
        else do {
          c \<leftarrow> aget (cstr ''0123456789ABCDEFGHIJKLMNOPQRSTUVWXYZ'') (newval mod radix);
          ece391_itoa_loop (newval div radix) radix (newbuf @ [c])
        }
      else Some newbuf)"
  by pat_completeness auto
termination
  by (relation "measure (\<lambda>(newval, radix, newbuf). newval)") auto

declare ece391_itoa_loop.simps [simp del]

definition ece391_itoa :: "nat \<Rightarrow> byte list \<Rightarrow> nat \<Rightarrow> byte list option" where
  "ece391_itoa value buf radix =
     (if value = 0 then do { buf \<leftarrow> aset buf 0 48; aset buf 1 0 }
      else do {
        newbuf \<leftarrow> ece391_itoa_loop value radix [];
        buf \<leftarrow> overwrite (newbuf @ [0]) buf;
        ece391_strrev buf
      })"

definition ece391_read :: "dentry \<Rightarrow> int \<Rightarrow> byte list \<Rightarrow> int \<Rightarrow> 'a kernel_scheme \<Rightarrow> (int \<times> byte list \<times> 'a kernel_scheme) option" where
  "ece391_read d fd buf nbytes s = do {
     (r, b, s) \<leftarrow> sys_read d fd (Some buf) nbytes s;
     b \<leftarrow> b;
     Some (r, b, s)
   }"

definition ece391_fdputs :: "int \<Rightarrow> byte list \<Rightarrow> 'a kernel_scheme \<Rightarrow> 'a kernel_scheme option" where
  "ece391_fdputs fd str s = do {
     n \<leftarrow> ece391_strlen str;
     (_, s) \<leftarrow> sys_write fd (Some str) (int n) s;
     Some s
   }"

section \<open>The system call gate\<close>

datatype syscall = Sys_halt | Sys_execute | Sys_read | Sys_write | Sys_open | Sys_close | Sys_getargs | Sys_vidmap
  | Sys_set_handler | Sys_sigreturn

definition jump_table :: "syscall list" where
  "jump_table = [Sys_halt, Sys_execute, Sys_read, Sys_write, Sys_open, Sys_close, Sys_getargs, Sys_vidmap, Sys_set_handler, Sys_sigreturn]"

text \<open>The function a number in \<^verbatim>\<open>eax\<close> calls; \<open>None\<close> for the numbers that only return -1.\<close>

definition syscall_link :: "u32 \<Rightarrow> syscall option" where
  "syscall_link eax =
     (if sint eax \<le> 0 then None
      else if 11 \<le> sint eax then None
      else Some (jump_table ! nat (sint eax - 1)))"

section \<open>The programs\<close>

definition testprint_main :: "'a kernel_scheme \<Rightarrow> (int \<times> 'a kernel_scheme) option" where
  "testprint_main s = do {
     s \<leftarrow> ece391_fdputs 1 (cstr ''Hello, if this ran, the program was correct. Yay!\<newline>'') s;
     Some (0, s)
   }"

definition hello_main :: "dentry \<Rightarrow> byte list \<Rightarrow> 'a kernel_scheme \<Rightarrow> (int \<times> 'a kernel_scheme) option" where
  "hello_main d buf s = do {
     s \<leftarrow> ece391_fdputs 1 (cstr ''Hi, what's your name? '') s;
     (cnt, buf, s) \<leftarrow> ece391_read d 0 buf 1023 s;
     if -1 = cnt then do {
       s \<leftarrow> ece391_fdputs 1 (cstr ''Can't read name from keyboard.\<newline>'') s;
       Some (3, s)
     } else do {
       buf \<leftarrow> aset buf (nat cnt) 0;
       s \<leftarrow> ece391_fdputs 1 (cstr ''Hello, '') s;
       s \<leftarrow> ece391_fdputs 1 buf s;
       Some (0, s)
     }
   }"

text \<open>\<^verbatim>\<open>for (i = 0; i < max; i++)\<close>, from \<open>i\<close> on.\<close>

function counter_loop :: "nat \<Rightarrow> nat \<Rightarrow> byte list \<Rightarrow> 'a kernel_scheme \<Rightarrow> (int \<times> 'a kernel_scheme) option" where
  "counter_loop i maxn buf s =
     (if i < maxn then do {
        buf \<leftarrow> ece391_itoa (i + 1) buf 10;
        s \<leftarrow> ece391_fdputs 1 buf s;
        s \<leftarrow> ece391_fdputs 1 (cstr ''\<newline>'') s;
        counter_loop (i + 1) maxn buf s
      } else Some (0, s))"
  by pat_completeness auto
termination
  by (relation "measure (\<lambda>(i, maxn, buf, s). maxn - i)") auto

declare counter_loop.simps [simp del]

text \<open>\<^verbatim>\<open>cnt\<close> is unsigned here, so the comparison with -1 is one of words.\<close>

definition counter_main :: "dentry \<Rightarrow> byte list \<Rightarrow> 'a kernel_scheme \<Rightarrow> (int \<times> 'a kernel_scheme) option" where
  "counter_main d buf s = do {
     s \<leftarrow> ece391_fdputs 1 (cstr ''Enter the Test Number: (0): 100, (1): 10000, (2): 100000\<newline>'') s;
     (cnt, buf, s) \<leftarrow> ece391_read d 0 buf 1023 s;
     if (of_int (-1) :: u32) = of_int cnt then do {
       s \<leftarrow> ece391_fdputs 1 (cstr ''Can't read the number from keyboard.\<newline>'') s;
       Some (3, s)
     } else do {
       buf \<leftarrow> aset buf (unat (of_int cnt :: u32)) 0;
       n \<leftarrow> ece391_strlen buf;
       c \<leftarrow> aget buf 0;
       if n > 2 \<or> n = 2 \<and> (c < 48 \<or> c > 50) then do {
         s \<leftarrow> ece391_fdputs 1 (cstr ''Wrong Choice!\<newline>'') s;
         Some (0, s)
       } else counter_loop 0 (if c = 48 then 100 else if c = 49 then 10000 else if c = 50 then 100000 else 0) buf s
     }
   }"

partial_function (option) cat_loop :: "dentry \<Rightarrow> int \<Rightarrow> byte list \<Rightarrow> 'a kernel_scheme \<Rightarrow> (int \<times> 'a kernel_scheme) option" where
  "cat_loop d fd buf s = do {
     (cnt, buf, s) \<leftarrow> ece391_read d fd buf 1024 s;
     if 0 = cnt then Some (0, s)
     else if -1 = cnt then do {
       s \<leftarrow> ece391_fdputs 1 (cstr ''file read failed\<newline>'') s;
       Some (3, s)
     } else do {
       (r, s) \<leftarrow> sys_write 1 (Some buf) cnt s;
       if -1 = r then Some (3, s) else cat_loop d fd buf s
     }
   }"

definition cat_main :: "dentry \<Rightarrow> byte list \<Rightarrow> 'a kernel_scheme \<Rightarrow> (int \<times> 'a kernel_scheme) option" where
  "cat_main d buf s = do {
     (r, b) \<leftarrow> getargs (Some buf) 1024 s;
     buf \<leftarrow> b;
     if 0 \<noteq> r then do {
       s \<leftarrow> ece391_fdputs 1 (cstr ''could not read arguments\<newline>'') s;
       Some (3, s)
     } else do {
       (fd, s) \<leftarrow> sys_open d buf s;
       if -1 = fd then do {
         s \<leftarrow> ece391_fdputs 1 (cstr ''file not found\<newline>'') s;
         Some (2, s)
       } else cat_loop d fd buf s
     }
   }"

partial_function (option) ls_loop :: "dentry \<Rightarrow> int \<Rightarrow> byte list \<Rightarrow> 'a kernel_scheme \<Rightarrow> (int \<times> 'a kernel_scheme) option" where
  "ls_loop d fd buf s = do {
     (cnt, buf, s) \<leftarrow> ece391_read d fd buf 32 s;
     if 0 = cnt then Some (0, s)
     else if -1 = cnt then do {
       s \<leftarrow> ece391_fdputs 1 (cstr ''directory entry read failed\<newline>'') s;
       Some (3, s)
     } else do {
       buf \<leftarrow> aset buf (nat cnt) NL;
       (r, s) \<leftarrow> sys_write 1 (Some buf) (cnt + 1) s;
       if -1 = r then Some (3, s) else ls_loop d fd buf s
     }
   }"

definition ls_main :: "dentry \<Rightarrow> byte list \<Rightarrow> 'a kernel_scheme \<Rightarrow> (int \<times> 'a kernel_scheme) option" where
  "ls_main d buf s = do {
     (fd, s) \<leftarrow> sys_open d (cstr ''.'') s;
     if -1 = fd then do {
       s \<leftarrow> ece391_fdputs 1 (cstr ''directory open failed\<newline>'') s;
       Some (2, s)
     } else ls_loop d fd buf s
   }"

text \<open>One turn of the shell: what it does with the line it reads, and what it says about the result of
  \<^verbatim>\<open>execute\<close>.\<close>

datatype shell_turn = Shell_exit int | Shell_again | Shell_execute "byte list"

definition shell_prompt :: "dentry \<Rightarrow> byte list \<Rightarrow> 'a kernel_scheme \<Rightarrow> (shell_turn \<times> byte list \<times> 'a kernel_scheme) option" where
  "shell_prompt d buf s = do {
     s \<leftarrow> ece391_fdputs 1 (cstr ''391OS> '') s;
     (cnt, buf, s) \<leftarrow> ece391_read d 0 buf 1023 s;
     if -1 = cnt then do {
       s \<leftarrow> ece391_fdputs 1 (cstr ''read from keyboard failed\<newline>'') s;
       Some (Shell_exit 3, buf, s)
     } else do {
       cnt \<leftarrow> (if cnt > 0 then do { c \<leftarrow> aget buf (nat (cnt - 1)); Some (if c = NL then cnt - 1 else cnt) } else Some cnt);
       buf \<leftarrow> aset buf (nat cnt) 0;
       c \<leftarrow> ece391_strcmp buf (cstr ''exit'');
       if 0 = c then Some (Shell_exit 0, buf, s)
       else do {
         c \<leftarrow> aget buf 0;
         if c = 0 then Some (Shell_again, buf, s) else Some (Shell_execute buf, buf, s)
       }
     }
   }"

definition shell_report :: "int \<Rightarrow> 'a kernel_scheme \<Rightarrow> 'a kernel_scheme option" where
  "shell_report rval s =
     (if -1 = rval then ece391_fdputs 1 (cstr ''no such command\<newline>'') s
      else if 256 = rval then ece391_fdputs 1 (cstr ''program terminated by exception\<newline>'') s
      else if 0 \<noteq> rval then ece391_fdputs 1 (cstr ''program terminated abnormally\<newline>'') s
      else Some s)"

section \<open>The library of the programs and that of the kernel\<close>

lemma ece391_strlen_eq: "ece391_strlen s = strlen s"
  by (induction s) auto

lemma ece391_strcpy_eq: "ece391_strcpy dst src = strcpy dst src"
  by (induction dst src rule: ece391_strcpy.induct) auto

lemma ece391_strrev_loop_eq: "ece391_strrev_loop s i j = strrev_loop s i j"
proof (induction s i j rule: ece391_strrev_loop.induct)
  case (1 s beg "end")
  show ?case
    by (subst ece391_strrev_loop.simps, subst strrev_loop.simps) (simp add: 1 cong: Option.bind_cong if_cong)
qed

lemma ece391_strrev_eq: "ece391_strrev = strrev"
proof
  fix s
  have "strrev_loop s 0 (int n - 1) = Some s" if "int n - 1 \<le> 0" for n
    using that by (subst strrev_loop.simps) simp
  then show "ece391_strrev s = strrev s"
    by (auto simp: ece391_strrev_def strrev_def ece391_strlen_eq ece391_strrev_loop_eq intro!: Option.bind_cong)
qed

lemma ece391_itoa_loop_eq: "ece391_itoa_loop v radix b = itoa_loop v radix b"
proof (induction v radix b rule: ece391_itoa_loop.induct)
  case (1 v radix b)
  show ?case
    by (subst ece391_itoa_loop.simps, subst itoa_loop.simps) (simp add: 1 itoa_lookup_def cong: Option.bind_cong if_cong)
qed

lemma ece391_itoa_eq: "ece391_itoa v buf radix = itoa v buf radix"
proof (cases buf)
  case Nil
  then show ?thesis
    by (simp add: ece391_itoa_def itoa_def ece391_itoa_loop_eq ece391_strrev_eq cstr_def aset_def overwrite_def)
next
  case (Cons c r)
  then show ?thesis
    by (cases r) (simp_all add: ece391_itoa_def itoa_def ece391_itoa_loop_eq ece391_strrev_eq cstr_def aset_def overwrite_def)
qed

lemma ece391_strncmp_zero:
  assumes "0 \<in> set a" and "0 \<in> set b"
  shows "ece391_strncmp a b n = Some 0 \<longleftrightarrow> strncmp a b n = Some 0"
proof (cases n)
  case (Suc k)
  have "ece391_strncmp_loop a b (Suc k) = Some 0 \<longleftrightarrow> strncmp a b (Suc k) = Some 0"
    using assms
  proof (induction a arbitrary: b k)
    case (Cons x a)
    then obtain y b' where b: "b = y # b'" by (cases b) auto
    show ?case
    proof (cases "x = y \<and> x \<noteq> 0")
      case True
      then have "0 \<in> set a" "0 \<in> set b'" using Cons.prems b by auto
      then show ?thesis using Cons.IH [of b' "k - 1"] True b by (cases k) auto
    next
      case False
      then show ?thesis using b word_uint_eq_iff [of x y] word_eq_iff_signed [of x y] by auto
    qed
  qed simp
  then show ?thesis using Suc by (simp add: ece391_strncmp_def)
qed (simp add: ece391_strncmp_def)

section \<open>What a program prints\<close>

text \<open>The text on the screen of the executing terminal, and all of the state but that screen and the
  interrupt flag.\<close>

definition out_view :: "'a console_scheme \<Rightarrow> grid" where
  "out_view s = (case exec_screen s of (m, x, y) \<Rightarrow> view m x y)"

definition rest :: "'a console_scheme \<Rightarrow> 'a console_scheme" where
  "rest s = (but_exec_screen s)\<lparr>int_flag := False\<rparr>"

definition printed :: "byte list \<Rightarrow> 'a console_scheme \<Rightarrow> 'a console_scheme \<Rightarrow> bool" where
  "printed msg s s' \<longleftrightarrow> exec_screen_ok s' \<and> rest s' = rest s \<and> out_view s' = fold grid_putc msg (out_view s)"

lemma printed_refl: "exec_screen_ok s \<Longrightarrow> printed [] s s"
  by (simp add: printed_def)

lemma printed_trans: "\<lbrakk>printed a s t; printed b t u\<rbrakk> \<Longrightarrow> printed (a @ b) s u"
  by (simp add: printed_def)

lemma rest_keeps: "\<lbrakk>rest s' = rest s; \<And>t. F (rest t) = F t\<rbrakk> \<Longrightarrow> F s' = F s"
  by metis

lemma rest_rest:
  fixes s :: "'a kernel_scheme"
  shows "curr_process (rest s) = curr_process s" "pcbs (rest s) = pcbs s" "current_pcb (rest s) = current_pcb s"
    "fops_table (rest s) = fops_table s" "dentries_wf (rest s) = dentries_wf s" "dentries (rest s) = dentries s"
    "num_dentries (rest s) = num_dentries s" "dir_read_idx_new (rest s) = dir_read_idx_new s"
    "num_inodes (rest s) = num_inodes s" "keyboard_buf (rest s) = keyboard_buf s" "keyboard_idx (rest s) = keyboard_idx s"
    "last_idx (rest s) = last_idx s" "keyboard_pre (rest s) = keyboard_pre s" "phys_mem (rest s) = phys_mem s"
    "exec_ok (rest s) = exec_ok s" "get_curr_exec_term (rest s) = get_curr_exec_term s"
    "file_content (rest s) k = file_content s k" "fs_wf (rest s) = fs_wf s" "cur_pcb (rest s) = cur_pcb s"
    "calls_ok (rest s) = calls_ok s"
proof -
  note defs = rest_def but_exec_screen_def but_visible_def but_saved_def Let_def
  show "curr_process (rest s) = curr_process s" "pcbs (rest s) = pcbs s" "current_pcb (rest s) = current_pcb s"
    "fops_table (rest s) = fops_table s" "dentries_wf (rest s) = dentries_wf s" "dentries (rest s) = dentries s"
    "num_dentries (rest s) = num_dentries s" "dir_read_idx_new (rest s) = dir_read_idx_new s"
    "num_inodes (rest s) = num_inodes s" "keyboard_buf (rest s) = keyboard_buf s" "keyboard_idx (rest s) = keyboard_idx s"
    "last_idx (rest s) = last_idx s" "keyboard_pre (rest s) = keyboard_pre s" "phys_mem (rest s) = phys_mem s"
    "exec_ok (rest s) = exec_ok s" "get_curr_exec_term (rest s) = get_curr_exec_term s"
    by (simp_all add: defs dentries_def dentries_wf_def exec_ok_def get_curr_exec_term_def)
  then show "cur_pcb (rest s) = cur_pcb s" "calls_ok (rest s) = calls_ok s"
    by (simp_all add: cur_pcb_def calls_ok_def procs_ok_def)
  show "file_content (rest s) k = file_content s k" "fs_wf (rest s) = fs_wf s"
    by (rule files_only; simp add: defs)+
qed

lemmas rest_fields =
  rest_keeps [of _ _ curr_process, OF _ rest_rest(1)] rest_keeps [of _ _ pcbs, OF _ rest_rest(2)]
  rest_keeps [of _ _ current_pcb, OF _ rest_rest(3)] rest_keeps [of _ _ fops_table, OF _ rest_rest(4)]
  rest_keeps [of _ _ cur_pcb, OF _ rest_rest(19)] rest_keeps [of _ _ calls_ok, OF _ rest_rest(20)]
  rest_keeps [of _ _ dentries_wf, OF _ rest_rest(5)] rest_keeps [of _ _ dentries, OF _ rest_rest(6)]
  rest_keeps [of _ _ num_dentries, OF _ rest_rest(7)] rest_keeps [of _ _ dir_read_idx_new, OF _ rest_rest(8)]
  rest_keeps [of _ _ fs_wf, OF _ rest_rest(18)] rest_keeps [where F = file_content, OF _ ext, OF _ rest_rest(17)]
  rest_keeps [of _ _ num_inodes, OF _ rest_rest(9)] rest_keeps [of _ _ keyboard_buf, OF _ rest_rest(10)]
  rest_keeps [of _ _ keyboard_idx, OF _ rest_rest(11)] rest_keeps [of _ _ last_idx, OF _ rest_rest(12)]
  rest_keeps [of _ _ keyboard_pre, OF _ rest_rest(13)] rest_keeps [of _ _ phys_mem, OF _ rest_rest(14)]
  rest_keeps [of _ _ exec_ok, OF _ rest_rest(15)] rest_keeps [of _ _ get_curr_exec_term, OF _ rest_rest(16)]

text \<open>A program that can print: its descriptor 1 is the terminal.\<close>

definition user_ok :: "'a kernel_scheme \<Rightarrow> bool" where
  "user_ok s \<longleftrightarrow> calls_ok s \<and> exec_screen_ok s \<and> fd_flags (FDs_array (cur_pcb s) ! 1) = STDOUTFLAG"

lemma printed_ok: "\<lbrakk>user_ok s; printed msg s s'\<rbrakk> \<Longrightarrow> user_ok s'"
  using rest_fields(5,6) [of s' s] by (simp add: user_ok_def printed_def)

lemma write_prints:
  assumes "user_ok s" and "0 \<in> set buf" and "0 \<le> n"
  shows "\<exists>s'. sys_write 1 (Some buf) n s = Some (int (min (length (chars buf)) (nat n)), s') \<and> printed (take (nat n) (chars buf)) s s'"
proof -
  obtain m x y where scr: "exec_screen s = (m, x, y)" by (cases "exec_screen s")
  have ok: "exec_screen_ok s" "calls_ok s" using assms(1) by (simp_all add: user_ok_def)
  obtain s' m' x' y' where s': "terminal_write (Some buf) n s = Some (int (min (length (chars buf)) (nat n)), s')"
    "exec_screen_ok s'" "but_exec_screen s' = but_exec_screen (s\<lparr>int_flag := True\<rparr>)" "exec_screen s' = (m', x', y')"
    "view m' x' y' = fold grid_putc (take (nat n) (chars buf)) (view m x y)"
    using terminal_write_eq [OF ok(1) scr assms(3,2)] by blast
  have "printed (take (nat n) (chars buf)) s s'"
    using s' scr by (simp add: printed_def rest_def out_view_def)
  moreover have "std_fops ! STDOUTFLAG = Some (Terminal_read, Terminal_write)" by (simp add: std_fops_def STDOUTFLAG_def)
  then have "sys_write 1 (Some buf) n s = terminal_write (Some buf) n s"
    using calls_ok_dispatch(2) [OF ok(2), of 1 n buf] assms(1,3) by (simp add: user_ok_def MAX_FILE_def call_write_def)
  ultimately show ?thesis using s'(1) by simp
qed

lemma fdputs_prints:
  assumes "user_ok s" and "0 \<in> set str"
  shows "\<exists>s'. ece391_fdputs 1 str s = Some s' \<and> printed (chars str) s s' \<and> user_ok s'"
proof -
  obtain s' where "sys_write 1 (Some str) (int (length (chars str))) s = Some (int (length (chars str)), s')" "printed (chars str) s s'"
    using write_prints [OF assms, of "int (length (chars str))"] by auto
  then show ?thesis
    using printed_ok [OF assms(1)] strlen_chars [OF assms(2)] by (simp add: ece391_fdputs_def ece391_strlen_eq)
qed

section \<open>Properties\<close>

lemma ece391_strcmp_chars:
  assumes "0 \<in> set a" and "0 \<in> set b"
  shows "\<exists>r. ece391_strcmp a b = Some r \<and> (r = 0 \<longleftrightarrow> chars a = chars b)"
  using assms
proof (induction a arbitrary: b)
  case (Cons x a)
  then obtain y b' where b: "b = y # b'" by (cases b) auto
  show ?case
  proof (cases "x = y \<and> x \<noteq> 0")
    case True
    then show ?thesis using Cons b by (auto simp: chars_def)
  next
    case False
    then show ?thesis using b word_uint_eq_iff [of x y] by (auto simp: chars_def)
  qed
qed simp

text \<open>C39: The user programs and the kernel have the same string library.  \<^verbatim>\<open>ece391_strlen\<close>, \<^verbatim>\<open>ece391_strcpy\<close>,
  \<^verbatim>\<open>ece391_strrev\<close> and \<^verbatim>\<open>ece391_itoa\<close> agree with the kernel's functions on every input, accesses past the end included;
  on strings \<^verbatim>\<open>ece391_strncmp\<close>, which subtracts unsigned characters, returns 0 exactly when the kernel's \<^verbatim>\<open>strncmp\<close>, which
  subtracts signed ones, does; and \<^verbatim>\<open>ece391_strcmp\<close>, which the kernel does not have, returns 0 exactly on equal strings.\<close>

theorem user_library_equivalent:
  assumes "0 \<in> set a" and "0 \<in> set b"
  shows "ece391_strlen s = strlen s \<and> ece391_strcpy dst src = strcpy dst src \<and> ece391_strrev s = strrev s \<and>
    ece391_itoa v buf radix = itoa v buf radix \<and>
    (ece391_strncmp a b n = Some 0 \<longleftrightarrow> strncmp a b n = Some 0) \<and>
    (\<exists>r. ece391_strcmp a b = Some r \<and> (r = 0 \<longleftrightarrow> chars a = chars b))"
  using ece391_strncmp_zero [OF assms] ece391_strcmp_chars [OF assms]
  by (simp add: ece391_strlen_eq ece391_strcpy_eq ece391_strrev_eq ece391_itoa_eq)

theorem user_library_equivalent_witness:
  "ece391_strlen (cstr ''ls'') = strlen (cstr ''ls'') \<and> ece391_strcpy [1, 2] (cstr ''a'') = strcpy [1, 2] (cstr ''a'') \<and>
    ece391_strrev (cstr ''ls'') = strrev (cstr ''ls'') \<and> ece391_itoa 391 (replicate 8 0) 10 = itoa 391 (replicate 8 0) 10 \<and>
    (ece391_strncmp [0x80, 0] [0x7F, 0] 1 = Some 0 \<longleftrightarrow> strncmp [0x80, 0] [0x7F, 0] 1 = Some 0) \<and>
    (\<exists>r. ece391_strcmp [0x80, 0] [0x7F, 0] = Some r \<and> (r = 0 \<longleftrightarrow> chars [0x80, 0] = chars [0x7F, 0]))"
  by (rule user_library_equivalent) simp_all

end
