(* ===== verification/Programs.thy ===== *)
theory Programs
  imports Userland
begin

text \<open>
  What the user programs do on the kernel of this development: each theorem runs the whole program, its library
  and every system call it makes, down to the characters on the screen.
\<close>

section \<open>Input and output of a program\<close>

text \<open>Descriptor 0 is the keyboard.\<close>

definition stdio_ok :: "'a kernel_scheme \<Rightarrow> bool" where
  "stdio_ok s \<longleftrightarrow> user_ok s \<and> fd_flags (FDs_array (cur_pcb s) ! 0) = STDINFLAG"

lemma printed_stdio: "\<lbrakk>stdio_ok s; printed msg s s'\<rbrakk> \<Longrightarrow> stdio_ok s'"
  using printed_ok [of s msg s'] rest_fields(5) [of s' s] by (simp add: stdio_ok_def printed_def)

lemma printed_line_ready:
  fixes s s' :: "'a kernel_scheme"
  assumes "printed msg s s'" and "line_ready cs s"
  shows "line_ready cs s'"
proof -
  have r: "rest s' = rest s" using assms(1) by (simp add: printed_def)
  have "tm_term_enter (terminals (rest t) ! get_curr_exec_term (rest t)) = tm_term_enter (terminals t ! get_curr_exec_term t)"
    if "exec_ok t" for t :: "'a kernel_scheme"
    using that by (simp add: rest_def but_exec_screen_def but_visible_def but_saved_def get_curr_exec_term_def exec_ok_def Let_def)
  moreover have "exec_ok s" "exec_ok s'" using assms(2) rest_fields(19) [OF r] by (simp_all add: line_ready_def)
  ultimately have "tm_term_enter (terminals s' ! get_curr_exec_term s') = tm_term_enter (terminals s ! get_curr_exec_term s)"
    using r by metis
  then show ?thesis using assms(2) rest_fields(14,15,17,19) [OF r] by (simp add: line_ready_def)
qed

lemma line_taken_screen:
  "exec_screen_ok s \<Longrightarrow> exec_screen_ok (line_taken s)" "exec_screen_ok s \<Longrightarrow> out_view (line_taken s) = out_view s"
  "stdio_ok s \<Longrightarrow> stdio_ok (line_taken s)"
proof -
  note defs = line_taken_def reset_line_def displayed_def visible_ok_def saved_ok_def exec_ok_def get_curr_exec_term_def get_cur_term_def
  show ok: "exec_screen_ok s \<Longrightarrow> exec_screen_ok (line_taken s)" for s :: "'a kernel_scheme"
    by (simp add: exec_screen_ok_def defs split: if_splits)
  show "exec_screen_ok s \<Longrightarrow> out_view (line_taken s) = out_view s"
    by (simp add: out_view_def exec_screen_ok_def exec_screen_def visible_def saved_def defs Let_def split: if_splits)
  show "stdio_ok s \<Longrightarrow> stdio_ok (line_taken s)"
    using ok by (simp add: stdio_ok_def user_ok_def) (simp add: calls_ok_def procs_ok_def cur_pcb_def line_taken_def reset_line_def)
qed

lemma read_stdin:
  assumes "stdio_ok s" and "line_ready cs s" and "0 \<le> nbytes" and "m = min (nat nbytes) (Suc (length cs))" and "m < length buf"
  shows "ece391_read d 0 buf nbytes s = Some (int m, take m (cs @ [NL]) @ 0 # drop (Suc m) buf, line_taken s)"
proof -
  have "std_fops ! STDINFLAG = Some (Keyboard_read, Keyboard_write)" by (simp add: std_fops_def STDINFLAG_def)
  then have "sys_read d 0 (Some buf) nbytes s = do { (r, bs, s) \<leftarrow> keyboard_read buf nbytes s; Some (r, Some bs, s) }"
    using calls_ok_dispatch(1) [of s 0 nbytes d buf] assms(1,3) by (simp add: stdio_ok_def user_ok_def MAX_FILE_def call_read_def)
  then show ?thesis using read_ready_line [OF assms(2-5)] by (simp add: ece391_read_def)
qed

text \<open>The state after a message, and the text on the screen after it.\<close>

definition told :: "byte list \<Rightarrow> 'a kernel_scheme \<Rightarrow> 'a kernel_scheme" where
  "told str s = the (ece391_fdputs 1 str s)"

definition typed :: "byte list \<Rightarrow> grid \<Rightarrow> grid" where
  "typed msg g = fold grid_putc msg g"

lemma typed_typed [simp]: "typed b (typed a g) = typed (a @ b) g" "typed [] g = g"
  by (simp_all add: typed_def)

lemma cstr_nul [simp]: "0 \<in> set (cstr m)"
  by (simp add: cstr_def)

lemma cstr_chars: "0 \<notin> set (lit m) \<Longrightarrow> chars (cstr m) = lit m"
  by (simp add: cstr_def)

lemma told_eq:
  assumes "user_ok s" and "0 \<in> set str"
  shows "ece391_fdputs 1 str s = Some (told str s)" "printed (chars str) s (told str s)"
  using fdputs_prints [OF assms] by (auto simp: told_def)

lemma told_simps [simp]:
  assumes "user_ok s" and "0 \<in> set str"
  shows "ece391_fdputs 1 str s = Some (told str s)" "user_ok (told str s)" "out_view (told str s) = typed (chars str) (out_view s)"
    "rest (told str s) = rest s" "stdio_ok s \<Longrightarrow> stdio_ok (told str s)" "line_ready cs s \<Longrightarrow> line_ready cs (told str s)"
proof -
  note t = told_eq [OF assms]
  show "ece391_fdputs 1 str s = Some (told str s)" by (rule t)
  show "user_ok (told str s)" by (rule printed_ok [OF assms(1) t(2)])
  show "stdio_ok s \<Longrightarrow> stdio_ok (told str s)" by (rule printed_stdio [OF _ t(2)])
  show "line_ready cs s \<Longrightarrow> line_ready cs (told str s)" by (rule printed_line_ready [OF t(2)])
  show "out_view (told str s) = typed (chars str) (out_view s)" "rest (told str s) = rest s"
    using t(2) by (simp_all add: printed_def typed_def)
qed

lemma stdio_user [simp]: "stdio_ok s \<Longrightarrow> user_ok s"
  by (simp add: stdio_ok_def)

lemma taken_simps [simp]:
  assumes "stdio_ok s"
  shows "stdio_ok (line_taken s)" "out_view (line_taken s) = out_view s"
  using line_taken_screen [of s] assms by (auto simp: stdio_ok_def user_ok_def)

section \<open>\<^verbatim>\<open>hello\<close>, \<^verbatim>\<open>counter\<close> and the shell\<close>

lemma ready_room: "line_ready cs s \<Longrightarrow> length cs < 128"
  by (simp add: line_ready_def)

lemma read_whole_line:
  assumes "stdio_ok s" and "line_ready cs s" and "length buf = 1024"
  shows "ece391_read d 0 buf 1023 s = Some (int (Suc (length cs)), cs @ NL # 0 # drop (Suc (Suc (length cs))) buf, line_taken s)"
  using read_stdin [OF assms(1,2), of 1023 "Suc (length cs)" buf d] ready_room [OF assms(2)] assms(3) by simp

lemma read_prompted_line:
  assumes "stdio_ok s" and "line_ready cs s" and "length buf = 1024" and "0 \<in> set str"
  shows "ece391_read d 0 buf 1023 (told str s) =
    Some (int (Suc (length cs)), cs @ NL # 0 # drop (Suc (Suc (length cs))) buf, line_taken (told str s))"
  using read_whole_line [of "told str s" cs buf d] assms by simp

lemma line_buf:
  assumes "line_ready cs s" and "length buf = 1024" and "b = cs @ NL # 0 # drop (Suc (Suc (length cs))) buf"
  shows "chars b = cs @ [NL]" "aset b (Suc (length cs)) 0 = Some b" "length b = 1024" "0 \<in> set b"
    "aset b (length cs) 0 = Some (cs @ 0 # drop (Suc (length cs)) b)"
proof -
  have cs: "0 \<notin> set cs" "length cs < 128" using assms(1) by (simp_all add: line_ready_def)
  then show "chars b = cs @ [NL]" using chars_terminated [of "cs @ [NL]"] by (simp add: assms(3))
  show "aset b (Suc (length cs)) 0 = Some b" "length b = 1024" "0 \<in> set b"
    "aset b (length cs) 0 = Some (cs @ 0 # drop (Suc (length cs)) b)"
    using cs(2) assms(2) by (simp_all add: assms(3) aset_def list_update_append)
qed

lemma hello_runs:
  assumes "stdio_ok s" and "line_ready name s" and "length buf = 1024"
  shows "\<exists>s'. hello_main d buf s = Some (0, s') \<and>
    out_view s' = typed (lit ''Hi, what's your name? Hello, '' @ name @ [NL]) (out_view s)"
  using assms line_buf [OF assms(2,3) refl] by (simp add: hello_main_def read_prompted_line [OF assms] cstr_chars del: of_nat_Suc)

text \<open>The numbers from \<open>i + 1\<close> to \<open>n\<close>, one on each line.\<close>

definition numbers :: "nat \<Rightarrow> nat \<Rightarrow> byte list" where
  "numbers i n = concat (map (\<lambda>k. digits 10 (Suc k) @ [NL]) [i..<n])"

lemma counter_loop_prints:
  assumes "user_ok s" and "length buf = 1024" and "n \<le> 100000"
  shows "\<exists>s'. counter_loop i n buf s = Some (0, s') \<and> out_view s' = typed (numbers i n) (out_view s)"
  using assms(1,2)
proof (induction "n - i" arbitrary: i buf s)
  case 0
  then show ?case by (simp add: counter_loop.simps numbers_def)
next
  case (Suc k)
  then have i: "i < n" by simp
  let ?ds = "digits 10 (Suc i)"
  let ?b = "?ds @ 0 # drop (Suc (length ?ds)) buf"
  have len: "length ?ds \<le> 6" using i assms(3) digits_length [of 10 "Suc i" 5] by simp
  have it: "ece391_itoa (i + 1) buf 10 = Some ?b"
    using itoa_digits [of 10 "Suc i" buf] len Suc.prems(2) by (simp add: ece391_itoa_eq)
  have b: "chars ?b = ?ds" "0 \<in> set ?b" "length ?b = 1024"
    using digits_nonzero [of 10 "Suc i"] len Suc.prems(2) by simp_all
  let ?t = "told (cstr ''\<newline>'') (told ?b s)"
  have "user_ok ?t" "k = n - Suc i" using Suc.prems(1) Suc.hyps(2) b(2) by simp_all
  then obtain s' where s': "counter_loop (Suc i) n ?b ?t = Some (0, s')" "out_view s' = typed (numbers (Suc i) n) (out_view ?t)"
    using Suc.hyps(1) [OF _ _ b(3)] by blast
  have "counter_loop i n buf s = Some (0, s')"
    using i it s'(1) Suc.prems(1) b(2) by (subst counter_loop.simps) simp
  moreover have "out_view s' = typed (numbers i n) (out_view s)"
    using s'(2) Suc.prems(1) b(1,2) i by (simp add: numbers_def upt_conv_Cons cstr_chars)
  ultimately show ?case by blast
qed

definition counter_choice :: "byte list \<Rightarrow> nat option" where
  "counter_choice line = (if line = [] then Some 0 else if line = lit ''0'' then Some 100 else if line = lit ''1'' then Some 10000
     else if line = lit ''2'' then Some 100000 else None)"

lemma choice_digit: "\<lbrakk>\<not> a < 48; \<not> 50 < a\<rbrakk> \<Longrightarrow> a = 48 \<or> a = 49 \<or> a = 50" for a :: byte
  by (simp add: word_less_nat_alt word_unat_eq_iff) arith

lemma counter_runs:
  assumes "stdio_ok s" and "line_ready line s" and "length buf = 1024"
  shows "\<exists>s'. counter_main d buf s = Some (0, s') \<and>
    out_view s' = typed (lit ''Enter the Test Number: (0): 100, (1): 10000, (2): 100000\<newline>'' @
      (case counter_choice line of Some n \<Rightarrow> numbers 0 n | None \<Rightarrow> lit ''Wrong Choice!\<newline>'')) (out_view s)"
proof -
  define b where "b = line @ NL # 0 # drop (Suc (Suc (length line))) buf"
  define t where "t = line_taken (told (cstr ''Enter the Test Number: (0): 100, (1): 10000, (2): 100000\<newline>'') s)"
  define n where "n = (if b ! 0 = 48 then 100 else if b ! 0 = 49 then 10000 else if b ! 0 = 50 then 100000 else (0 :: nat))"
  let ?wrong = "Suc (length line) > 2 \<or> Suc (length line) = 2 \<and> (b ! 0 < 48 \<or> b ! 0 > 50)"
  note b = line_buf [OF assms(2,3) b_def]
  have t: "stdio_ok t" "out_view t = typed (lit ''Enter the Test Number: (0): 100, (1): 10000, (2): 100000\<newline>'') (out_view s)"
    using assms(1) by (simp_all add: t_def cstr_chars)
  have w: "unat (of_int (int (Suc (length line))) :: u32) = Suc (length line)"
    using ready_room [OF assms(2)] by (simp add: unat_of_nat flip: of_nat_Suc)
  have "(of_int (- 1) :: u32) \<noteq> of_int (int (Suc (length line)))"
  proof
    assume "(of_int (- 1) :: u32) = of_int (int (Suc (length line)))"
    then have "unat (- 1 :: u32) = Suc (length line)" using w by (simp only: of_int_minus of_int_1)
    then show False using ready_room [OF assms(2)] by (simp add: unsigned_minus_1_eq_mask mask_eq_exp_minus_1)
  qed
  then have run: "counter_main d buf s =
     (if ?wrong then Some (0, told (cstr ''Wrong Choice!\<newline>'') t) else counter_loop 0 n b t)"
    using w b t(1) assms(1) ece391_strlen_eq [of b] strlen_chars [OF b(4)]
    by (simp add: counter_main_def read_prompted_line [OF assms] n_def del: of_nat_Suc of_int_of_nat_eq flip: b_def t_def) blast
  show ?thesis
  proof (cases ?wrong)
    case True
    then have "counter_choice line = None" by (cases line; cases "tl line") (auto simp: counter_choice_def b_def)
    then show ?thesis using run True t by (simp add: cstr_chars)
  next
    case False
    then have choice: "counter_choice line = Some n" by (cases line; cases "tl line") (auto simp: counter_choice_def b_def n_def dest: choice_digit)
    have "n \<le> 100000" by (simp add: n_def)
    from counter_loop_prints [OF stdio_user [OF t(1)] b(3) this, of 0]
    obtain s' where "counter_loop 0 n b t = Some (0, s')" "out_view s' = typed (numbers 0 n) (out_view t)" by blast
    then show ?thesis using run choice t(2) by (simp only: if_not_P [OF False]) simp
  qed
qed

lemma shell_line_turn:
  assumes "stdio_ok s" and "line_ready line s" and "length buf = 1024"
    and "t = line_taken (told (cstr ''391OS> '') s)"
  shows "\<exists>b. shell_prompt d buf s =
      Some (if line = lit ''exit'' then Shell_exit 0 else if line = [] then Shell_again else Shell_execute b, b, t) \<and>
    0 \<in> set b \<and> chars b = line \<and> length b = 1024"
proof -
  let ?b = "line @ NL # 0 # drop (Suc (Suc (length line))) buf"
  let ?b' = "line @ 0 # drop (Suc (length line)) ?b"
  note b = line_buf [OF assms(2,3) refl]
  have line: "0 \<notin> set line" using assms(2) by (simp add: line_ready_def)
  then have b': "chars ?b' = line" "0 \<in> set ?b'" "length ?b' = 1024" using b(3) by simp_all
  obtain r where r: "ece391_strcmp ?b' (cstr ''exit'') = Some r" "r = 0 \<longleftrightarrow> line = lit ''exit''"
    using ece391_strcmp_chars [OF b'(2) cstr_nul, of "''exit''"] b'(1) by (auto simp: cstr_chars)
  have "?b' ! 0 = 0 \<longleftrightarrow> line = []" using line by (cases line) auto
  moreover have "nat (int (Suc (length line)) - 1) = length line" by simp
  ultimately have "shell_prompt d buf s =
      Some (if line = lit ''exit'' then Shell_exit 0 else if line = [] then Shell_again else Shell_execute ?b', ?b', t)"
    using r b(5) assms(1) b'(3) unfolding assms(4)
    by (simp add: shell_prompt_def read_prompted_line [OF assms(1-3)] nth_append)
  then show ?thesis using b' by blast
qed

section \<open>Descriptors of a program\<close>

lemma set_cur_pcb_screen [simp]:
  "exec_screen_ok (set_cur_pcb b s) = exec_screen_ok s" "out_view (set_cur_pcb b s) = out_view s"
  by (simp_all add: set_cur_pcb_def exec_screen_ok_def displayed_def visible_ok_def saved_ok_def exec_ok_def get_curr_exec_term_def
      get_cur_term_def out_view_def exec_screen_def visible_def saved_def Let_def)

definition std_kept :: "pcb \<Rightarrow> pcb \<Rightarrow> bool" where
  "std_kept b b' \<longleftrightarrow> pcb_ok b' \<and> fd_flags (FDs_array b' ! 0) = fd_flags (FDs_array b ! 0) \<and> fd_flags (FDs_array b' ! 1) = fd_flags (FDs_array b ! 1)"

lemma user_ok_set:
  assumes "user_ok s" and "std_kept (cur_pcb s) b"
  shows "user_ok (set_cur_pcb b s)" "cur_pcb (set_cur_pcb b s) = b" "procs_ok (set_cur_pcb b s)" "stdio_ok s \<Longrightarrow> stdio_ok (set_cur_pcb b s)"
proof -
  have ok: "calls_ok s" "procs_ok s" using assms(1) by (simp_all add: user_ok_def calls_ok_def)
  show b: "cur_pcb (set_cur_pcb b s) = b" by (rule procs_ok_cur(3) [OF ok(2)])
  show "procs_ok (set_cur_pcb b s)" using procs_ok_cur(4) [OF ok(2)] assms(2) by (simp add: std_kept_def)
  show "user_ok (set_cur_pcb b s)" "stdio_ok s \<Longrightarrow> stdio_ok (set_cur_pcb b s)"
    using assms calls_ok_set [OF ok(1), of b] b by (auto simp: user_ok_def stdio_ok_def std_kept_def)
qed

lemma std_kept_fds:
  assumes "pcb_ok b" and "2 \<le> i" and "i < MAX_FILE"
  shows "length (chars fname) < 32 \<Longrightarrow> std_kept b (opened fname e i b)" "std_kept b (moved_fd i n b)" "std_kept b (closed_fd i b)"
  using assms opened_ok [OF assms(1,3), of fname e] moved_fd_ok [OF assms(1,3), of n] closed_fd_ok [OF assms(1), of i]
  by (auto simp: std_kept_def opened_def moved_fd_def closed_fd_def)

lemma std_kept_trans: "\<lbrakk>std_kept a b; std_kept b c\<rbrakk> \<Longrightarrow> std_kept a c"
  by (simp add: std_kept_def)

text \<open>The state after \<open>n\<close> bytes of a buffer.\<close>

definition wrote :: "byte list \<Rightarrow> int \<Rightarrow> 'a kernel_scheme \<Rightarrow> 'a kernel_scheme" where
  "wrote buf n s = snd (the (sys_write 1 (Some buf) n s))"

lemma wrote_simps:
  assumes "user_ok s" and "0 \<in> set buf" and "0 \<le> n"
  shows "sys_write 1 (Some buf) n s = Some (int (min (length (chars buf)) (nat n)), wrote buf n s)"
    "user_ok (wrote buf n s)" "out_view (wrote buf n s) = typed (take (nat n) (chars buf)) (out_view s)" "rest (wrote buf n s) = rest s"
proof -
  obtain s' where s': "sys_write 1 (Some buf) n s = Some (int (min (length (chars buf)) (nat n)), s')" "printed (take (nat n) (chars buf)) s s'"
    using write_prints [OF assms] by blast
  then have "wrote buf n s = s'" by (simp add: wrote_def)
  then show "sys_write 1 (Some buf) n s = Some (int (min (length (chars buf)) (nat n)), wrote buf n s)"
    "user_ok (wrote buf n s)" "out_view (wrote buf n s) = typed (take (nat n) (chars buf)) (out_view s)" "rest (wrote buf n s) = rest s"
    using s' printed_ok [OF assms(1) s'(2)] by (simp_all add: printed_def typed_def)
qed

lemma open_at_rest: "rest s' = rest s \<Longrightarrow> open_at i e s' = open_at i e s"
  for s s' :: "'a kernel_scheme"
  using rest_fields(5,7,8,11,13) [of s' s] by (simp add: open_at_def)

section \<open>\<^verbatim>\<open>cat\<close>\<close>

lemma open_unused:
  assumes "user_ok s" and "names_entry fname e s" and "\<not> {2..<MAX_FILE} \<subseteq> fd_used s" and "length (file_name d) = 33"
  obtains i where "2 \<le> i" and "i < MAX_FILE" and "sys_open d fname s = Some (int i, set_cur_pcb (opened fname e i (cur_pcb s)) s)"
    and "std_kept (cur_pcb s) (opened fname e i (cur_pcb s))" and "i \<notin> fd_used s"
proof -
  have ok: "procs_ok s" using assms(1) by (simp add: user_ok_def calls_ok_def)
  have "List.find (\<lambda>j. fd_flags (FDs_array (cur_pcb s) ! j) = NOT_SET) [2..<MAX_FILE] \<noteq> None"
    unfolding find_index_None using assms(3) by (auto simp: fd_used_def)
  then obtain i where f: "List.find (\<lambda>j. fd_flags (FDs_array (cur_pcb s) ! j) = NOT_SET) [2..<MAX_FILE] = Some i" by blast
  then have i: "2 \<le> i" "i < MAX_FILE" unfolding find_index_least by blast+
  have "sys_open d fname s = Some (int i, set_cur_pcb (opened fname e i (cur_pcb s)) s)"
    using sys_open_file [OF ok assms(2,4)] f by simp
  moreover have "std_kept (cur_pcb s) (opened fname e i (cur_pcb s))"
    using std_kept_fds(1) [OF procs_ok_cur(2) [OF ok] i] assms(2) by (simp add: names_entry_def)
  ultimately show thesis using that i f unfolding find_index_least fd_used_def by blast
qed

lemma open_first_free:
  assumes "user_ok s" and "names_entry fname e s" and "\<not> {2..<MAX_FILE} \<subseteq> fd_used s" and "length (file_name d) = 33"
  obtains i where "2 \<le> i" and "i < MAX_FILE" and "sys_open d fname s = Some (int i, set_cur_pcb (opened fname e i (cur_pcb s)) s)"
    and "std_kept (cur_pcb s) (opened fname e i (cur_pcb s))"
  using open_unused [OF assms] by blast

lemma opened_at:
  assumes "procs_ok s" and "names_file fname e s" and "fs_wf s" and "inode e < num_inodes s" and "i < MAX_FILE"
  shows "open_at i e (set_cur_pcb (opened fname e i (cur_pcb s)) s)"
proof -
  have n: "length (chars fname) < 32" "chars fname \<noteq> []" "dentries_wf s" "0 \<in> set fname"
    "List.find (\<lambda>d. chars (file_name d) = chars fname) (dentries s) = Some e"
    "slot_flag e = FILEFLAG"
    using assms(2) by (simp_all add: names_file_def names_entry_def slot_flag_def FILETYPE_def DIRTYPE_def)
  have "pcb_ok (cur_pcb s)" by (rule procs_ok_cur(2) [OF assms(1)])
  then show ?thesis
    using opened_name [OF _ assms(5) n(1), of "cur_pcb s" e] assms(3-5) n procs_ok_cur(3) [OF assms(1)]
    by (simp add: open_at_def) (simp add: opened_def pcb_ok_def)
qed

lemma moved_at: "\<lbrakk>procs_ok s; open_at i e s\<rbrakk> \<Longrightarrow> open_at i e (set_cur_pcb (moved_fd i n (cur_pcb s)) s)"
  using procs_ok_cur(2,3) [of s] by (simp add: open_at_def moved_fd_def pcb_ok_def)

lemma moved_position:
  "\<lbrakk>pcb_ok b; i < MAX_FILE\<rbrakk> \<Longrightarrow> fd_position (FDs_array (moved_fd i n b) ! i) = fd_position (FDs_array b ! i) + of_nat n"
  by (simp add: moved_fd_def pcb_ok_def)

lemma read_open_file:
  assumes "user_ok s" and "open_at i e s" and "0 \<le> n" and "length (file_name d) = 33"
    and "fd_position (FDs_array (cur_pcb s) ! i) = of_nat pos" and "pos \<le> file_length s (inode e)" and "pos < BLOCK_SIZE"
    and "out = take (nat n) (drop pos (file_content s (inode e)))" and "length out \<le> length buf"
  shows "ece391_read d (int i) buf n s =
    Some (int (length out), out @ drop (length out) buf, set_cur_pcb (moved_fd i (length out) (cur_pcb s)) s)"
proof -
  have pos: "pos = unat (fd_position (FDs_array (cur_pcb s) ! i))"
    using assms(5,7) by (simp add: unsigned_of_nat take_bit_nat_eq_self BLOCK_SIZE_def)
  have "take (nat n) (take (file_length s (inode e) - pos) (drop (read_start pos) (file_content s (inode e)))) = out"
    unfolding assms(8) using assms(7) by (simp add: read_start_def take_all_iff)
  from sys_read_file [OF _ assms(2-4) pos assms(6) this [symmetric] assms(9)] show ?thesis
    using assms(1) by (simp add: user_ok_def ece391_read_def)
qed

lemma cat_loop_file:
  assumes "user_ok s" and "open_at i e s" and "2 \<le> i" and "length (file_name d) = 33" and "fd_position (FDs_array (cur_pcb s) ! i) = 0"
    and "content = file_content s (inode e)" and "0 \<notin> set content" and "length buf = 1024" and "0 \<in> set (drop (length content) buf)"
  shows "\<exists>s'. cat_loop d (int i) buf s = Some (0, s') \<and> out_view s' = typed content (out_view s)"
proof -
  let ?n = "length content"
  have n: "?n < 1024" using assms(8,9) by (cases "?n < 1024") simp_all
  have i: "i < MAX_FILE" using assms(2) by (simp add: open_at_def)
  let ?s1 = "set_cur_pcb (moved_fd i ?n (cur_pcb s)) s"
  let ?b = "content @ drop ?n buf"
  have ok: "procs_ok s" "pcb_ok (cur_pcb s)" using assms(1) procs_ok_cur(2) by (auto simp: user_ok_def calls_ok_def)
  have read: "ece391_read d (int i) buf 1024 s = Some (int ?n, ?b, ?s1)"
    using read_open_file [OF assms(1,2) _ assms(4), of 1024 0 content buf] assms(5,6,8) n by (simp add: BLOCK_SIZE_def)
  show ?thesis
  proof (cases "content = []")
    case True
    then show ?thesis using read by (subst cat_loop.simps) simp
  next
    case False
    note u1 = user_ok_set [OF assms(1) std_kept_fds(2) [OF ok(2) assms(3) i], of ?n]
    have b: "0 \<in> set ?b" "take ?n (chars ?b) = content" "?n \<le> length (chars ?b)"
    proof -
      have "chars ?b = content @ chars (drop ?n buf)" using assms(7) by (auto simp: chars_def takeWhile_append)
      then show "0 \<in> set ?b" "take ?n (chars ?b) = content" "?n \<le> length (chars ?b)" using assms(9) by simp_all
    qed
    let ?s2 = "wrote ?b (int ?n) ?s1"
    note w = wrote_simps [OF u1(1) b(1), of "int ?n"]
    have "open_at i e ?s2" using open_at_rest [OF w(4)] moved_at [OF ok(1) assms(2)] by simp
    moreover have "fd_position (FDs_array (cur_pcb ?s2) ! i) = of_nat ?n"
      using rest_fields(5) [OF w(4)] u1(2) moved_position [OF ok(2) i] assms(5) by simp
    moreover have "file_content ?s2 = file_content s"
      using rest_fields(12) [OF w(4)] by (simp add: fun_eq_iff)
    ultimately have "ece391_read d (int i) ?b 1024 ?s2 = Some (0, ?b, set_cur_pcb (moved_fd i 0 (cur_pcb ?s2)) ?s2)"
      using read_open_file [OF w(2) _ _ assms(4), of i e 1024 ?n "[]" ?b] n assms(6)
      by (simp add: BLOCK_SIZE_def flip: length_file_content)
    then have "cat_loop d (int i) ?b ?s2 = Some (0, set_cur_pcb (moved_fd i 0 (cur_pcb ?s2)) ?s2)"
      by (subst cat_loop.simps) simp
    then have "cat_loop d (int i) buf s = Some (0, set_cur_pcb (moved_fd i 0 (cur_pcb ?s2)) ?s2)"
      using read w(1) b(3) False by (subst cat_loop.simps) (simp add: min_def)
    then show ?thesis using w(3) b(2) by simp
  qed
qed

lemma write_unterminated: "\<lbrakk>user_ok s; 0 \<notin> set buf; 0 \<le> n\<rbrakk> \<Longrightarrow> sys_write 1 (Some buf) n s = None"
  using calls_ok_dispatch(2) [of s 1 n buf]
  by (simp add: user_ok_def MAX_FILE_def call_write_def std_fops_def STDOUTFLAG_def terminal_write_def strlen_None_iff [THEN iffD2])

lemma cat_loop_overruns:
  assumes "user_ok s" and "open_at i e s" and "2 \<le> i" and "length (file_name d) = 33" and "fd_position (FDs_array (cur_pcb s) ! i) = 0"
    and "content = file_content s (inode e)" and "1024 \<le> length content" and "0 \<notin> set (take 1024 content)" and "length buf = 1024"
  shows "cat_loop d (int i) buf s = None"
proof -
  have i: "i < MAX_FILE" using assms(2) by (simp add: open_at_def)
  have ok: "pcb_ok (cur_pcb s)" using assms(1) procs_ok_cur(2) by (auto simp: user_ok_def calls_ok_def)
  have "ece391_read d (int i) buf 1024 s = Some (1024, take 1024 content, set_cur_pcb (moved_fd i 1024 (cur_pcb s)) s)"
    using read_open_file [OF assms(1,2) _ assms(4), of 1024 0 "take 1024 content" buf] assms(5-7,9)
    by (simp add: BLOCK_SIZE_def min_absorb2 flip: length_file_content)
  moreover have "sys_write 1 (Some (take 1024 content)) 1024 (set_cur_pcb (moved_fd i 1024 (cur_pcb s)) s) = None"
    by (rule write_unterminated [OF user_ok_set(1) [OF assms(1) std_kept_fds(2) [OF ok assms(3) i]] assms(8)]) simp
  ultimately show ?thesis by (subst cat_loop.simps) simp
qed

lemma cat_main_opens:
  assumes "user_ok s" and "names_file (pcb_args (cur_pcb s)) e s" and "\<not> {2..<MAX_FILE} \<subseteq> fd_used s" and "length (file_name d) = 33"
    and "fs_wf s" and "inode e < num_inodes s" and "length buf = 1024"
    and "b = chars (pcb_args (cur_pcb s)) @ 0 # drop (Suc (length (chars (pcb_args (cur_pcb s))))) buf"
  obtains i t where "cat_main d buf s = cat_loop d (int i) b t" and "2 \<le> i" and "user_ok t" and "open_at i e t" and "out_view t = out_view s"
    and "fd_position (FDs_array (cur_pcb t) ! i) = 0" and "file_content t = file_content s" and "length b = 1024"
proof -
  let ?a = "pcb_args (cur_pcb s)"
  have ok: "procs_ok s" using assms(1) by (simp add: user_ok_def calls_ok_def)
  have a: "0 \<in> set ?a" "length (chars ?a) < 32" using assms(2) by (simp_all add: names_file_def names_entry_def)
  have args: "getargs (Some buf) 1024 s = Some (0, Some b)"
    using strcpy_chars [OF a(1), of buf] a(2) assms(7) procs_ok_cur(1) [OF ok] by (simp add: getargs_def assms(8))
  have b: "chars b = chars ?a" "0 \<in> set b" "length b = 1024" using assms(7,8) a(2) by simp_all
  then have named: "names_file b e s" using assms(2) by (simp add: names_file_def names_entry_def)
  then have "names_entry b e s" by (simp add: names_file_def)
  then obtain i where i: "2 \<le> i" "i < MAX_FILE" "sys_open d b s = Some (int i, set_cur_pcb (opened b e i (cur_pcb s)) s)"
    "std_kept (cur_pcb s) (opened b e i (cur_pcb s))"
    by (rule open_first_free [OF assms(1) _ assms(3,4)])
  let ?t = "set_cur_pcb (opened b e i (cur_pcb s)) s"
  note t = user_ok_set [OF assms(1) i(4)]
  have "cat_main d buf s = cat_loop d (int i) b ?t" using args i(3) by (simp add: cat_main_def)
  moreover have "fd_position (FDs_array (cur_pcb ?t) ! i) = 0"
    using t(2) i(2) procs_ok_cur(2) [OF ok] by (simp add: opened_def pcb_ok_def)
  moreover have "file_content ?t = file_content s" by (simp add: fun_eq_iff)
  ultimately show thesis
    using that i(1) t(1) opened_at [OF ok named assms(5,6) i(2)] b(3) by simp
qed

lemma cat_missing:
  assumes "user_ok s" and "dentries_wf s" and "0 \<in> set (pcb_args (cur_pcb s))" and "chars (pcb_args (cur_pcb s)) = a"
    and "take 5 a \<noteq> lit ''stdin''" and "take 6 a \<noteq> lit ''stdout''" and "a = [] \<or> (\<forall>e \<in> set (dentries s). chars (file_name e) \<noteq> a)"
    and "length a < 128" and "length (file_name d) = 33" and "length buf = 1024"
  shows "\<exists>s'. cat_main d buf s = Some (2, s') \<and> out_view s' = typed (lit ''file not found\<newline>'') (out_view s)"
proof -
  let ?b = "a @ 0 # drop (Suc (length a)) buf"
  have ok: "procs_ok s" using assms(1) by (simp add: user_ok_def calls_ok_def)
  have args: "getargs (Some buf) 1024 s = Some (0, Some ?b)"
    using strcpy_chars [OF assms(3), of buf] assms(4,8,10) procs_ok_cur(1) [OF ok] by (simp add: getargs_def)
  have "0 \<notin> set a" using assms(4) by auto
  then have "sys_open d ?b s = Some (-1, s)"
    using assms(5-7) by (intro sys_open_missing [OF assms(2) _ _ _ assms(9)]) simp_all
  then show ?thesis using args assms(1) by (simp add: cat_main_def cstr_chars)
qed

section \<open>\<^verbatim>\<open>ls\<close>\<close>

definition at_entry :: "nat \<Rightarrow> 'a kernel_scheme \<Rightarrow> 'a kernel_scheme" where
  "at_entry k s = s\<lparr>dir_read_idx_new := k\<rparr>"

lemma at_entry_simps [simp]:
  "cur_pcb (at_entry k s) = cur_pcb s" "dentries (at_entry k s) = dentries s" "dentries_wf (at_entry k s) = dentries_wf s"
  "num_dentries (at_entry k s) = num_dentries s" "dir_read_idx_new (at_entry k s) = k" "user_ok (at_entry k s) = user_ok s"
  "out_view (at_entry k s) = out_view s"
  by (simp_all add: at_entry_def cur_pcb_def dentries_def dentries_wf_def user_ok_def calls_ok_def procs_ok_def exec_screen_ok_def displayed_def
      visible_ok_def saved_ok_def exec_ok_def get_curr_exec_term_def get_cur_term_def out_view_def exec_screen_def visible_def saved_def Let_def)

lemma read_directory:
  assumes "user_ok s" and "i < MAX_FILE" and "fd_flags (FDs_array (cur_pcb s) ! i) = DIRFLAG" and "0 \<le> n"
  shows "ece391_read d (int i) buf n s = dir_readnew buf s"
proof -
  have "std_fops ! DIRFLAG = Some (Dir_readnew, Invalid_function)" by (simp add: std_fops_def DIRFLAG_def)
  then have "sys_read d (int i) (Some buf) n s = do { (r, bs, s) \<leftarrow> dir_readnew buf s; Some (r, Some bs, s) }"
    using calls_ok_dispatch(1) [of s "int i" n d buf] assms by (simp add: user_ok_def call_read_def)
  then show ?thesis by (cases "dir_readnew buf s") (auto simp: ece391_read_def)
qed

definition listing :: "dentry list \<Rightarrow> byte list" where
  "listing ds = concat (map (\<lambda>e. chars (file_name e) @ [NL]) ds)"

lemma ls_loop_lists:
  assumes "user_ok s" and "i < MAX_FILE" and "fd_flags (FDs_array (cur_pcb s) ! i) = DIRFLAG" and "dentries_wf s"
    and "\<forall>e \<in> set (dentries s). chars (file_name e) \<noteq> [] \<and> length (chars (file_name e)) < n"
    and "n < length buf" and "buf ! n = 0"
  shows "\<exists>s'. ls_loop d (int i) buf s = Some (0, s') \<and> dir_read_idx_new s' = 0 \<and> out_view s' = typed (listing (drop (dir_read_idx_new s) (dentries s))) (out_view s)"
  using assms
proof (induction "num_dentries s - dir_read_idx_new s" arbitrary: s buf)
  case 0
  have "length (dentries s) = num_dentries s" using 0(5) by (simp add: dentries_wf_def dentries_def)
  moreover have "ece391_read d (int i) buf 32 s = Some (0, buf, at_entry 0 s)"
    using 0 read_directory [OF 0(2-4), of 32 d buf] by (simp add: dir_readnew_def at_entry_def)
  ultimately show ?case using 0 by (subst ls_loop.simps) (simp add: listing_def)
next
  case (Suc k)
  let ?k = "dir_read_idx_new s"
  have k: "?k < num_dentries s" and len: "length (dentries s) = num_dentries s"
    using Suc.hyps(2) Suc.prems(4) by (simp_all add: dentries_wf_def dentries_def)
  define nm where "nm = chars (file_name (dentries s ! ?k))"
  define b where "b = nm @ NL # drop (Suc (length nm)) buf"
  have nm: "nm \<noteq> []" "length nm < n" "0 \<notin> set nm" using Suc.prems(5) k len by (simp_all add: nm_def)
  let ?t = "at_entry (Suc ?k) s"
  have read: "ece391_read d (int i) buf 32 s = Some (int (length nm), nm @ 0 # drop (Suc (length nm)) buf, ?t)"
    using dir_readnew_entry [OF Suc.prems(4) k nm_def, of buf] read_directory [OF Suc.prems(1-3), of 32 d buf] nm(2) Suc.prems(6)
    by (simp add: at_entry_def)
  have b: "aset (nm @ 0 # drop (Suc (length nm)) buf) (length nm) NL = Some b" "n < length b" "b ! n = 0"
    using nm(2) Suc.prems(6,7) by (simp_all add: b_def aset_def list_update_append nth_append nth_Cons')
  then have nul: "0 \<in> set b" by (metis nth_mem)
  have "chars b = (nm @ [NL]) @ chars (drop (Suc (length nm)) buf)" using nm(3) by (auto simp: b_def chars_def takeWhile_append)
  then have cb: "take (Suc (length nm)) (chars b) = nm @ [NL]" "Suc (length nm) \<le> length (chars b)" by simp_all
  let ?u = "wrote b (int (Suc (length nm))) ?t"
  note w = wrote_simps [of ?t b "int (Suc (length nm))", OF _ nul]
  have u: "user_ok ?u" "rest ?u = rest ?t" "out_view ?u = typed (nm @ [NL]) (out_view s)" "sys_write 1 (Some b) (int (Suc (length nm))) ?t = Some (int (Suc (length nm)), ?u)"
    using w Suc.prems(1) cb by (simp_all add: min_def del: of_nat_Suc)
  note f = rest_fields(5,7,8,9,10) [OF u(2)]
  have "\<exists>s'. ls_loop d (int i) b ?u = Some (0, s') \<and> dir_read_idx_new s' = 0 \<and> out_view s' = typed (listing (drop (dir_read_idx_new ?u) (dentries ?u))) (out_view ?u)"
    by (rule Suc.hyps(1)) (use Suc.hyps(2) Suc.prems u(1) f b k in simp_all)
  then obtain s' where s': "ls_loop d (int i) b ?u = Some (0, s')" "out_view s' = typed (listing (drop (Suc ?k) (dentries s))) (out_view ?u)"
    "dir_read_idx_new s' = 0" using f by auto
  have "ls_loop d (int i) buf s = Some (0, s')"
    using read b(1) u(4) s'(1) nm(1) by (subst ls_loop.simps) (simp add: add.commute)
  moreover have "listing (drop ?k (dentries s)) = (nm @ [NL]) @ listing (drop (Suc ?k) (dentries s))"
    using k len by (simp add: listing_def nm_def flip: Cons_nth_drop_Suc)
  ultimately show ?case using s'(2,3) u(3) by simp
qed

lemma ls_runs:
  assumes "user_ok s" and "names_entry (cstr ''.'') e s" and "file_type e = DIRTYPE" and "\<not> {2..<MAX_FILE} \<subseteq> fd_used s"
    and "length (file_name d) = 33" and "\<forall>e \<in> set (dentries s). chars (file_name e) \<noteq> [] \<and> length (chars (file_name e)) < n"
    and "n < length buf" and "buf ! n = 0"
  shows "\<exists>s'. ls_main d buf s = Some (0, s') \<and> dir_read_idx_new s' = 0 \<and>
    out_view s' = typed (listing (drop (dir_read_idx_new s) (dentries s))) (out_view s)"
proof -
  obtain i where i: "2 \<le> i" "i < MAX_FILE"
    "sys_open d (cstr ''.'') s = Some (int i, set_cur_pcb (opened (cstr ''.'') e i (cur_pcb s)) s)"
    "std_kept (cur_pcb s) (opened (cstr ''.'') e i (cur_pcb s))"
    by (rule open_first_free [OF assms(1,2,4,5)])
  let ?t = "set_cur_pcb (opened (cstr ''.'') e i (cur_pcb s)) s"
  note t = user_ok_set [OF assms(1) i(4)]
  have ok: "pcb_ok (cur_pcb s)" using assms(1) procs_ok_cur(2) by (auto simp: user_ok_def calls_ok_def)
  have f: "dentries ?t = dentries s" "num_dentries ?t = num_dentries s" "dir_read_idx_new ?t = dir_read_idx_new s"
    by (simp_all add: set_cur_pcb_def dentries_def)
  have "\<exists>s'. ls_loop d (int i) buf ?t = Some (0, s') \<and> dir_read_idx_new s' = 0 \<and> out_view s' = typed (listing (drop (dir_read_idx_new ?t) (dentries ?t))) (out_view ?t)"
    by (rule ls_loop_lists [OF t(1) i(2)])
      (use t(2) i(2) ok assms f in \<open>simp_all add: opened_def pcb_ok_def slot_flag_def names_entry_def\<close>)
  then show ?thesis using i(1,3) f by (auto simp: ls_main_def)
qed

section \<open>From the command line to the program\<close>

lemma rest_tasks:
  fixes s :: "'a kernel_scheme"
  shows "tasks_ok (rest s) = tasks_ok s" "proc_used (rest s) = proc_used s"
proof -
  note defs = rest_def but_exec_screen_def but_visible_def but_saved_def Let_def
  have "paging_wf (rest s) = paging_wf s" by (rule tables_only) (simp_all add: defs)
  then show "tasks_ok (rest s) = tasks_ok s"
    using rest_rest [of s] by (simp add: tasks_ok_def calls_ok_def procs_ok_def) (simp add: defs proc_table_ok_def get_cur_term_def)
  show "proc_used (rest s) = proc_used s" by (simp add: defs proc_used_def)
qed

lemma taken_tasks:
  fixes s :: "'a kernel_scheme"
  shows "tasks_ok (line_taken s) = tasks_ok s" "proc_used (line_taken s) = proc_used s" "dentries (line_taken s) = dentries s"
    "num_inodes (line_taken s) = num_inodes s" "file_content (line_taken s) k = file_content s k"
proof -
  note defs = line_taken_def reset_line_def
  have "paging_wf (line_taken s) = paging_wf s" by (rule tables_only) (simp_all add: defs)
  moreover have "fs_wf (line_taken s) = fs_wf s" and "file_content (line_taken s) k = file_content s k" by (rule files_only; simp add: defs)+
  ultimately show "tasks_ok (line_taken s) = tasks_ok s" "file_content (line_taken s) k = file_content s k"
    by (simp_all add: tasks_ok_def) (simp add: defs procs_ok_def proc_table_ok_def dentries_wf_def get_cur_term_def get_curr_exec_term_def)
  show "proc_used (line_taken s) = proc_used s" "dentries (line_taken s) = dentries s" "num_inodes (line_taken s) = num_inodes s"
    by (simp_all add: defs proc_used_def dentries_def)
qed

lemma command_chars:
  assumes "chars b = chars c"
  shows "cmd_word b = cmd_word c" "cmd_args b = cmd_args c" "program_of b s = program_of c s"
  using assms by (simp_all add: cmd_word_def cmd_args_def cmd_rest_def program_of_def)

lemma shell_executes:
  assumes "stdio_ok s" and "tasks_ok s" and "line_ready line s" and "length buf = 1024" and "line \<noteq> []" and "line \<noteq> lit ''exit''"
    and "frame_ok fr" and "next_slot p s" and "program_of (line @ [0]) s = Some e" and "inode e < num_inodes s"
    and "prog = file_content s (inode e)" and "28 \<le> length prog" and "length prog \<le> READ_WHOLE_FILE" and "take 4 prog = ELF"
    and "le32 (take 4 (drop 24 prog)) = Some eip"
  shows "\<exists>b t s'. shell_prompt d buf s = Some (Shell_execute b, b, t) \<and> out_view t = typed (lit ''391OS> '') (out_view s) \<and>
    execute fr b t = Some (Entered eip, s') \<and> tasks_ok s' \<and> curr_process s' = of_nat p \<and> proc_used s' = insert p (proc_used s) \<and>
    chars (pcb_args (cur_pcb s')) = cmd_args (line @ [0]) \<and>
    (\<forall>k < length prog. \<exists>a. translate True s' (VIRTUAL_FILE_START + of_nat k) = Some a \<and> phys_mem s' a = prog ! k)"
proof -
  let ?u = "told (cstr ''391OS> '') s"
  let ?t = "line_taken ?u"
  have line: "0 \<notin> set line" "length line < BUF_SIZE" using assms(3) by (simp_all add: line_ready_def BUF_SIZE_def)
  obtain b where b: "shell_prompt d buf s = Some (Shell_execute b, b, ?t)" "0 \<in> set b" "chars b = chars (line @ [0])" "chars b = line"
    using shell_line_turn [OF assms(1,3,4) refl, of d] assms(5,6) line(1) by auto
  have r: "rest ?u = rest s" using assms(1) by simp
  have t: "tasks_ok ?t" "proc_used ?t = proc_used s" "dentries ?t = dentries s" "num_inodes ?t = num_inodes s" "file_content ?t k = file_content s k" for k
    using assms(2) rest_keeps [of _ _ tasks_ok, OF r rest_tasks(1)] rest_keeps [of _ _ proc_used, OF r rest_tasks(2)] rest_fields(8,12,13) [OF r] by (simp_all add: taken_tasks)
  have p: "p < NUM_PROCESSES" "next_slot p ?t" using assms(8) t(2) by (simp_all add: next_slot_def)
  have prog: "program_of b ?t = Some e" "inode e < num_inodes ?t" "prog = file_content ?t (inode e)"
    using assms(9-11) t command_chars(1) [OF b(3)] by (simp_all add: program_of_def split: if_splits)
  have cmd: "cmd_ok b" using b(2,4) line(2) by (simp add: cmd_ok_def)
  let ?r = "reserved p b ?t"
  let ?s' = "started fr p prog ?r"
  have run: "execute fr b ?t = Some (Entered eip, ?s')" by (rule execute_started [OF t(1) assms(7) cmd p(2) prog assms(12-15)])
  have ok: "tasks_ok ?r" by (rule tasks_ok_reserved [OF t(1) cmd p(1)])
  note st = started_frame [OF t(1) p(1) refl, where fr = fr and prog = prog and command = b]
  have "chars (pcb_args (cur_pcb ?s')) = cmd_args (line @ [0])"
    using cmd_args_no_nul [of b] command_chars(2) [OF b(3)] by (simp add: st program_pcb_def set_args_def)
  moreover have "out_view ?t = typed (lit ''391OS> '') (out_view s)" using assms(1) by (simp add: cstr_chars)
  ultimately show ?thesis
    using b(1) run started_ok [OF ok p(1)] started_image [OF ok p(1) _ assms(13)] st(6,8) t(2) by blast
qed

section \<open>Properties\<close>

text \<open>A process with the two standard descriptors and the arguments \<open>args\<close>, on a terminal where \<open>line\<close> has
  been typed and ended.\<close>

definition prog_example :: "string \<Rightarrow> string \<Rightarrow> kernel" where
  "prog_example line args = exec_example\<lparr>
     pcbs := (pcbs exec_example)[0 := pcb_example\<lparr>FDs_array := std_fds, pcb_args := lit args @ replicate (128 - length args) 0\<rparr>],
     dir_read_idx_new := 0, keyboard_buf := lit line @ NL # replicate (128 - length line) 0, keyboard_idx := of_nat (length line),
     terminals := (terminals exec_example)[0 := (terminals exec_example ! 0)\<lparr>tm_term_enter := 1\<rparr>]\<rparr>"

lemma exec_example_fields:
  "pcbs exec_example = replicate 6 pcb_example" "curr_process exec_example = 0" "length (terminals exec_example) = 3" "curr_term exec_example = 0"
  "curr_terminal_number exec_example = 0" "keyboard_pre exec_example = 0" "fops_table exec_example = std_fops" "current_pcb exec_example = Some 0"
  "screen_x exec_example = screen_x console_example" "screen_y exec_example = screen_y console_example"
  by (simp_all add: exec_example_def kernel_example_def keyboard.defs keyboard_example_def console.defs console_example_def files.defs)

lemma prog_example_fields:
  "curr_process (prog_example line args) = 0" "length (terminals (prog_example line args)) = 3" "curr_term (prog_example line args) = 0"
  "curr_terminal_number (prog_example line args) = 0" "keyboard_pre (prog_example line args) = 0" "current_pcb (prog_example line args) = Some 0"
  "fops_table (prog_example line args) = std_fops" "screen_x (prog_example line args) = 78" "screen_y (prog_example line args) = 24"
  "dir_read_idx_new (prog_example line args) = 0"
  "pcbs (prog_example line args) = (replicate 6 pcb_example)[0 := pcb_example\<lparr>FDs_array := std_fds, pcb_args := lit args @ replicate (128 - length args) 0\<rparr>]"
  by (simp_all add: prog_example_def exec_example_fields) (simp_all add: console_example_def files.defs)

lemma prog_example_ok:
  assumes "length args < 128"
  shows "stdio_ok (prog_example line args)" "tasks_ok (prog_example line args)" "fd_used (prog_example line args) = {}"
    "cur_pcb (prog_example line args) = pcb_example\<lparr>FDs_array := std_fds, pcb_args := lit args @ replicate (128 - length args) 0\<rparr>"
    "dentries (prog_example line args) = dentries mounted_example" "num_inodes (prog_example line args) = 4"
    "file_content (prog_example line args) k = file_content mounted_example k"
    "next_slot (Suc 0) (prog_example line args)"
proof -
  let ?s = "prog_example line args"
  note f = prog_example_fields
  have procs: "procs_ok ?s"
    using assms by (simp add: procs_ok_def f NUM_PROCESSES_def numeral_eq_Suc)
      (simp add: pcb_example_def pcb_ok_def MAX_FILE_def BUF_SIZE_def std_fds_def STDINFLAG_def STDOUTFLAG_def NOT_SET_def upt_rec)
  show cur: "cur_pcb ?s = pcb_example\<lparr>FDs_array := std_fds, pcb_args := lit args @ replicate (128 - length args) 0\<rparr>"
    by (simp add: cur_pcb_def f)
  have ok: "fs_wf exec_example" "dentries_wf exec_example" "proc_table_ok exec_example" "paging_wf exec_example"
    using exec_example_ok by (simp_all add: tasks_ok_def)
  have "fs_wf ?s = fs_wf exec_example" "file_content ?s k = file_content exec_example k"
    by (rule files_only; simp add: prog_example_def)+
  moreover have "paging_wf ?s = paging_wf exec_example" by (rule tables_only) (simp_all add: prog_example_def)
  moreover have "dentries_wf ?s = dentries_wf exec_example" "dentries ?s = dentries exec_example" "num_inodes ?s = num_inodes exec_example"
    "proc_table_ok ?s = proc_table_ok exec_example" "proc_used ?s = proc_used exec_example"
    by (simp_all add: prog_example_def dentries_wf_def dentries_def proc_table_ok_def proc_used_def)
  ultimately show "dentries ?s = dentries mounted_example" "num_inodes ?s = 4"
    "file_content ?s k = file_content mounted_example k" "next_slot (Suc 0) ?s" "tasks_ok ?s"
    using ok procs exec_example_slot by (simp_all add: next_slot_def tasks_ok_def get_cur_term_def get_curr_exec_term_def f)
  show "fd_used ?s = {}" by (auto simp: fd_used_def cur std_fds_def NOT_SET_def MAX_FILE_def less_Suc_eq numeral_eq_Suc)
  show "stdio_ok ?s" using procs
    by (simp add: stdio_ok_def user_ok_def calls_ok_def f cur std_fds_def MAX_FILE_def exec_screen_ok_def displayed_def visible_ok_def saved_ok_def
        exec_ok_def get_curr_exec_term_def get_cur_term_def cursor_ok_def screen_consts)
qed

lemma prog_example_line:
  "\<lbrakk>length line < 128; 0 \<notin> set (lit line); NL \<notin> set (lit line)\<rbrakk> \<Longrightarrow> line_ready (lit line) (prog_example line args)"
  by (simp add: line_ready_def prog_example_fields exec_ok_def get_curr_exec_term_def)
    (simp add: prog_example_def unat_of_nat exec_example_fields(3))

lemma prog_example_named:
  assumes "length args < 128" and "i < length files_example" and "chars fname = ff_name (files_example ! i)" and "0 \<in> set fname"
    and "chars fname \<noteq> []" and "length (chars fname) < 32" and "take 5 (chars fname) \<noteq> lit ''stdin''" and "take 6 (chars fname) \<noteq> lit ''stdout''"
    and "ff_type (files_example ! i) \<in> {FILETYPE, DIRTYPE}"
  obtains e where "names_entry fname e (prog_example line args)" and "inode e = i" and "file_type e = ff_type (files_example ! i)"
proof -
  obtain e where e: "List.find (\<lambda>d. chars (file_name d) = chars fname) (dentries mounted_example) = Some e" "inode e = i"
    "file_type e = ff_type (files_example ! i)"
    using files_example_lookup [OF assms(2)] assms(3) by auto
  moreover have "dentries_wf (prog_example line args)" using prog_example_ok(2) [OF assms(1)] by (simp add: tasks_ok_def)
  ultimately have "names_entry fname e (prog_example line args)"
    using assms(4-9) by (auto simp: names_entry_def prog_example_ok(5) [OF assms(1)])
  then show thesis using that e by blast
qed

text \<open>C20: \<^verbatim>\<open>cat\<close>.  For an argument that names a regular file without NUL bytes, \<^verbatim>\<open>cat\<close> prints exactly the bytes of
  the file and ends with status 0 when the file is shorter than its 1024-byte buffer and the buffer has a NUL
  after them; a file of 1024 bytes or more fills the buffer, and \<^verbatim>\<open>terminal_write\<close>, which looks for a NUL,
  then reads past its end.\<close>

theorem cat_prints_file:
  assumes "user_ok s" and "names_file (pcb_args (cur_pcb s)) e s" and "\<not> {2..<MAX_FILE} \<subseteq> fd_used s" and "length (file_name d) = 33"
    and "fs_wf s" and "inode e < num_inodes s" and "length buf = 1024" and "content = file_content s (inode e)" and "0 \<notin> set content"
    and "args = chars (pcb_args (cur_pcb s))"
  shows "(0 \<in> set (drop (length content) (args @ 0 # drop (Suc (length args)) buf)) \<longrightarrow>
      (\<exists>s'. cat_main d buf s = Some (0, s') \<and> out_view s' = typed content (out_view s))) \<and>
    (1024 \<le> length content \<longrightarrow> cat_main d buf s = None)"
proof -
  define b where "b = args @ 0 # drop (Suc (length args)) buf"
  obtain i t where it: "cat_main d buf s = cat_loop d (int i) b t" "2 \<le> i" "user_ok t" "open_at i e t" "out_view t = out_view s"
    "fd_position (FDs_array (cur_pcb t) ! i) = 0" "file_content t = file_content s" "length b = 1024"
    by (rule cat_main_opens [OF assms(1-7)]) (use assms(10) b_def in auto)
  have "\<exists>s'. cat_main d buf s = Some (0, s') \<and> out_view s' = typed content (out_view s)" if "0 \<in> set (drop (length content) b)"
    using cat_loop_file [OF it(3,4,2) assms(4) it(6) _ assms(9) it(8) that] it(1,5,7) assms(8) by simp
  moreover have "cat_main d buf s = None" if "1024 \<le> length content"
    using cat_loop_overruns [OF it(3,4,2) assms(4) it(6) _ that _ it(8)] it(1,7) assms(8,9) by (auto dest: in_set_takeD)
  ultimately show ?thesis unfolding b_def by blast
qed

theorem cat_prints_file_witness:
  "\<exists>s'. cat_main blank_dentry (replicate 1024 0) (prog_example '''' ''frame0.txt'') = Some (0, s') \<and>
    out_view s' = typed (lit ''fish'') (out_view (prog_example '''' ''frame0.txt''))"
proof -
  let ?s = "prog_example '''' ''frame0.txt''"
  have args: "chars (pcb_args (cur_pcb ?s)) = lit ''frame0.txt''" "0 \<in> set (pcb_args (cur_pcb ?s))" by (simp_all add: prog_example_ok(4) chars_def)
  obtain e where "names_entry (pcb_args (cur_pcb ?s)) e ?s" "inode e = 1" "file_type e = ff_type (files_example ! 1)"
    by (rule prog_example_named [of "''frame0.txt''" 1 "pcb_args (cur_pcb ?s)"])
      (auto simp: args files_example_def FILETYPE_def)
  then show ?thesis
    by (intro cat_prints_file [of _ e _ _ _ "lit ''frame0.txt''", THEN conjunct1, THEN mp])
      (simp_all add: prog_example_ok(1,3,5-7) args names_file_def files_example_def FILETYPE_def MAX_FILE_def blank_dentry_def
        prog_example_ok(2) [unfolded tasks_ok_def])
qed

text \<open>C21: \<^verbatim>\<open>ls\<close>.  \<open>buf\<close> is the stack from the first byte of the program's array of 33 bytes on, with whatever the array and what follows it
  held.  If there is a zero at index \<open>n\<close> of it and every name is shorter than \<open>n\<close>, \<^verbatim>\<open>ls\<close> prints names of directory entries, in order
  and each on its own line, and ends with status 0.  The zero is needed because \<^verbatim>\<open>terminal_write\<close> looks for a NUL behind the newline that \<^verbatim>\<open>ls\<close>
  has put over the end of the name; index 32 is the last byte of the array, enough for names of up to 31 characters, and for a name of 32 characters it lies
  outside the array.  The names are those from the entry \<^verbatim>\<open>dir_read_idx_new\<close> on, the position that the kernel keeps for
  all descriptors together and that \<^verbatim>\<open>open\<close> does not reset: all of them when no listing was left unfinished before, and \<^verbatim>\<open>ls\<close> leaves the
  position at 0 for the next one.\<close>

theorem ls_lists_directory:
  assumes "user_ok s" and "names_entry (cstr ''.'') e s" and "file_type e = DIRTYPE" and "\<not> {2..<MAX_FILE} \<subseteq> fd_used s"
    and "length (file_name d) = 33" and "\<forall>e \<in> set (dentries s). chars (file_name e) \<noteq> [] \<and> length (chars (file_name e)) < n"
    and "n < length buf" and "buf ! n = 0"
  shows "\<exists>s'. ls_main d buf s = Some (0, s') \<and> dir_read_idx_new s' = 0 \<and>
    out_view s' = typed (concat (map (\<lambda>e. chars (file_name e) @ [NL]) (drop (dir_read_idx_new s) (dentries s)))) (out_view s)"
  using ls_runs [OF assms] by (simp add: listing_def)

theorem ls_lists_directory_witness:
  "\<exists>s'. ls_main blank_dentry (replicate 32 0xAA @ [0]) (prog_example '''' '''') = Some (0, s') \<and> dir_read_idx_new s' = 0 \<and>
    out_view s' = typed (concat (map (\<lambda>e. chars (file_name e) @ [NL])
      (drop (dir_read_idx_new (prog_example '''' '''')) (dentries (prog_example '''' ''''))))) (out_view (prog_example '''' ''''))"
proof -
  let ?s = "prog_example '''' ''''"
  obtain e where e: "names_entry (cstr ''.'') e ?s" "file_type e = DIRTYPE"
    by (rule prog_example_named [of "''''" 0 "cstr ''.''"]) (auto simp: files_example_def DIRTYPE_def cstr_def chars_def)
  have "chars (file_name e) \<in> {lit ''.'', lit ''frame0.txt'', lit ''verylarge'', lit ''shell''}" if "e \<in> set (dentries mounted_example)" for e
    using arg_cong [OF mounted_example_names, of set] that by auto
  then have "\<forall>e \<in> set (dentries ?s). chars (file_name e) \<noteq> [] \<and> length (chars (file_name e)) < 32"
    by (fastforce simp: prog_example_ok)
  then show ?thesis
    by (intro ls_lists_directory [OF _ e, where n = 32])
      (simp_all add: prog_example_ok prog_example_fields MAX_FILE_def blank_dentry_def nth_append)
qed

text \<open>\<^verbatim>\<open>counter\<close>.  It prints its question, reads the answer and counts up to 100, 10000 or 100000, one
  number on each line; an empty answer counts to nothing and every other one is a wrong choice.\<close>

theorem counter_counts:
  assumes "stdio_ok s" and "line_ready line s" and "length buf = 1024"
  shows "\<exists>s'. counter_main d buf s = Some (0, s') \<and>
    out_view s' = typed (lit ''Enter the Test Number: (0): 100, (1): 10000, (2): 100000\<newline>'' @
      (case counter_choice line of Some n \<Rightarrow> concat (map (\<lambda>k. digits 10 (Suc k) @ [NL]) [0..<n]) | None \<Rightarrow> lit ''Wrong Choice!\<newline>''))
      (out_view s)"
  using counter_runs [OF assms] unfolding numbers_def .

theorem counter_counts_witness:
  "\<exists>s'. counter_main blank_dentry (replicate 1024 0) (prog_example ''0'' '''') = Some (0, s') \<and>
    out_view s' = typed (lit ''Enter the Test Number: (0): 100, (1): 10000, (2): 100000\<newline>'' @
      (case counter_choice (lit ''0'') of Some n \<Rightarrow> concat (map (\<lambda>k. digits 10 (Suc k) @ [NL]) [0..<n]) | None \<Rightarrow> lit ''Wrong Choice!\<newline>''))
      (out_view (prog_example ''0'' ''''))"
proof (rule counter_counts)
  show "line_ready (lit ''0'') (prog_example ''0'' [])" by (rule prog_example_line) simp_all
qed (simp_all add: prog_example_ok)

text \<open>C19: the shell runs a command.  When the typed line names an executable file and a process is free, the
  shell's turn prints the prompt and passes the line to \<^verbatim>\<open>execute\<close>, which enters the program in the first free
  process with its arguments, and the program's virtual addresses hold the bytes of the file.\<close>

theorem shell_runs_command:
  assumes "stdio_ok s" and "tasks_ok s" and "line_ready line s" and "length buf = 1024" and "line \<noteq> []" and "line \<noteq> lit ''exit''"
    and "frame_ok fr" and "next_slot p s" and "program_of (line @ [0]) s = Some e" and "inode e < num_inodes s"
    and "prog = file_content s (inode e)" and "28 \<le> length prog" and "length prog \<le> READ_WHOLE_FILE" and "take 4 prog = ELF"
    and "le32 (take 4 (drop 24 prog)) = Some eip"
  shows "\<exists>b t s'. shell_prompt d buf s = Some (Shell_execute b, b, t) \<and> out_view t = typed (lit ''391OS> '') (out_view s) \<and>
    execute fr b t = Some (Entered eip, s') \<and> tasks_ok s' \<and> curr_process s' = of_nat p \<and> proc_used s' = insert p (proc_used s) \<and>
    chars (pcb_args (cur_pcb s')) = cmd_args (line @ [0]) \<and>
    (\<forall>k < length prog. \<exists>a. translate True s' (VIRTUAL_FILE_START + of_nat k) = Some a \<and> phys_mem s' a = prog ! k)"
  using shell_executes [OF assms] .

theorem shell_runs_command_witness:
  "\<exists>b t s'. shell_prompt blank_dentry (replicate 1024 0) (prog_example ''shell x'' '''') = Some (Shell_execute b, b, t) \<and>
    out_view t = typed (lit ''391OS> '') (out_view (prog_example ''shell x'' '''')) \<and>
    execute frame_example b t = Some (Entered 0x8048094, s') \<and> tasks_ok s' \<and> curr_process s' = of_nat 1 \<and>
    proc_used s' = insert 1 (proc_used (prog_example ''shell x'' '''')) \<and>
    chars (pcb_args (cur_pcb s')) = cmd_args (lit ''shell x'' @ [0]) \<and>
    (\<forall>k < length (ff_data (files_example ! 3)). \<exists>a. translate True s' (VIRTUAL_FILE_START + of_nat k) = Some a \<and>
       phys_mem s' a = ff_data (files_example ! 3) ! k)"
proof -
  have "program_of (lit ''shell x'' @ [0]) (prog_example ''shell x'' '''') = Some shell_entry"
    using shell_command(2) shell_entry_facts(1) prog_example_ok(5) [of "[]"] by (simp only: program_of_def cstr_def) simp
  moreover have "line_ready (lit ''shell x'') (prog_example ''shell x'' [])" by (rule prog_example_line) simp_all
  ultimately show ?thesis
    by (intro shell_runs_command [of _ _ _ _ _ shell_entry])
      (simp_all add: prog_example_ok shell_entry_facts(2) files_example_def READ_WHOLE_FILE_def ELF_def le32_def)
qed

end
