(* ===== verification/Grep.thy ===== *)
theory Grep
  imports Programs
begin

text \<open>
  The program \<^verbatim>\<open>syscalls/ece391grep.c\<close>.  The array \<^verbatim>\<open>data\<close> of \<^verbatim>\<open>do_one_file\<close> has 1025 bytes; it is read into
  behind the part of a line that the last block ended with, and its lines are searched in place.
\<close>

section \<open>The program\<close>

function line_end_loop :: "byte list \<Rightarrow> nat \<Rightarrow> nat \<Rightarrow> nat option" where
  "line_end_loop data line_end lst =
     (if line_end < lst then do {
        c \<leftarrow> aget data line_end;
        if NL \<noteq> c then line_end_loop data (Suc line_end) lst else Some line_end
      } else Some line_end)"
  by pat_completeness auto
termination
  by (relation "measure (\<lambda>(data, e, lst). lst - e)") auto

declare line_end_loop.simps [simp del]

text \<open>The copy of the rest of the block to its beginning, \<^verbatim>\<open>ece391_strcpy (data, data + line_start)\<close>: source and
  destination overlap.\<close>

function strcpy_down :: "byte list \<Rightarrow> nat \<Rightarrow> nat \<Rightarrow> byte list option" where
  "strcpy_down data line_start i =
     (if line_start + i < length data then do {
        let c = data ! (line_start + i);
        data \<leftarrow> aset data i c;
        if 0 \<noteq> c then strcpy_down data line_start (Suc i) else Some data
      } else None)"
  by pat_completeness auto
termination
  by (relation "measure (\<lambda>(data, line_start, i). length data - (line_start + i))") (auto dest: aset_SomeD)

declare strcpy_down.simps [simp del]

text \<open>The search of one line.  \<^verbatim>\<open>s\<close> points to signed characters and \<^verbatim>\<open>data\<close> has unsigned ones.\<close>

function grep_check :: "byte list \<Rightarrow> nat \<Rightarrow> byte list \<Rightarrow> nat \<Rightarrow> nat \<Rightarrow> bool option" where
  "grep_check s s_len data check line_end =
     (if check < line_end then do {
        c \<leftarrow> aget data check;
        c0 \<leftarrow> aget s 0;
        r \<leftarrow> (if sint c0 = uint c then ece391_strncmp (drop check data) s s_len else Some 1);
        if 0 = r then Some True else grep_check s s_len data (Suc check) line_end
      } else Some False)"
  by pat_completeness auto
termination
  by (relation "measure (\<lambda>(s, s_len, data, check, line_end). line_end - check)") auto

declare grep_check.simps [simp del]

definition grep_report :: "byte list \<Rightarrow> byte list \<Rightarrow> nat \<Rightarrow> 'a kernel_scheme \<Rightarrow> 'a kernel_scheme option" where
  "grep_report fname data line_start st = do {
     st \<leftarrow> ece391_fdputs 1 fname st;
     st \<leftarrow> ece391_fdputs 1 (cstr '':'') st;
     st \<leftarrow> ece391_fdputs 1 (drop line_start data) st;
     ece391_fdputs 1 (cstr ''\<newline>'') st
   }"

lemma line_end_ge: "line_end_loop data e lst = Some e' \<Longrightarrow> e \<le> e'"
  by (induction data e lst rule: line_end_loop.induct)
    (subst (asm) (2) line_end_loop.simps, auto simp: bind_eq_Some_conv split: if_splits)

text \<open>The lines of a block; the result is \<^verbatim>\<open>last\<close>, \<^verbatim>\<open>data\<close> and the state.\<close>

function grep_lines :: "byte list \<Rightarrow> byte list \<Rightarrow> nat \<Rightarrow> int \<Rightarrow> nat \<Rightarrow> nat \<Rightarrow> byte list \<Rightarrow> 'a kernel_scheme
    \<Rightarrow> (nat \<times> byte list \<times> 'a kernel_scheme) option" where
  "grep_lines s fname s_len cnt line_start lst data st = do {
     line_end \<leftarrow> line_end_loop data line_start lst;
     c \<leftarrow> aget data line_end;
     data \<leftarrow> aset data line_end 0;
     if NL \<noteq> c \<and> 0 \<noteq> cnt \<and> line_start \<noteq> 0 then do {
       data \<leftarrow> strcpy_down data line_start 0;
       Some (lst - line_start, data, st)
     } else do {
       found \<leftarrow> grep_check s s_len data line_start line_end;
       st \<leftarrow> (if found then grep_report fname data line_start st else Some st);
       if line_end + 1 \<ge> lst then Some (0, data, st)
       else grep_lines s fname s_len cnt (line_end + 1) lst data st
     }
   }"
  by pat_completeness auto
termination
  by (relation "measure (\<lambda>(s, fname, s_len, cnt, line_start, lst, data, st). lst - line_start)") (auto dest!: line_end_ge)

declare grep_lines.simps [simp del]

partial_function (option) grep_loop :: "dentry \<Rightarrow> int \<Rightarrow> byte list \<Rightarrow> byte list \<Rightarrow> nat \<Rightarrow> nat \<Rightarrow> byte list \<Rightarrow> 'a kernel_scheme
    \<Rightarrow> (int \<times> 'a kernel_scheme) option" where
  "grep_loop d fd s fname s_len lst data st = do {
     (cnt, rst, st) \<leftarrow> ece391_read d fd (drop lst data) (1024 - int lst) st;
     if -1 = cnt then do {
       st \<leftarrow> ece391_fdputs 1 (cstr ''file read failed\<newline>'') st;
       Some (-1, st)
     } else do {
       (lst, data, st) \<leftarrow> grep_lines s fname s_len cnt 0 (nat (int lst + cnt)) (take lst data @ rst) st;
       if 0 = cnt then Some (0, st) else grep_loop d fd s fname s_len lst data st
     }
   }"

definition do_one_file :: "dentry \<Rightarrow> byte list \<Rightarrow> byte list \<Rightarrow> byte list \<Rightarrow> 'a kernel_scheme \<Rightarrow> (int \<times> 'a kernel_scheme) option" where
  "do_one_file d s fname data st = do {
     s_len \<leftarrow> ece391_strlen s;
     (fd, st) \<leftarrow> sys_open d fname st;
     if -1 = fd then do {
       st \<leftarrow> ece391_fdputs 1 (cstr ''file open failed\<newline>'') st;
       Some (-1, st)
     } else do {
       (r, st) \<leftarrow> grep_loop d fd s fname s_len 0 data st;
       if r = -1 then Some (-1, st)
       else do {
         (r, st) \<leftarrow> sys_close fd st;
         if -1 = r then do {
           st \<leftarrow> ece391_fdputs 1 (cstr ''file close failed\<newline>'') st;
           Some (-1, st)
         } else Some (0, st)
       }
     }
   }"

text \<open>\<open>data k\<close> is the uninitialised array of the \<open>k\<close>-th call of \<^verbatim>\<open>do_one_file\<close>.\<close>

partial_function (option) grep_dir :: "dentry \<Rightarrow> int \<Rightarrow> byte list \<Rightarrow> byte list \<Rightarrow> (nat \<Rightarrow> byte list) \<Rightarrow> nat \<Rightarrow> 'a kernel_scheme
    \<Rightarrow> (int \<times> 'a kernel_scheme) option" where
  "grep_dir d fd search buf data k st = do {
     (cnt, buf, st) \<leftarrow> ece391_read d fd buf 32 st;
     if 0 = cnt then Some (0, st)
     else if -1 = cnt then do {
       st \<leftarrow> ece391_fdputs 1 (cstr ''directory entry read failed\<newline>'') st;
       Some (3, st)
     } else do {
       c \<leftarrow> aget buf 0;
       if 46 = c then grep_dir d fd search buf data k st
       else do {
         buf \<leftarrow> aset buf (nat cnt) 0;
         (r, st) \<leftarrow> do_one_file d search buf (data k) st;
         if 0 \<noteq> r then Some (3, st) else grep_dir d fd search buf data (Suc k) st
       }
     }
   }"

definition grep_main :: "dentry \<Rightarrow> byte list \<Rightarrow> byte list \<Rightarrow> (nat \<Rightarrow> byte list) \<Rightarrow> 'a kernel_scheme \<Rightarrow> (int \<times> 'a kernel_scheme) option" where
  "grep_main d buf search data st = do {
     (r, search) \<leftarrow> getargs (Some search) 1024 st;
     search \<leftarrow> search;
     if 0 \<noteq> r then do {
       st \<leftarrow> ece391_fdputs 1 (cstr ''could not read argument\<newline>'') st;
       Some (3, st)
     } else do {
       (fd, st) \<leftarrow> sys_open d (cstr ''.'') st;
       if -1 = fd then do {
         st \<leftarrow> ece391_fdputs 1 (cstr ''directory open failed\<newline>'') st;
         Some (2, st)
       } else grep_dir d fd search buf data 0 st
     }
   }"

section \<open>What it prints\<close>

function file_lines :: "byte list \<Rightarrow> byte list list" where
  "file_lines cs = (if cs = [] then [] else takeWhile (\<lambda>c. c \<noteq> NL) cs # file_lines (tl (dropWhile (\<lambda>c. c \<noteq> NL) cs)))"
  by pat_completeness auto
termination
proof (relation "measure length")
  fix cs :: "byte list"
  assume "cs \<noteq> []"
  then show "(tl (dropWhile (\<lambda>c. c \<noteq> NL) cs), cs) \<in> measure length"
    using length_dropWhile_le [of "\<lambda>c. c \<noteq> NL" cs] by (cases cs) (auto simp: le_imp_less_Suc)
qed simp

declare file_lines.simps [simp del]

definition occurs :: "byte list \<Rightarrow> byte list \<Rightarrow> bool" where
  "occurs pat line \<longleftrightarrow> pat \<noteq> [] \<and> uint (hd pat) < 128 \<and> (\<exists>k < length line. take (length pat) (drop k line) = pat)"

definition grep_text :: "byte list \<Rightarrow> byte list \<Rightarrow> byte list list \<Rightarrow> byte list" where
  "grep_text pat fname lines = concat (map (\<lambda>l. if occurs pat l then fname @ lit '':'' @ l @ [NL] else []) lines)"

lemma file_lines_simps [simp]: "file_lines [] = []"
  by (simp add: file_lines.simps)

lemma file_lines_one: "\<lbrakk>NL \<notin> set l; l \<noteq> []\<rbrakk> \<Longrightarrow> file_lines l = [l]"
proof -
  assume l: "NL \<notin> set l" "l \<noteq> []"
  then have w: "takeWhile (\<lambda>c. c \<noteq> NL) l = l" "dropWhile (\<lambda>c. c \<noteq> NL) l = []" by (auto simp: takeWhile_eq_all_conv dropWhile_eq_Nil_conv)
  show "file_lines l = [l]" using l(2) by (subst file_lines.simps) (simp add: w)
qed

lemma file_lines_cons: "NL \<notin> set l \<Longrightarrow> file_lines (l @ NL # r) = l # file_lines r"
  by (subst file_lines.simps) (auto simp: takeWhile_append dropWhile_append)

lemma occurs_nil [simp]: "\<not> occurs pat []"
  by (simp add: occurs_def)

lemma grep_text_simps [simp]: "grep_text pat fname [] = []"
  "grep_text pat fname (l # ls) = (if occurs pat l then fname @ lit '':'' @ l @ [NL] else []) @ grep_text pat fname ls"
  by (simp_all add: grep_text_def)

section \<open>The search of one line\<close>

lemma line_end_eq:
  assumes "lst \<le> length data" and "e \<le> lst"
  shows "line_end_loop data e lst = Some (e + length (takeWhile (\<lambda>c. c \<noteq> NL) (take (lst - e) (drop e data))))"
  using assms(2)
proof (induction "lst - e" arbitrary: e)
  case 0
  then show ?case by (simp add: line_end_loop.simps)
next
  case (Suc k)
  then have e: "e < lst" "e < length data" using assms(1) by auto
  then have "take (lst - e) (drop e data) = data ! e # take (lst - Suc e) (drop (Suc e) data)"
    by (simp add: Suc_diff_Suc flip: Cons_nth_drop_Suc take_Suc_Cons)
  then show ?case using Suc.hyps(1) [of "Suc e"] Suc.hyps(2) e by (subst line_end_loop.simps) simp
qed

lemma ece391_strncmp_defined: "\<lbrakk>0 \<in> set a; 0 \<in> set b\<rbrakk> \<Longrightarrow> \<exists>d. ece391_strncmp a b n = Some d"
proof -
  have "\<lbrakk>0 \<in> set a; 0 \<in> set b\<rbrakk> \<Longrightarrow> \<exists>d. ece391_strncmp_loop a b n = Some d" for n
    by (induction a b n rule: ece391_strncmp_loop.induct) auto
  then show "\<lbrakk>0 \<in> set a; 0 \<in> set b\<rbrakk> \<Longrightarrow> \<exists>d. ece391_strncmp a b n = Some d" by (simp add: ece391_strncmp_def)
qed

lemma signed_eq: "sint a = uint b \<longleftrightarrow> uint a < 128 \<and> a = b" for a b :: byte
proof
  assume e: "sint a = uint b"
  have "sint a < 128" using signed_take_bit_int_less_exp [of 7 "uint a"] by (simp add: sint_uint)
  moreover have "0 \<le> sint a" using e by simp
  ultimately have "uint a = sint a" using uint_sint [of a] by (simp add: take_bit_int_eq_self)
  then show "uint a < 128 \<and> a = b" using e \<open>sint a < 128\<close> by (metis word_of_int_uint)
next
  assume "uint a < 128 \<and> a = b"
  moreover have "- 128 \<le> uint a" by (rule order_trans [OF _ uint_ge_0]) simp
  ultimately show "sint a = uint b" using signed_take_bit_int_eq_self [of 7 "uint a"] by (auto simp: sint_uint)
qed

lemma ex_from: "j < n \<Longrightarrow> (\<exists>k. j \<le> k \<and> k < n \<and> Q k) \<longleftrightarrow> Q j \<or> (\<exists>k. Suc j \<le> k \<and> k < n \<and> Q k)" for j n :: nat
  by (metis Suc_le_eq le_neq_implies_less less_imp_le order_refl)

lemma match_at:
  assumes "0 \<in> set s" and "drop k data = l @ 0 # z" and "0 \<notin> set l"
  shows "\<exists>r. ece391_strncmp (drop k data) s (length (chars s)) = Some r \<and> (0 = r \<longleftrightarrow> take (length (chars s)) l = chars s)"
proof -
  have nul: "0 \<in> set (drop k data)" "chars (drop k data) = l" using assms(2,3) by simp_all
  obtain r where r: "ece391_strncmp (drop k data) s (length (chars s)) = Some r" using ece391_strncmp_defined [OF nul(1) assms(1)] by blast
  then show ?thesis
    using ece391_strncmp_zero [OF nul(1) assms(1), of "length (chars s)"] strncmp_zero_chars [OF nul(1) assms(1), of "length (chars s)"] nul(2) by auto
qed

lemma grep_check_from:
  assumes "0 \<in> set s" and "drop ls data = l @ 0 # z" and "0 \<notin> set l" and "j \<le> length l"
  shows "grep_check s (length (chars s)) data (ls + j) (ls + length l) =
    Some (chars s \<noteq> [] \<and> uint (hd (chars s)) < 128 \<and> (\<exists>k. j \<le> k \<and> k < length l \<and> take (length (chars s)) (drop k l) = chars s))"
  using assms(4)
proof (induction "length l - j" arbitrary: j)
  case 0
  then show ?case by (subst grep_check.simps) auto
next
  case (Suc m)
  then have j: "j < length l" by simp
  have "length (drop ls data) = length l + Suc (length z)" using assms(2) by simp
  then have len: "ls + j < length data" using j by simp
  have dj: "drop (ls + j) data = drop j l @ 0 # z" using assms(2) j by (simp add: add.commute flip: drop_drop)
  have c: "data ! (ls + j) = l ! j" using dj j hd_drop_conv_nth [OF len] hd_drop_conv_nth [OF j] by simp
  have nz: "l ! j \<noteq> 0" using assms(3) j by (metis nth_mem)
  have s0: "s \<noteq> []" "s ! 0 = (if chars s = [] then 0 else hd (chars s))" using assms(1) by (cases s; auto simp: chars_def)+
  have hd: "hd (chars s) = l ! j" if "take (length (chars s)) (drop j l) = chars s" "chars s \<noteq> []"
    using that j by (metis hd_drop_conv_nth hd_take length_greater_0_conv)
  obtain r where r: "ece391_strncmp (drop (ls + j) data) s (length (chars s)) = Some r"
    "0 = r \<longleftrightarrow> take (length (chars s)) (drop j l) = chars s"
    using match_at [OF assms(1) dj] assms(3) by (auto dest: in_set_dropD)
  let ?hit = "chars s \<noteq> [] \<and> uint (hd (chars s)) < 128 \<and> take (length (chars s)) (drop j l) = chars s"
  have "grep_check s (length (chars s)) data (ls + j) (ls + length l) =
      (if ?hit then Some True else grep_check s (length (chars s)) data (ls + Suc j) (ls + length l))"
    using j len c s0 r hd nz by (subst grep_check.simps) (auto simp: signed_eq)
  also have "\<dots> = Some (?hit \<or> chars s \<noteq> [] \<and> uint (hd (chars s)) < 128 \<and>
      (\<exists>k. Suc j \<le> k \<and> k < length l \<and> take (length (chars s)) (drop k l) = chars s))"
    using Suc.hyps(1) [of "Suc j"] Suc.hyps(2) j by auto
  also have "\<dots> = Some (chars s \<noteq> [] \<and> uint (hd (chars s)) < 128 \<and> (\<exists>k. j \<le> k \<and> k < length l \<and> take (length (chars s)) (drop k l) = chars s))"
    unfolding ex_from [OF j] by blast
  finally show ?case .
qed

lemma grep_check_occurs:
  assumes "0 \<in> set s" and "drop ls data = l @ 0 # z" and "0 \<notin> set l"
  shows "grep_check s (length (chars s)) data ls (ls + length l) = Some (occurs (chars s) l)"
  using grep_check_from [OF assms, of 0] by (simp add: occurs_def)

lemma strcpy_down_eq:
  assumes "0 < ls" and "0 \<notin> set t" and "i \<le> length t" and "take i data = take i t" and "drop (ls + i) data = drop i t @ 0 # z"
  shows "\<exists>data'. strcpy_down data ls i = Some data' \<and> length data' = length data \<and> take (length t) data' = t"
  using assms(3-5)
proof (induction "length t - i" arbitrary: i data)
  case 0
  then have i: "i = length t" "drop (ls + i) data = 0 # z" by simp_all
  then have "ls + i < length data" "data ! (ls + i) = 0" by (metis drop_eq_Nil linorder_not_less list.distinct(1)) (metis i(2) hd_drop_conv_nth list.sel(1) drop_eq_Nil linorder_not_less list.distinct(1))
  then show ?case using 0 i by (subst strcpy_down.simps) simp
next
  case (Suc m)
  then have i: "i < length t" by simp
  then have d: "drop (ls + i) data = t ! i # drop (Suc i) t @ 0 # z" using Suc.prems(3) by (simp flip: Cons_nth_drop_Suc)
  then have len: "ls + i < length data" by (metis drop_eq_Nil linorder_not_less list.distinct(1))
  then have c: "data ! (ls + i) = t ! i" using d hd_drop_conv_nth by (metis list.sel(1))
  let ?d = "data[i := t ! i]"
  have "t ! i \<noteq> 0" using i assms(2) by (metis nth_mem)
  moreover have "take (Suc i) ?d = take (Suc i) t" using Suc.prems(2) i len by (simp add: take_Suc_conv_app_nth)
  moreover have "drop (ls + Suc i) ?d = drop (Suc i) t @ 0 # z"
    using d len assms(1) by (simp add: drop_update_swap) (metis drop_Suc list.sel(3) tl_drop)
  ultimately show ?case
    using Suc.hyps(1) [of "Suc i" ?d] Suc.hyps(2) i len c by (subst strcpy_down.simps) simp
qed

lemma grep_report_prints:
  assumes "user_ok st" and "0 \<in> set fname" and "drop ls data = l @ 0 # z" and "0 \<notin> set l"
  shows "\<exists>st'. grep_report fname data ls st = Some st' \<and> user_ok st' \<and> rest st' = rest st \<and>
    out_view st' = typed (chars fname @ lit '':'' @ l @ [NL]) (out_view st)"
proof -
  have "0 \<in> set (drop ls data)" "chars (drop ls data) = l" using assms(3,4) by simp_all
  then show ?thesis using assms(1,2) by (simp add: grep_report_def cstr_chars)
qed

section \<open>The lines of a block\<close>

definition block_done :: "byte list \<Rightarrow> byte list \<Rightarrow> int \<Rightarrow> byte list \<Rightarrow> 'a kernel_scheme \<Rightarrow> (nat \<times> byte list \<times> 'a kernel_scheme) option \<Rightarrow> bool" where
  "block_done pat f cnt r st res \<longleftrightarrow> (\<exists>t data' st' out. res = Some (length t, data', st') \<and> user_ok st' \<and> rest st' = rest st \<and>
     length data' = 1025 \<and> take (length t) data' = t \<and> set t \<subseteq> set r \<and> length t \<le> length r \<and> (cnt = 0 \<longrightarrow> t = []) \<and>
     out_view st' = typed out (out_view st) \<and> out @ grep_text pat f (file_lines t) = grep_text pat f (file_lines r))"

lemma grep_lines_block:
  assumes "user_ok st" and "0 \<in> set fname" and "0 \<in> set s" and "length data = 1025" and "ls \<le> lst" and "lst \<le> 1024"
    and "r = take (lst - ls) (drop ls data)" and "0 \<notin> set r"
  shows "block_done (chars s) (chars fname) cnt r st (grep_lines s fname (length (chars s)) cnt ls lst data st)"
  using assms(1,4,5,7,8)
proof (induction "lst - ls" arbitrary: ls data st r rule: less_induct)
  case less
  define l where "l = takeWhile (\<lambda>c. c \<noteq> NL) r"
  define le where "le = ls + length l"
  have r: "drop ls data = r @ drop lst data" "length r = lst - ls"
    using less.prems(2-4) assms(6) append_take_drop_id [of "lst - ls" "drop ls data"] by simp_all
  have ll: "length l \<le> length r" "0 \<notin> set l" "NL \<notin> set l" "set l \<subseteq> set r"
    unfolding l_def using less.prems(5) by (auto simp: length_takeWhile_le dest: set_takeWhileD)
  then have le: "le \<le> lst" "le < length data" using r(2) less.prems(2,3) assms(6) by (simp_all add: le_def)
  have rl: "r = l @ drop (length l) r" unfolding l_def by (metis takeWhile_dropWhile_id dropWhile_eq_drop)
  define data1 where "data1 = data[le := 0]"
  define z where "z = drop (Suc le) data"
  have "take (length l) (drop ls data) = l" using r(1) rl ll(1) by (metis append_eq_conv_conj append.assoc)
  moreover have "drop (length l) (drop ls data) = data ! le # z"
    using le(2) by (simp add: le_def z_def add.commute Cons_nth_drop_Suc)
  ultimately have dl: "drop ls data = l @ data ! le # z" by (metis append_take_drop_id)
  then have d1: "drop ls data1 = l @ 0 # z" by (simp add: data1_def le_def drop_update_swap list_update_append)
  have e: "line_end_loop data ls lst = Some le" using line_end_eq [of lst data ls] less.prems(2-4) assms(6) by (simp add: le_def l_def)
  have at: "data ! le = r ! length l" if "length l < length r"
    using r(1) that le(2) by (metis dl nth_append nth_append_length)
  then have nl: "data ! le = NL" if "length l < length r"
    using that nth_length_takeWhile [of "\<lambda>c. c \<noteq> NL" r] by (simp add: l_def)
  have split: "r = l @ NL # drop (Suc (length l)) r" if "length l < length r"
    using rl at nl that by (metis Cons_nth_drop_Suc)
  show ?case
  proof (cases "NL \<noteq> data ! le \<and> 0 \<noteq> cnt \<and> ls \<noteq> 0")
    case True
    then have same: "l = r" using nl rl ll(1) by (metis append.right_neutral drop_all le_neq_implies_less order_refl)
    obtain data' where data': "strcpy_down data1 ls 0 = Some data'" "length data' = length data1" "take (length r) data' = r"
      using strcpy_down_eq [of ls r 0 data1 z] True d1 ll(2) same by auto
    have run: "grep_lines s fname (length (chars s)) cnt ls lst data st = Some (length r, data', st)"
      using True e le(2) data'(1) r(2) by (subst grep_lines.simps) (simp add: data1_def)
    show ?thesis unfolding block_done_def
      by (rule exI [of _ r], rule exI [of _ data'], rule exI [of _ st], rule exI [of _ "[]"])
        (use run data' less.prems True in \<open>auto simp: data1_def\<close>)
  next
    case False
    have chk: "grep_check s (length (chars s)) data1 ls le = Some (occurs (chars s) l)"
      using grep_check_occurs [OF assms(3) d1 ll(2)] by (simp add: le_def)
    define out1 where "out1 = (if occurs (chars s) l then chars fname @ lit '':'' @ l @ [NL] else [])"
    obtain st1 where st1: "(if occurs (chars s) l then grep_report fname data1 ls st else Some st) = Some st1" "user_ok st1" "rest st1 = rest st"
      "out_view st1 = typed out1 (out_view st)"
      using grep_report_prints [OF less.prems(1) assms(2) d1 ll(2)] less.prems(1) by (cases "occurs (chars s) l") (auto simp: out1_def)
    have run: "grep_lines s fname (length (chars s)) cnt ls lst data st =
        (if le + 1 \<ge> lst then Some (0, data1, st1) else grep_lines s fname (length (chars s)) cnt (le + 1) lst data1 st1)"
      by (subst grep_lines.simps)
        (simp only: e bind.simps aget_in [OF le(2)] aset_in [OF le(2)] if_not_P [OF False] chk st1(1) flip: data1_def)
    show ?thesis
    proof (cases "le + 1 \<ge> lst")
      case True
      have "grep_text (chars s) (chars fname) (file_lines r) = out1"
      proof (cases "length l < length r")
        case less: True
        then have "drop (Suc (length l)) r = []" using True r(2) by (simp add: le_def)
        then have "r = l @ [NL]" using split [OF less] by simp
        then show ?thesis using file_lines_cons [OF ll(3), of "[]"] by (simp add: out1_def)
      next
        case False
        then have "l = r" using rl by simp
        then show ?thesis using file_lines_one [of r] ll(3) by (cases "r = []") (simp_all add: out1_def)
      qed
      then show ?thesis unfolding block_done_def
        by (intro exI [of _ "[]"] exI [of _ data1] exI [of _ st1] exI [of _ out1])
          (use run True st1 less.prems(2) in \<open>auto simp: data1_def\<close>)
    next
      case more: False
      define r' where "r' = take (lst - (le + 1)) (drop (le + 1) data1)"
      have "length l < length r" using more r(2) by (simp add: le_def)
      moreover have "r' = drop (Suc (length l)) r"
        unfolding r'_def less.prems(4) data1_def by (simp add: le_def drop_take add.commute)
      ultimately have rr: "r = l @ NL # r'" using split by simp
      have "block_done (chars s) (chars fname) cnt r' st1 (grep_lines s fname (length (chars s)) cnt (le + 1) lst data1 st1)"
        by (rule less.hyps) (use more st1(2) less.prems(2,5) rr in \<open>auto simp: le_def data1_def r'_def\<close>)
      then obtain t data' st' out where t: "grep_lines s fname (length (chars s)) cnt (le + 1) lst data1 st1 = Some (length t, data', st')"
        "user_ok st'" "rest st' = rest st1" "length data' = 1025" "take (length t) data' = t" "set t \<subseteq> set r'" "length t \<le> length r'"
        "cnt = 0 \<longrightarrow> t = []" "out_view st' = typed out (out_view st1)"
        "out @ grep_text (chars s) (chars fname) (file_lines t) = grep_text (chars s) (chars fname) (file_lines r')"
        unfolding block_done_def by blast
      have "(out1 @ out) @ grep_text (chars s) (chars fname) (file_lines t) = grep_text (chars s) (chars fname) (file_lines r)"
        using t(10) by (simp add: rr file_lines_cons [OF ll(3)] out1_def)
      then show ?thesis unfolding block_done_def
        by (intro exI [of _ t] exI [of _ data'] exI [of _ st'] exI [of _ "out1 @ out"])
          (use run more t st1 in \<open>auto simp: rr\<close>)
    qed
  qed
qed

section \<open>A whole file\<close>

lemma grep_read:
  assumes "user_ok st" and "open_at i e st" and "2 \<le> i" and "length (file_name d) = 33" and "content = file_content st (inode e)"
    and "fd_position (FDs_array (cur_pcb st) ! i) = of_nat pos" and "pos \<le> length content" and "pos < BLOCK_SIZE" and "lst \<le> 1024" and "length data = 1025"
    and "out = take (1024 - lst) (drop pos content)"
  obtains st' where "ece391_read d (int i) (drop lst data) (1024 - int lst) st = Some (int (length out), out @ drop (lst + length out) data, st')"
    and "user_ok st'" and "open_at i e st'" and "fd_position (FDs_array (cur_pcb st') ! i) = of_nat (pos + length out)"
    and "file_content st' = file_content st" and "out_view st' = out_view st"
proof -
  have i: "i < MAX_FILE" using assms(2) by (simp add: open_at_def)
  have ok: "procs_ok st" "pcb_ok (cur_pcb st)" using assms(1) procs_ok_cur(2) by (auto simp: user_ok_def calls_ok_def)
  let ?t = "set_cur_pcb (moved_fd i (length out) (cur_pcb st)) st"
  note u = user_ok_set [OF assms(1) std_kept_fds(2) [OF ok(2) assms(3) i], of "length out"]
  have n: "nat (1024 - int lst) = 1024 - lst" "0 \<le> 1024 - int lst" using assms(9) by simp_all
  have "ece391_read d (int i) (drop lst data) (1024 - int lst) st = Some (int (length out), out @ drop (lst + length out) data, ?t)"
    using read_open_file [OF assms(1,2) n(2) assms(4,6) _ assms(8), of out "drop lst data"] assms(5,7,9-11) n(1)
    by (simp add: add.commute flip: length_file_content)
  moreover have "fd_position (FDs_array (cur_pcb ?t) ! i) = of_nat (pos + length out)"
    using u(2) moved_position [OF ok(2) i] assms(6) by simp
  ultimately show thesis using that u(1) moved_at [OF ok(1) assms(2)] by (simp add: fun_eq_iff)
qed

lemma grep_loop_file:
  assumes "user_ok st" and "open_at i e st" and "2 \<le> i" and "length (file_name d) = 33" and "fd_position (FDs_array (cur_pcb st) ! i) = 0"
    and "content = file_content st (inode e)" and "0 \<notin> set content" and "length content \<le> 1024" and "length data = 1025"
    and "0 \<in> set s" and "0 \<in> set fname"
  shows "\<exists>st'. grep_loop d (int i) s fname (length (chars s)) 0 data st = Some (0, st') \<and> user_ok st' \<and> open_at i e st' \<and>
    out_view st' = typed (grep_text (chars s) (chars fname) (file_lines content)) (out_view st)"
proof -
  let ?n = "length content" and ?text = "\<lambda>r. grep_text (chars s) (chars fname) (file_lines r)" and ?len = "length (chars s)"
  obtain st1 where st1: "ece391_read d (int i) data 1024 st = Some (int ?n, content @ drop ?n data, st1)" "user_ok st1" "open_at i e st1"
    "fd_position (FDs_array (cur_pcb st1) ! i) = of_nat ?n" "file_content st1 = file_content st" "out_view st1 = out_view st"
    using grep_read [OF assms(1-4,6), of 0 0 data content] assms(5,8,9) by (auto simp: BLOCK_SIZE_def)
  let ?data1 = "content @ drop ?n data"
  have "block_done (chars s) (chars fname) (int ?n) content st1 (grep_lines s fname ?len (int ?n) 0 ?n ?data1 st1)"
    by (rule grep_lines_block [OF st1(2) assms(11,10)]) (use assms(7-9) in simp_all)
  then obtain t data2 st2 out where g: "grep_lines s fname ?len (int ?n) 0 ?n ?data1 st1 = Some (length t, data2, st2)" "user_ok st2" "rest st2 = rest st1"
    "length data2 = 1025" "take (length t) data2 = t" "set t \<subseteq> set content" "length t \<le> ?n" "int ?n = 0 \<longrightarrow> t = []"
    "out_view st2 = typed out (out_view st1)" "out @ ?text t = ?text content"
    unfolding block_done_def by blast
  have st2: "open_at i e st2" "fd_position (FDs_array (cur_pcb st2) ! i) = of_nat ?n" "content = file_content st2 (inode e)"
    using open_at_rest [OF g(3)] st1(3-5) rest_fields(5,12) [OF g(3)] assms(6) by simp_all
  have first: "grep_loop d (int i) s fname ?len 0 data st = (if ?n = 0 then Some (0, st2) else grep_loop d (int i) s fname ?len (length t) data2 st2)"
    using st1(1) g(1) by (subst grep_loop.simps) simp
  show ?thesis
  proof (cases "?n = 0")
    case True
    then show ?thesis using first g(2,8-10) st2(1) st1(6) by simp
  next
    case False
    obtain st3 where st3: "ece391_read d (int i) (drop (length t) data2) (1024 - int (length t)) st2 = Some (0, drop (length t) data2, st3)"
      "user_ok st3" "open_at i e st3" "out_view st3 = out_view st2"
      using grep_read [OF g(2) st2(1) assms(3,4) st2(3,2), of "length t" data2 "[]"] assms(8) g(4,7) by (auto simp: BLOCK_SIZE_def)
    have "block_done (chars s) (chars fname) 0 t st3 (grep_lines s fname ?len 0 0 (length t) data2 st3)"
      by (rule grep_lines_block [OF st3(2) assms(11,10)]) (use g(4-7) assms(7,8) in auto)
    then obtain data4 st4 out' where h: "grep_lines s fname ?len 0 0 (length t) data2 st3 = Some (0, data4, st4)" "user_ok st4" "rest st4 = rest st3"
      "out_view st4 = typed out' (out_view st3)" "out' = ?text t"
      unfolding block_done_def by auto
    have "grep_loop d (int i) s fname ?len (length t) data2 st2 = Some (0, st4)"
      using st3(1) h(1) by (subst grep_loop.simps) simp
    moreover have "out_view st4 = typed (?text content) (out_view st)" using h(4,5) st3(4) g(9,10) st1(6) by simp
    ultimately show ?thesis using first False h(2) open_at_rest [OF h(3)] st3(3) by simp
  qed
qed

lemma do_one_file_prints:
  assumes "user_ok st" and "names_file fname e st" and "\<not> {2..<MAX_FILE} \<subseteq> fd_used st" and "length (file_name d) = 33"
    and "fs_wf st" and "inode e < num_inodes st" and "length data = 1025" and "content = file_content st (inode e)" and "0 \<notin> set content"
    and "length content \<le> 1024" and "0 \<in> set s"
  shows "\<exists>st'. do_one_file d s fname data st = Some (0, st') \<and>
    out_view st' = typed (grep_text (chars s) (chars fname) (file_lines content)) (out_view st)"
proof -
  have ok: "procs_ok st" "pcb_ok (cur_pcb st)" using assms(1) procs_ok_cur(2) by (auto simp: user_ok_def calls_ok_def)
  have n: "names_entry fname e st" "0 \<in> set fname" using assms(2) by (simp_all add: names_file_def names_entry_def)
  obtain i where i: "2 \<le> i" "i < MAX_FILE" "sys_open d fname st = Some (int i, set_cur_pcb (opened fname e i (cur_pcb st)) st)"
    "std_kept (cur_pcb st) (opened fname e i (cur_pcb st))"
    by (rule open_first_free [OF assms(1) n(1) assms(3,4)])
  let ?t = "set_cur_pcb (opened fname e i (cur_pcb st)) st"
  note t = user_ok_set [OF assms(1) i(4)]
  have pos: "fd_position (FDs_array (cur_pcb ?t) ! i) = 0" using t(2) i(2) ok(2) by (simp add: opened_def pcb_ok_def)
  obtain u where u: "grep_loop d (int i) s fname (length (chars s)) 0 data ?t = Some (0, u)" "user_ok u" "open_at i e u"
    "out_view u = typed (grep_text (chars s) (chars fname) (file_lines content)) (out_view st)"
    using grep_loop_file [OF t(1) opened_at [OF ok(1) assms(2,5,6) i(2)] i(1) assms(4) pos _ assms(9,10,7,11) n(2)] assms(8) by auto
  have "sys_close (int i) u = Some (0, set_cur_pcb (closed_fd i (cur_pcb u)) u)"
    using sys_close_used [of u i] i(1,2) u(2,3) by (simp add: open_at_def user_ok_def calls_ok_def flag_defs)
  then show ?thesis using i(3) u(1,4) strlen_chars [OF assms(11)] by (simp add: do_one_file_def ece391_strlen_eq)
qed

section \<open>Property\<close>

text \<open>C22: \<^verbatim>\<open>grep\<close> searches a file.  For a regular file of at most 1024 bytes without NUL bytes, \<^verbatim>\<open>do_one_file\<close> returns 0 and prints,
  for every line of the file in which the searched string occurs and in the order of the file, the name of the file, a colon and the line, whether
  or not the last line ends with a newline; an empty string, or one that starts with a byte above 127, occurs nowhere.\<close>

theorem grep_prints_matches:
  assumes "user_ok st" and "names_file fname e st" and "\<not> {2..<MAX_FILE} \<subseteq> fd_used st" and "length (file_name d) = 33"
    and "fs_wf st" and "inode e < num_inodes st" and "length data = 1025" and "content = file_content st (inode e)" and "0 \<notin> set content"
    and "length content \<le> 1024" and "0 \<in> set s"
  shows "\<exists>st'. do_one_file d s fname data st = Some (0, st') \<and>
    out_view st' = typed (concat (map (\<lambda>l. if occurs (chars s) l then chars fname @ lit '':'' @ l @ [NL] else []) (file_lines content)))
      (out_view st)"
  using do_one_file_prints [OF assms] by (simp only: grep_text_def)

theorem grep_prints_matches_witness:
  "\<exists>st'. do_one_file blank_dentry (cstr ''is'') (cstr ''frame0.txt'') (replicate 1025 NL) (prog_example [] []) = Some (0, st') \<and>
    out_view st' = typed (concat (map (\<lambda>l. if occurs (chars (cstr ''is'')) l then chars (cstr ''frame0.txt'') @ lit '':'' @ l @ [NL] else [])
      (file_lines (lit ''fish'')))) (out_view (prog_example [] []))"
proof -
  let ?s = "prog_example [] []"
  obtain e where "names_entry (cstr ''frame0.txt'') e ?s" "inode e = 1" "file_type e = ff_type (files_example ! 1)"
    by (rule prog_example_named [of "[]" 1 "cstr ''frame0.txt''"]) (auto simp: files_example_def FILETYPE_def cstr_def chars_def)
  then show ?thesis
    by (intro grep_prints_matches [of _ _ e]) (simp_all add: prog_example_ok(1,3,5-7) names_file_def files_example_def FILETYPE_def MAX_FILE_def
        blank_dentry_def prog_example_ok(2) [unfolded tasks_ok_def])
qed

end
