(* ===== verification/Syserr.thy ===== *)
theory Syserr
  imports Programs
begin

text \<open>
  The test program \<^verbatim>\<open>syscalls/ece391syserr.c\<close>, which calls the system calls with bad arguments, run on the
  system calls of this development.  The arrays \<^verbatim>\<open>buf\<close> of the functions are uninitialised; \<open>other\<close> is what
  a system call does that is made with whatever \<^verbatim>\<open>ebx\<close>, \<^verbatim>\<open>ecx\<close> and \<^verbatim>\<open>edx\<close> hold.
\<close>

section \<open>The program\<close>

definition NEG_FD :: int where "NEG_FD = -1073741823"
definition BIG_FD :: int where "BIG_FD = 1073741823"
definition BIG_NUM :: int where "BIG_NUM = 1073741823"
definition NEG_NUM :: int where "NEG_NUM = -1073741823"

definition call_sys :: "(syscall \<Rightarrow> 'a kernel_scheme \<Rightarrow> (int \<times> 'a kernel_scheme) option) \<Rightarrow> int \<Rightarrow> 'a kernel_scheme
    \<Rightarrow> (int \<times> 'a kernel_scheme) option" where
  "call_sys other num s = (case syscall_link (word_of_int num) of None \<Rightarrow> Some (-1, s) | Some c \<Rightarrow> other c s)"

text \<open>\<^verbatim>\<open>if (-1 != r) { fail = 2; ece391_fdputs (1, msg); }\<close>, and the verdict every test ends with.\<close>

definition expect_error :: "int \<Rightarrow> string \<Rightarrow> int \<Rightarrow> 'a kernel_scheme \<Rightarrow> (int \<times> 'a kernel_scheme) option" where
  "expect_error r msg fail s =
     (if -1 \<noteq> r then do { s \<leftarrow> ece391_fdputs 1 (cstr msg) s; Some (2, s) } else Some (fail, s))"

definition verdict :: "string \<Rightarrow> int \<Rightarrow> 'a kernel_scheme \<Rightarrow> (int \<times> 'a kernel_scheme) option" where
  "verdict name fail s = do {
     s \<leftarrow> ece391_fdputs 1 (cstr (name @ (if fail \<noteq> 0 then '': FAIL\<newline>'' else '': PASS\<newline>''))) s;
     Some (fail, s)
   }"

definition err_neg_fd :: "dentry \<Rightarrow> byte list \<Rightarrow> 'a kernel_scheme \<Rightarrow> (int \<times> 'a kernel_scheme) option" where
  "err_neg_fd d buf s = do {
     (r, buf, s) \<leftarrow> ece391_read d NEG_FD buf 31 s;
     (fail, s) \<leftarrow> expect_error r ''read fail\<newline>'' 0 s;
     (r, s) \<leftarrow> sys_write NEG_FD (Some buf) 31 s;
     (fail, s) \<leftarrow> expect_error r ''write fail\<newline>'' fail s;
     (r, s) \<leftarrow> sys_close NEG_FD s;
     (fail, s) \<leftarrow> expect_error r ''close fail\<newline>'' fail s;
     verdict ''err_neg_fd'' fail s
   }"

definition err_big_fd :: "dentry \<Rightarrow> byte list \<Rightarrow> 'a kernel_scheme \<Rightarrow> (int \<times> 'a kernel_scheme) option" where
  "err_big_fd d buf s = do {
     (r, buf, s) \<leftarrow> ece391_read d BIG_FD buf 31 s;
     (fail, s) \<leftarrow> expect_error r ''read fail\<newline>'' 0 s;
     (r, s) \<leftarrow> sys_write BIG_FD (Some buf) 31 s;
     (fail, s) \<leftarrow> expect_error r ''write fail\<newline>'' fail s;
     (r, s) \<leftarrow> sys_close BIG_FD s;
     (fail, s) \<leftarrow> expect_error r ''close fail\<newline>'' fail s;
     verdict ''err_big_fd'' fail s
   }"

text \<open>The loops: \<open>n\<close> times \<^verbatim>\<open>open (".")\<close>, counting the failures, and a call for each descriptor of a list.\<close>

fun open_lots :: "dentry \<Rightarrow> nat \<Rightarrow> int \<Rightarrow> 'a kernel_scheme \<Rightarrow> (int \<times> 'a kernel_scheme) option" where
  "open_lots d 0 cnt s = Some (cnt, s)"
| "open_lots d (Suc n) cnt s = do {
     (r, s) \<leftarrow> sys_open d (cstr ''.'') s;
     open_lots d n (if -1 = r then cnt + 1 else cnt) s
   }"

fun close_each :: "nat list \<Rightarrow> 'a kernel_scheme \<Rightarrow> 'a kernel_scheme option" where
  "close_each [] s = Some s"
| "close_each (i # fds) s = do { (_, s) \<leftarrow> sys_close (int i) s; close_each fds s }"

definition err_open_lots :: "dentry \<Rightarrow> 'a kernel_scheme \<Rightarrow> (int \<times> 'a kernel_scheme) option" where
  "err_open_lots d s = do {
     (cnt, s) \<leftarrow> open_lots d 7 0 s;
     s \<leftarrow> close_each [2..<8] s;
     verdict ''err_open_lots'' (if cnt = 1 then 0 else 2) s
   }"

definition err_open :: "dentry \<Rightarrow> 'a kernel_scheme \<Rightarrow> (int \<times> 'a kernel_scheme) option" where
  "err_open d s = do {
     (r, s) \<leftarrow> sys_open d (cstr ''helloo'') s;
     (fail, s) \<leftarrow> expect_error r (CHR 0x27 # ''helloo'' @ CHR 0x27 # '' fail\<newline>'') 0 s;
     (r, s) \<leftarrow> sys_open d (cstr ''shel'') s;
     (fail, s) \<leftarrow> expect_error r (CHR 0x27 # ''shel'' @ CHR 0x27 # '' fail\<newline>'') fail s;
     (r, s) \<leftarrow> sys_open d (cstr []) s;
     (fail, s) \<leftarrow> expect_error r ''empty string fail\<newline>'' fail s;
     verdict ''err_open'' fail s
   }"

fun close_errors :: "nat list \<Rightarrow> int \<Rightarrow> 'a kernel_scheme \<Rightarrow> (int \<times> 'a kernel_scheme) option" where
  "close_errors [] fail s = Some (fail, s)"
| "close_errors (i # fds) fail s = do {
     (r, s) \<leftarrow> sys_close (int i) s;
     (fail, s) \<leftarrow> expect_error r ''close unopened or invalid fd fail\<newline>'' fail s;
     close_errors fds fail s
   }"

fun read_errors :: "dentry \<Rightarrow> nat list \<Rightarrow> int \<Rightarrow> byte list \<Rightarrow> 'a kernel_scheme \<Rightarrow> (int \<times> byte list \<times> 'a kernel_scheme) option" where
  "read_errors d [] fail buf s = Some (fail, buf, s)"
| "read_errors d (i # fds) fail buf s = do {
     (r, buf, s) \<leftarrow> ece391_read d (int i) buf 31 s;
     (fail, s) \<leftarrow> expect_error r ''read from unopened fd fail\<newline>'' fail s;
     read_errors d fds fail buf s
   }"

fun write_errors :: "nat list \<Rightarrow> int \<Rightarrow> byte list \<Rightarrow> 'a kernel_scheme \<Rightarrow> (int \<times> 'a kernel_scheme) option" where
  "write_errors [] fail buf s = Some (fail, s)"
| "write_errors (i # fds) fail buf s = do {
     (r, s) \<leftarrow> sys_write (int i) (Some buf) 31 s;
     (fail, s) \<leftarrow> expect_error r ''write to unopened fd fail\<newline>'' fail s;
     write_errors fds fail buf s
   }"

definition err_unopened :: "dentry \<Rightarrow> byte list \<Rightarrow> 'a kernel_scheme \<Rightarrow> (int \<times> 'a kernel_scheme) option" where
  "err_unopened d buf s = do {
     (fail, s) \<leftarrow> close_errors [0..<8] 0 s;
     (fail, buf, s) \<leftarrow> read_errors d [2..<8] fail buf s;
     (fail, s) \<leftarrow> write_errors [2..<8] fail buf s;
     verdict ''err_unopened'' fail s
   }"

definition err_vidmap :: "'a kernel_scheme \<Rightarrow> (int \<times> 'a kernel_scheme) option" where
  "err_vidmap s = do {
     let (r, p, s) = vidmap 0 s;
     (fail, s) \<leftarrow> expect_error r ''Null pointer fail\<newline>'' 0 s;
     let (r, p, s) = vidmap 0x400000 s;
     (fail, s) \<leftarrow> expect_error r ''Kernel pointer fail fail\<newline>'' fail s;
     verdict ''err_vidmap'' fail s
   }"

definition err_stdin_out :: "dentry \<Rightarrow> byte list \<Rightarrow> 'a kernel_scheme \<Rightarrow> (int \<times> 'a kernel_scheme) option" where
  "err_stdin_out d buf s = do {
     (r, s) \<leftarrow> sys_write 0 (Some buf) 31 s;
     (fail, s) \<leftarrow> expect_error r ''write to stdin fail\<newline>'' 0 s;
     (r, buf, s) \<leftarrow> ece391_read d 1 buf 31 s;
     (fail, s) \<leftarrow> expect_error r ''read from stdout fail\<newline>'' fail s;
     verdict ''err_stdin_out'' fail s
   }"

definition err_syscall_num :: "(syscall \<Rightarrow> 'a kernel_scheme \<Rightarrow> (int \<times> 'a kernel_scheme) option) \<Rightarrow> 'a kernel_scheme
    \<Rightarrow> (int \<times> 'a kernel_scheme) option" where
  "err_syscall_num other s = do {
     (r, s) \<leftarrow> call_sys other BIG_NUM s;
     (fail, s) \<leftarrow> expect_error r ''syscall 0 fail\<newline>'' 0 s;
     (r, s) \<leftarrow> call_sys other NEG_NUM s;
     (fail, s) \<leftarrow> expect_error r ''big num syscall fail\<newline>'' fail s;
     (r, s) \<leftarrow> call_sys other 0 s;
     (fail, s) \<leftarrow> expect_error r ''neg num syscall fail\<newline>'' fail s;
     verdict ''err_syscall_num'' fail s
   }"

text \<open>The tests in their order; \<open>tb\<close> is the uninitialised array of the test.\<close>

definition syserr_tests :: "(syscall \<Rightarrow> 'a kernel_scheme \<Rightarrow> (int \<times> 'a kernel_scheme) option) \<Rightarrow> dentry \<Rightarrow> byte list
    \<Rightarrow> ('a kernel_scheme \<Rightarrow> (int \<times> 'a kernel_scheme) option) list" where
  "syserr_tests other d tb = [err_neg_fd d tb, err_big_fd d tb, err_open_lots d, err_open d, err_unopened d tb, err_vidmap,
     err_stdin_out d tb, err_syscall_num other]"

fun run_tests :: "('a kernel_scheme \<Rightarrow> (int \<times> 'a kernel_scheme) option) list \<Rightarrow> int \<Rightarrow> 'a kernel_scheme
    \<Rightarrow> (int \<times> 'a kernel_scheme) option" where
  "run_tests [] fail s = Some (fail, s)"
| "run_tests (t # ts) fail s = do { (r, s) \<leftarrow> t s; run_tests ts (fail + r) s }"

definition syserr_main :: "(syscall \<Rightarrow> 'a kernel_scheme \<Rightarrow> (int \<times> 'a kernel_scheme) option) \<Rightarrow> dentry \<Rightarrow> byte list \<Rightarrow> byte list
    \<Rightarrow> 'a kernel_scheme \<Rightarrow> (int \<times> 'a kernel_scheme) option" where
  "syserr_main other d tb buf s = do {
     s \<leftarrow> ece391_fdputs 1 (cstr ''Choose from tests 1-8. 0 to run all: '') s;
     (cnt, buf, s) \<leftarrow> ece391_read d 0 buf 127 s;
     if -1 = cnt then do {
       s \<leftarrow> ece391_fdputs 1 (cstr ''Can't read test #\<newline>'') s;
       Some (2, s)
     } else do {
       c \<leftarrow> aget buf 0;
       let sel = uint c - 48;
       if sel = 0 then do {
         (fail, s) \<leftarrow> run_tests (syserr_tests other d tb) 0 s;
         s \<leftarrow> ece391_fdputs 1 (cstr (if fail \<noteq> 0 then ''\<newline>Overall Tests: FAIL\<newline>'' else ''\<newline>Overall Tests: PASS\<newline>'')) s;
         Some (fail, s)
       } else if 1 \<le> sel \<and> sel \<le> 8 then (syserr_tests other d tb ! nat (sel - 1)) s
       else do {
         s \<leftarrow> ece391_fdputs 1 (cstr ''Invalid test number. Choose from tests 1-8 or 0'') s;
         Some (0, s)
       }
     }
   }"

section \<open>Every test passes\<close>

text \<open>A process with no open descriptor, on a file system with the directory but neither of the two misspelt names,
  and no typed characters.\<close>

definition syserr_ok :: "dentry \<Rightarrow> 'a kernel_scheme \<Rightarrow> bool" where
  "syserr_ok e s \<longleftrightarrow> stdio_ok s \<and> fd_used s = {} \<and> names_entry (cstr ''.'') e s \<and>
     (\<forall>e \<in> set (dentries s). chars (file_name e) \<noteq> lit ''helloo'' \<and> chars (file_name e) \<noteq> lit ''shel'') \<and> last_idx s = keyboard_idx s"

definition passes :: "('a kernel_scheme \<Rightarrow> (int \<times> 'a kernel_scheme) option) \<Rightarrow> string \<Rightarrow> dentry \<Rightarrow> bool" where
  "passes t name e \<longleftrightarrow> (\<forall>s. syserr_ok e s \<longrightarrow>
     (\<exists>s'. t s = Some (0, s') \<and> syserr_ok e s' \<and> out_view s' = typed (lit (name @ '': PASS\<newline>'')) (out_view s)))"

lemma expect_error_seen [simp]: "expect_error (-1) msg fail s = Some (fail, s)"
  by (simp add: expect_error_def)

lemma fd_used_rest: "rest s' = rest s \<Longrightarrow> fd_used s' = fd_used s" for s s' :: "'a kernel_scheme"
  using rest_fields(5) [of s' s] by (simp add: fd_used_def)

lemma syserr_told: "\<lbrakk>syserr_ok e s; 0 \<in> set str\<rbrakk> \<Longrightarrow> syserr_ok e (told str s)" for s :: "'a kernel_scheme"
  using told_simps(4,5) [of s str] rest_fields(7,8,15,16) [of "told str s" s] fd_used_rest [of "told str s" s]
  by (simp add: syserr_ok_def names_entry_def)

lemma verdict_pass:
  assumes "syserr_ok e s" and "0 \<notin> set (lit name)"
  shows "\<exists>s'. verdict name 0 s = Some (0, s') \<and> syserr_ok e s' \<and> out_view s' = typed (lit (name @ '': PASS\<newline>'')) (out_view s)"
proof -
  have "0 \<notin> set (lit (name @ '': PASS\<newline>''))" using assms(2) by (simp add: lit_def)
  moreover have "user_ok s" using assms(1) by (simp add: syserr_ok_def)
  ultimately show ?thesis using syserr_told [OF assms(1), of "cstr (name @ '': PASS\<newline>'')"] by (simp add: verdict_def cstr_chars)
qed

lemma bad_fd:
  assumes "fd < 0 \<or> int MAX_FILE \<le> fd"
  shows "ece391_read d fd buf n s = Some (-1, buf, s)" "sys_write fd (Some buf) n s = Some (-1, s)" "sys_close fd s = Some (-1, s)"
  using assms by (auto simp: ece391_read_def sys_read_def sys_write_def sys_close_def)

lemma unused_fd:
  assumes "user_ok s" and "fd_used s = {}" and "2 \<le> i" and "i < MAX_FILE" and "0 \<le> n"
  shows "ece391_read d (int i) buf n s = Some (-1, buf, s)" "sys_write (int i) (Some buf) n s = Some (-1, s)" "sys_close (int i) s = Some (-1, s)"
proof -
  have "fd_flags (FDs_array (cur_pcb s) ! i) = NOT_SET" using assms(2-4) by (auto simp: fd_used_def)
  then show "ece391_read d (int i) buf n s = Some (-1, buf, s)" "sys_write (int i) (Some buf) n s = Some (-1, s)" "sys_close (int i) s = Some (-1, s)"
    using calls_ok_dispatch(1) [of s "int i" n d buf] calls_ok_dispatch(2) [of s "int i" n buf] sys_close_used [of s i] assms
    by (simp_all add: user_ok_def ece391_read_def std_fops_def NOT_SET_def call_read_def call_write_def invalid_function_def calls_ok_def)
qed

lemma passesI:
  assumes "\<And>s. syserr_ok e s \<Longrightarrow> \<exists>s1. t s = verdict name 0 s1 \<and> syserr_ok e s1 \<and> out_view s1 = out_view s" and "0 \<notin> set (lit name)"
  shows "passes t name e"
  unfolding passes_def using assms(1) verdict_pass [OF _ assms(2)] by metis

lemma fd_tests_pass: "passes (err_neg_fd d buf) ''err_neg_fd'' e" "passes (err_big_fd d buf) ''err_big_fd'' e"
  by (rule passesI; auto simp: err_neg_fd_def err_big_fd_def bad_fd NEG_FD_def BIG_FD_def MAX_FILE_def)+

lemma vidmap_test_passes: "passes err_vidmap ''err_vidmap'' e"
  by (rule passesI) (auto simp: err_vidmap_def vidmap_def)

lemma call_num_test_passes: "passes (err_syscall_num other) ''err_syscall_num'' e"
  by (rule passesI) (auto simp: err_syscall_num_def call_sys_def syscall_link_def BIG_NUM_def NEG_NUM_def)

lemma stdin_out_test_passes: "passes (err_stdin_out d buf) ''err_stdin_out'' e"
proof (rule passesI)
  fix s :: "'a kernel_scheme"
  assume s: "syserr_ok e s"
  then have ok: "calls_ok s" "fd_flags (FDs_array (cur_pcb s) ! 0) = STDINFLAG" "fd_flags (FDs_array (cur_pcb s) ! 1) = STDOUTFLAG"
    "last_idx s = keyboard_idx s"
    by (simp_all add: syserr_ok_def stdio_ok_def user_ok_def)
  have "sys_write 0 (Some buf) 31 s = Some (-1, s)"
    using calls_ok_dispatch(2) [of s 0 31 buf] ok
    by (simp add: MAX_FILE_def std_fops_def STDINFLAG_def call_write_def keyboard_write_def get_keyboard_idx_def)
  moreover have "ece391_read d 1 buf 31 s = Some (-1, buf, s)"
    using calls_ok_dispatch(1) [of s 1 31 d buf] ok
    by (simp add: MAX_FILE_def std_fops_def STDOUTFLAG_def call_read_def terminal_read_def ece391_read_def)
  ultimately show "\<exists>s1. err_stdin_out d buf s = verdict ''err_stdin_out'' 0 s1 \<and> syserr_ok e s1 \<and> out_view s1 = out_view s"
    using s by (auto simp: err_stdin_out_def)
qed simp

lemma open_test_passes:
  assumes "length (file_name d) = 33"
  shows "passes (err_open d) ''err_open'' e"
proof (rule passesI)
  fix s :: "'a kernel_scheme"
  assume s: "syserr_ok e s"
  then have wf: "dentries_wf s" by (simp add: syserr_ok_def names_entry_def)
  have "sys_open d (cstr name) s = Some (-1, s)" if "name \<in> {''helloo'', ''shel'', []}" for name
    by (rule sys_open_missing [OF wf _ _ _ assms]) (use s that in \<open>auto simp: cstr_chars syserr_ok_def\<close>)
  then show "\<exists>s1. err_open d s = verdict ''err_open'' 0 s1 \<and> syserr_ok e s1 \<and> out_view s1 = out_view s"
    using s by (auto simp: err_open_def)
qed simp

lemma unopened_loops:
  assumes "user_ok s" and "fd_used s = {}"
  shows "\<forall>i \<in> set fds. i < MAX_FILE \<Longrightarrow> close_errors fds fail s = Some (fail, s)"
    "\<forall>i \<in> set fds. 2 \<le> i \<and> i < MAX_FILE \<Longrightarrow> read_errors d fds fail buf s = Some (fail, buf, s)"
    "\<forall>i \<in> set fds. 2 \<le> i \<and> i < MAX_FILE \<Longrightarrow> write_errors fds fail buf s = Some (fail, s)"
proof -
  have "sys_close (int i) s = Some (-1, s)" if "i < MAX_FILE" for i
    using unused_fd(3) [OF assms, of i 0] that by (cases "2 \<le> i") (auto simp: sys_close_def)
  then show "\<forall>i \<in> set fds. i < MAX_FILE \<Longrightarrow> close_errors fds fail s = Some (fail, s)" by (induction fds) auto
  show "\<forall>i \<in> set fds. 2 \<le> i \<and> i < MAX_FILE \<Longrightarrow> read_errors d fds fail buf s = Some (fail, buf, s)"
    using unused_fd(1) [OF assms] by (induction fds) auto
  show "\<forall>i \<in> set fds. 2 \<le> i \<and> i < MAX_FILE \<Longrightarrow> write_errors fds fail buf s = Some (fail, s)"
    using unused_fd(2) [OF assms] by (induction fds) auto
qed

lemma unopened_test_passes: "passes (err_unopened d buf) ''err_unopened'' e"
proof (rule passesI)
  fix s :: "'a kernel_scheme"
  assume s: "syserr_ok e s"
  then have "user_ok s" "fd_used s = {}" by (simp_all add: syserr_ok_def)
  note loops = unopened_loops [OF this]
  show "\<exists>s1. err_unopened d buf s = verdict ''err_unopened'' 0 s1 \<and> syserr_ok e s1 \<and> out_view s1 = out_view s"
    using s loops(1) [of "[0..<8]" 0] loops(2) [of "[2..<8]" d 0 buf] loops(3) [of "[2..<8]" 0 buf]
    by (auto simp: err_unopened_def MAX_FILE_def simp del: upt_rec_numeral)
qed simp

text \<open>Opening and closing change nothing but descriptors 2 to 7 of the process.\<close>

definition fds_only :: "'a kernel_scheme \<Rightarrow> 'a kernel_scheme \<Rightarrow> bool" where
  "fds_only s s' \<longleftrightarrow> (\<exists>b. s' = set_cur_pcb b s \<and> std_kept (cur_pcb s) b)"

lemma fds_only_ok:
  assumes "user_ok s" and "fds_only s s'"
  shows "user_ok s'" "stdio_ok s \<Longrightarrow> stdio_ok s'" "names_entry fname e s' = names_entry fname e s" "dentries s' = dentries s"
    "out_view s' = out_view s" "last_idx s' = last_idx s" "keyboard_idx s' = keyboard_idx s" "fds_only s' s'' \<Longrightarrow> fds_only s s''"
proof -
  obtain b where b: "s' = set_cur_pcb b s" "std_kept (cur_pcb s) b" using assms(2) by (auto simp: fds_only_def)
  note u = user_ok_set [OF assms(1) b(2)]
  show "user_ok s'" "stdio_ok s \<Longrightarrow> stdio_ok s'" "names_entry fname e s' = names_entry fname e s" "dentries s' = dentries s"
    "out_view s' = out_view s"
    using u by (simp_all add: b(1))
  show "last_idx s' = last_idx s" "keyboard_idx s' = keyboard_idx s" by (simp_all add: b(1) set_cur_pcb_def)
  show "fds_only s' s'' \<Longrightarrow> fds_only s s''" using u(2) b std_kept_trans by (auto simp: fds_only_def)
qed

lemma fds_only_refl: "user_ok s \<Longrightarrow> fds_only s s"
  unfolding fds_only_def
  by (rule exI [of _ "cur_pcb s"])
    (simp add: std_kept_def user_ok_def calls_ok_def procs_ok_def set_cur_pcb_def cur_pcb_def)

text \<open>Of \<open>n\<close> attempts to open, those beyond the free descriptors fail.\<close>

lemma open_lots_counts:
  assumes "user_ok s" and "names_entry (cstr ''.'') e s" and "length (file_name d) = 33"
  shows "\<exists>s'. open_lots d n cnt s = Some (cnt + int (n - card ({2..<MAX_FILE} - fd_used s)), s') \<and> fds_only s s'"
  using assms(1,2)
proof (induction n arbitrary: s cnt)
  case 0
  then show ?case using fds_only_refl by auto
next
  case (Suc n)
  have ok: "procs_ok s" using Suc.prems(1) by (simp add: user_ok_def calls_ok_def)
  show ?case
  proof (cases "{2..<MAX_FILE} \<subseteq> fd_used s")
    case True
    then have full: "card ({2..<MAX_FILE} - fd_used s) = 0" by (simp add: Diff_eq_empty_iff [THEN iffD2])
    have "sys_open d (cstr ''.'') s = Some (-1, s)"
      using sys_open_file [OF ok Suc.prems(2) assms(3)] True find_index_None [of "\<lambda>j. fd_flags (FDs_array (cur_pcb s) ! j) = NOT_SET" 2 MAX_FILE]
      by (auto simp: fd_used_def)
    then show ?thesis using Suc.IH [OF Suc.prems, of "cnt + 1"] by (simp only: full open_lots.simps) (simp add: add.commute add.left_commute)
  next
    case False
    then obtain i where i: "2 \<le> i" "i < MAX_FILE" "i \<notin> fd_used s"
      "sys_open d (cstr ''.'') s = Some (int i, set_cur_pcb (opened (cstr ''.'') e i (cur_pcb s)) s)"
      "std_kept (cur_pcb s) (opened (cstr ''.'') e i (cur_pcb s))"
      using open_unused [OF Suc.prems False assms(3)] by blast
    let ?t = "set_cur_pcb (opened (cstr ''.'') e i (cur_pcb s)) s"
    have t: "fds_only s ?t" using i(5) by (auto simp: fds_only_def)
    have "{2..<MAX_FILE} - fd_used s = insert i ({2..<MAX_FILE} - fd_used ?t)" "i \<notin> {2..<MAX_FILE} - fd_used ?t"
      using i(1-3) fd_used_opened [OF ok i(1,2)] by auto
    then have "card ({2..<MAX_FILE} - fd_used s) = Suc (card ({2..<MAX_FILE} - fd_used ?t))" by simp
    moreover obtain s' where "open_lots d n cnt ?t = Some (cnt + int (n - card ({2..<MAX_FILE} - fd_used ?t)), s')" "fds_only ?t s'"
      using Suc.IH [of ?t cnt] fds_only_ok(1,3) [OF Suc.prems(1) t] Suc.prems(2) by blast
    ultimately show ?thesis using i(4) fds_only_ok(8) [OF Suc.prems(1) t] by auto
  qed
qed

lemma close_each_closes:
  assumes "user_ok s" and "\<forall>i \<in> set fds. 2 \<le> i \<and> i < MAX_FILE"
  shows "\<exists>s'. close_each fds s = Some s' \<and> fds_only s s' \<and> fd_used s' = fd_used s - set fds"
  using assms
proof (induction fds arbitrary: s)
  case Nil
  then show ?case using fds_only_refl by auto
next
  case (Cons i fds)
  then have i: "2 \<le> i" "i < MAX_FILE" and ok: "procs_ok s" by (simp_all add: user_ok_def calls_ok_def)
  obtain r t where t: "sys_close (int i) s = Some (r, t)" "fds_only s t" "fd_used t = fd_used s - {i}"
  proof (cases "fd_flags (FDs_array (cur_pcb s) ! i) = NOT_SET")
    case True
    then show thesis using that [of "-1" s] sys_close_used [OF ok i] fds_only_refl [OF Cons.prems(1)] by (auto simp: fd_used_def)
  next
    case False
    then show thesis
      using that sys_close_used [OF ok i] fd_used_closed [OF ok i(2)] std_kept_fds(3) [OF procs_ok_cur(2) [OF ok] i]
      by (auto simp: fds_only_def)
  qed
  then obtain s' where "close_each fds t = Some s'" "fds_only t s'" "fd_used s' = fd_used t - set fds"
    using Cons.IH [OF fds_only_ok(1) [OF Cons.prems(1) t(2)]] Cons.prems(2) by auto
  then show ?case using t fds_only_ok(8) [OF Cons.prems(1) t(2)] by auto
qed

lemma open_lots_test_passes:
  assumes "length (file_name d) = 33"
  shows "passes (err_open_lots d) ''err_open_lots'' e"
proof (rule passesI)
  fix s :: "'a kernel_scheme"
  assume s: "syserr_ok e s"
  then have u: "user_ok s" "names_entry (cstr ''.'') e s" "fd_used s = {}" by (simp_all add: syserr_ok_def)
  obtain s1 where s1: "open_lots d 7 0 s = Some (1, s1)" "fds_only s s1"
    using open_lots_counts [OF u(1,2) assms, of 7 0] u(3) by (auto simp: MAX_FILE_def)
  have u1: "user_ok s1" by (rule fds_only_ok(1) [OF u(1) s1(2)])
  obtain s2 where s2: "close_each [2..<8] s1 = Some s2" "fds_only s1 s2" "fd_used s2 = fd_used s1 - {2..<8}"
    using close_each_closes [OF u1, of "[2..<8]"] by (auto simp: MAX_FILE_def simp del: upt_rec_numeral)
  have "fd_used s1 \<subseteq> {2..<8}" by (auto simp: fd_used_def MAX_FILE_def)
  then have "fd_used s2 = {}" using s2(3) by blast
  moreover have "fds_only s s2" by (rule fds_only_ok(8) [OF u(1) s1(2) s2(2)])
  ultimately have "syserr_ok e s2 \<and> out_view s2 = out_view s" using s fds_only_ok [OF u(1), of s2] by (simp add: syserr_ok_def)
  then show "\<exists>s1. err_open_lots d s = verdict ''err_open_lots'' 0 s1 \<and> syserr_ok e s1 \<and> out_view s1 = out_view s"
    using s1(1) s2(1) by (auto simp: err_open_lots_def simp del: upt_rec_numeral)
qed simp

definition test_names :: "string list" where
  "test_names = [''err_neg_fd'', ''err_big_fd'', ''err_open_lots'', ''err_open'', ''err_unopened'', ''err_vidmap'', ''err_stdin_out'',
     ''err_syscall_num'']"

lemma all_tests_pass: "length (file_name d) = 33 \<Longrightarrow> list_all2 (\<lambda>t name. passes t name e) (syserr_tests other d tb) test_names"
  by (simp add: syserr_tests_def test_names_def fd_tests_pass open_lots_test_passes open_test_passes unopened_test_passes vidmap_test_passes
      stdin_out_test_passes call_num_test_passes)

lemma run_tests_pass:
  assumes "list_all2 (\<lambda>t name. passes t name e) ts names" and "syserr_ok e s"
  shows "\<exists>s'. run_tests ts 0 s = Some (0, s') \<and> syserr_ok e s' \<and>
    out_view s' = typed (concat (map (\<lambda>name. lit (name @ '': PASS\<newline>'')) names)) (out_view s)"
  using assms
proof (induction arbitrary: s rule: list_all2_induct)
  case Nil
  then show ?case by simp
next
  case (Cons t ts name names)
  then obtain s1 where s1: "t s = Some (0, s1)" "syserr_ok e s1" "out_view s1 = typed (lit (name @ '': PASS\<newline>'')) (out_view s)"
    unfolding passes_def by blast
  then show ?case using Cons.IH [OF s1(2)] by auto
qed

lemma syserr_after_line:
  assumes "stdio_ok s" and "fd_used s = {}" and "names_entry (cstr ''.'') e s"
    and "\<forall>e \<in> set (dentries s). chars (file_name e) \<noteq> lit ''helloo'' \<and> chars (file_name e) \<noteq> lit ''shel''" and "0 \<in> set str"
  shows "syserr_ok e (line_taken (told str s))"
proof -
  have r: "rest (told str s) = rest s" using assms(1,5) by simp
  have "fd_used (line_taken s) = fd_used s" "dentries_wf (line_taken s) = dentries_wf s" for s :: "'a kernel_scheme"
    by (simp_all add: line_taken_def reset_line_def fd_used_def cur_pcb_def dentries_wf_def)
  then show ?thesis using assms rest_fields(7,8) [OF r] fd_used_rest [OF r]
    by (simp add: syserr_ok_def names_entry_def taken_tasks) (simp add: line_taken_def reset_line_def)
qed

section \<open>Property\<close>

text \<open>C23: the error tests.  \<^verbatim>\<open>syserr\<close>, started with its two standard descriptors on a file system that has the directory
  and no file \<^verbatim>\<open>helloo\<close> or \<^verbatim>\<open>shel\<close>, reads a line and, when it starts with \<^verbatim>\<open>0\<close>, reports that every one of
  the eight tests of bad calls passes; with a digit \<^verbatim>\<open>1\<close> to \<^verbatim>\<open>8\<close>, that this one does.\<close>

theorem syserr_passes:
  assumes "stdio_ok s" and "fd_used s = {}" and "names_entry (cstr ''.'') e s"
    and "\<forall>e \<in> set (dentries s). chars (file_name e) \<noteq> lit ''helloo'' \<and> chars (file_name e) \<noteq> lit ''shel''"
    and "length (file_name d) = 33" and "length buf = 128" and "line_ready (c # line) s" and "uint c = 48 + int k" and "k \<le> 8"
  shows "\<exists>s'. syserr_main other d tb buf s = Some (0, s') \<and>
    out_view s' = typed (lit ''Choose from tests 1-8. 0 to run all: '' @
      (if k = 0 then concat (map (\<lambda>name. lit (name @ '': PASS\<newline>'')) test_names) @ lit ''\<newline>Overall Tests: PASS\<newline>''
       else lit (test_names ! (k - 1) @ '': PASS\<newline>''))) (out_view s)"
proof -
  define t where "t = line_taken (told (cstr ''Choose from tests 1-8. 0 to run all: '') s)"
  have t: "syserr_ok e t" unfolding t_def by (rule syserr_after_line [OF assms(1-4)]) simp
  have out: "out_view t = typed (lit ''Choose from tests 1-8. 0 to run all: '') (out_view s)" using assms(1) by (simp add: t_def cstr_chars)
  define m where "m = min 127 (Suc (Suc (length line)))"
  define b where "b = take m ((c # line) @ [NL]) @ 0 # drop (Suc m) buf"
  have read: "ece391_read d 0 buf 127 (told (cstr ''Choose from tests 1-8. 0 to run all: '') s) = Some (int m, b, t)"
    using read_stdin [of "told (cstr ''Choose from tests 1-8. 0 to run all: '') s" "c # line" 127 m buf d] assms(1,6,7) by (simp add: m_def b_def t_def)
  have b: "aget b 0 = Some c" by (simp add: b_def m_def aget_def min_def)
  let ?ts = "syserr_tests other d tb"
  note all = all_tests_pass [OF assms(5), where e = e and other = other and tb = tb]
  have run: "syserr_main other d tb buf s =
     (if k = 0 then do {
         (fail, s) \<leftarrow> run_tests ?ts 0 t;
         s \<leftarrow> ece391_fdputs 1 (cstr (if fail \<noteq> 0 then ''\<newline>Overall Tests: FAIL\<newline>'' else ''\<newline>Overall Tests: PASS\<newline>'')) s;
         Some (fail, s) }
      else (?ts ! (k - 1)) t)"
    using assms(1,8,9) read b by (simp add: syserr_main_def nat_diff_distrib)
  show ?thesis
  proof (cases "k = 0")
    case True
    then show ?thesis using run run_tests_pass [OF all t] out by (auto simp: cstr_chars syserr_ok_def)
  next
    case False
    then have "k - 1 < length ?ts" using assms(9) by (simp add: syserr_tests_def)
    then have "passes (?ts ! (k - 1)) (test_names ! (k - 1)) e" using list_all2_nthD [OF all] by simp
    then show ?thesis using t run False out unfolding passes_def by auto
  qed
qed

theorem syserr_passes_witness:
  "\<exists>s'. syserr_main (\<lambda>c s. None) blank_dentry (replicate 32 0) (replicate 128 0) (prog_example ''0'' []) = Some (0, s') \<and>
    out_view s' = typed (lit ''Choose from tests 1-8. 0 to run all: '' @
      (if (0 :: nat) = 0 then concat (map (\<lambda>name. lit (name @ '': PASS\<newline>'')) test_names) @ lit ''\<newline>Overall Tests: PASS\<newline>''
       else lit (test_names ! (0 - 1) @ '': PASS\<newline>''))) (out_view (prog_example ''0'' []))"
proof -
  let ?s = "prog_example ''0'' []"
  obtain e where e: "names_entry (cstr ''.'') e ?s"
    by (rule prog_example_named [of "[]" 0 "cstr ''.''"]) (auto simp: files_example_def DIRTYPE_def cstr_def chars_def)
  have "chars (file_name e) \<in> {lit ''.'', lit ''frame0.txt'', lit ''verylarge'', lit ''shell''}" if "e \<in> set (dentries mounted_example)" for e
    using arg_cong [OF mounted_example_names, of set] that by auto
  then have names: "\<forall>e \<in> set (dentries ?s). chars (file_name e) \<noteq> lit ''helloo'' \<and> chars (file_name e) \<noteq> lit ''shel''"
    by (fastforce simp: prog_example_ok)
  have line: "line_ready [48] ?s" using prog_example_line [of "''0''"] by simp
  show ?thesis by (rule syserr_passes [OF _ _ e names _ _ line]) (simp_all add: prog_example_ok blank_dentry_def)
qed

end
