(* ===== verification/Blink.thy ===== *)
theory Blink
  imports Prelude
begin

text \<open>
  The blinking characters of the animation program: the pool of structures in \<^verbatim>\<open>fish/fish.c\<close> (\<^verbatim>\<open>mp1_malloc\<close> and
  \<^verbatim>\<open>mp1_free\<close>) and the linked list through it in \<^verbatim>\<open>fish/blink.S\<close>.

  A pointer to a structure is its index in \<^verbatim>\<open>blink_array\<close>, the null pointer is \<open>None\<close>.  A walk over the list that never ends, or that
  follows the null pointer, is \<open>None\<close>.  The field
  \<open>vmem\<close> is the memory behind the page at \<^verbatim>\<open>vmem_base_addr\<close>, by offsets from there; when the program runs on the kernel, \<open>Fish\<close> makes it the video memory
  of the kernel before every access and puts it back after.
\<close>

section \<open>State\<close>

record blink =
  location :: u16
  on_char :: byte
  off_char :: byte
  on_length :: u16
  off_length :: u16
  countdown :: u16
  status :: u16
  next_blink :: "nat option"

record fish =
  blink_array :: "blink list"          \<comment> \<open>2000 structures\<close>
  mp1_list_head :: "nat option"
  vmem :: cells

definition zero_blink :: blink where
  "zero_blink = \<lparr>location = 0, on_char = 0, off_char = 0, on_length = 0, off_length = 0, countdown = 0, status = 0, next_blink = None\<rparr>"

definition POOL :: nat where "POOL = 80 * 25"

section \<open>Operations\<close>

definition mp1_poke :: "byte \<Rightarrow> int \<Rightarrow> fish \<Rightarrow> fish" where
  "mp1_poke cl eax st = st\<lparr>vmem := (vmem st)(eax := cl)\<rparr>"

function mp1_malloc :: "nat \<Rightarrow> blink list \<Rightarrow> nat option option" where
  "mp1_malloc i arr =
     (if i < POOL then do {
        b \<leftarrow> aget arr i;
        if location b = 0 then Some (Some i) else mp1_malloc (Suc i) arr
      } else Some None)"
  by pat_completeness auto
termination
  by (relation "measure (\<lambda>(i, arr). POOL - i)") auto

declare mp1_malloc.simps [simp del]

definition mp1_free :: "nat \<Rightarrow> fish \<Rightarrow> fish option" where
  "mp1_free i st = do {
     arr \<leftarrow> aset (blink_array st) i zero_blink;
     Some (st\<lparr>blink_array := arr\<rparr>)
   }"

partial_function (option) mp1_find_helper :: "blink list \<Rightarrow> nat option \<Rightarrow> u16 \<Rightarrow> nat option option" where
  "mp1_find_helper arr ebx ax =
     (case ebx of None \<Rightarrow> Some None
      | Some i \<Rightarrow> do {
          b \<leftarrow> aget arr i;
          if location b = ax then Some (Some i) else mp1_find_helper arr (next_blink b) ax
        })"

definition mp1_ioctl_add :: "blink \<Rightarrow> fish \<Rightarrow> (int \<times> fish) option" where
  "mp1_ioctl_add arg st =
     (if location arg \<ge> 80 * 25 then Some (-1, st)
      else do {
        let b = arg\<lparr>status := 1, countdown := on_length arg\<rparr>;
        p \<leftarrow> mp1_malloc 0 (blink_array st);
        case p of None \<Rightarrow> Some (-1, st)
        | Some i \<Rightarrow> do {
            arr \<leftarrow> aset (blink_array st) i (b\<lparr>next_blink := mp1_list_head st\<rparr>);
            let st = st\<lparr>blink_array := arr, mp1_list_head := Some i\<rparr>;
            Some (0, mp1_poke (on_char b) (2 * uint (location b)) st)
          }
      })"

text \<open>The search for the link that leads to a structure: \<open>None\<close> is the list head, \<open>Some j\<close> the field \<^verbatim>\<open>next\<close> of \<open>j\<close>.\<close>

partial_function (option) remove_find_prev :: "fish \<Rightarrow> nat \<Rightarrow> nat option \<Rightarrow> nat option option" where
  "remove_find_prev st eax edx = do {
     link \<leftarrow> (case edx of None \<Rightarrow> Some (mp1_list_head st) | Some j \<Rightarrow> map_option next_blink (aget (blink_array st) j));
     if link = Some eax then Some edx
     else case link of None \<Rightarrow> None | Some j \<Rightarrow> remove_find_prev st eax (Some j)
   }"

definition mp1_ioctl_remove :: "u16 \<Rightarrow> fish \<Rightarrow> (int \<times> fish) option" where
  "mp1_ioctl_remove arg st = do {
     p \<leftarrow> mp1_find_helper (blink_array st) (mp1_list_head st) arg;
     case p of None \<Rightarrow> Some (-1, st)
     | Some i \<Rightarrow> do {
         edx \<leftarrow> remove_find_prev st i None;
         b \<leftarrow> aget (blink_array st) i;
         st \<leftarrow> (case edx of
             None \<Rightarrow> Some (st\<lparr>mp1_list_head := next_blink b\<rparr>)
           | Some j \<Rightarrow> do {
               a \<leftarrow> aget (blink_array st) j;
               Some (st\<lparr>blink_array := (blink_array st)[j := a\<lparr>next_blink := next_blink b\<rparr>]\<rparr>)
             });
         st \<leftarrow> mp1_free i st;
         Some (0, st)
       }
   }"

text \<open>The conditional move of \<^verbatim>\<open>mp1_ioctl_sync\<close> tests the sign flag, which \<^verbatim>\<open>testb $0x1\<close> never sets.\<close>

definition mp1_ioctl_sync :: "u32 \<Rightarrow> fish \<Rightarrow> (int \<times> fish) option" where
  "mp1_ioctl_sync arg st = do {
     p \<leftarrow> mp1_find_helper (blink_array st) (mp1_list_head st) (ucast (drop_bit 16 arg));
     case p of None \<Rightarrow> Some (-1, st)
     | Some esi \<Rightarrow> do {
         q \<leftarrow> mp1_find_helper (blink_array st) (mp1_list_head st) (ucast (arg AND 0xFFFF));
         case q of None \<Rightarrow> Some (-1, st)
         | Some edi \<Rightarrow> do {
             a \<leftarrow> aget (blink_array st) esi;
             b \<leftarrow> aget (blink_array st) edi;
             let b = b\<lparr>on_length := on_length a, off_length := off_length a, countdown := countdown a, status := status a\<rparr>;
             let cl = (if bit (status b AND 1) 7 then on_char b else off_char b);
             Some (0, mp1_poke cl (2 * uint (location b)) (st\<lparr>blink_array := (blink_array st)[edi := b]\<rparr>))
           }
       }
   }"

definition mp1_ioctl_find :: "u16 \<Rightarrow> fish \<Rightarrow> (int \<times> blink option) option" where
  "mp1_ioctl_find loc st = do {
     p \<leftarrow> mp1_find_helper (blink_array st) (mp1_list_head st) loc;
     case p of None \<Rightarrow> Some (-1, None)
     | Some i \<Rightarrow> do { b \<leftarrow> aget (blink_array st) i; Some (0, Some b) }
   }"

text \<open>One structure at a clock tick.\<close>

definition tick :: "blink \<Rightarrow> blink \<times> byte option" where
  "tick b =
     (let b = b\<lparr>countdown := countdown b - 1\<rparr> in
      if sint (countdown b) > 0 then (b, None)
      else if bit (status b) 0 then (b\<lparr>countdown := off_length b, status := status b XOR 1\<rparr>, Some (off_char b))
      else (b\<lparr>countdown := on_length b, status := status b XOR 1\<rparr>, Some (on_char b)))"

partial_function (option) tasklet_loop :: "nat option \<Rightarrow> fish \<Rightarrow> fish option" where
  "tasklet_loop ebx st =
     (case ebx of None \<Rightarrow> Some st
      | Some i \<Rightarrow> do {
          b \<leftarrow> aget (blink_array st) i;
          let (b', poke) = tick b;
          let st = st\<lparr>blink_array := (blink_array st)[i := b']\<rparr>;
          let st = (case poke of None \<Rightarrow> st | Some cl \<Rightarrow> mp1_poke cl (2 * uint (location b)) st);
          tasklet_loop (next_blink b) st
        })"

definition mp1_rtc_tasklet :: "fish \<Rightarrow> fish option" where
  "mp1_rtc_tasklet st = tasklet_loop (mp1_list_head st) st"

section \<open>The list as a sequence\<close>

fun chain :: "blink list \<Rightarrow> nat option \<Rightarrow> nat list \<Rightarrow> bool" where
  "chain arr h [] \<longleftrightarrow> h = None"
| "chain arr h (i # is) \<longleftrightarrow> h = Some i \<and> i < length arr \<and> chain arr (next_blink (arr ! i)) is"

text \<open>The structures with a location are exactly those of the list, each of them once.\<close>

definition blink_inv :: "fish \<Rightarrow> nat list \<Rightarrow> bool" where
  "blink_inv st is \<longleftrightarrow> length (blink_array st) = POOL \<and> chain (blink_array st) (mp1_list_head st) is \<and> distinct is \<and>
     (\<forall>i < POOL. location (blink_array st ! i) \<noteq> 0 \<longleftrightarrow> i \<in> set is)"

definition items :: "fish \<Rightarrow> nat list \<Rightarrow> blink list" where
  "items st is = map (\<lambda>i. (blink_array st ! i)\<lparr>next_blink := None\<rparr>) is"

lemma chain_bound: "chain arr h is \<Longrightarrow> i \<in> set is \<Longrightarrow> i < length arr"
  by (induction "is" arbitrary: h) auto

lemma chain_update: "\<lbrakk>chain arr h is; j \<notin> set is \<or> next_blink b = next_blink (arr ! j)\<rbrakk> \<Longrightarrow> chain (arr[j := b]) h is"
proof (induction "is" arbitrary: h)
  case (Cons i "is")
  then have "next_blink (arr[j := b] ! i) = next_blink (arr ! i)" by (cases "i = j") auto
  then show ?case using Cons by auto
qed simp

lemma find_helper_chain:
  assumes "chain arr h is"
  shows "mp1_find_helper arr h ax = Some (List.find (\<lambda>i. location (arr ! i) = ax) is)"
  using assms by (induction "is" arbitrary: h) (auto simp: mp1_find_helper.simps)

lemma malloc_first:
  assumes "length arr = POOL"
  shows "mp1_malloc i arr = Some (List.find (\<lambda>j. location (arr ! j) = 0) [i..<POOL])"
proof (induction "POOL - i" arbitrary: i)
  case 0
  then show ?case by (simp add: mp1_malloc.simps)
next
  case (Suc n)
  then have "i < POOL" "n = POOL - Suc i" by simp_all
  then show ?case using Suc.hyps(1) [of "Suc i"] assms by (subst mp1_malloc.simps) (simp add: upt_conv_Cons)
qed

lemma free_slot:
  assumes "blink_inv st is" and "length is < POOL"
  shows "\<exists>i. List.find (\<lambda>j. location (blink_array st ! j) = 0) [0..<POOL] = Some i"
proof -
  have "\<exists>j < POOL. j \<notin> set is"
  proof (rule ccontr)
    assume "\<not> (\<exists>j < POOL. j \<notin> set is)"
    then have "{0..<POOL} \<subseteq> set is" by auto
    then show False using card_mono [of "set is" "{0..<POOL}"] card_length [of "is"] assms(2) by simp
  qed
  then have "List.find (\<lambda>j. location (blink_array st ! j) = 0) [0..<POOL] \<noteq> None"
    unfolding find_index_None using assms(1) by (auto simp: blink_inv_def)
  then show ?thesis by blast
qed

lemma add_item:
  assumes "blink_inv st is" and "0 < location b" and "location b < 80 * 25" and "length is < POOL"
  shows "\<exists>i st'. mp1_ioctl_add b st = Some (0, st') \<and> blink_inv st' (i # is) \<and>
    items st' (i # is) = b\<lparr>status := 1, countdown := on_length b, next_blink := None\<rparr> # items st is \<and>
    vmem st' = (vmem st)(2 * uint (location b) := on_char b)"
proof -
  let ?arr = "blink_array st"
  have inv: "length ?arr = POOL" "chain ?arr (mp1_list_head st) is" "distinct is" "\<forall>i < POOL. location (?arr ! i) \<noteq> 0 \<longleftrightarrow> i \<in> set is"
    using assms(1) by (simp_all add: blink_inv_def)
  obtain i where f: "List.find (\<lambda>j. location (?arr ! j) = 0) [0..<POOL] = Some i" using free_slot [OF assms(1,4)] by blast
  then have i: "i < POOL" "location (?arr ! i) = 0" unfolding find_index_least by blast+
  then have free: "i \<notin> set is" using inv(4) by blast
  let ?b = "b\<lparr>status := 1, countdown := on_length b, next_blink := mp1_list_head st\<rparr>"
  let ?st = "mp1_poke (on_char b) (2 * uint (location b)) (st\<lparr>blink_array := ?arr[i := ?b], mp1_list_head := Some i\<rparr>)"
  have "mp1_ioctl_add b st = Some (0, ?st)"
    using assms(3) malloc_first [OF inv(1), of 0] f i(1) inv(1) by (simp add: mp1_ioctl_add_def Let_def not_le)
  moreover have "chain (?arr[i := ?b]) (mp1_list_head st) is" using chain_update [OF inv(2)] free by blast
  then have "blink_inv ?st (i # is)"
    using inv i free assms(2) by (auto simp: blink_inv_def mp1_poke_def nth_list_update)
  moreover have "items ?st (i # is) = b\<lparr>status := 1, countdown := on_length b, next_blink := None\<rparr> # items st is"
    using free i(1) inv(1) by (auto simp: items_def mp1_poke_def nth_list_update)
  ultimately show ?thesis by (auto simp: mp1_poke_def)
qed

text \<open>Removing: the first structure with the location.\<close>

definition link :: "fish \<Rightarrow> nat option \<Rightarrow> nat option" where
  "link st edx = (case edx of None \<Rightarrow> mp1_list_head st | Some j \<Rightarrow> next_blink (blink_array st ! j))"

lemma find_prev_chain:
  assumes "chain (blink_array st) (link st edx) (xs @ i # ys)" and "i \<notin> set xs" and "\<forall>j. edx = Some j \<longrightarrow> j < length (blink_array st)"
  shows "remove_find_prev st i edx = Some (if xs = [] then edx else Some (last xs))"
  using assms
proof (induction xs arbitrary: edx)
  case Nil
  then show ?case by (cases edx) (simp_all add: remove_find_prev.simps link_def)
next
  case (Cons j xs)
  then have "remove_find_prev st i edx = remove_find_prev st i (Some j)"
    by (cases edx) (subst remove_find_prev.simps, simp add: link_def)+
  moreover have "remove_find_prev st i (Some j) = Some (if xs = [] then Some j else Some (last xs))"
    by (rule Cons.IH) (use Cons.prems in \<open>auto simp: link_def\<close>)
  ultimately show ?case by simp
qed

lemma chain_unlink:
  assumes "chain arr h (xs @ i # ys)" and "distinct (xs @ i # ys)" and "xs \<noteq> []"
  shows "chain (arr[last xs := (arr ! last xs)\<lparr>next_blink := next_blink (arr ! i)\<rparr>]) h (xs @ ys)"
  using assms
proof (induction xs arbitrary: h)
  case (Cons j xs)
  let ?b = "(arr ! last (j # xs))\<lparr>next_blink := next_blink (arr ! i)\<rparr>"
  have j: "h = Some j" "j < length arr" "chain arr (next_blink (arr ! j)) (xs @ i # ys)" using Cons.prems(1) by simp_all
  show ?case
  proof (cases "xs = []")
    case True
    then have "chain arr (next_blink (arr ! i)) ys" "j \<notin> set ys" using j Cons.prems(2) by simp_all
    then show ?thesis using True j chain_update by (simp add: chain_update)
  next
    case False
    then have "chain (arr[last xs := ?b]) (next_blink (arr ! j)) (xs @ ys)" "last xs \<noteq> j" using Cons.IH [OF j(3)] Cons.prems(2) by auto
    then show ?thesis using False j by simp
  qed
qed simp

lemma remove_item:
  assumes "blink_inv st (xs @ i # ys)" and "location (blink_array st ! i) = ax" and "\<forall>j \<in> set xs. location (blink_array st ! j) \<noteq> ax"
  shows "\<exists>st'. mp1_ioctl_remove ax st = Some (0, st') \<and> blink_inv st' (xs @ ys) \<and> items st' (xs @ ys) = items st xs @ items st ys \<and> vmem st' = vmem st"
proof -
  let ?arr = "blink_array st"
  have inv: "length ?arr = POOL" "chain ?arr (mp1_list_head st) (xs @ i # ys)" "distinct (xs @ i # ys)"
    "\<forall>j < POOL. location (?arr ! j) \<noteq> 0 \<longleftrightarrow> j \<in> set (xs @ i # ys)"
    using assms(1) by (simp_all add: blink_inv_def)
  have i: "i < POOL" and xs: "\<forall>j \<in> set xs. j < POOL" using chain_bound [OF inv(2)] inv(1) by auto
  have "List.find (\<lambda>j. location (?arr ! j) = ax) (xs @ i # ys) = Some i" using assms(2,3) by (induction xs) auto
  then have f: "mp1_find_helper ?arr (mp1_list_head st) ax = Some (Some i)" using find_helper_chain [OF inv(2)] by simp
  have p: "remove_find_prev st i None = Some (if xs = [] then None else Some (last xs))"
    by (rule find_prev_chain [where ys = ys]) (use inv(2,3) in \<open>auto simp: link_def\<close>)
  define arr1 where "arr1 = (if xs = [] then ?arr else ?arr[last xs := (?arr ! last xs)\<lparr>next_blink := next_blink (?arr ! i)\<rparr>])"
  define h where "h = (if xs = [] then next_blink (?arr ! i) else mp1_list_head st)"
  define st' where "st' = st\<lparr>blink_array := arr1[i := zero_blink], mp1_list_head := h\<rparr>"
  have run: "mp1_ioctl_remove ax st = Some (0, st')"
    using f p i inv(1) xs by (auto simp: mp1_ioctl_remove_def mp1_free_def st'_def arr1_def h_def)
  have "chain arr1 h (xs @ ys)" using inv(2,3) chain_unlink [OF inv(2,3)] by (auto simp: arr1_def h_def)
  then have "chain (blink_array st') (mp1_list_head st') (xs @ ys)"
    using chain_update [of arr1 h "xs @ ys" i] inv(3) by (simp add: st'_def)
  moreover have same: "blink_array st' ! j = (if j = i then zero_blink else if xs \<noteq> [] \<and> j = last xs
      then (?arr ! j)\<lparr>next_blink := next_blink (?arr ! i)\<rparr> else ?arr ! j)" if "j < POOL" for j
    using that i inv(1) by (auto simp: st'_def arr1_def nth_list_update)
  then have "location (blink_array st' ! j) = (if j = i then 0 else location (?arr ! j))" if "j < POOL" for j
    using that by (simp add: zero_blink_def)
  moreover have "length (blink_array st') = POOL" using inv(1) by (simp add: st'_def arr1_def)
  ultimately have "blink_inv st' (xs @ ys)" using inv(3,4) by (auto simp: blink_inv_def)
  moreover have "items st' (xs @ ys) = items st xs @ items st ys"
    using same chain_bound [OF inv(2)] inv(1,3) by (auto simp: items_def)
  ultimately show ?thesis using run by (auto simp: st'_def)
qed

text \<open>The clock tick.\<close>

lemma tick_keeps [simp]: "location (fst (tick b)) = location b" "next_blink (fst (tick b)) = next_blink b"
  "fst (tick (b\<lparr>next_blink := p\<rparr>)) = (fst (tick b))\<lparr>next_blink := p\<rparr>" "snd (tick (b\<lparr>next_blink := p\<rparr>)) = snd (tick b)"
  by (simp_all add: tick_def Let_def)

definition tick_screen :: "blink \<Rightarrow> cells \<Rightarrow> cells" where
  "tick_screen b m = (case snd (tick b) of None \<Rightarrow> m | Some c \<Rightarrow> m(2 * uint (location b) := c))"

lemma tasklet_chain:
  assumes "chain (blink_array st) h is" and "distinct is"
  shows "\<exists>st'. tasklet_loop h st = Some st' \<and> length (blink_array st') = length (blink_array st) \<and> mp1_list_head st' = mp1_list_head st \<and>
    (\<forall>j < length (blink_array st). blink_array st' ! j = (if j \<in> set is then fst (tick (blink_array st ! j)) else blink_array st ! j)) \<and>
    vmem st' = fold tick_screen (map ((!) (blink_array st)) is) (vmem st)"
  using assms
proof (induction "is" arbitrary: h st)
  case Nil
  then show ?case by (simp add: tasklet_loop.simps)
next
  case (Cons i "is")
  let ?arr = "blink_array st"
  have i: "h = Some i" "i < length ?arr" "chain ?arr (next_blink (?arr ! i)) is" "i \<notin> set is" "distinct is" using Cons.prems by simp_all
  let ?st = "st\<lparr>blink_array := ?arr[i := fst (tick (?arr ! i))], vmem := tick_screen (?arr ! i) (vmem st)\<rparr>"
  have step: "tasklet_loop h st = tasklet_loop (next_blink (?arr ! i)) ?st"
    using i(1,2) by (subst tasklet_loop.simps) (auto simp: tick_screen_def mp1_poke_def split: prod.split option.split)
  have "chain (blink_array ?st) (next_blink (?arr ! i)) is" using chain_update [OF i(3)] by simp
  from Cons.IH [OF this i(5)] obtain st' where st': "tasklet_loop (next_blink (?arr ! i)) ?st = Some st'" "length (blink_array st') = length ?arr"
    "mp1_list_head st' = mp1_list_head st"
    "\<forall>j < length ?arr. blink_array st' ! j = (if j \<in> set is then fst (tick (blink_array ?st ! j)) else blink_array ?st ! j)"
    "vmem st' = fold tick_screen (map ((!) (blink_array ?st)) is) (tick_screen (?arr ! i) (vmem st))"
    by auto
  have m: "map ((!) (?arr[i := fst (tick (?arr ! i))])) is = map ((!) ?arr) is" using i(4) by (auto intro!: nth_list_update_neq)
  show ?case using step st' i(2,4) by (auto simp: nth_list_update m)
qed

lemma tasklet_items:
  assumes "blink_inv st is"
  shows "\<exists>st'. mp1_rtc_tasklet st = Some st' \<and> blink_inv st' is \<and> items st' is = map (\<lambda>b. fst (tick b)) (items st is) \<and>
    vmem st' = fold tick_screen (items st is) (vmem st)"
proof -
  let ?arr = "blink_array st"
  have inv: "length ?arr = POOL" "chain ?arr (mp1_list_head st) is" "distinct is" "\<forall>i < POOL. location (?arr ! i) \<noteq> 0 \<longleftrightarrow> i \<in> set is"
    using assms by (simp_all add: blink_inv_def)
  obtain st' where st': "tasklet_loop (mp1_list_head st) st = Some st'" "length (blink_array st') = POOL" "mp1_list_head st' = mp1_list_head st"
    "\<forall>j < POOL. blink_array st' ! j = (if j \<in> set is then fst (tick (?arr ! j)) else ?arr ! j)"
    "vmem st' = fold tick_screen (map ((!) ?arr) is) (vmem st)"
    using tasklet_chain [OF inv(2,3)] inv(1) by auto
  have "chain (blink_array st') h js" if "chain ?arr h js" for h js
    using that st'(2,4) inv(1) by (induction js arbitrary: h) auto
  then have "blink_inv st' is" using inv st' by (auto simp: blink_inv_def)
  moreover have "items st' is = map (\<lambda>b. fst (tick b)) (items st is)"
    using st'(4) chain_bound [OF inv(2)] inv(1) by (auto simp: items_def)
  moreover have "tick_screen (b\<lparr>next_blink := p\<rparr>) = tick_screen b" for b p by (intro ext) (simp add: tick_screen_def split: option.split)
  then have "fold tick_screen (items st is) m = fold tick_screen (map ((!) ?arr) is) m" for m
    by (induction "is" arbitrary: m) (simp_all add: items_def)
  ultimately show ?thesis using st'(1,5) by (simp add: mp1_rtc_tasklet_def)
qed

section \<open>A structure at location 0\<close>

lemma cycle_never_ends:
  assumes "next_blink (blink_array st ! i) = Some i" and "i < length (blink_array st)"
  shows "tasklet_loop (Some i) st = None"
proof (rule ccontr)
  assume "tasklet_loop (Some i) st \<noteq> None"
  then obtain y where y: "tasklet_loop (Some i) st = Some y" by blast
  have "h = Some i \<and> next_blink (blink_array st ! i) = Some i \<and> i < length (blink_array st) \<longrightarrow> False" if "tasklet_loop h st = Some y" for h st
  proof (rule tasklet_loop.raw_induct [OF _ that])
    fix tasklet h st y
    assume IH: "\<And>h st y. tasklet h st = Some y \<Longrightarrow>
        h = Some i \<and> next_blink (blink_array st ! i) = Some i \<and> i < length (blink_array st) \<longrightarrow> False"
      and body: "(case h of None \<Rightarrow> Some st
        | Some i \<Rightarrow> aget (blink_array st) i \<bind>
           (\<lambda>b. let (b', poke) = tick b; st = st\<lparr>blink_array := (blink_array st)[i := b']\<rparr>;
              st = case poke of None \<Rightarrow> st | Some cl \<Rightarrow> mp1_poke cl (2 * uint (location b)) st
             in tasklet (next_blink b) st)) = Some y"
    show "h = Some i \<and> next_blink (blink_array st ! i) = Some i \<and> i < length (blink_array st) \<longrightarrow> False"
    proof
      assume h: "h = Some i \<and> next_blink (blink_array st ! i) = Some i \<and> i < length (blink_array st)"
      let ?b = "blink_array st ! i"
      let ?st = "st\<lparr>blink_array := (blink_array st)[i := fst (tick ?b)]\<rparr>"
      let ?st' = "case snd (tick ?b) of None \<Rightarrow> ?st | Some cl \<Rightarrow> mp1_poke cl (2 * uint (location ?b)) ?st"
      have "tasklet (Some i) ?st' = Some y" using body h by (simp add: case_prod_beta Let_def)
      moreover have "next_blink (blink_array ?st' ! i) = Some i \<and> i < length (blink_array ?st')"
        using h by (simp add: mp1_poke_def split: option.split)
      ultimately show False using IH by blast
    qed
  qed
  then show False using y assms by blast
qed

section \<open>Properties\<close>

text \<open>C24: The list of blinking characters.  The pool and its links implement a sequence of structures: adding one
  with a location on the screen other than 0 puts it in front, switched on, and shows it, and fails only when the pool is full or the location is
  not on the screen; removing takes out the first structure with the location, or fails and changes
  nothing; a clock tick counts every structure down and shows the other character of those whose time is over.\<close>

theorem blink_list_refines:
  assumes "blink_inv st is"
  shows "(0 < location b \<and> location b < 80 * 25 \<and> length is < POOL \<longrightarrow>
      (\<exists>i st'. mp1_ioctl_add b st = Some (0, st') \<and> blink_inv st' (i # is) \<and>
        items st' (i # is) = b\<lparr>status := 1, countdown := on_length b, next_blink := None\<rparr> # items st is \<and>
        vmem st' = (vmem st)(2 * uint (location b) := on_char b))) \<and>
    (80 * 25 \<le> location b \<or> length is = POOL \<longrightarrow> mp1_ioctl_add b st = Some (-1, st)) \<and>
    (ax \<in> location ` set (items st is) \<longrightarrow>
      (\<exists>is' st'. mp1_ioctl_remove ax st = Some (0, st') \<and> blink_inv st' is' \<and> vmem st' = vmem st \<and>
        items st' is' = takeWhile (\<lambda>b. location b \<noteq> ax) (items st is) @ tl (dropWhile (\<lambda>b. location b \<noteq> ax) (items st is)))) \<and>
    (ax \<notin> location ` set (items st is) \<longrightarrow> mp1_ioctl_remove ax st = Some (-1, st)) \<and>
    (\<exists>st'. mp1_rtc_tasklet st = Some st' \<and> blink_inv st' is \<and> items st' is = map (\<lambda>b. fst (tick b)) (items st is) \<and>
      vmem st' = fold tick_screen (items st is) (vmem st))"
proof (intro conjI impI)
  let ?arr = "blink_array st"
  have inv: "length ?arr = POOL" "chain ?arr (mp1_list_head st) is" "distinct is" "\<forall>i < POOL. location (?arr ! i) \<noteq> 0 \<longleftrightarrow> i \<in> set is"
    using assms by (simp_all add: blink_inv_def)
  have loc: "location ` set (items st is) = (\<lambda>i. location (?arr ! i)) ` set is" by (simp add: items_def image_image)
  show "\<exists>i st'. mp1_ioctl_add b st = Some (0, st') \<and> blink_inv st' (i # is) \<and>
        items st' (i # is) = b\<lparr>status := 1, countdown := on_length b, next_blink := None\<rparr> # items st is \<and>
        vmem st' = (vmem st)(2 * uint (location b) := on_char b)"
    if "0 < location b \<and> location b < 80 * 25 \<and> length is < POOL"
    using add_item [OF assms] that by blast
  show "mp1_ioctl_add b st = Some (-1, st)" if full: "80 * 25 \<le> location b \<or> length is = POOL"
  proof (cases "80 * 25 \<le> location b")
    case False
    then have "card (set is) = card {0..<POOL}" using full distinct_card [OF inv(3)] by simp
    then have "set is = {0..<POOL}" using chain_bound [OF inv(2)] inv(1) by (intro card_subset_eq) auto
    then have "List.find (\<lambda>j. location (?arr ! j) = 0) [0..<POOL] = None" unfolding find_index_None using inv(4) by auto
    then show ?thesis using malloc_first [OF inv(1), of 0] by (simp add: mp1_ioctl_add_def)
  qed (simp add: mp1_ioctl_add_def)
  show "\<exists>is' st'. mp1_ioctl_remove ax st = Some (0, st') \<and> blink_inv st' is' \<and> vmem st' = vmem st \<and>
        items st' is' = takeWhile (\<lambda>b. location b \<noteq> ax) (items st is) @ tl (dropWhile (\<lambda>b. location b \<noteq> ax) (items st is))"
    if "ax \<in> location ` set (items st is)"
  proof -
    from that have "\<exists>x \<in> set is. location (?arr ! x) = ax" unfolding loc by auto
    then obtain xs i ys where s: "is = xs @ i # ys" "location (?arr ! i) = ax" "\<forall>j \<in> set xs. location (?arr ! j) \<noteq> ax"
      by (rule split_list_first_propE)
    have "takeWhile (\<lambda>b. location b \<noteq> ax) (items st is) = items st xs" "tl (dropWhile (\<lambda>b. location b \<noteq> ax) (items st is)) = items st ys"
      using s by (auto simp: items_def takeWhile_append dropWhile_append)
    then show ?thesis using remove_item [of st xs i ys ax] s assms by auto
  qed
  show "mp1_ioctl_remove ax st = Some (-1, st)" if "ax \<notin> location ` set (items st is)"
  proof -
    have "List.find (\<lambda>i. location (?arr ! i) = ax) is = None" using that unfolding loc by (auto simp: find_None_iff)
    then show ?thesis using find_helper_chain [OF inv(2)] by (simp add: mp1_ioctl_remove_def)
  qed
  show "\<exists>st'. mp1_rtc_tasklet st = Some st' \<and> blink_inv st' is \<and> items st' is = map (\<lambda>b. fst (tick b)) (items st is) \<and>
      vmem st' = fold tick_screen (items st is) (vmem st)"
    by (rule tasklet_items [OF assms])
qed

definition fish_example :: fish where
  "fish_example = \<lparr>blink_array = replicate POOL zero_blink, mp1_list_head = None, vmem = (\<lambda>_. 0)\<rparr>"

lemma fish_example_inv [simp]: "blink_inv fish_example []"
  by (simp add: blink_inv_def fish_example_def zero_blink_def)

theorem blink_list_refines_witness:
  "\<exists>st'. mp1_rtc_tasklet fish_example = Some st' \<and> blink_inv st' [] \<and> items st' [] = map (\<lambda>b. fst (tick b)) (items fish_example []) \<and>
      vmem st' = fold tick_screen (items fish_example []) (vmem fish_example)"
  using blink_list_refines [OF fish_example_inv, of zero_blink 0] by blast

text \<open>C25: A character in the upper left corner.  A structure with location 0 still counts as free: the next one that is added takes its place
  and points to itself, and the following clock tick never returns.\<close>

theorem blink_corner_hangs:
  assumes "blink_inv st is" and "length is < POOL" and "location b = 0" and "location c < 80 * 25"
  shows "\<exists>st1 st2. mp1_ioctl_add b st = Some (0, st1) \<and> mp1_ioctl_add c st1 = Some (0, st2) \<and> mp1_rtc_tasklet st2 = None"
proof -
  let ?arr = "blink_array st"
  have inv: "length ?arr = POOL" "chain ?arr (mp1_list_head st) is" "distinct is" "\<forall>i < POOL. location (?arr ! i) \<noteq> 0 \<longleftrightarrow> i \<in> set is"
    using assms(1) by (simp_all add: blink_inv_def)
  obtain i where f: "List.find (\<lambda>j. location (?arr ! j) = 0) [0..<POOL] = Some i" using free_slot [OF assms(1,2)] by blast
  then have i: "i < POOL" "\<forall>j < i. location (?arr ! j) \<noteq> 0" unfolding find_index_least by auto
  let ?b = "b\<lparr>status := 1, countdown := on_length b, next_blink := mp1_list_head st\<rparr>"
  let ?c = "c\<lparr>status := 1, countdown := on_length c, next_blink := Some i\<rparr>"
  let ?st1 = "mp1_poke (on_char b) 0 (st\<lparr>blink_array := ?arr[i := ?b], mp1_list_head := Some i\<rparr>)"
  let ?st2 = "mp1_poke (on_char c) (2 * uint (location c)) (?st1\<lparr>blink_array := ?arr[i := ?c], mp1_list_head := Some i\<rparr>)"
  have 1: "mp1_ioctl_add b st = Some (0, ?st1)"
    using assms(3) malloc_first [OF inv(1), of 0] f i(1) inv(1) by (simp add: mp1_ioctl_add_def Let_def)
  have "List.find (\<lambda>j. location (?arr[i := ?b] ! j) = 0) [0..<POOL] = Some i"
    unfolding find_index_least using i inv(1) assms(3) by auto
  then have 2: "mp1_ioctl_add c ?st1 = Some (0, ?st2)"
    using assms(4) malloc_first [of "?arr[i := ?b]" 0] i(1) inv(1) by (simp add: mp1_ioctl_add_def Let_def mp1_poke_def not_le)
  have "tasklet_loop (Some i) ?st2 = None" by (rule cycle_never_ends) (use i(1) inv(1) in \<open>simp_all add: mp1_poke_def\<close>)
  then show ?thesis using 1 2 by (auto simp: mp1_rtc_tasklet_def mp1_poke_def)
qed

theorem blink_corner_hangs_witness:
  "\<exists>st1 st2. mp1_ioctl_add zero_blink fish_example = Some (0, st1) \<and>
    mp1_ioctl_add (zero_blink\<lparr>location := 540\<rparr>) st1 = Some (0, st2) \<and> mp1_rtc_tasklet st2 = None"
  by (rule blink_corner_hangs [OF fish_example_inv]) (simp_all add: POOL_def zero_blink_def)

end
