(* ===== verification/Clock.thy ===== *)
theory Clock
  imports Programs
begin

text \<open>
  The programs that run at the pace of the real-time clock: \<^verbatim>\<open>test_rtc\<close> of \<^verbatim>\<open>student-distrib/rtc.c\<close> and
  \<^verbatim>\<open>syscalls/ece391pingpong.c\<close>.

  A read of the clock waits for the interrupt of the clock; the system call gate is a trap gate, so the interrupt is accepted
  while the program waits.  Both programs loop for ever: a definition with a parameter \<open>n\<close> is the state after \<open>n\<close> turns of the loop.
  The variable \<^verbatim>\<open>garbage\<close> that is read into is never used.
\<close>

section \<open>Waiting for the clock\<close>

definition rtc_wait :: "dentry \<Rightarrow> int \<Rightarrow> byte list \<Rightarrow> 'a kernel_scheme \<Rightarrow> 'a kernel_scheme option" where
  "rtc_wait d fd garbage s = do {
     (_, _, s) \<leftarrow> ece391_read d fd garbage 4 (rtc_handler s);
     Some s
   }"

section \<open>\<^verbatim>\<open>test_rtc\<close>\<close>

definition test_rtc_start :: "'a kernel_scheme \<Rightarrow> 'a kernel_scheme option" where
  "test_rtc_start s = do {
     let s = cli s;
     (_, s) \<leftarrow> rtc_open s;
     (_, s) \<leftarrow> rtc_write (Some [0, 0, 0, 0]) 4 s;
     Some (sti s)
   }"

definition test_rtc_turn :: "'a kernel_scheme \<Rightarrow> 'a kernel_scheme option" where
  "test_rtc_turn s = do {
     (_, s) \<leftarrow> rtc_read (rtc_handler s);
     (_, s) \<leftarrow> sys_write 1 (Some (lit ''l'')) 1 s;
     Some s
   }"

primrec test_rtc_loop :: "nat \<Rightarrow> 'a kernel_scheme \<Rightarrow> 'a kernel_scheme option" where
  "test_rtc_loop 0 s = Some s"
| "test_rtc_loop (Suc n) s = do { s \<leftarrow> test_rtc_turn s; test_rtc_loop n s }"

definition test_rtc :: "nat \<Rightarrow> 'a kernel_scheme \<Rightarrow> 'a kernel_scheme option" where
  "test_rtc n s = do { s \<leftarrow> test_rtc_start s; test_rtc_loop n s }"

section \<open>\<^verbatim>\<open>pingpong\<close>\<close>

definition SCREENWIDTH :: nat where "SCREENWIDTH = 79"
definition ENDING :: nat where "ENDING = 2"
definition BUFMAX :: nat where "BUFMAX = SCREENWIDTH + ENDING"
definition START :: nat where "START = 1"
definition STARTLOOP :: nat where "STARTLOOP = START + 1"
definition LOOPMAX :: nat where "LOOPMAX = SCREENWIDTH + ENDING - ENDING - 1"
definition STARTCHAR :: byte where "STARTCHAR = 65"
definition ENDCHAR :: byte where "ENDCHAR = 90"

lemma pingpong_consts: "BUFMAX = 81" "START = 1" "STARTLOOP = 2" "LOOPMAX = 78"
  by (simp_all add: BUFMAX_def SCREENWIDTH_def ENDING_def STARTLOOP_def START_def LOOPMAX_def)

definition pingpong_walls :: "byte list \<Rightarrow> byte list option" where
  "pingpong_walls buf = do {
     let buf = fill_for 0 BUFMAX (\<lambda>i. SPC) buf;
     buf \<leftarrow> aset buf (BUFMAX - 1) 0;
     buf \<leftarrow> aset buf (BUFMAX - 2) NL;
     buf \<leftarrow> aset buf (BUFMAX - 3) 124;
     aset buf START 124
   }"

text \<open>The body of both loops.\<close>

definition pingpong_frame :: "dentry \<Rightarrow> int \<Rightarrow> byte list \<Rightarrow> byte \<Rightarrow> nat \<Rightarrow> byte list \<Rightarrow> 'a kernel_scheme
    \<Rightarrow> (byte list \<times> 'a kernel_scheme) option" where
  "pingpong_frame d rtc_fd garbage curchar j buf s = do {
     let buf = fill_for STARTLOOP LOOPMAX (\<lambda>i. SPC) buf;
     buf \<leftarrow> aset buf j curchar;
     s \<leftarrow> ece391_fdputs 1 buf s;
     s \<leftarrow> rtc_wait d rtc_fd garbage s;
     Some (buf, s)
   }"

function move_out :: "dentry \<Rightarrow> int \<Rightarrow> byte list \<Rightarrow> byte \<Rightarrow> nat \<Rightarrow> byte list \<Rightarrow> 'a kernel_scheme \<Rightarrow> (byte list \<times> 'a kernel_scheme) option" where
  "move_out d rtc_fd garbage curchar j buf s =
     (if j < LOOPMAX then do {
        (buf, s) \<leftarrow> pingpong_frame d rtc_fd garbage curchar j buf s;
        move_out d rtc_fd garbage curchar (j + 1) buf s
      } else Some (buf, s))"
  by pat_completeness auto
termination
  by (relation "measure (\<lambda>(d, rtc_fd, garbage, curchar, j, buf, s). LOOPMAX - j)") auto

function bounce_back :: "dentry \<Rightarrow> int \<Rightarrow> byte list \<Rightarrow> byte \<Rightarrow> nat \<Rightarrow> byte list \<Rightarrow> 'a kernel_scheme \<Rightarrow> (byte list \<times> 'a kernel_scheme) option" where
  "bounce_back d rtc_fd garbage curchar j buf s =
     (if j \<ge> STARTLOOP then do {
        (buf, s) \<leftarrow> pingpong_frame d rtc_fd garbage curchar j buf s;
        bounce_back d rtc_fd garbage curchar (j - 1) buf s
      } else Some (buf, s))"
  by pat_completeness auto
termination
  by (relation "measure (\<lambda>(d, rtc_fd, garbage, curchar, j, buf, s). j)") (auto simp: pingpong_consts)

declare move_out.simps [simp del] bounce_back.simps [simp del]

definition pingpong_turn :: "dentry \<Rightarrow> int \<Rightarrow> byte list \<Rightarrow> byte \<Rightarrow> byte list \<Rightarrow> 'a kernel_scheme \<Rightarrow> (byte \<times> byte list \<times> 'a kernel_scheme) option" where
  "pingpong_turn d rtc_fd garbage curchar buf s = do {
     (buf, s) \<leftarrow> move_out d rtc_fd garbage curchar STARTLOOP buf s;
     (buf, s) \<leftarrow> bounce_back d rtc_fd garbage curchar (LOOPMAX - 1) buf s;
     Some (if curchar = ENDCHAR then STARTCHAR else curchar + 1, buf, s)
   }"

primrec pingpong_loop :: "dentry \<Rightarrow> int \<Rightarrow> byte list \<Rightarrow> nat \<Rightarrow> byte \<Rightarrow> byte list \<Rightarrow> 'a kernel_scheme \<Rightarrow> (byte \<times> byte list \<times> 'a kernel_scheme) option" where
  "pingpong_loop d rtc_fd garbage 0 curchar buf s = Some (curchar, buf, s)"
| "pingpong_loop d rtc_fd garbage (Suc n) curchar buf s = do {
     (curchar, buf, s) \<leftarrow> pingpong_turn d rtc_fd garbage curchar buf s;
     pingpong_loop d rtc_fd garbage n curchar buf s
   }"

definition pingpong_main :: "dentry \<Rightarrow> byte list \<Rightarrow> byte list \<Rightarrow> nat \<Rightarrow> 'a kernel_scheme \<Rightarrow> (byte \<times> byte list \<times> 'a kernel_scheme) option" where
  "pingpong_main d garbage buf n s = do {
     buf \<leftarrow> pingpong_walls buf;
     (rtc_fd, s) \<leftarrow> sys_open d (cstr ''rtc'') s;
     (_, s) \<leftarrow> sys_write rtc_fd (Some [32, 0, 0, 0]) 4 s;
     pingpong_loop d rtc_fd garbage n STARTCHAR buf s
   }"

section \<open>The clock as a file\<close>

definition names_rtc :: "dentry \<Rightarrow> 'a files_scheme \<Rightarrow> bool" where
  "names_rtc e s \<longleftrightarrow> dentries_wf s \<and> List.find (\<lambda>d. chars (file_name d) = lit ''rtc'') (dentries s) = Some e \<and> file_type e = RTCTYPE"

definition opened_rtc :: "nat \<Rightarrow> pcb \<Rightarrow> pcb" where
  "opened_rtc i b = b\<lparr>FDs_array := (FDs_array b)[i := (FDs_array b ! i)\<lparr>fd_flags := RTCFLAG, fd_position := 0\<rparr>]\<rparr>"

lemma open_loop_rtc:
  assumes "procs_ok s" and "file_type e = RTCTYPE"
  shows "open_loop fname e i s = (case List.find (\<lambda>j. fd_flags (FDs_array (cur_pcb s) ! j) = NOT_SET) [i..<MAX_FILE] of
     None \<Rightarrow> Some (-1, s)
   | Some j \<Rightarrow> Some (int j, set_cur_pcb (opened_rtc j (cur_pcb s)) s))"
proof (induction "MAX_FILE - i" arbitrary: i)
  case 0
  then show ?case by (simp add: open_loop.simps [of fname e i] MAX_FILE_def)
next
  case (Suc n)
  note cur = procs_ok_cur [OF assms(1)]
  have i: "i < MAX_FILE" "i < 8" "i < length (FDs_array (cur_pcb s))" using Suc.hyps(2) cur(2) by (simp_all add: MAX_FILE_def pcb_ok_def)
  show ?case
    using i Suc.hyps(1) [of "Suc i"] Suc.hyps(2) cur(1,6) assms(2)
    by (auto simp: open_loop.simps [of fname e i] upt_conv_Cons upd_fd_def opened_rtc_def)
qed

lemma open_rtc:
  assumes "user_ok s" and "names_rtc e s" and "\<not> {2..<MAX_FILE} \<subseteq> fd_used s" and "length (file_name d) = 33"
  obtains i where "2 \<le> i" and "i < MAX_FILE" and "sys_open d (cstr ''rtc'') s = Some (int i, set_cur_pcb (opened_rtc i (cur_pcb s)) s)"
    and "std_kept (cur_pcb s) (opened_rtc i (cur_pcb s))" and "i \<notin> fd_used s"
proof -
  have ok: "procs_ok s" "pcb_ok (cur_pcb s)" using assms(1) procs_ok_cur(2) by (auto simp: user_ok_def calls_ok_def)
  have "List.find (\<lambda>j. fd_flags (FDs_array (cur_pcb s) ! j) = NOT_SET) [2..<MAX_FILE] \<noteq> None"
    unfolding find_index_None using assms(3) by (auto simp: fd_used_def)
  then obtain i where f: "List.find (\<lambda>j. fd_flags (FDs_array (cur_pcb s) ! j) = NOT_SET) [2..<MAX_FILE] = Some i" by blast
  then have i: "2 \<le> i" "i < MAX_FILE" unfolding find_index_least by blast+
  have n: "dentries_wf s" "List.find (\<lambda>d. chars (file_name d) = lit ''rtc'') (dentries s) = Some e" "file_type e = RTCTYPE"
    using assms(2) by (simp_all add: names_rtc_def)
  have c: "chars (cstr ''rtc'') = lit ''rtc''" "lit ''rtc'' \<noteq> []" by (simp_all add: cstr_chars)
  have "sys_open d (cstr ''rtc'') s = Some (int i, set_cur_pcb (opened_rtc i (cur_pcb s)) s)"
    using sys_open_named [OF cstr_nul, of "''rtc''" d s] read_dentry_by_name_eq [OF n(1) cstr_nul assms(4), of "''rtc''"] n(2,3) f
      open_loop_rtc [OF ok(1), of "d\<lparr>file_name := chars (cstr ''rtc'') @ 0 # replicate (32 - length (chars (cstr ''rtc''))) SPC,
        file_type := file_type e, inode := inode e\<rparr>" "cstr ''rtc''" 2]
    by (simp only: c) simp
  moreover have "std_kept (cur_pcb s) (opened_rtc i (cur_pcb s))"
    using ok(2) i by (auto simp: std_kept_def opened_rtc_def pcb_ok_def MAX_FILE_def flag_defs dest!: set_update_subset_insert [THEN subsetD])
  ultimately show thesis using that i f unfolding find_index_least fd_used_def by blast
qed

section \<open>One tick\<close>

text \<open>The state after a wait: only the log of port events, the interrupt flag and the variable \<^verbatim>\<open>rtc_interrupt\<close> differ.\<close>

definition hw_set :: "io_event list \<Rightarrow> bool \<Rightarrow> int \<Rightarrow> 'a kernel_scheme \<Rightarrow> 'a kernel_scheme" where
  "hw_set io i r s = s\<lparr>io_log := io, int_flag := i, rtc_interrupt := r\<rparr>"

lemma hw_set_screen [simp]:
  "exec_screen_ok (hw_set io i r s) = exec_screen_ok s" "out_view (hw_set io i r s) = out_view s" "cur_pcb (hw_set io i r s) = cur_pcb s"
  by (simp_all add: hw_set_def exec_screen_ok_def displayed_def visible_ok_def saved_ok_def exec_ok_def get_curr_exec_term_def
      get_cur_term_def out_view_def exec_screen_def visible_def saved_def cur_pcb_def Let_def)

lemma hw_set_files [simp]:
  "dentries_wf (hw_set io i r s) = dentries_wf s" "dentries (hw_set io i r s) = dentries s" "num_inodes (hw_set io i r s) = num_inodes s"
  "file_content (hw_set io i r s) k = file_content s k" "fs_wf (hw_set io i r s) = fs_wf s" "rtc_lock (hw_set io i r s) = rtc_lock s"
proof -
  show "file_content (hw_set io i r s) k = file_content s k" "fs_wf (hw_set io i r s) = fs_wf s" by (rule files_only; simp add: hw_set_def)+
qed (simp_all add: hw_set_def dentries_wf_def dentries_def)

lemma hw_set_calls [simp]:
  "procs_ok (hw_set io i r s) = procs_ok s" "calls_ok (hw_set io i r s) = calls_ok s" "user_ok (hw_set io i r s) = user_ok s"
  "names_entry fname e (hw_set io i r s) = names_entry fname e s" "open_at k e (hw_set io i r s) = open_at k e s"
  "fd_used (hw_set io i r s) = fd_used s"
proof -
  show p: "procs_ok (hw_set io i r s) = procs_ok s" "calls_ok (hw_set io i r s) = calls_ok s" by (simp_all add: hw_set_def procs_ok_def calls_ok_def)
  show "user_ok (hw_set io i r s) = user_ok s" by (simp add: user_ok_def p)
qed (simp_all add: names_entry_def open_at_def fd_used_def)

definition ticked :: "'a kernel_scheme \<Rightarrow> 'a kernel_scheme" where
  "ticked s = hw_set (io_log (rtc_handler s)) True 0 s"

lemma handler_state:
  assumes "rtc_lock s = 0"
  shows "rtc_handler s = hw_set (io_log (rtc_handler s)) True 1 s"
  using assms by (cases s) (simp add: rtc_handler_def hw_set_def irq_unfold outb_def inb_def cli_def sti_def Let_def)

lemma rtc_read_ready: "rtc_lock s = 0 \<Longrightarrow> rtc_read (rtc_handler s) = Some (0, ticked s)"
  by (subst handler_state) (simp_all add: rtc_read_def ticked_def hw_set_def)

definition clock_at :: "nat \<Rightarrow> 'a kernel_scheme \<Rightarrow> bool" where
  "clock_at i s \<longleftrightarrow> user_ok s \<and> i < MAX_FILE \<and> fd_flags (FDs_array (cur_pcb s) ! i) = RTCFLAG \<and> rtc_lock s = 0"

lemma ticked_simps [simp]:
  "clock_at i (ticked s) = clock_at i s" "user_ok (ticked s) = user_ok s" "out_view (ticked s) = out_view s" "rtc_lock (ticked s) = rtc_lock s"
  by (simp_all add: ticked_def clock_at_def)

lemma wait_ticks:
  assumes "clock_at i s"
  shows "rtc_wait d (int i) garbage s = Some (ticked s)"
proof -
  have "std_fops ! RTCFLAG = Some (Rtc_read, Rtc_write)" by (simp add: std_fops_def RTCFLAG_def)
  moreover have "calls_ok (rtc_handler s)" "cur_pcb (rtc_handler s) = cur_pcb s"
    using assms by (subst handler_state; simp add: clock_at_def user_ok_def)+
  ultimately have "sys_read d (int i) (Some garbage) 4 (rtc_handler s) = Some (0, Some garbage, ticked s)"
    using calls_ok_dispatch(1) [of "rtc_handler s" "int i" 4 d garbage] assms rtc_read_ready [of s] by (simp add: clock_at_def call_read_def)
  then show ?thesis by (simp add: rtc_wait_def ece391_read_def)
qed

lemma rest_lock: "rest s' = rest s \<Longrightarrow> rtc_lock s' = rtc_lock s" for s s' :: "'a kernel_scheme"
  by (rule rest_keeps) (simp_all add: rest_def but_exec_screen_def but_visible_def but_saved_def Let_def)

lemma clock_at_rest: "\<lbrakk>clock_at i s; rest s' = rest s; user_ok s'\<rbrakk> \<Longrightarrow> clock_at i s'" for s s' :: "'a kernel_scheme"
  using rest_fields(5) [of s' s] rest_lock [of s' s] by (simp add: clock_at_def)

lemma set_rate_state: "set_rate f s = (4, hw_set (io_log (snd (set_rate f s))) (int_flag s) (rtc_interrupt s) s)"
  by (cases s) (auto simp: set_rate_def hw_set_def outb_def inb_def Let_def split: option.split)

lemma rtc_write_state:
  fixes s :: "'a kernel_scheme"
  assumes "le32 bs = Some f"
  shows "\<exists>io. rtc_write (Some bs) 4 s = Some (4, hw_set io False (rtc_interrupt s) s)"
proof -
  have "rtc_write (Some bs) 4 s = Some (set_rate (sint f) (cli s))" using assms by (simp add: rtc_write_def)
  also have "\<dots> = Some (4, hw_set (io_log (snd (set_rate (sint f) (cli s)))) False (rtc_interrupt s) s)"
    by (subst set_rate_state) (simp add: hw_set_def cli_def)
  finally show ?thesis by blast
qed

lemma write_rate:
  assumes "clock_at i s" and "le32 bs = Some f"
  shows "\<exists>io. sys_write (int i) (Some bs) 4 s = Some (4, hw_set io False (rtc_interrupt s) s)"
proof -
  have "std_fops ! RTCFLAG = Some (Rtc_read, Rtc_write)" by (simp add: std_fops_def RTCFLAG_def)
  then have "sys_write (int i) (Some bs) 4 s = rtc_write (Some bs) 4 s"
    using calls_ok_dispatch(2) [of s "int i" 4 bs] assms(1) by (simp add: clock_at_def user_ok_def call_write_def)
  then show ?thesis using rtc_write_state [OF assms(2), of s] by simp
qed

section \<open>The bouncing character\<close>

declare upt_rec_numeral [simp del]

text \<open>What is printed for one position, and for one turn there and back.\<close>

definition pp_line :: "byte \<Rightarrow> nat \<Rightarrow> byte list" where
  "pp_line c j = lit '' |'' @ replicate (j - 2) SPC @ [c] @ replicate (77 - j) SPC @ lit ''|\<newline>''"

definition pp_turn :: "byte \<Rightarrow> byte list" where
  "pp_turn c = concat (map (pp_line c) ([2..<78] @ rev [2..<78]))"

definition pp_buf :: "byte list \<Rightarrow> bool" where
  "pp_buf b \<longleftrightarrow> length b = 81 \<and> b ! 0 = SPC \<and> b ! 1 = 124 \<and> b ! 78 = 124 \<and> b ! 79 = NL \<and> b ! 80 = 0"

lemma walls_buf:
  assumes "length buf = 81"
  shows "\<exists>b. pingpong_walls buf = Some b \<and> pp_buf b"
  using assms by (simp add: pingpong_walls_def pingpong_consts pp_buf_def)

lemma frame_buf:
  assumes "pp_buf b" and "2 \<le> j" and "j < 78"
  shows "(fill_for 2 78 (\<lambda>i. SPC) b)[j := c] = pp_line c j @ [0]"
proof (rule nth_equalityI)
  show len: "length ((fill_for 2 78 (\<lambda>i. SPC) b)[j := c]) = length (pp_line c j @ [0])"
    using assms by (simp add: pp_buf_def pp_line_def)
  fix i
  assume "i < length ((fill_for 2 78 (\<lambda>i. SPC) b)[j := c])"
  then have i: "i < 81" using assms(1) by (simp add: pp_buf_def)
  then consider "i = 0" | "i = 1" | "2 \<le> i \<and> i < 78" | "i = 78" | "i = 79" | "i = 80" by linarith
  then show "(fill_for 2 78 (\<lambda>i. SPC) b)[j := c] ! i = (pp_line c j @ [0]) ! i"
    using assms by cases (auto simp: pp_buf_def pp_line_def nth_append nth_Cons' nth_list_update)
qed

lemma pp_line_buf:
  assumes "2 \<le> j" and "j < 78" and "c \<noteq> 0"
  shows "pp_buf (pp_line c j @ [0])" "chars (pp_line c j @ [0]) = pp_line c j" "0 \<in> set (pp_line c j @ [0])"
proof -
  show "pp_buf (pp_line c j @ [0])" using assms by (auto simp: pp_buf_def pp_line_def nth_append nth_Cons')
  have "0 \<notin> set (pp_line c j)" using assms(3) by (auto simp: pp_line_def)
  then show "chars (pp_line c j @ [0]) = pp_line c j" by simp
qed simp

lemma frame_prints:
  fixes s :: "'a kernel_scheme"
  assumes "clock_at k s" and "pp_buf b" and "2 \<le> j" and "j < 78" and "c \<noteq> 0"
  shows "\<exists>s'. pingpong_frame d (int k) g c j b s = Some (pp_line c j @ [0], s') \<and> clock_at k s' \<and> out_view s' = typed (pp_line c j) (out_view s)"
proof -
  note l = pp_line_buf [OF assms(3-5)]
  have b: "aset (fill_for STARTLOOP LOOPMAX (\<lambda>i. SPC) b) j c = Some (pp_line c j @ [0])"
    using frame_buf [OF assms(2-4), of c] assms(2,4) by (simp add: pingpong_consts pp_buf_def)
  have ok: "user_ok s" using assms(1) by (simp add: clock_at_def)
  note t = told_simps [OF ok l(3)]
  have "clock_at k (told (pp_line c j @ [0]) s)" by (rule clock_at_rest [OF assms(1) t(4,2)])
  then show ?thesis using b t(1,3) l(2) wait_ticks [OF \<open>clock_at k (told (pp_line c j @ [0]) s)\<close>] by (simp add: pingpong_frame_def)
qed

lemma move_out_prints:
  fixes s :: "'a kernel_scheme"
  assumes "clock_at k s" and "pp_buf b" and "2 \<le> j" and "j \<le> 78" and "c \<noteq> 0"
  shows "\<exists>b' s'. move_out d (int k) g c j b s = Some (b', s') \<and> clock_at k s' \<and> pp_buf b' \<and>
    out_view s' = typed (concat (map (pp_line c) [j..<78])) (out_view s)"
  using assms(1-4)
proof (induction "78 - j" arbitrary: j b s)
  case 0
  then show ?case by (simp add: move_out.simps pingpong_consts)
next
  case (Suc m)
  then have j: "j < 78" by simp
  obtain t where t: "pingpong_frame d (int k) g c j b s = Some (pp_line c j @ [0], t)" "clock_at k t" "out_view t = typed (pp_line c j) (out_view s)"
    using frame_prints [OF Suc.prems(1-3) j assms(5)] by blast
  have "m = 78 - Suc j" using Suc.hyps(2) by simp
  then obtain b' s' where s': "move_out d (int k) g c (Suc j) (pp_line c j @ [0]) t = Some (b', s')" "clock_at k s'" "pp_buf b'"
    "out_view s' = typed (concat (map (pp_line c) [Suc j..<78])) (out_view t)"
    using Suc.hyps(1) [of "Suc j", OF _ t(2) pp_line_buf(1) [OF Suc.prems(3) j assms(5)]] Suc.prems(3) j by auto
  have "move_out d (int k) g c j b s = Some (b', s')" using t(1) s'(1) j by (subst move_out.simps) (simp add: pingpong_consts)
  then show ?case using s'(2-4) t(3) j by (auto simp: upt_conv_Cons)
qed

lemma bounce_back_prints:
  fixes s :: "'a kernel_scheme"
  assumes "clock_at k s" and "pp_buf b" and "1 \<le> j" and "j < 78" and "c \<noteq> 0"
  shows "\<exists>b' s'. bounce_back d (int k) g c j b s = Some (b', s') \<and> clock_at k s' \<and> pp_buf b' \<and>
    out_view s' = typed (concat (map (pp_line c) (rev [2..<Suc j]))) (out_view s)"
  using assms(1-4)
proof (induction j arbitrary: b s)
  case (Suc j)
  show ?case
  proof (cases "j = 0")
    case True
    then show ?thesis using Suc.prems by (simp add: bounce_back.simps pingpong_consts)
  next
    case False
    then have j: "2 \<le> Suc j" "1 \<le> j" "j < 78" using Suc.prems by simp_all
    obtain t where t: "pingpong_frame d (int k) g c (Suc j) b s = Some (pp_line c (Suc j) @ [0], t)" "clock_at k t"
      "out_view t = typed (pp_line c (Suc j)) (out_view s)"
      using frame_prints [OF Suc.prems(1,2) j(1) Suc.prems(4) assms(5)] by blast
    obtain b' s' where s': "bounce_back d (int k) g c j (pp_line c (Suc j) @ [0]) t = Some (b', s')" "clock_at k s'" "pp_buf b'"
      "out_view s' = typed (concat (map (pp_line c) (rev [2..<Suc j]))) (out_view t)"
      using Suc.IH [OF t(2) pp_line_buf(1) [OF j(1) Suc.prems(4) assms(5)] j(2,3)] by blast
    have "bounce_back d (int k) g c (Suc j) b s = Some (b', s')" using t(1) s'(1) j by (subst bounce_back.simps) (simp add: pingpong_consts)
    moreover have "rev [2..<Suc (Suc j)] = Suc j # rev [2..<Suc j]" using j(1) by simp
    ultimately show ?thesis using s'(2-4) t(3) by auto
  qed
qed simp

text \<open>The character of the \<open>n\<close>-th turn.\<close>

definition pp_char :: "nat \<Rightarrow> byte" where
  "pp_char n = of_nat (65 + n mod 26)"

lemma pp_char_facts: "pp_char 0 = STARTCHAR" "pp_char n \<noteq> 0" "(if pp_char n = ENDCHAR then STARTCHAR else pp_char n + 1) = pp_char (Suc n)"
proof -
  have u: "unat (pp_char k) = 65 + k mod 26" for k
    using mod_less_divisor [of 26 k] by (simp add: pp_char_def unsigned_of_nat take_bit_nat_eq_self del: of_nat_add)
  show "pp_char 0 = STARTCHAR" by (simp add: pp_char_def STARTCHAR_def)
  show "pp_char n \<noteq> 0" using u [of n] by auto
  have "pp_char n = ENDCHAR \<longleftrightarrow> n mod 26 = 25" using u [of n] by (simp add: word_unat_eq_iff ENDCHAR_def)
  then show "(if pp_char n = ENDCHAR then STARTCHAR else pp_char n + 1) = pp_char (Suc n)"
    by (simp add: pp_char_def STARTCHAR_def mod_Suc)
qed

lemma turn_prints:
  fixes s :: "'a kernel_scheme"
  assumes "clock_at k s" and "pp_buf b"
  shows "\<exists>b' s'. pingpong_turn d (int k) g (pp_char n) b s = Some (pp_char (Suc n), b', s') \<and> clock_at k s' \<and> pp_buf b' \<and>
    out_view s' = typed (pp_turn (pp_char n)) (out_view s)"
proof -
  note c = pp_char_facts(2) [of n]
  obtain b1 s1 where 1: "move_out d (int k) g (pp_char n) 2 b s = Some (b1, s1)" "clock_at k s1" "pp_buf b1"
    "out_view s1 = typed (concat (map (pp_line (pp_char n)) [2..<78])) (out_view s)"
    using move_out_prints [OF assms _ _ c, of 2 d g] by auto
  obtain b2 s2 where 2: "bounce_back d (int k) g (pp_char n) 77 b1 s1 = Some (b2, s2)" "clock_at k s2" "pp_buf b2"
    "out_view s2 = typed (concat (map (pp_line (pp_char n)) (rev [2..<Suc 77]))) (out_view s1)"
    using bounce_back_prints [OF 1(2,3) _ _ c, of 77 d g] by auto
  have "out_view s2 = typed (pp_turn (pp_char n)) (out_view s)" using 1(4) 2(4) by (simp add: pp_turn_def)
  then show ?thesis using 1(1) 2(1-3) pp_char_facts(3) [of n] by (simp add: pingpong_turn_def pingpong_consts)
qed

lemma loop_prints:
  fixes s :: "'a kernel_scheme"
  assumes "clock_at k s" and "pp_buf b"
  shows "\<exists>b' s'. pingpong_loop d (int k) g n (pp_char m) b s = Some (pp_char (m + n), b', s') \<and> clock_at k s' \<and>
    out_view s' = typed (concat (map (\<lambda>i. pp_turn (pp_char i)) [m..<m + n])) (out_view s)"
  using assms
proof (induction n arbitrary: m b s)
  case (Suc n)
  obtain b1 s1 where 1: "pingpong_turn d (int k) g (pp_char m) b s = Some (pp_char (Suc m), b1, s1)" "clock_at k s1" "pp_buf b1"
    "out_view s1 = typed (pp_turn (pp_char m)) (out_view s)"
    using turn_prints [OF Suc.prems] by blast
  obtain b2 s2 where 2: "pingpong_loop d (int k) g n (pp_char (Suc m)) b1 s1 = Some (pp_char (Suc m + n), b2, s2)" "clock_at k s2"
    "out_view s2 = typed (concat (map (\<lambda>i. pp_turn (pp_char i)) [Suc m..<Suc m + n])) (out_view s1)"
    using Suc.IH [OF 1(2,3), of "Suc m"] by blast
  have "[m..<m + Suc n] = m # [Suc m..<Suc m + n]" by (simp add: upt_conv_Cons)
  then show ?case using 1(1,4) 2 by simp
qed simp

lemma pingpong_runs:
  fixes s :: "'a kernel_scheme"
  assumes "user_ok s" and "names_rtc e s" and "\<not> {2..<MAX_FILE} \<subseteq> fd_used s" and "length (file_name d) = 33" and "rtc_lock s = 0" and "length buf = 81"
  shows "\<exists>b s'. pingpong_main d g buf n s = Some (pp_char n, b, s') \<and> user_ok s' \<and>
    out_view s' = typed (concat (map (\<lambda>i. pp_turn (pp_char i)) [0..<n])) (out_view s)"
proof -
  obtain b where b: "pingpong_walls buf = Some b" "pp_buf b" using walls_buf [OF assms(6)] by blast
  obtain i where i: "2 \<le> i" "i < MAX_FILE" "sys_open d (cstr ''rtc'') s = Some (int i, set_cur_pcb (opened_rtc i (cur_pcb s)) s)"
    "std_kept (cur_pcb s) (opened_rtc i (cur_pcb s))"
    by (rule open_rtc [OF assms(1-4)])
  let ?t = "set_cur_pcb (opened_rtc i (cur_pcb s)) s"
  have "pcb_ok (cur_pcb s)" using assms(1) procs_ok_cur(2) by (auto simp: user_ok_def calls_ok_def)
  then have t: "clock_at i ?t"
    using user_ok_set [OF assms(1) i(4)] i(2) assms(5) by (simp add: clock_at_def opened_rtc_def pcb_ok_def) (simp add: set_cur_pcb_def)
  obtain io where w: "sys_write (int i) (Some [32, 0, 0, 0]) 4 ?t = Some (4, hw_set io False (rtc_interrupt ?t) ?t)"
    using write_rate [OF t, of "[32, 0, 0, 0]" 32] by (auto simp: le32_def)
  let ?u = "hw_set io False (rtc_interrupt ?t) ?t"
  have u: "clock_at i ?u" using t by (simp add: clock_at_def)
  obtain b' s' where "pingpong_loop d (int i) g n (pp_char 0) b ?u = Some (pp_char n, b', s')" "clock_at i s'"
    "out_view s' = typed (concat (map (\<lambda>i. pp_turn (pp_char i)) [0..<n])) (out_view ?u)"
    using loop_prints [OF u b(2), of d g n 0] by auto
  then show ?thesis using b(1) i(3) w pp_char_facts(1) by (simp add: pingpong_main_def clock_at_def)
qed

section \<open>Properties\<close>

text \<open>\<^verbatim>\<open>test_rtc\<close> never gets past its first character: its buffer of one byte has no NUL, and \<^verbatim>\<open>terminal_write\<close> reads on behind it.\<close>

theorem test_rtc_overruns:
  assumes "user_ok s" and "rtc_lock s = 0"
  shows "(\<exists>t. test_rtc 0 s = Some t \<and> int_flag t) \<and> test_rtc (Suc n) s = None"
proof -
  obtain io where "rtc_open (cli s) = Some (0, hw_set io False (rtc_interrupt s) s)"
    using assms(2) by (cases s) (auto simp: rtc_open_def hw_set_def set_rate_def outb_def inb_def cli_def freq_const_def Let_def)
  moreover have "\<exists>io'. rtc_write (Some [0, 0, 0, 0]) 4 (hw_set io False (rtc_interrupt s) s) = Some (4, hw_set io' False (rtc_interrupt s) s)"
    using rtc_write_state [of "[0, 0, 0, 0]" 0 "hw_set io False (rtc_interrupt s) s"] by (simp add: le32_def hw_set_def)
  ultimately obtain io' where start: "test_rtc_start s = Some (hw_set io' True (rtc_interrupt s) s)"
    by (auto simp: test_rtc_start_def sti_def hw_set_def)
  let ?t = "hw_set io' True (rtc_interrupt s) s"
  have "sys_write 1 (Some (lit ''l'')) 1 (ticked ?t) = None"
    by (rule write_unterminated) (use assms(1) in simp_all)
  then have "test_rtc_turn ?t = None" using rtc_read_ready [of ?t] assms(2) by (simp add: test_rtc_turn_def)
  then show ?thesis using start by (simp add: test_rtc_def hw_set_def)
qed

text \<open>A kernel whose image has the clock and two frames of the animation.\<close>

definition tank_files :: "fs_file list" where
  "tank_files = [\<lparr>ff_name = lit ''.'', ff_type = 1, ff_data = []\<rparr>, \<lparr>ff_name = lit ''rtc'', ff_type = 0, ff_data = []\<rparr>,
     \<lparr>ff_name = lit ''frame0.txt'', ff_type = 2, ff_data = lit ''o<\<newline> x''\<rparr>,
     \<lparr>ff_name = lit ''frame1.txt'', ff_type = 2, ff_data = lit ''>o\<newline>''\<rparr>]"

definition tank_mounted :: files where
  "tank_mounted = snd (the (file_init (mkfs tank_files) unmounted_example))"

definition tank_example :: kernel where
  "tank_example = (prog_example [] [])\<lparr>fs_image := fs_image tank_mounted, num_dentries := num_dentries tank_mounted,
     num_inodes := num_inodes tank_mounted, num_data_blocks := num_data_blocks tank_mounted, inodes := inodes tank_mounted,
     data_blocks := data_blocks tank_mounted, my_dentry := my_dentry tank_mounted, rtc_lock := 0\<rparr>"

lemma tank_files_ok [simp]: "files_ok tank_files"
  by (simp add: tank_files_def files_ok_def first_block_def nblocks_def lit_def)

lemma tank_example_mounted: "mounted tank_files tank_example"
proof -
  have "mounted tank_files tank_mounted" using mount [OF tank_files_ok unmounted_example_ok] by (auto simp: tank_mounted_def)
  moreover have "mounted tank_files tank_example = mounted tank_files tank_mounted" by (rule mounts_only) (simp_all add: tank_example_def)
  ultimately show ?thesis by simp
qed

lemma tank_example_ok:
  "stdio_ok tank_example" "fd_used tank_example = {}" "rtc_lock tank_example = 0"
proof -
  have "cur_pcb tank_example = cur_pcb (prog_example [] [])" "calls_ok tank_example = calls_ok (prog_example [] [])"
    by (simp_all add: tank_example_def cur_pcb_def calls_ok_def procs_ok_def)
  moreover have "exec_screen_ok tank_example = exec_screen_ok (prog_example [] [])"
    by (simp add: tank_example_def exec_screen_ok_def displayed_def visible_ok_def saved_ok_def exec_ok_def get_curr_exec_term_def get_cur_term_def)
  ultimately show "stdio_ok tank_example" "fd_used tank_example = {}"
    using prog_example_ok(1,3) [of "[]" "[]"] by (simp_all add: stdio_ok_def user_ok_def fd_used_def)
  show "rtc_lock tank_example = 0" by (simp add: tank_example_def)
qed

lemma tank_example_rtc: "\<exists>e. names_rtc e tank_example"
proof -
  obtain e where "List.find (\<lambda>d. chars (file_name d) = ff_name (tank_files ! 1)) (dentries tank_example) = Some e" "file_type e = ff_type (tank_files ! 1)"
    using mounted_lookup [OF tank_example_mounted tank_files_ok, of 1] by (auto simp: tank_files_def)
  then show ?thesis using tank_example_mounted by (auto simp: names_rtc_def tank_files_def RTCTYPE_def mounts_def)
qed

text \<open>C28: \<^verbatim>\<open>pingpong\<close>.  However many turns it has made, the program is still running, no interrupt but that of the clock is
  needed for it, and it has printed, for every turn, one line for each position of the character on its way from the left wall
  to the right one and back; the characters of the turns are the letters from A to Z, again and again.\<close>

theorem pingpong_bounces:
  fixes s :: "'a kernel_scheme"
  assumes "user_ok s" and "names_rtc e s" and "\<not> {2..<MAX_FILE} \<subseteq> fd_used s" and "length (file_name d) = 33" and "rtc_lock s = 0" and "length buf = 81"
  shows "\<exists>b s'. pingpong_main d garbage buf n s = Some (of_nat (65 + n mod 26), b, s') \<and> user_ok s' \<and>
    out_view s' = typed (concat (map (\<lambda>i. concat (map (\<lambda>j. lit '' |'' @ replicate (j - 2) SPC @ [of_nat (65 + i mod 26)] @ replicate (77 - j) SPC @ lit ''|\<newline>'')
      ([2..<78] @ rev [2..<78]))) [0..<n])) (out_view s)"
  using pingpong_runs [OF assms, of garbage n] by (simp only: pp_turn_def pp_line_def [abs_def] pp_char_def)

theorem pingpong_bounces_witness:
  "\<exists>b s'. pingpong_main blank_dentry [0, 0, 0, 0] (replicate 81 0) 100 tank_example = Some (of_nat (65 + 100 mod 26), b, s') \<and> user_ok s' \<and>
    out_view s' = typed (concat (map (\<lambda>i. concat (map (\<lambda>j. lit '' |'' @ replicate (j - 2) SPC @ [of_nat (65 + i mod 26)] @ replicate (77 - j) SPC @ lit ''|\<newline>'')
      ([2..<78] @ rev [2..<78]))) [0..<100])) (out_view tank_example)"
proof -
  obtain e where e: "names_rtc e tank_example" using tank_example_rtc by blast
  show ?thesis by (rule pingpong_bounces [OF _ e]) (use tank_example_ok in \<open>simp_all add: MAX_FILE_def blank_dentry_def\<close>)
qed

end
