(* ===== verification/Sigtest.thy ===== *)
theory Sigtest
  imports Programs Invariant
begin

text \<open>
  The program \<^verbatim>\<open>syscalls/ece391sigtest.c\<close>, which writes through a null pointer and expects a signal handler to repair the pointer.

  A program ends with a status or with the address of its page fault.  The addresses of \<^verbatim>\<open>charbuf\<close> and of the two
  handlers, which the linker chooses, are parameters, as is the uninitialised array \<^verbatim>\<open>buf\<close>.  The pointer \<^verbatim>\<open>badbuf\<close> is null at the start and only
  \<^verbatim>\<open>segfault_sighandler\<close> changes it.
\<close>

section \<open>The program\<close>

datatype program_end = Exits int | Faults u32

definition SEGFAULT :: int where "SEGFAULT = 1"
definition ALARM :: int where "ALARM = 3"

text \<open>Accesses of the program to its memory.\<close>

definition user_store :: "u32 \<Rightarrow> byte \<Rightarrow> 'a kernel_scheme \<Rightarrow> 'a kernel_scheme option" where
  "user_store va v s = map_option (\<lambda>a. s\<lparr>phys_mem := (phys_mem s)(a := v)\<rparr>) (translate True s va)"

definition user_load :: "u32 \<Rightarrow> 'a kernel_scheme \<Rightarrow> byte option" where
  "user_load va s = map_option (phys_mem s) (translate True s va)"

definition sigtest_hello :: "u32 \<Rightarrow> byte list \<Rightarrow> 'a kernel_scheme \<Rightarrow> (program_end \<times> 'a kernel_scheme) option" where
  "sigtest_hello charbuf buf s = do {
     s \<leftarrow> ece391_fdputs 1 (cstr ''Hello, '') s;
     s \<leftarrow> ece391_fdputs 1 buf s;
     case user_load charbuf s of None \<Rightarrow> Some (Faults charbuf, s)
     | Some c \<Rightarrow> do {
         s \<leftarrow> ece391_fdputs 1 (if c = 1 then cstr ''success\<newline>'' else cstr ''failure\<newline>'') s;
         Some (Exits 0, s)
       }
   }"

definition sigtest_main :: "dentry \<Rightarrow> u32 \<Rightarrow> u32 \<Rightarrow> u32 \<Rightarrow> u32 \<Rightarrow> byte list \<Rightarrow> 'a kernel_scheme \<Rightarrow> (program_end \<times> 'a kernel_scheme) option" where
  "sigtest_main d segfault_h alarm_h charbuf badbuf buf s = do {
     (r, b) \<leftarrow> getargs (Some buf) 1024 s;
     buf \<leftarrow> b;
     if 0 \<noteq> r then do {
       s \<leftarrow> ece391_fdputs 1 (cstr ''could not read argument\<newline>'') s;
       Some (Exits 3, s)
     } else do {
       c \<leftarrow> aget buf 0;
       s \<leftarrow> (if c = 49 then do {
           s \<leftarrow> ece391_fdputs 1 (cstr ''Installing signal handlers\<newline>'') s;
           let _ = set_handler SEGFAULT segfault_h;
           let _ = set_handler ALARM alarm_h;
           Some s
         } else Some s);
       s \<leftarrow> ece391_fdputs 1 (cstr ''Hi, what's your name? '') s;
       (cnt, buf, s) \<leftarrow> ece391_read d 0 buf 1023 s;
       if -1 = cnt then do {
         s \<leftarrow> ece391_fdputs 1 (cstr ''Can't read name from keyboard.\<newline>'') s;
         Some (Exits 3, s)
       } else case user_store badbuf 1 s of None \<Rightarrow> Some (Faults badbuf, s)
       | Some s \<Rightarrow> do {
           buf \<leftarrow> aset buf (nat cnt) 0;
           sigtest_hello charbuf buf s
         }
     }
   }"

text \<open>The number that both handlers print.\<close>

definition signum_line :: "int \<Rightarrow> byte list" where
  "signum_line signum = (if signum = 0 then cstr ''0\<newline>'' else if signum = 1 then cstr ''1\<newline>'' else if signum = 2 then cstr ''2\<newline>''
     else if signum = 3 then cstr ''3\<newline>'' else cstr ''invalid\<newline>'')"

text \<open>The first result is the new value of \<^verbatim>\<open>badbuf\<close>, the second what is stored for \<^verbatim>\<open>eax\<close> in the frame of the handler.\<close>

definition segfault_sighandler :: "dentry \<Rightarrow> u32 \<Rightarrow> byte list \<Rightarrow> int \<Rightarrow> 'a kernel_scheme \<Rightarrow> (u32 \<times> u32 \<times> 'a kernel_scheme) option" where
  "segfault_sighandler d charbuf buf signum s = do {
     s \<leftarrow> ece391_fdputs 1 (cstr ''Segfault signal handler called, signum: '') s;
     s \<leftarrow> ece391_fdputs 1 (signum_line signum) s;
     s \<leftarrow> ece391_fdputs 1 (cstr ''Press enter to continue...\<newline>'') s;
     (_, _, s) \<leftarrow> ece391_read d 0 buf 1 s;
     let badbuf = charbuf;
     let eax = charbuf;
     s \<leftarrow> ece391_fdputs 1 (cstr ''Signal handler returning\<newline>'') s;
     Some (badbuf, eax, s)
   }"

definition alarm_sighandler :: "int \<Rightarrow> 'a kernel_scheme \<Rightarrow> 'a kernel_scheme option" where
  "alarm_sighandler signum s = do {
     s \<leftarrow> ece391_fdputs 1 (cstr ''Alarm signal handler called, signum: '') s;
     ece391_fdputs 1 (signum_line signum) s
   }"

section \<open>The fault\<close>

lemma translate_rest: "rest s' = rest s \<Longrightarrow> translate u s' va = translate u s va" for s s' :: "'a kernel_scheme"
  by (rule rest_keeps) (assumption | rule tables_only | simp add: rest_def but_exec_screen_def but_visible_def but_saved_def Let_def)+

lemma translate_taken: "translate u (line_taken s) va = translate u s va" for s :: "'a kernel_scheme"
  by (rule tables_only) (simp_all add: line_taken_def reset_line_def)

definition sigtest_prompt :: "byte list \<Rightarrow> byte list" where
  "sigtest_prompt args = (if args \<noteq> [] \<and> hd args = 49 then lit ''Installing signal handlers\<newline>'' else []) @ lit ''Hi, what's your name? ''"

lemma sigtest_asks:
  fixes s :: "'a kernel_scheme"
  assumes "stdio_ok s" and "line_ready name s" and "length buf = 1024" and "0 \<in> set (pcb_args (cur_pcb s))" and "args = chars (pcb_args (cur_pcb s))"
  shows "\<exists>b t. getargs (Some buf) 1024 s = Some (0, Some b) \<and> length b = 1024 \<and> b ! 0 = (if args = [] then 0 else hd args) \<and>
    (if b ! 0 = 49 then ece391_fdputs 1 (cstr ''Installing signal handlers\<newline>'') s else Some s) = Some t \<and> stdio_ok t \<and> line_ready name t \<and>
    rest t = rest s \<and> out_view t = typed (if args \<noteq> [] \<and> hd args = 49 then lit ''Installing signal handlers\<newline>'' else []) (out_view s)"
proof -
  have ok: "procs_ok s" "pcb_ok (cur_pcb s)" using assms(1) procs_ok_cur(2) by (auto simp: stdio_ok_def user_ok_def calls_ok_def)
  have "length (chars (pcb_args (cur_pcb s))) \<le> length (pcb_args (cur_pcb s))" by (simp add: chars_def length_takeWhile_le)
  then have len: "length args < 1024" using ok(2) assms(5) by (simp add: pcb_ok_def BUF_SIZE_def)
  let ?b = "args @ 0 # drop (Suc (length args)) buf"
  let ?t = "if ?b ! 0 = 49 then told (cstr ''Installing signal handlers\<newline>'') s else s"
  have "getargs (Some buf) 1024 s = Some (0, Some ?b)"
    using strcpy_chars [OF assms(4), of buf] len assms(3,5) procs_ok_cur(1) [OF ok(1)] by (simp add: getargs_def)
  moreover have b: "length ?b = 1024" "?b ! 0 = (if args = [] then 0 else hd args)" using len assms(3) by (simp_all add: nth_append hd_conv_nth)
  ultimately show ?thesis
    using assms(1,2) by (intro exI [of _ ?b] exI [of _ ?t]) (auto simp: cstr_chars)
qed

lemma sigtest_faults:
  fixes s :: "'a kernel_scheme"
  assumes "stdio_ok s" and "line_ready name s" and "length buf = 1024" and "0 \<in> set (pcb_args (cur_pcb s))" and "args = chars (pcb_args (cur_pcb s))"
    and "translate True s 0 = None"
  shows "\<exists>t. sigtest_main d h1 h2 charbuf 0 buf s = Some (Faults 0, line_taken t) \<and> stdio_ok t \<and> rest t = rest s \<and>
    out_view t = typed (sigtest_prompt args) (out_view s)"
proof -
  obtain b t where t: "getargs (Some buf) 1024 s = Some (0, Some b)" "length b = 1024"
    "(if b ! 0 = 49 then ece391_fdputs 1 (cstr ''Installing signal handlers\<newline>'') s else Some s) = Some t" "stdio_ok t" "line_ready name t"
    "rest t = rest s" "out_view t = typed (if args \<noteq> [] \<and> hd args = 49 then lit ''Installing signal handlers\<newline>'' else []) (out_view s)"
    using sigtest_asks [OF assms(1-5)] by blast
  let ?u = "told (cstr ''Hi, what's your name? '') t"
  have "translate True (line_taken ?u) 0 = None"
    using assms(6) translate_rest [of ?u s] t(4,6) by (simp add: translate_taken)
  then have store: "user_store 0 1 (line_taken ?u) = None" by (simp add: user_store_def)
  have "sigtest_main d h1 h2 charbuf 0 buf s = Some (Faults 0, line_taken ?u)"
    using t(1-5) store read_prompted_line [OF t(4,5,2), of "cstr ''Hi, what's your name? ''" d]
    by (auto simp: sigtest_main_def Let_def split: if_splits)
  then show ?thesis using t(4,6,7) by (intro exI [of _ ?u]) (simp add: sigtest_prompt_def cstr_chars)
qed

lemma cr2_set:
  fixes s :: "'a kernel_scheme"
  shows "tasks_ok (s\<lparr>cr2 := a\<rparr>) = tasks_ok s" "cur_pcb (s\<lparr>cr2 := a\<rparr>) = cur_pcb s" "proc_used (s\<lparr>cr2 := a\<rparr>) = proc_used s"
proof -
  have "paging_wf (s\<lparr>cr2 := a\<rparr>) = paging_wf s" by (rule tables_only) simp_all
  moreover have "fs_wf (s\<lparr>cr2 := a\<rparr>) = fs_wf s" by (rule files_only) simp_all
  ultimately show "tasks_ok (s\<lparr>cr2 := a\<rparr>) = tasks_ok s"
    by (simp add: tasks_ok_def) (simp add: procs_ok_def proc_table_ok_def dentries_wf_def get_cur_term_def get_curr_exec_term_def)
  show "cur_pcb (s\<lparr>cr2 := a\<rparr>) = cur_pcb s" "proc_used (s\<lparr>cr2 := a\<rparr>) = proc_used s" by (simp_all add: cur_pcb_def proc_used_def)
qed

section \<open>Property\<close>

text \<open>C29: \<^verbatim>\<open>sigtest\<close> on this kernel, which has no signals.  The program expects its handler for a segmentation fault to run and to repair the
  pointer; here \<^verbatim>\<open>set_handler\<close> does nothing.  In every state that the kernel reaches from one in which its invariant holds, such as the one that
  booting leaves, a program's store through the null pointer faults.  So, whether or not its argument asks for the handlers to be installed, the program
  prints its question, reads the name and faults at address 0; it never gets to greet.  The page fault then ends the process, instead of
  spinning as the comment above \<^verbatim>\<open>exc_14\<close> has it: its
  parent, the shell, resumes with the result 256, is the current process, and the slot of the program alone is free again.\<close>

theorem sigtest_killed:
  fixes s :: "'a kernel_scheme"
  assumes "kernel_ok b" and "kernel_step\<^sup>*\<^sup>* b s" and "stdio_ok s" and "line_ready name s" and "length buf = 1024"
    and "0 \<in> set (pcb_args (cur_pcb s))" and "args = chars (pcb_args (cur_pcb s))"
    and "PPID (cur_pcb s) = q" and "unat q < NUM_PROCESSES" and "length conv_buf = 64"
  shows "\<exists>t s'. sigtest_main d segfault_h alarm_h charbuf 0 buf s = Some (Faults 0, t) \<and>
    out_view t = typed ((if args \<noteq> [] \<and> hd args = 49 then lit ''Installing signal handlers\<newline>'' else []) @ lit ''Hi, what's your name? '') (out_view s) \<and>
    exception 14 conv_buf fr (t\<lparr>cr2 := 0\<rparr>) = Some (Resumed 256 (ESP0 (cur_pcb s)) (EBP0 (cur_pcb s)), s') \<and>
    tasks_ok s' \<and> curr_process s' = q \<and> proc_used s' = proc_used s - {unat (curr_process s)}"
proof -
  have ok: "tasks_ok s" "translate True s 0 = None" using kernel_run_keeps [OF assms(2,1)] by (simp_all add: kernel_ok_def)
  obtain u where u: "sigtest_main d segfault_h alarm_h charbuf 0 buf s = Some (Faults 0, line_taken u)" "stdio_ok u" "rest u = rest s"
    "out_view u = typed (sigtest_prompt args) (out_view s)"
    using sigtest_faults [OF assms(3-7) ok(2)] by blast
  let ?t = "line_taken u"
  have "cur_pcb ?t = cur_pcb u" "curr_process ?t = curr_process u" by (simp_all add: cur_pcb_def line_taken_def reset_line_def)
  then have t: "tasks_ok (?t\<lparr>cr2 := 0\<rparr>)" "cur_pcb (?t\<lparr>cr2 := 0\<rparr>) = cur_pcb s" "proc_used (?t\<lparr>cr2 := 0\<rparr>) = proc_used s"
    "curr_process (?t\<lparr>cr2 := 0\<rparr>) = curr_process s"
    using ok(1) rest_keeps [of _ _ tasks_ok, OF u(3) rest_tasks(1)] rest_keeps [of _ _ proc_used, OF u(3) rest_tasks(2)] rest_fields(1,5) [OF u(3)]
    by (simp_all add: cr2_set taken_tasks)
  obtain s' where "exception 14 conv_buf fr (?t\<lparr>cr2 := 0\<rparr>) = Some (Resumed 256 (ESP0 (cur_pcb s)) (EBP0 (cur_pcb s)), s')"
    "tasks_ok s'" "curr_process s' = q" "proc_used s' = proc_used s - {unat (curr_process s)}"
    using killed_by_exception [OF t(1) _ assms(9,10), of 14 fr] t(2-4) assms(8) by (auto simp: exc_vector_def)
  then show ?thesis using u by (auto simp: sigtest_prompt_def)
qed

definition sig_example :: kernel where
  "sig_example = set_cur_pcb ((cur_pcb (prog_example ''fish'' ''1''))\<lparr>PPID := 1\<rparr>) (prog_example ''fish'' ''1'')"

lemma sig_example_ok:
  "stdio_ok sig_example" "tasks_ok sig_example" "line_ready (lit ''fish'') sig_example"
  "pcb_args (cur_pcb sig_example) = lit ''1'' @ replicate 127 0" "PPID (cur_pcb sig_example) = 1" "translate True sig_example 0 = None"
proof -
  let ?p = "prog_example ''fish'' ''1''"
  note ok = prog_example_ok(1,2,4) [of "''1''" "''fish''"]
  have p: "stdio_ok ?p" "tasks_ok ?p" using ok by simp_all
  then have b: "procs_ok ?p" "pcb_ok (cur_pcb ?p)" using procs_ok_cur(2) by (auto simp: tasks_ok_def)
  then have k: "std_kept (cur_pcb ?p) ((cur_pcb ?p)\<lparr>PPID := 1\<rparr>)" by (simp add: std_kept_def pcb_ok_def)
  note s = user_ok_set [OF stdio_user [OF p(1)] k]
  show "stdio_ok sig_example" using s(4) p(1) by (simp add: sig_example_def)
  show "pcb_args (cur_pcb sig_example) = lit ''1'' @ replicate 127 0" "PPID (cur_pcb sig_example) = 1"
    using s(2) ok(3) by (simp_all add: sig_example_def)
  have "paging_wf sig_example = paging_wf ?p" by (rule tables_only) (simp_all add: sig_example_def set_cur_pcb_def)
  moreover have "fs_wf sig_example = fs_wf ?p" by (rule files_only) (simp_all add: sig_example_def set_cur_pcb_def)
  ultimately show "tasks_ok sig_example"
    using p(2) s(3) by (simp add: tasks_ok_def sig_example_def) (simp add: set_cur_pcb_def proc_table_ok_def dentries_wf_def get_cur_term_def get_curr_exec_term_def)
  have "line_ready (lit ''fish'') ?p" by (rule prog_example_line) simp_all
  then show "line_ready (lit ''fish'') sig_example"
    by (simp add: sig_example_def line_ready_def set_cur_pcb_def exec_ok_def get_curr_exec_term_def)
  show "translate True sig_example 0 = None"
    by (simp add: translate_def sig_example_def set_cur_pcb_def prog_example_def exec_example_def)
qed

lemma sig_example_kernel: "kernel_ok sig_example"
  using sig_example_ok(1,2,6) by (simp add: kernel_ok_def stdio_ok_def user_ok_def calls_ok_def procs_ok_def)

theorem sigtest_killed_witness:
  "\<exists>t s'. sigtest_main blank_dentry 0x8048200 0x8048300 0x8049000 0 (replicate 1024 0) sig_example = Some (Faults 0, t) \<and>
    out_view t = typed ((if lit ''1'' \<noteq> [] \<and> hd (lit ''1'') = 49 then lit ''Installing signal handlers\<newline>'' else []) @ lit ''Hi, what's your name? '')
      (out_view sig_example) \<and>
    exception 14 (replicate 64 0) frame_example (t\<lparr>cr2 := 0\<rparr>) =
      Some (Resumed 256 (ESP0 (cur_pcb sig_example)) (EBP0 (cur_pcb sig_example)), s') \<and>
    tasks_ok s' \<and> curr_process s' = 1 \<and> proc_used s' = proc_used sig_example - {unat (curr_process sig_example)}"
  by (rule sigtest_killed [where name = "lit ''fish''", OF sig_example_kernel rtranclp.rtrancl_refl])
    (simp_all only: sig_example_ok, simp_all add: chars_def NUM_PROCESSES_def)

end
