(* ===== verification/Fish.thy ===== *)
theory Fish
  imports Clock Blink
begin

text \<open>
  The animation program \<^verbatim>\<open>fish/fish.c\<close>: it reads two frames in parallel, one byte of each at a time, makes a blinking
  character of every place where one of them is not blank, and lets the characters blink at the pace of the clock.

  The state of a run is the pair of the program's own data (\<open>fish\<close>, the pool and the list) and the kernel.  What the program stores through
  \<^verbatim>\<open>vmem_base_addr\<close> goes into the video memory of the kernel, to which \<^verbatim>\<open>vidmap\<close> maps that page.  The address of
  \<^verbatim>\<open>vmem_base_addr\<close> and the uninitialised \<^verbatim>\<open>blink_struct\<close> are parameters.  The loops of \<^verbatim>\<open>add_frames\<close> read until both
  files end; a read that fails for ever would make them run for ever, so they are partial functions.
\<close>

section \<open>Memory functions\<close>

function fish_memset_loop :: "nat \<Rightarrow> nat \<Rightarrow> byte \<Rightarrow> byte list \<Rightarrow> byte list option" where
  "fish_memset_loop i n c mem = (if i < n then do { mem \<leftarrow> aset mem i c; fish_memset_loop (i + 1) n c mem } else Some mem)"
  by pat_completeness auto
termination
  by (relation "measure (\<lambda>(i, n, c, mem). n - i)") auto

definition ece391_memset :: "byte list \<Rightarrow> byte \<Rightarrow> nat \<Rightarrow> byte list option" where
  "ece391_memset memory c n = fish_memset_loop 0 n c memory"

function fish_memcpy_loop :: "nat \<Rightarrow> nat \<Rightarrow> byte list \<Rightarrow> byte list \<Rightarrow> byte list option" where
  "fish_memcpy_loop i n s d =
     (if i < n then do { v \<leftarrow> aget s i; d \<leftarrow> aset d i v; fish_memcpy_loop (i + 1) n s d } else Some d)"
  by pat_completeness auto
termination
  by (relation "measure (\<lambda>(i, n, s, d). n - i)") auto

definition ece391_memcpy :: "byte list \<Rightarrow> byte list \<Rightarrow> nat \<Rightarrow> (int \<times> byte list) option" where
  "ece391_memcpy dest src n = do { d \<leftarrow> fish_memcpy_loop 0 n src dest; Some (0, d) }"

declare fish_memset_loop.simps [simp del] fish_memcpy_loop.simps [simp del]

text \<open>The bytes of a structure in memory, for a pool at the address \<open>base\<close>.  Clearing them gives the structure that \<^verbatim>\<open>mp1_free\<close> and the start of
  \<^verbatim>\<open>main\<close> leave, and copying them the same structure.\<close>

definition blink_bytes :: "u32 \<Rightarrow> blink \<Rightarrow> byte list" where
  "blink_bytes base b =
     (let half = (\<lambda>w :: u16. [ucast w, ucast (drop_bit 8 w)]);
          p = (case next_blink b of None \<Rightarrow> 0 | Some i \<Rightarrow> base + 16 * of_nat i)
      in half (location b) @ [on_char b, off_char b] @ half (on_length b) @ half (off_length b) @ half (countdown b) @ half (status b) @
         [ucast p, ucast (drop_bit 8 p), ucast (drop_bit 16 p), ucast (drop_bit 24 p)])"

lemma memset_loop_eq: "\<lbrakk>i \<le> n; n \<le> length mem\<rbrakk> \<Longrightarrow> fish_memset_loop i n c mem = Some (take i mem @ replicate (n - i) c @ drop n mem)"
proof (induction "n - i" arbitrary: i mem)
  case (Suc k)
  then have i: "i < n" by simp
  have "take (Suc i) (mem[i := c]) @ replicate (n - Suc i) c @ drop n (mem[i := c]) = take i mem @ replicate (n - i) c @ drop n mem"
    using i Suc.prems(2) by (simp add: take_Suc_conv_app_nth Suc_diff_Suc flip: replicate_Suc)
  then show ?case using i Suc by (subst fish_memset_loop.simps) simp
qed (simp add: fish_memset_loop.simps)

lemma memcpy_loop_eq: "\<lbrakk>i \<le> n; n \<le> length s; n \<le> length d\<rbrakk> \<Longrightarrow> fish_memcpy_loop i n s d = Some (take i d @ drop i (take n s) @ drop n d)"
proof (induction "n - i" arbitrary: i d)
  case (Suc k)
  then have i: "i < n" by simp
  have "drop i (take n s) = s ! i # drop (Suc i) (take n s)" using i Suc.prems(2) by (simp flip: Cons_nth_drop_Suc)
  then have "take (Suc i) (d[i := s ! i]) @ drop (Suc i) (take n s) @ drop n (d[i := s ! i]) = take i d @ drop i (take n s) @ drop n d"
    using i Suc.prems(3) by (simp add: take_Suc_conv_app_nth)
  then show ?case using i Suc by (subst fish_memcpy_loop.simps) simp
qed (simp add: fish_memcpy_loop.simps)

lemma struct_cleared_copied:
  "ece391_memset (blink_bytes base b) 0 16 = Some (blink_bytes base zero_blink)"
  "ece391_memcpy (blink_bytes base a) (blink_bytes base b) 16 = Some (0, blink_bytes base b)"
proof -
  have len: "length (blink_bytes base x) = 16" for x by (simp add: blink_bytes_def Let_def)
  have "blink_bytes base zero_blink = replicate 16 0" by (simp add: blink_bytes_def zero_blink_def Let_def numeral_eq_Suc)
  then show "ece391_memset (blink_bytes base b) 0 16 = Some (blink_bytes base zero_blink)"
    using memset_loop_eq [of 0 16 "blink_bytes base b" 0] len by (simp add: ece391_memset_def)
  show "ece391_memcpy (blink_bytes base a) (blink_bytes base b) 16 = Some (0, blink_bytes base b)"
    using memcpy_loop_eq [of 0 16 "blink_bytes base b" "blink_bytes base a"] len by (simp add: ece391_memcpy_def)
qed

section \<open>Control calls\<close>

text \<open>The argument of \<^verbatim>\<open>mp1_ioctl\<close> is the address of a structure or a number, as the command wants it.\<close>

datatype ioctl_arg = Struct blink | Number u32

definition RTC_ADD :: nat where "RTC_ADD = 0"
definition RTC_REMOVE :: nat where "RTC_REMOVE = 1"
definition RTC_FIND :: nat where "RTC_FIND = 2"
definition RTC_SYNC :: nat where "RTC_SYNC = 3"

lemmas ioctl_commands = RTC_ADD_def RTC_REMOVE_def RTC_FIND_def RTC_SYNC_def

text \<open>The jump through \<^verbatim>\<open>call_table\<close>.  The result of \<^verbatim>\<open>mp1_ioctl_find\<close>, which the program never calls, is also the structure it found.\<close>

definition mp1_ioctl :: "ioctl_arg \<Rightarrow> nat \<Rightarrow> fish \<Rightarrow> (int \<times> fish) option" where
  "mp1_ioctl arg cmd st =
     (case arg of
        Struct b \<Rightarrow> if cmd = RTC_ADD then mp1_ioctl_add b st
          else if cmd = RTC_FIND then do { (r, _) \<leftarrow> mp1_ioctl_find (location b) st; Some (r, st) } else None
      | Number v \<Rightarrow> if cmd = RTC_REMOVE then mp1_ioctl_remove (ucast v) st else if cmd = RTC_SYNC then mp1_ioctl_sync v st else None)"

section \<open>Reading the frames\<close>

definition mp1_set_video_mode :: "u32 \<Rightarrow> 'a kernel_scheme \<Rightarrow> u32 option \<times> 'a kernel_scheme" where
  "mp1_set_video_mode vmem_base_addr s =
     (let (r, screen_start, s) = vidmap vmem_base_addr s in if r = -1 then (None, s) else (screen_start, s))"

text \<open>A part of the program that stores into its screen.  The page at \<^verbatim>\<open>vmem_base_addr\<close> leads to the video memory, so the screen that the program sees
  is that of the kernel, and what it stores is there.  A program of a terminal in the background, whose page leads elsewhere, is not described.\<close>

definition screen_mapped :: "'a kernel_scheme \<Rightarrow> bool" where
  "screen_mapped s \<longleftrightarrow> translate True s USER_VID_MEM = Some VIDEO"

definition on_screen :: "(fish \<Rightarrow> ('r \<times> fish) option) \<Rightarrow> fish \<Rightarrow> 'a kernel_scheme \<Rightarrow> ('r \<times> fish \<times> 'a kernel_scheme) option" where
  "on_screen f st s =
     (if screen_mapped s then do {
        (r, st) \<leftarrow> f (st\<lparr>vmem := video_mem s\<rparr>);
        Some (r, st, s\<lparr>video_mem := vmem st\<rparr>)
      } else None)"

text \<open>The next byte of one of the two files, unless its line is over.\<close>

definition next_char :: "dentry \<Rightarrow> int \<Rightarrow> byte \<Rightarrow> bool \<Rightarrow> 'a kernel_scheme \<Rightarrow> (byte \<times> bool \<times> 'a kernel_scheme) option" where
  "next_char d fd c eof s =
     (if c \<noteq> NL then do {
        (num_bytes, b, s) \<leftarrow> ece391_read d fd [c] 1 s;
        c \<leftarrow> aget b 0;
        if num_bytes = 0 then Some (NL, True, s) else Some (c, eof, s)
      } else Some (c, eof, s))"

definition blank :: "byte \<Rightarrow> byte" where
  "blank c = (if c = NL then SPC else c)"

definition add_place :: "blink \<Rightarrow> int \<Rightarrow> int \<Rightarrow> byte \<Rightarrow> byte \<Rightarrow> fish \<Rightarrow> 'a kernel_scheme \<Rightarrow> (fish \<times> 'a kernel_scheme) option" where
  "add_place blink_struct row col c0 c1 st s =
     (if c0 \<noteq> SPC \<and> c0 \<noteq> NL \<or> c1 \<noteq> SPC \<and> c1 \<noteq> NL then do {
        let b = blink_struct\<lparr>on_char := blank c0, off_char := blank c1, location := of_int (row * 80 + col + 40)\<rparr>;
        (_, st, s) \<leftarrow> on_screen (mp1_ioctl (Struct b) RTC_ADD) st s;
        Some (st, s)
      } else Some (st, s))"

partial_function (option) frame_row :: "dentry \<Rightarrow> blink \<Rightarrow> int \<Rightarrow> int \<Rightarrow> int \<Rightarrow> int \<Rightarrow> byte \<Rightarrow> byte \<Rightarrow> bool \<Rightarrow> bool \<Rightarrow> fish \<Rightarrow> 'a kernel_scheme
    \<Rightarrow> (bool \<times> bool \<times> fish \<times> 'a kernel_scheme) option" where
  "frame_row d blink_struct fd0 fd1 row col c0 c1 eof0 eof1 st s = do {
     (c0, eof0, s) \<leftarrow> next_char d fd0 c0 eof0 s;
     (c1, eof1, s) \<leftarrow> next_char d fd1 c1 eof1 s;
     if c0 = NL \<and> c1 = NL then Some (eof0, eof1, st, s)
     else do {
       (st, s) \<leftarrow> add_place blink_struct row col c0 c1 st s;
       frame_row d blink_struct fd0 fd1 row (col + 1) c0 c1 eof0 eof1 st s
     }
   }"

definition next_line :: "int \<Rightarrow> bool \<Rightarrow> 'a kernel_scheme \<Rightarrow> (byte \<times> 'a kernel_scheme) option" where
  "next_line fd eof s = (if eof then do { (_, s) \<leftarrow> sys_close fd s; Some (NL, s) } else Some (48, s))"

partial_function (option) frame_rows :: "dentry \<Rightarrow> blink \<Rightarrow> int \<Rightarrow> int \<Rightarrow> int \<Rightarrow> byte \<Rightarrow> byte \<Rightarrow> bool \<Rightarrow> bool \<Rightarrow> fish \<Rightarrow> 'a kernel_scheme
    \<Rightarrow> (fish \<times> 'a kernel_scheme) option" where
  "frame_rows d blink_struct fd0 fd1 row c0 c1 eof0 eof1 st s =
     (if \<not> eof0 \<or> \<not> eof1 then do {
        (eof0, eof1, st, s) \<leftarrow> frame_row d blink_struct fd0 fd1 row 0 c0 c1 eof0 eof1 st s;
        (c0, s) \<leftarrow> next_line fd0 eof0 s;
        (c1, s) \<leftarrow> next_line fd1 eof1 s;
        frame_rows d blink_struct fd0 fd1 (row + 1) c0 c1 eof0 eof1 st s
      } else Some (st, s))"

text \<open>The first result is the status of \<^verbatim>\<open>ece391_halt\<close>, when a frame cannot be opened.\<close>

definition add_frames :: "dentry \<Rightarrow> blink \<Rightarrow> byte list \<Rightarrow> byte list \<Rightarrow> fish \<Rightarrow> 'a kernel_scheme \<Rightarrow> (int option \<times> fish \<times> 'a kernel_scheme) option" where
  "add_frames d blink_struct f0 f1 st s = do {
     let blink_struct = blink_struct\<lparr>on_length := 15, off_length := 15\<rparr>;
     (fd0, s) \<leftarrow> sys_open d f0 s;
     if fd0 < 0 then Some (Some (-1), st, s)
     else do {
       (fd1, s) \<leftarrow> sys_open d f1 s;
       if fd1 < 0 then Some (Some (-1), st, s)
       else do {
         (st, s) \<leftarrow> frame_rows d blink_struct fd0 fd1 0 48 48 False False st s;
         Some (None, st, s)
       }
     }
   }"

section \<open>The program\<close>

definition WAIT :: nat where "WAIT = 100"

primrec animate :: "nat \<Rightarrow> dentry \<Rightarrow> int \<Rightarrow> byte list \<Rightarrow> fish \<Rightarrow> 'a kernel_scheme \<Rightarrow> (fish \<times> 'a kernel_scheme) option" where
  "animate 0 d rtc_fd garbage st s = Some (st, s)"
| "animate (Suc n) d rtc_fd garbage st s = do {
     s \<leftarrow> rtc_wait d rtc_fd garbage s;
     (_, st, s) \<leftarrow> on_screen (\<lambda>st. map_option (Pair ()) (mp1_rtc_tasklet st)) st s;
     animate n d rtc_fd garbage st s
   }"

text \<open>The structure that \<^verbatim>\<open>main\<close> adds.\<close>

definition im_struct :: "blink \<Rightarrow> blink" where
  "im_struct b = b\<lparr>on_char := 73, off_char := 77, on_length := 7, off_length := 6, location := 6 * 80 + 60\<rparr>"

definition fish_main :: "dentry \<Rightarrow> u32 \<Rightarrow> blink \<Rightarrow> blink \<Rightarrow> byte list \<Rightarrow> fish \<Rightarrow> 'a kernel_scheme \<Rightarrow> (int \<times> fish \<times> 'a kernel_scheme) option" where
  "fish_main d vmem_base_addr blink_struct blink_struct1 garbage st s = do {
     let st = st\<lparr>blink_array := map (\<lambda>b. zero_blink) (blink_array st)\<rparr>;
     let (vm, s) = mp1_set_video_mode vmem_base_addr s;
     if vm = None then Some (-1, st, s)
     else do {
       (rtc_fd, s) \<leftarrow> sys_open d (cstr ''rtc'') s;
       (halted, st, s) \<leftarrow> add_frames d blink_struct1 (cstr ''frame0.txt'') (cstr ''frame1.txt'') st s;
       case halted of Some r \<Rightarrow> Some (r, st, s)
       | None \<Rightarrow> do {
           (_, s) \<leftarrow> sys_write rtc_fd (Some [32, 0, 0, 0]) 4 s;
           (st, s) \<leftarrow> animate WAIT d rtc_fd garbage st s;
           (_, st, s) \<leftarrow> on_screen (mp1_ioctl (Struct (im_struct blink_struct)) RTC_ADD) st s;
           (st, s) \<leftarrow> animate WAIT d rtc_fd garbage st s;
           (_, st, s) \<leftarrow> on_screen (mp1_ioctl (Number (push_bit 16 40 OR (6 * 80 + 60))) RTC_SYNC) st s;
           (st, s) \<leftarrow> animate WAIT d rtc_fd garbage st s;
           (_, st, s) \<leftarrow> on_screen (mp1_ioctl (Number (6 * 80 + 60)) RTC_REMOVE) st s;
           (st, s) \<leftarrow> animate WAIT d rtc_fd garbage st s;
           (_, s) \<leftarrow> sys_close rtc_fd s;
           Some (0, st, s)
         }
     }
   }"

section \<open>Files that are read byte by byte\<close>

text \<open>Descriptor \<open>i\<close> is open on the file \<open>e\<close>, and \<open>cs\<close> is what has not been read of it.\<close>

definition feed :: "nat \<Rightarrow> dentry \<Rightarrow> byte list \<Rightarrow> 'a kernel_scheme \<Rightarrow> bool" where
  "feed i e cs s \<longleftrightarrow> open_at i e s \<and> length (file_content s (inode e)) < BLOCK_SIZE \<and>
     (\<exists>pos \<le> length (file_content s (inode e)). fd_position (FDs_array (cur_pcb s) ! i) = of_nat pos \<and> cs = drop pos (file_content s (inode e)))"

text \<open>Only the kernel's own output or a remapping changes what is on the screen.\<close>

definition same_screen :: "'a kernel_scheme \<Rightarrow> 'a kernel_scheme \<Rightarrow> bool" where
  "same_screen s s' \<longleftrightarrow> video_mem s' = video_mem s \<and> screen_mapped s' = screen_mapped s"

lemma same_screen_tables:
  assumes "video_mem s' = video_mem s" and "page_directory s' = page_directory s" and "page_table s' = page_table s"
    and "user_video_page_table s' = user_video_page_table s" and "page_table_addr s' = page_table_addr s"
    and "user_video_page_table_addr s' = user_video_page_table_addr s"
  shows "same_screen s s'"
  using tables_only(1) [OF assms(2-6)] assms(1) by (simp add: same_screen_def screen_mapped_def)

lemma same_screen_trans: "\<lbrakk>same_screen s t; same_screen t u\<rbrakk> \<Longrightarrow> same_screen s u"
  by (simp add: same_screen_def)

lemma same_screen_set: "same_screen s (set_cur_pcb b s)" "same_screen s (hw_set io i r s)" "same_screen s (ticked s)"
  by (rule same_screen_tables; simp add: set_cur_pcb_def hw_set_def ticked_def)+

text \<open>What the other descriptors see of a change to descriptor \<open>i\<close>.\<close>

definition same_but :: "nat \<Rightarrow> 'a kernel_scheme \<Rightarrow> 'a kernel_scheme \<Rightarrow> bool" where
  "same_but i s s' \<longleftrightarrow> user_ok s' \<and> same_screen s s' \<and> (\<forall>j e cs. j \<noteq> i \<longrightarrow> feed j e cs s \<longrightarrow> feed j e cs s') \<and>
     (\<forall>k. k \<noteq> i \<longrightarrow> clock_at k s \<longrightarrow> clock_at k s')"

lemma same_but_set:
  fixes s :: "'a kernel_scheme"
  assumes "user_ok s" and "std_kept (cur_pcb s) b" and "\<forall>j. j \<noteq> i \<longrightarrow> FDs_array b ! j = FDs_array (cur_pcb s) ! j"
    and "pcb_names b = pcb_names (cur_pcb s)"
  shows "same_but i s (set_cur_pcb b s)"
proof -
  note u = user_ok_set [OF assms(1,2)]
  have "rtc_lock (set_cur_pcb b s) = rtc_lock s" by (simp add: set_cur_pcb_def)
  moreover have "open_at j e (set_cur_pcb b s) = open_at j e s" if "j \<noteq> i" for j e
    using assms(3,4) that u(2) by (simp add: open_at_def)
  ultimately show ?thesis using u assms(3) same_screen_set(1) [of s b] by (auto simp: same_but_def feed_def clock_at_def)
qed

lemma same_but_refl: "user_ok s \<Longrightarrow> same_but i s s"
  by (simp add: same_but_def same_screen_def)

lemma feed_read:
  fixes s :: "'a kernel_scheme"
  assumes "user_ok s" and "feed i e cs s" and "2 \<le> i" and "length (file_name d) = 33"
  shows "\<exists>s'. ece391_read d (int i) [c] 1 s = Some (if cs = [] then 0 else 1, [if cs = [] then c else hd cs], s') \<and> feed i e (tl cs) s' \<and> same_but i s s'"
proof -
  obtain pos where o: "open_at i e s" "length (file_content s (inode e)) < BLOCK_SIZE" "pos \<le> length (file_content s (inode e))"
    "fd_position (FDs_array (cur_pcb s) ! i) = of_nat pos" "cs = drop pos (file_content s (inode e))"
    using assms(2) by (auto simp: feed_def)
  have i: "i < MAX_FILE" using o(1) by (simp add: open_at_def)
  have ok: "procs_ok s" "pcb_ok (cur_pcb s)" using assms(1) procs_ok_cur(2) by (auto simp: user_ok_def calls_ok_def)
  let ?out = "take 1 cs"
  let ?s' = "set_cur_pcb (moved_fd i (length ?out) (cur_pcb s)) s"
  note k = std_kept_fds(2) [OF ok(2) assms(3) i, of "length ?out"]
  note u = user_ok_set [OF assms(1) k]
  have "ece391_read d (int i) [c] 1 s = Some (int (length ?out), ?out @ drop (length ?out) [c], ?s')"
    using read_open_file [OF assms(1) o(1) _ assms(4) o(4), of 1 ?out "[c]"] o(2,3,5) by (simp add: length_file_content)
  moreover have "feed i e (tl cs) ?s'"
  proof -
    have "fd_position (FDs_array (cur_pcb ?s') ! i) = of_nat (pos + length ?out)"
      using u(2) moved_position [OF ok(2) i] o(4) by simp
    moreover have "tl cs = drop (pos + length ?out) (file_content s (inode e))" "pos + length ?out \<le> length (file_content s (inode e))"
      using o(3,5) by (auto simp: drop_Suc tl_drop min_def)
    ultimately show ?thesis using moved_at [OF ok(1) o(1)] o(2) unfolding feed_def by auto
  qed
  moreover have "same_but i s ?s'" by (rule same_but_set [OF assms(1) k]) (simp_all add: moved_fd_def)
  ultimately show ?thesis by (cases cs) auto
qed

text \<open>One of the two files in the middle of \<^verbatim>\<open>add_frames\<close>: \<open>c\<close> is its last character and \<open>cs\<close> what follows.\<close>

definition source :: "nat \<Rightarrow> dentry \<Rightarrow> byte \<Rightarrow> bool \<Rightarrow> byte list \<Rightarrow> 'a kernel_scheme \<Rightarrow> bool" where
  "source i e c eof cs s \<longleftrightarrow> (if eof then c = NL \<and> cs = [] else feed i e cs s)"

definition line_left :: "byte \<Rightarrow> byte list \<Rightarrow> byte list" where
  "line_left c cs = (if c = NL then [] else takeWhile (\<lambda>c. c \<noteq> NL) cs)"

definition after_line :: "byte \<Rightarrow> byte list \<Rightarrow> byte list" where
  "after_line c cs = (if c = NL then cs else tl (dropWhile (\<lambda>c. c \<noteq> NL) cs))"

lemma next_char_reads:
  fixes s :: "'a kernel_scheme"
  assumes "user_ok s" and "source i e c eof cs s" and "2 \<le> i" and "length (file_name d) = 33"
  shows "\<exists>c' eof' cs' s'. next_char d (int i) c eof s = Some (c', eof', s') \<and> source i e c' eof' cs' s' \<and> same_but i s s' \<and>
    (line_left c cs = [] \<longrightarrow> c' = NL) \<and> (line_left c cs \<noteq> [] \<longrightarrow> c' \<noteq> NL \<and> c' = hd (line_left c cs)) \<and>
    line_left c' cs' = tl (line_left c cs) \<and> after_line c' cs' = after_line c cs \<and>
    (eof' \<or> c' \<noteq> NL \<and> NL \<notin> set cs' \<longleftrightarrow> eof \<or> c \<noteq> NL \<and> NL \<notin> set cs)"
proof (cases "c = NL")
  case True
  then show ?thesis using assms(1,2) same_but_refl [of s i] by (auto simp: next_char_def line_left_def after_line_def)
next
  case False
  then have f: "feed i e cs s" "\<not> eof" using assms(2) by (auto simp: source_def split: if_splits)
  obtain s' where s': "ece391_read d (int i) [c] 1 s = Some (if cs = [] then 0 else 1, [if cs = [] then c else hd cs], s')" "feed i e (tl cs) s'" "same_but i s s'"
    using feed_read [OF assms(1) f(1) assms(3,4)] by blast
  then have n: "next_char d (int i) c eof s = Some (if cs = [] then NL else hd cs, cs = [], s')" using False f(2) by (simp add: next_char_def)
  show ?thesis
    by (rule exI, rule exI, rule exI [of _ "tl cs"], rule exI, rule conjI [OF n])
      (use False f(2) s'(2,3) in \<open>cases cs; auto simp: source_def line_left_def after_line_def\<close>)
qed

section \<open>One row of the frames\<close>

text \<open>A place of the screen with the characters of the two frames, the structure for it, and the state of the program's own data.\<close>

type_synonym place = "nat \<times> byte \<times> byte"

definition place_struct :: "place \<Rightarrow> blink" where
  "place_struct p = (case p of (l, a, b) \<Rightarrow>
     \<lparr>location = of_nat l, on_char = a, off_char = b, on_length = 15, off_length = 15, countdown = 15, status = 1, next_blink = None\<rparr>)"

definition show_place :: "place \<Rightarrow> cells \<Rightarrow> cells" where
  "show_place p m = (case p of (l, a, b) \<Rightarrow> m(2 * int l := a))"

definition has_items :: "blink list \<Rightarrow> cells \<Rightarrow> fish \<Rightarrow> bool" where
  "has_items its vm st \<longleftrightarrow> (\<exists>is. blink_inv st is \<and> items st is = its) \<and> vmem st = vm"

text \<open>The same, with the kernel's video memory as the screen.\<close>

definition tank :: "blink list \<Rightarrow> cells \<Rightarrow> fish \<Rightarrow> 'a kernel_scheme \<Rightarrow> bool" where
  "tank its vm st s \<longleftrightarrow> (\<exists>is. blink_inv st is \<and> items st is = its) \<and> video_mem s = vm \<and> screen_mapped s"

lemma tank_items: "tank its vm st s \<Longrightarrow> has_items its vm (st\<lparr>vmem := vm\<rparr>)"
  by (auto simp: tank_def has_items_def blink_inv_def items_def)

lemma tank_same: "\<lbrakk>tank its vm st s; same_screen s s'\<rbrakk> \<Longrightarrow> tank its vm st s'"
  by (simp add: tank_def same_screen_def)

lemma mapped_video [simp]: "screen_mapped (s\<lparr>video_mem := v\<rparr>) = screen_mapped s"
  using tables_only(1) [of "s\<lparr>video_mem := v\<rparr>" s True USER_VID_MEM] by (simp add: screen_mapped_def)

lemma on_screen_step:
  assumes "tank its vm st s" and "f (st\<lparr>vmem := vm\<rparr>) = Some (r, st')" and "has_items its' vm' st'"
  shows "on_screen f st s = Some (r, st', s\<lparr>video_mem := vm'\<rparr>)" and "tank its' vm' st' (s\<lparr>video_mem := vm'\<rparr>)"
  using assms by (auto simp: on_screen_def tank_def has_items_def)

text \<open>Stores into the screen change nothing that the program's other calls depend on.\<close>

lemma video_set [simp]:
  fixes s :: "'a kernel_scheme"
  shows "cur_pcb (s\<lparr>video_mem := v\<rparr>) = cur_pcb s" "user_ok (s\<lparr>video_mem := v\<rparr>) = user_ok s" "clock_at k (s\<lparr>video_mem := v\<rparr>) = clock_at k s"
    "feed i e cs (s\<lparr>video_mem := v\<rparr>) = feed i e cs s"
proof -
  let ?t = "s\<lparr>video_mem := v\<rparr>"
  show c: "cur_pcb ?t = cur_pcb s" by (simp add: cur_pcb_def)
  show u: "user_ok ?t = user_ok s"
    by (simp add: user_ok_def c) (simp add: calls_ok_def procs_ok_def exec_screen_ok_def displayed_def visible_ok_def saved_ok_def exec_ok_def
        get_curr_exec_term_def get_cur_term_def)
  show "clock_at k ?t = clock_at k s" by (simp add: clock_at_def u c)
  have "fs_wf ?t = fs_wf s" "file_content ?t j = file_content s j" for j by (rule files_only; simp)+
  then show "feed i e cs ?t = feed i e cs s" by (simp add: feed_def open_at_def c dentries_wf_def dentries_def)
qed

lemma source_video [simp]: "source i e c eof cs (s\<lparr>video_mem := v\<rparr>) = source i e c eof cs s" for s :: "'a kernel_scheme"
  by (simp add: source_def)

definition fits_screen :: "place list \<Rightarrow> bool" where
  "fits_screen ps \<longleftrightarrow> (\<forall>(l, a, b) \<in> set ps. 0 < l \<and> l < 80 * 25)"

definition place_at :: "nat \<Rightarrow> nat \<Rightarrow> byte \<Rightarrow> byte \<Rightarrow> place list" where
  "place_at row col a b = (if a = SPC \<and> b = SPC then [] else [(row * 80 + col + 40, a, b)])"

fun row_places :: "nat \<Rightarrow> nat \<Rightarrow> byte list \<Rightarrow> byte list \<Rightarrow> place list" where
  "row_places row col [] [] = []"
| "row_places row col (a # l0) [] = place_at row col a SPC @ row_places row (Suc col) l0 []"
| "row_places row col [] (b # l1) = place_at row col SPC b @ row_places row (Suc col) [] l1"
| "row_places row col (a # l0) (b # l1) = place_at row col a b @ row_places row (Suc col) l0 l1"

lemma row_places_step:
  assumes "l0 \<noteq> [] \<or> l1 \<noteq> []"
  shows "row_places row col l0 l1 = place_at row col (if l0 = [] then SPC else hd l0) (if l1 = [] then SPC else hd l1) @
    row_places row (Suc col) (tl l0) (tl l1)"
  using assms by (cases l0; cases l1) simp_all

lemma item_count: "has_items its vm st \<Longrightarrow> \<exists>is. blink_inv st is \<and> items st is = its \<and> length is = length its"
  by (auto simp: has_items_def items_def)

lemma add_place_adds:
  fixes s :: "'a kernel_scheme"
  assumes "tank its vm st s" and "on_length bs = 15" and "off_length bs = 15"
    and "ps = place_at row col (blank c0) (blank c1)" and "fits_screen ps" and "length its + length ps \<le> POOL"
  shows "\<exists>st'. add_place bs (int row) (int col) c0 c1 st s = Some (st', s\<lparr>video_mem := fold show_place ps vm\<rparr>) \<and>
    tank (rev (map place_struct ps) @ its) (fold show_place ps vm) st' (s\<lparr>video_mem := fold show_place ps vm\<rparr>)"
proof (cases "ps = []")
  case True
  then have "blank c0 = SPC \<and> blank c1 = SPC" using assms(4) by (simp add: place_at_def split: if_splits)
  then have "add_place bs (int row) (int col) c0 c1 st s = Some (st, s)" by (auto simp: add_place_def blank_def split: if_splits)
  moreover have "s\<lparr>video_mem := vm\<rparr> = s" using assms(1) by (simp add: tank_def)
  ultimately show ?thesis using assms(1) True by simp
next
  case False
  let ?l = "row * 80 + col + 40"
  have ps: "ps = [(?l, blank c0, blank c1)]" "\<not> (blank c0 = SPC \<and> blank c1 = SPC)" using False assms(4) by (simp_all add: place_at_def split: if_splits)
  let ?b = "bs\<lparr>on_char := blank c0, off_char := blank c1, location := of_int (int row * 80 + int col + 40)\<rparr>"
  have l: "location ?b = of_nat ?l" by simp
  have lt: "?l < 80 * 25" using assms(5) ps(1) by (simp add: fits_screen_def)
  then have u: "unat (of_nat ?l :: u16) = ?l" by (simp add: unsigned_of_nat take_bit_nat_eq_self del: of_nat_add of_nat_mult)
  have "unat (0 :: u16) < unat (location ?b)" "unat (location ?b) < unat (80 * 25 :: u16)" using lt unfolding l u by simp_all
  then have b: "0 < location ?b" "location ?b < 80 * 25" by (simp_all only: word_less_nat_alt)
  let ?st = "st\<lparr>vmem := vm\<rparr>"
  note h = tank_items [OF assms(1)]
  obtain "is" where i: "blink_inv ?st is" "items ?st is = its" "length is = length its" using item_count [OF h] by blast
  have "length is < POOL" using i(3) assms(6) ps(1) by simp
  then obtain k st' where st': "mp1_ioctl_add ?b ?st = Some (0, st')" "blink_inv st' (k # is)"
    "items st' (k # is) = ?b\<lparr>status := 1, countdown := on_length ?b, next_blink := None\<rparr> # items ?st is"
    "vmem st' = (vmem ?st)(2 * uint (location ?b) := on_char ?b)"
    using add_item [OF i(1) b] by blast
  have "?b\<lparr>status := 1, countdown := on_length ?b, next_blink := None\<rparr> = place_struct (?l, blank c0, blank c1)"
    using assms(2,3) by (cases bs) (simp add: place_struct_def)
  moreover have "uint (location ?b) = int ?l" using u unfolding l by (metis uint_nat)
  ultimately have items: "has_items (rev (map place_struct ps) @ its) (fold show_place ps vm) st'"
    using st'(2-4) i(2) ps(1) by (auto simp: has_items_def show_place_def)
  have add: "mp1_ioctl (Struct ?b) RTC_ADD ?st = Some (0, st')" using st'(1) by (simp add: mp1_ioctl_def ioctl_commands)
  note on = on_screen_step [OF assms(1), where f = "mp1_ioctl (Struct ?b) RTC_ADD", OF add items]
  have "c0 \<noteq> SPC \<and> c0 \<noteq> NL \<or> c1 \<noteq> SPC \<and> c1 \<noteq> NL" using ps(2) by (auto simp: blank_def split: if_splits)
  then have "add_place bs (int row) (int col) c0 c1 st s = Some (st', s\<lparr>video_mem := fold show_place ps vm\<rparr>)"
    using on(1) by (simp add: add_place_def Let_def)
  then show ?thesis using on(2) by blast
qed

text \<open>The kernel as the frames are read: the program can go on, and the clock is open as before.\<close>

definition reading :: "nat \<Rightarrow> 'a kernel_scheme \<Rightarrow> 'a kernel_scheme \<Rightarrow> bool" where
  "reading k s s' \<longleftrightarrow> user_ok s' \<and> (clock_at k s \<longrightarrow> clock_at k s')"

lemma same_but_reading:
  assumes "same_but i s s'" and "k \<noteq> i"
  shows "reading k s s'" "j \<noteq> i \<Longrightarrow> source j e c eof cs s \<Longrightarrow> source j e c eof cs s'" "same_screen s s'"
  using assms by (auto simp: same_but_def reading_def source_def)

lemma reading_trans: "\<lbrakk>reading k s t; reading k t u\<rbrakk> \<Longrightarrow> reading k s u"
  by (simp add: reading_def)

definition files_apart :: "nat \<Rightarrow> nat \<Rightarrow> nat \<Rightarrow> bool" where
  "files_apart k i0 i1 \<longleftrightarrow> 2 \<le> i0 \<and> 2 \<le> i1 \<and> i0 < MAX_FILE \<and> i1 < MAX_FILE \<and> i0 \<noteq> i1 \<and> k \<noteq> i0 \<and> k \<noteq> i1"

definition ends_after :: "byte \<Rightarrow> bool \<Rightarrow> byte list \<Rightarrow> bool" where
  "ends_after c eof cs \<longleftrightarrow> eof \<or> c \<noteq> NL \<and> NL \<notin> set cs"

lemma two_chars:
  fixes s :: "'a kernel_scheme"
  assumes "user_ok s" and "files_apart k i0 i1" and "length (file_name d) = 33" and "source i0 e0 c0 eof0 cs0 s" and "source i1 e1 c1 eof1 cs1 s"
    and "l0 = line_left c0 cs0" and "l1 = line_left c1 cs1"
  obtains c0' eof0' cs0' c1' eof1' cs1' s1 s2 where
    "next_char d (int i0) c0 eof0 s = Some (c0', eof0', s1)" "next_char d (int i1) c1 eof1 s1 = Some (c1', eof1', s2)"
    "source i0 e0 c0' eof0' cs0' s2" "source i1 e1 c1' eof1' cs1' s2" "reading k s s2" "same_screen s s2"
    "c0' = NL \<longleftrightarrow> l0 = []" "c1' = NL \<longleftrightarrow> l1 = []" "blank c0' = (if l0 = [] then SPC else hd l0)" "blank c1' = (if l1 = [] then SPC else hd l1)"
    "line_left c0' cs0' = tl l0" "line_left c1' cs1' = tl l1" "after_line c0' cs0' = after_line c0 cs0" "after_line c1' cs1' = after_line c1 cs1"
    "ends_after c0' eof0' cs0' = ends_after c0 eof0 cs0" "ends_after c1' eof1' cs1' = ends_after c1 eof1 cs1"
proof -
  have a: "2 \<le> i0" "2 \<le> i1" "i0 \<noteq> i1" "k \<noteq> i0" "k \<noteq> i1" using assms(2) by (simp_all add: files_apart_def)
  obtain c0' eof0' cs0' s1 where 1: "next_char d (int i0) c0 eof0 s = Some (c0', eof0', s1)" "source i0 e0 c0' eof0' cs0' s1" "same_but i0 s s1"
    "l0 = [] \<longrightarrow> c0' = NL" "l0 \<noteq> [] \<longrightarrow> c0' \<noteq> NL \<and> c0' = hd l0" "line_left c0' cs0' = tl l0" "after_line c0' cs0' = after_line c0 cs0"
    "ends_after c0' eof0' cs0' = ends_after c0 eof0 cs0"
    using next_char_reads [OF assms(1,4) a(1) assms(3)] unfolding assms(6) ends_after_def by blast
  have s1: "user_ok s1" "source i1 e1 c1 eof1 cs1 s1" using 1(3) same_but_reading(2) [OF 1(3) a(4) _ assms(5)] a(3) by (auto simp: same_but_def)
  obtain c1' eof1' cs1' s2 where 2: "next_char d (int i1) c1 eof1 s1 = Some (c1', eof1', s2)" "source i1 e1 c1' eof1' cs1' s2" "same_but i1 s1 s2"
    "l1 = [] \<longrightarrow> c1' = NL" "l1 \<noteq> [] \<longrightarrow> c1' \<noteq> NL \<and> c1' = hd l1" "line_left c1' cs1' = tl l1" "after_line c1' cs1' = after_line c1 cs1"
    "ends_after c1' eof1' cs1' = ends_after c1 eof1 cs1"
    using next_char_reads [OF s1 a(2) assms(3)] unfolding assms(7) ends_after_def by blast
  show thesis
    by (rule that [OF 1(1) 2(1) same_but_reading(2) [OF 2(3) a(5,3) 1(2)] 2(2)
          reading_trans [OF same_but_reading(1) [OF 1(3) a(4)] same_but_reading(1) [OF 2(3) a(5)]]
          same_screen_trans [OF same_but_reading(3) [OF 1(3) a(4)] same_but_reading(3) [OF 2(3) a(5)]]])
      (use 1(4-8) 2(4-8) in \<open>auto simp: blank_def\<close>)
qed

lemma frame_row_adds:
  fixes s :: "'a kernel_scheme"
  assumes "user_ok s" and "files_apart k i0 i1" and "length (file_name d) = 33" and "source i0 e0 c0 eof0 cs0 s" and "source i1 e1 c1 eof1 cs1 s"
    and "on_length bs = 15" and "off_length bs = 15" and "tank its vm st s"
    and "ps = row_places row col (line_left c0 cs0) (line_left c1 cs1)" and "fits_screen ps" and "length its + length ps \<le> POOL"
  shows "\<exists>st' s'. frame_row d bs (int i0) (int i1) (int row) (int col) c0 c1 eof0 eof1 st s =
      Some (ends_after c0 eof0 cs0, ends_after c1 eof1 cs1, st', s') \<and> reading k s s' \<and>
    source i0 e0 NL (ends_after c0 eof0 cs0) (after_line c0 cs0) s' \<and> source i1 e1 NL (ends_after c1 eof1 cs1) (after_line c1 cs1) s' \<and>
    tank (rev (map place_struct ps) @ its) (fold show_place ps vm) st' s'"
  using assms(1,4,5,8-11)
proof (induction "length (line_left c0 cs0) + length (line_left c1 cs1)" arbitrary: c0 c1 eof0 eof1 cs0 cs1 col st its vm ps s rule: less_induct)
  case less
  let ?l0 = "line_left c0 cs0" and ?l1 = "line_left c1 cs1"
  obtain c0' eof0' cs0' c1' eof1' cs1' s1 s2 where n:
    "next_char d (int i0) c0 eof0 s = Some (c0', eof0', s1)" "next_char d (int i1) c1 eof1 s1 = Some (c1', eof1', s2)"
    "source i0 e0 c0' eof0' cs0' s2" "source i1 e1 c1' eof1' cs1' s2" "reading k s s2" "same_screen s s2"
    "c0' = NL \<longleftrightarrow> ?l0 = []" "c1' = NL \<longleftrightarrow> ?l1 = []" "blank c0' = (if ?l0 = [] then SPC else hd ?l0)" "blank c1' = (if ?l1 = [] then SPC else hd ?l1)"
    "line_left c0' cs0' = tl ?l0" "line_left c1' cs1' = tl ?l1" "after_line c0' cs0' = after_line c0 cs0" "after_line c1' cs1' = after_line c1 cs1"
    "ends_after c0' eof0' cs0' = ends_after c0 eof0 cs0" "ends_after c1' eof1' cs1' = ends_after c1 eof1 cs1"
    by (rule two_chars [OF less.prems(1) assms(2,3) less.prems(2,3) refl refl])
  show ?case
  proof (cases "?l0 = [] \<and> ?l1 = []")
    case True
    then have "frame_row d bs (int i0) (int i1) (int row) (int col) c0 c1 eof0 eof1 st s = Some (eof0', eof1', st, s2)"
      using n(1,2,7,8) by (subst frame_row.simps) simp
    moreover have "eof0' = ends_after c0 eof0 cs0" "eof1' = ends_after c1 eof1 cs1" "cs0' = after_line c0 cs0" "cs1' = after_line c1 cs1"
      using n(7,8,13-16) True by (simp_all add: ends_after_def after_line_def)
    ultimately show ?thesis using True n(3-8) tank_same [OF less.prems(4) n(6)] less.prems(5) by simp
  next
    case False
    define p where "p = place_at row col (blank c0') (blank c1')"
    define r where "r = row_places row (Suc col) (tl ?l0) (tl ?l1)"
    have ps: "ps = p @ r" using row_places_step [of ?l0 ?l1 row col] False n(9,10) less.prems(5) unfolding p_def r_def by simp
    define s3 where "s3 = s2\<lparr>video_mem := fold show_place p vm\<rparr>"
    obtain st1 where st1: "add_place bs (int row) (int col) c0' c1' st s2 = Some (st1, s3)"
      "tank (rev (map place_struct p) @ its) (fold show_place p vm) st1 s3"
      using add_place_adds [OF tank_same [OF less.prems(4) n(6)] assms(6,7) p_def] less.prems(6,7) ps by (auto simp: fits_screen_def s3_def)
    have s3: "source i0 e0 c0' eof0' cs0' s3" "source i1 e1 c1' eof1' cs1' s3" "reading k s s3"
      using n(3-5) by (simp_all add: s3_def reading_def)
    have "\<exists>st' s'. frame_row d bs (int i0) (int i1) (int row) (int (Suc col)) c0' c1' eof0' eof1' st1 s3 =
        Some (ends_after c0' eof0' cs0', ends_after c1' eof1' cs1', st', s') \<and> reading k s3 s' \<and>
      source i0 e0 NL (ends_after c0' eof0' cs0') (after_line c0' cs0') s' \<and> source i1 e1 NL (ends_after c1' eof1' cs1') (after_line c1' cs1') s' \<and>
      tank (rev (map place_struct r) @ rev (map place_struct p) @ its) (fold show_place r (fold show_place p vm)) st' s'"
    proof (rule less.hyps [OF _ _ s3(1,2) st1(2)])
      show "length (line_left c0' cs0') + length (line_left c1' cs1') < length ?l0 + length ?l1"
        using False n(11,12) by (cases ?l0; cases ?l1) auto
    qed (use s3(3) n(11,12) less.prems(6,7) ps in \<open>auto simp: reading_def r_def fits_screen_def\<close>)
    then obtain st' s' where t: "frame_row d bs (int i0) (int i1) (int row) (int (Suc col)) c0' c1' eof0' eof1' st1 s3 =
        Some (ends_after c0 eof0 cs0, ends_after c1 eof1 cs1, st', s')" "reading k s3 s'"
      "source i0 e0 NL (ends_after c0 eof0 cs0) (after_line c0 cs0) s'" "source i1 e1 NL (ends_after c1 eof1 cs1) (after_line c1 cs1) s'"
      "tank (rev (map place_struct ps) @ its) (fold show_place ps vm) st' s'"
      unfolding n(13-16) ps by auto
    have "frame_row d bs (int i0) (int i1) (int row) (int col) c0 c1 eof0 eof1 st s =
        frame_row d bs (int i0) (int i1) (int row) (int (Suc col)) c0' c1' eof0' eof1' st1 s3"
      using n(1,2,7,8) False st1(1) by (subst frame_row.simps) (auto simp: add.commute)
    then show ?thesis using t reading_trans [OF s3(3) t(2)] by auto
  qed
qed

section \<open>All rows\<close>

function text_rows :: "byte list \<Rightarrow> byte list list" where
  "text_rows cs = takeWhile (\<lambda>c. c \<noteq> NL) cs # (if NL \<in> set cs then text_rows (tl (dropWhile (\<lambda>c. c \<noteq> NL) cs)) else [])"
  by pat_completeness auto
termination
proof (relation "measure length")
  fix cs :: "byte list"
  assume "NL \<in> set cs"
  then show "(tl (dropWhile (\<lambda>c. c \<noteq> NL) cs), cs) \<in> measure length"
    using length_dropWhile_le [of "\<lambda>c. c \<noteq> NL" cs] by (cases cs) (auto simp: le_imp_less_Suc)
qed simp

declare text_rows.simps [simp del]

fun rows_places :: "nat \<Rightarrow> byte list list \<Rightarrow> byte list list \<Rightarrow> place list" where
  "rows_places row [] [] = []"
| "rows_places row (l0 # r0) [] = row_places row 0 l0 [] @ rows_places (Suc row) r0 []"
| "rows_places row [] (l1 # r1) = row_places row 0 [] l1 @ rows_places (Suc row) [] r1"
| "rows_places row (l0 # r0) (l1 # r1) = row_places row 0 l0 l1 @ rows_places (Suc row) r0 r1"

lemma rows_places_step:
  assumes "r0 \<noteq> [] \<or> r1 \<noteq> []"
  shows "rows_places row r0 r1 = row_places row 0 (if r0 = [] then [] else hd r0) (if r1 = [] then [] else hd r1) @ rows_places (Suc row) (tl r0) (tl r1)"
  using assms by (cases r0; cases r1) simp_all

text \<open>The rows that are left of a file at the beginning of a row.\<close>

definition rows_left :: "bool \<Rightarrow> byte list \<Rightarrow> byte list list" where
  "rows_left eof cs = (if eof then [] else text_rows cs)"

lemma rows_left_step:
  assumes "c = NL \<longleftrightarrow> eof" and "eof \<longrightarrow> cs = []"
  shows "line_left c cs = (if rows_left eof cs = [] then [] else hd (rows_left eof cs))"
    "rows_left (ends_after c eof cs) (after_line c cs) = tl (rows_left eof cs)"
  using assms text_rows.simps [of cs] by (auto simp: line_left_def rows_left_def ends_after_def after_line_def)

lemma close_any:
  fixes s :: "'a kernel_scheme"
  assumes "user_ok s" and "2 \<le> i" and "i < MAX_FILE"
  shows "\<exists>r s'. sys_close (int i) s = Some (r, s') \<and> same_but i s s'"
proof -
  have ok: "procs_ok s" "pcb_ok (cur_pcb s)" using assms(1) procs_ok_cur(2) by (auto simp: user_ok_def calls_ok_def)
  have "same_but i s (set_cur_pcb (closed_fd i (cur_pcb s)) s)"
    by (rule same_but_set [OF assms(1) std_kept_fds(3) [OF ok(2) assms(2,3)]]) (simp_all add: closed_fd_def)
  then show ?thesis using sys_close_used [OF ok(1) assms(2,3)] same_but_refl [OF assms(1)] by simp
qed

lemma next_line_closes:
  fixes s :: "'a kernel_scheme"
  assumes "user_ok s" and "2 \<le> i" and "i < MAX_FILE" and "source i e NL eof cs s" and "k \<noteq> i" and "j \<noteq> i"
  shows "\<exists>s'. next_line (int i) eof s = Some (if eof then NL else 48, s') \<and> source i e (if eof then NL else 48) eof cs s' \<and> reading k s s' \<and> same_screen s s' \<and>
    (\<forall>e' c eof' cs'. source j e' c eof' cs' s \<longrightarrow> source j e' c eof' cs' s')"
proof (cases eof)
  case True
  obtain r s' where "sys_close (int i) s = Some (r, s')" "same_but i s s'" using close_any [OF assms(1-3)] by blast
  then have "next_line (int i) eof s = Some (if eof then NL else 48, s')" "same_but i s s'" using True by (simp_all add: next_line_def)
  moreover have "source i e (if eof then NL else 48) eof cs s'" using True assms(4) by (simp add: source_def)
  ultimately show ?thesis using same_but_reading [OF _ assms(5)] assms(6) by blast
qed (use assms(1,4) in \<open>simp add: next_line_def source_def reading_def same_screen_def\<close>)

lemma frame_rows_add:
  fixes s :: "'a kernel_scheme"
  assumes "user_ok s" and "files_apart k i0 i1" and "length (file_name d) = 33" and "source i0 e0 c0 eof0 cs0 s" and "source i1 e1 c1 eof1 cs1 s"
    and "on_length bs = 15" and "off_length bs = 15" and "tank its vm st s" and "c0 = NL \<longleftrightarrow> eof0" and "c1 = NL \<longleftrightarrow> eof1"
    and "ps = rows_places row (rows_left eof0 cs0) (rows_left eof1 cs1)" and "fits_screen ps" and "length its + length ps \<le> POOL"
  shows "\<exists>st' s'. frame_rows d bs (int i0) (int i1) (int row) c0 c1 eof0 eof1 st s = Some (st', s') \<and> reading k s s' \<and>
    tank (rev (map place_struct ps) @ its) (fold show_place ps vm) st' s'"
  using assms(1,4,5,8-13)
proof (induction "length (rows_left eof0 cs0) + length (rows_left eof1 cs1)" arbitrary: c0 c1 eof0 eof1 cs0 cs1 row st its vm ps s rule: less_induct)
  case less
  let ?r0 = "rows_left eof0 cs0" and ?r1 = "rows_left eof1 cs1"
  have a: "2 \<le> i0" "2 \<le> i1" "i0 < MAX_FILE" "i1 < MAX_FILE" "i0 \<noteq> i1" "k \<noteq> i0" "k \<noteq> i1" using assms(2) by (simp_all add: files_apart_def)
  have ends: "?r0 = [] \<longleftrightarrow> eof0" "?r1 = [] \<longleftrightarrow> eof1" by (simp_all add: rows_left_def text_rows.simps)
  show ?case
  proof (cases "eof0 \<and> eof1")
    case True
    then show ?thesis using less.prems ends by (subst frame_rows.simps) (simp add: reading_def)
  next
    case False
    note step0 = rows_left_step [OF less.prems(5)] and step1 = rows_left_step [OF less.prems(6)]
    define e0' where "e0' = ends_after c0 eof0 cs0"
    define e1' where "e1' = ends_after c1 eof1 cs1"
    have c: "eof0 \<longrightarrow> cs0 = []" "eof1 \<longrightarrow> cs1 = []" using less.prems(2,3) by (auto simp: source_def)
    define p where "p = row_places row 0 (line_left c0 cs0) (line_left c1 cs1)"
    define r where "r = rows_places (Suc row) (tl ?r0) (tl ?r1)"
    have ps: "ps = p @ r"
      using rows_places_step [of ?r0 ?r1 row] False ends step0(1) [OF c(1)] step1(1) [OF c(2)] less.prems(7) unfolding p_def r_def by simp
    obtain st1 s1 where 1: "frame_row d bs (int i0) (int i1) (int row) 0 c0 c1 eof0 eof1 st s = Some (e0', e1', st1, s1)" "reading k s s1"
      "source i0 e0 NL e0' (after_line c0 cs0) s1" "source i1 e1 NL e1' (after_line c1 cs1) s1"
      "tank (rev (map place_struct p) @ its) (fold show_place p vm) st1 s1"
      using frame_row_adds [OF less.prems(1) assms(2,3) less.prems(2,3) assms(6,7) less.prems(4), of p row 0] less.prems(8,9) ps
      unfolding p_def e0'_def e1'_def by (auto simp: fits_screen_def)
    obtain s2 where 2: "next_line (int i0) e0' s1 = Some (if e0' then NL else 48, s2)" "source i0 e0 (if e0' then NL else 48) e0' (after_line c0 cs0) s2"
      "reading k s1 s2" "source i1 e1 NL e1' (after_line c1 cs1) s2" "same_screen s1 s2"
      using next_line_closes [OF _ a(1,3) 1(3) a(6) a(5) [symmetric]] 1(2,4) by (auto simp: reading_def)
    obtain s3 where 3: "next_line (int i1) e1' s2 = Some (if e1' then NL else 48, s3)" "source i1 e1 (if e1' then NL else 48) e1' (after_line c1 cs1) s3"
      "reading k s2 s3" "source i0 e0 (if e0' then NL else 48) e0' (after_line c0 cs0) s3" "same_screen s2 s3"
      using next_line_closes [OF _ a(2,4) 2(4) a(7,5)] 2(2,3) unfolding reading_def by blast
    have left: "rows_left e0' (after_line c0 cs0) = tl ?r0" "rows_left e1' (after_line c1 cs1) = tl ?r1"
      using step0(2) [OF c(1)] step1(2) [OF c(2)] by (simp_all add: e0'_def e1'_def)
    have "\<exists>st' s'. frame_rows d bs (int i0) (int i1) (int (Suc row)) (if e0' then NL else 48) (if e1' then NL else 48) e0' e1' st1 s3 = Some (st', s') \<and>
      reading k s3 s' \<and> tank (rev (map place_struct r) @ rev (map place_struct p) @ its) (fold show_place r (fold show_place p vm)) st' s'"
    proof (rule less.hyps [OF _ _ 3(4,2) tank_same [OF 1(5) same_screen_trans [OF 2(5) 3(5)]]])
      show "length (rows_left e0' (after_line c0 cs0)) + length (rows_left e1' (after_line c1 cs1)) < length ?r0 + length ?r1"
        using left False ends by (cases ?r0; cases ?r1) auto
    qed (use 3(3) left less.prems(8,9) ps in \<open>auto simp: reading_def r_def fits_screen_def\<close>)
    then obtain st' s' where t: "frame_rows d bs (int i0) (int i1) (int (Suc row)) (if e0' then NL else 48) (if e1' then NL else 48) e0' e1' st1 s3 = Some (st', s')"
      "reading k s3 s'" "tank (rev (map place_struct ps) @ its) (fold show_place ps vm) st' s'"
      unfolding ps by auto
    have "frame_rows d bs (int i0) (int i1) (int row) c0 c1 eof0 eof1 st s = Some (st', s')"
      using False 1(1) 2(1) 3(1) t(1) by (subst frame_rows.simps) (auto simp: add.commute)
    then show ?thesis using t(3) reading_trans [OF reading_trans [OF reading_trans [OF 1(2) 2(3)] 3(3)] t(2)] by blast
  qed
qed

section \<open>Opening the frames\<close>

lemma opened_other:
  assumes "pcb_ok b" and "i \<noteq> j" and "j < MAX_FILE" and "length (chars f) < 32"
    and "drop (32 * i) (pcb_names b) = n @ 0 # z" and "length n < 32"
  shows "\<exists>z'. drop (32 * i) (pcb_names (opened f e j b)) = n @ 0 # z'"
proof (cases "i < j")
  case True
  let ?rest = "chars f @ 0 # drop (32 * j + Suc (length (chars f))) (pcb_names b)"
  have len: "32 * i \<le> 32 * j" "32 * j \<le> length (pcb_names b)" using True assms(1,3) by (simp_all add: pcb_ok_def)
  have "drop (32 * i) (take (32 * j) (pcb_names b)) = take (32 * j - 32 * i) (n @ 0 # z)" using assms(5) by (simp add: drop_take)
  also have "\<dots> = n @ 0 # take (32 * j - 32 * i - length n - 1) z" using True assms(6) by (cases "32 * j - 32 * i - length n") auto
  finally show ?thesis using len by (simp add: opened_def)
next
  case False
  then have "32 * j + Suc (length (chars f)) \<le> 32 * i" using assms(2,4) by simp
  then have "drop (32 * i) (pcb_names (opened f e j b)) = drop (32 * i) (pcb_names b)"
    using assms(1,3) by (simp add: opened_def pcb_ok_def drop_Cons' le_diff_conv2)
  then show ?thesis using assms(5) by simp
qed

lemma opened_feed:
  fixes s :: "'a kernel_scheme"
  assumes "user_ok s" and "names_file fname e s" and "fs_wf s" and "inode e < num_inodes s" and "2 \<le> i" and "i < MAX_FILE"
    and "length (file_content s (inode e)) < BLOCK_SIZE"
  shows "feed i e (file_content s (inode e)) (set_cur_pcb (opened fname e i (cur_pcb s)) s)"
proof -
  have ok: "procs_ok s" "pcb_ok (cur_pcb s)" using assms(1) procs_ok_cur(2) by (auto simp: user_ok_def calls_ok_def)
  have "length (chars fname) < 32" using assms(2) by (simp add: names_file_def names_entry_def)
  note u = user_ok_set [OF assms(1) std_kept_fds(1) [OF ok(2) assms(5,6) this]]
  have "fd_position (FDs_array (cur_pcb (set_cur_pcb (opened fname e i (cur_pcb s)) s)) ! i) = 0"
    using u(2) assms(6) ok(2) by (simp add: opened_def pcb_ok_def)
  then show ?thesis using opened_at [OF ok(1) assms(2-4,6)] assms(7) by (auto simp: feed_def intro!: exI [of _ 0])
qed

lemma opened_keeps_feed:
  fixes s :: "'a kernel_scheme"
  assumes "user_ok s" and "feed i e cs s" and "i \<noteq> j" and "2 \<le> j" and "j < MAX_FILE" and "length (chars f) < 32"
    and "drop (32 * i) (pcb_names (cur_pcb s)) = n @ 0 # z" and "length n < 32" and "0 \<notin> set n"
  shows "feed i e cs (set_cur_pcb (opened f e' j (cur_pcb s)) s)"
proof -
  have ok: "procs_ok s" "pcb_ok (cur_pcb s)" using assms(1) procs_ok_cur(2) by (auto simp: user_ok_def calls_ok_def)
  note u = user_ok_set [OF assms(1) std_kept_fds(1) [OF ok(2) assms(4-6)]]
  obtain z' where z': "drop (32 * i) (pcb_names (opened f e' j (cur_pcb s))) = n @ 0 # z'"
    using opened_other [OF ok(2) assms(3,5-8)] by blast
  have "chars (n @ 0 # z) = n" "chars (n @ 0 # z') = n" using assms(9) by simp_all
  moreover have "FDs_array (opened f e' j (cur_pcb s)) ! i = FDs_array (cur_pcb s) ! i" using assms(3) by (simp add: opened_def)
  ultimately show ?thesis using assms(2,7) z' u(2) by (simp add: feed_def open_at_def)
qed

lemma open_keeps_clock:
  fixes s :: "'a kernel_scheme"
  assumes "clock_at k s" and "k \<noteq> j" and "std_kept (cur_pcb s) (opened f e j (cur_pcb s))"
  shows "clock_at k (set_cur_pcb (opened f e j (cur_pcb s)) s)"
proof -
  have "user_ok s" using assms(1) by (simp add: clock_at_def)
  note u = user_ok_set [OF this assms(3)]
  have "rtc_lock (set_cur_pcb (opened f e j (cur_pcb s)) s) = rtc_lock s" by (simp add: set_cur_pcb_def)
  then show ?thesis using assms(1,2) u(1,2) by (simp add: clock_at_def opened_def)
qed

text \<open>The two frames, as files of the kernel.\<close>

definition frame_files :: "dentry \<Rightarrow> dentry \<Rightarrow> 'a kernel_scheme \<Rightarrow> bool" where
  "frame_files e0 e1 s \<longleftrightarrow> names_file (cstr ''frame0.txt'') e0 s \<and> names_file (cstr ''frame1.txt'') e1 s \<and> fs_wf s \<and>
     inode e0 < num_inodes s \<and> inode e1 < num_inodes s \<and> length (file_content s (inode e0)) < BLOCK_SIZE \<and> length (file_content s (inode e1)) < BLOCK_SIZE"

lemma frame_files_pcb [simp]: "frame_files e0 e1 (set_cur_pcb b s) = frame_files e0 e1 s"
  by (simp add: frame_files_def names_file_def)

definition frame_places :: "byte list \<Rightarrow> byte list \<Rightarrow> place list" where
  "frame_places f0 f1 = rows_places 0 (text_rows f0) (text_rows f1)"

lemma add_frames_adds:
  fixes s :: "'a kernel_scheme"
  assumes "clock_at k s" and "fd_used s \<subseteq> {k}" and "length (file_name d) = 33" and "frame_files e0 e1 s" and "tank its vm st s"
    and "ps = frame_places (file_content s (inode e0)) (file_content s (inode e1))" and "fits_screen ps" and "length its + length ps \<le> POOL"
  shows "\<exists>st' s'. add_frames d bs (cstr ''frame0.txt'') (cstr ''frame1.txt'') st s = Some (None, st', s') \<and> clock_at k s' \<and>
    tank (rev (map place_struct ps) @ its) (fold show_place ps vm) st' s'"
proof -
  have ok: "user_ok s" "procs_ok s" "pcb_ok (cur_pcb s)" using assms(1) procs_ok_cur(2) by (auto simp: clock_at_def user_ok_def calls_ok_def)
  have f: "names_file (cstr ''frame0.txt'') e0 s" "names_file (cstr ''frame1.txt'') e1 s" "fs_wf s" "inode e0 < num_inodes s" "inode e1 < num_inodes s"
    "length (file_content s (inode e0)) < BLOCK_SIZE" "length (file_content s (inode e1)) < BLOCK_SIZE"
    using assms(4) by (simp_all add: frame_files_def)
  have n: "names_entry (cstr ''frame0.txt'') e0 s" "names_entry (cstr ''frame1.txt'') e1 s" using f(1,2) by (simp_all add: names_file_def)
  have room: "\<not> {2..<MAX_FILE} \<subseteq> {k}" "\<not> {2..<MAX_FILE} \<subseteq> {k, i}" for i
  proof -
    have "card {k, i} \<le> 2" by (cases "k = i") simp_all
    then show "\<not> {2..<MAX_FILE} \<subseteq> {k, i}" using card_mono [of "{k, i}" "{2..<MAX_FILE}"] by (auto simp: MAX_FILE_def)
    then show "\<not> {2..<MAX_FILE} \<subseteq> {k}" by blast
  qed
  have "\<not> {2..<MAX_FILE} \<subseteq> fd_used s" using room(1) assms(2) by blast
  then obtain i0 where i0: "2 \<le> i0" "i0 < MAX_FILE"
    "sys_open d (cstr ''frame0.txt'') s = Some (int i0, set_cur_pcb (opened (cstr ''frame0.txt'') e0 i0 (cur_pcb s)) s)"
    "std_kept (cur_pcb s) (opened (cstr ''frame0.txt'') e0 i0 (cur_pcb s))" "i0 \<notin> fd_used s"
    using open_unused [OF ok(1) n(1) _ assms(3)] by metis
  let ?t = "set_cur_pcb (opened (cstr ''frame0.txt'') e0 i0 (cur_pcb s)) s"
  have k0: "k \<noteq> i0" using i0(5) assms(1) i0(1,2) by (auto simp: clock_at_def fd_used_def flag_defs)
  note t = user_ok_set [OF ok(1) i0(4)]
  have tclock: "clock_at k ?t" by (rule open_keeps_clock [OF assms(1) k0 i0(4)])
  have tfeed: "feed i0 e0 (file_content s (inode e0)) ?t" by (rule opened_feed [OF ok(1) f(1,3,4) i0(1,2) f(6)])
  have tn: "names_file (cstr ''frame1.txt'') e1 ?t" "names_entry (cstr ''frame1.txt'') e1 ?t" "fs_wf ?t" "inode e1 < num_inodes ?t"
    "file_content ?t (inode e1) = file_content s (inode e1)"
    using f(2,3,5) n(2) by (simp_all add: names_file_def)
  have "fd_used ?t \<subseteq> {k, i0}" using fd_used_opened [OF ok(2) i0(1,2)] assms(2) by auto
  then have "\<not> {2..<MAX_FILE} \<subseteq> fd_used ?t" using room(2) [of i0] by blast
  then obtain i1 where i1: "2 \<le> i1" "i1 < MAX_FILE"
    "sys_open d (cstr ''frame1.txt'') ?t = Some (int i1, set_cur_pcb (opened (cstr ''frame1.txt'') e1 i1 (cur_pcb ?t)) ?t)"
    "std_kept (cur_pcb ?t) (opened (cstr ''frame1.txt'') e1 i1 (cur_pcb ?t))" "i1 \<notin> fd_used ?t"
    using open_unused [OF t(1) tn(2) _ assms(3)] by metis
  let ?u = "set_cur_pcb (opened (cstr ''frame1.txt'') e1 i1 (cur_pcb ?t)) ?t"
  have "i0 \<in> fd_used ?t" using fd_used_opened [OF ok(2) i0(1,2)] by simp
  then have k1: "k \<noteq> i1" "i0 \<noteq> i1" using i1(1,2,5) tclock by (auto simp: clock_at_def fd_used_def flag_defs)
  have uclock: "clock_at k ?u" by (rule open_keeps_clock [OF tclock k1(1) i1(4)])
  have c: "length (chars (cstr ''frame0.txt'')) < 32" "0 \<notin> set (chars (cstr ''frame0.txt''))" "length (chars (cstr ''frame1.txt'')) < 32"
    by (simp_all add: cstr_chars)
  have "drop (32 * i0) (pcb_names (cur_pcb ?t)) =
      chars (cstr ''frame0.txt'') @ 0 # drop (32 * i0 + Suc (length (chars (cstr ''frame0.txt'')))) (pcb_names (cur_pcb s))"
    using opened_name [OF ok(3) i0(2) c(1)] t(2) by simp
  then have ufeed0: "feed i0 e0 (file_content s (inode e0)) ?u" by (rule opened_keeps_feed [OF t(1) tfeed k1(2) i1(1,2) c(3) _ c(1,2)])
  have ufeed1: "feed i1 e1 (file_content s (inode e1)) ?u" using opened_feed [OF t(1) tn(1,3,4) i1(1,2)] f(7) tn(5) by simp
  have apart: "files_apart k i0 i1" using i0(1,2) i1(1,2) k0 k1 by (simp add: files_apart_def)
  have "\<exists>st' s'. frame_rows d (bs\<lparr>on_length := 15, off_length := 15\<rparr>) (int i0) (int i1) (int 0) 48 48 False False st ?u = Some (st', s') \<and>
      reading k ?u s' \<and> tank (rev (map place_struct ps) @ its) (fold show_place ps vm) st' s'"
  proof (rule frame_rows_add [OF _ apart assms(3) _ _ _ _ tank_same [OF assms(5) same_screen_trans [OF same_screen_set(1) same_screen_set(1)]]])
    show "source i0 e0 48 False (file_content s (inode e0)) ?u" "source i1 e1 48 False (file_content s (inode e1)) ?u"
      using ufeed0 ufeed1 by (simp_all only: source_def if_False)
  qed (use uclock assms(6-8) in \<open>simp_all add: rows_left_def frame_places_def clock_at_def\<close>)
  then show ?thesis using i0(3) i1(3) uclock by (auto simp: add_frames_def reading_def)
qed

section \<open>Ticks\<close>

definition tick_all :: "blink list \<times> cells \<Rightarrow> blink list \<times> cells" where
  "tick_all x = (map (\<lambda>b. fst (tick b)) (fst x), fold tick_screen (fst x) (snd x))"

lemma tick_all_simps: "fst (tick_all x) = map (\<lambda>b. fst (tick b)) (fst x)" "snd (tick_all x) = fold tick_screen (fst x) (snd x)"
  by (simp_all add: tick_all_def)

lemma tasklet_ticks: "has_items its vm st \<Longrightarrow> \<exists>st'. mp1_rtc_tasklet st = Some st' \<and> has_items (fst (tick_all (its, vm))) (snd (tick_all (its, vm))) st'"
  using tasklet_items by (fastforce simp: has_items_def tick_all_def)

lemma animate_ticks:
  fixes s :: "'a kernel_scheme"
  assumes "clock_at k s" and "tank its vm st s"
  shows "\<exists>st' s'. animate n d (int k) garbage st s = Some (st', s') \<and> clock_at k s' \<and>
    tank (fst ((tick_all ^^ n) (its, vm))) (snd ((tick_all ^^ n) (its, vm))) st' s'"
  using assms
proof (induction n arbitrary: its vm st s)
  case (Suc n)
  let ?x = "tick_all (its, vm)"
  let ?s1 = "(ticked s)\<lparr>video_mem := snd ?x\<rparr>"
  obtain st1 where 1: "mp1_rtc_tasklet (st\<lparr>vmem := vm\<rparr>) = Some st1" "has_items (fst ?x) (snd ?x) st1"
    using tasklet_ticks [OF tank_items [OF Suc.prems(2)]] by blast
  have "map_option (Pair ()) (mp1_rtc_tasklet (st\<lparr>vmem := vm\<rparr>)) = Some ((), st1)" using 1(1) by simp
  note on = on_screen_step [OF tank_same [OF Suc.prems(2) same_screen_set(3)], where f = "\<lambda>st. map_option (Pair ()) (mp1_rtc_tasklet st)", OF this 1(2)]
  have "clock_at k ?s1" using Suc.prems(1) by simp
  from Suc.IH [OF this on(2)] obtain st' s' where "animate n d (int k) garbage st1 ?s1 = Some (st', s')" "clock_at k s'"
    "tank (fst ((tick_all ^^ n) ?x)) (snd ((tick_all ^^ n) ?x)) st' s'"
    by auto
  then show ?case using on(1) wait_ticks [OF Suc.prems(1)] by (simp add: funpow_swap1)
qed simp

lemma ticks_items: "fst ((tick_all ^^ n) x) = map ((\<lambda>b. fst (tick b)) ^^ n) (fst x)"
  by (induction n) (simp_all add: tick_all_def)

text \<open>A structure of the frames after \<open>n\<close> ticks: it changes every 15 ticks.\<close>

definition blinked :: "nat \<Rightarrow> place \<Rightarrow> blink" where
  "blinked n p = (place_struct p)\<lparr>countdown := of_nat (15 - n mod 15), status := if even (n div 15) then 1 else 0\<rparr>"

lemma blinked_0: "blinked 0 p = place_struct p"
  by (cases p) (simp add: blinked_def place_struct_def)

lemma countdown_step:
  "of_nat (15 - n mod 15) - 1 = (of_nat (14 - n mod 15) :: u16)" "sint (of_nat (14 - n mod 15) :: u16) > 0 \<longleftrightarrow> n mod 15 \<noteq> 14"
proof -
  have m: "n mod 15 < 15" by simp
  then have "15 - n mod 15 = Suc (14 - n mod 15)" by simp
  then show "of_nat (15 - n mod 15) - 1 = (of_nat (14 - n mod 15) :: u16)" by simp
  have small: "sint (of_nat k :: u16) = int k" if "k < 15" for k
    using that by (simp add: signed_of_nat signed_take_bit_int_eq_self)
  have "sint (of_nat (14 - n mod 15) :: u16) = int (14 - n mod 15)" by (rule small) (use m in simp)
  then show "sint (of_nat (14 - n mod 15) :: u16) > 0 \<longleftrightarrow> n mod 15 \<noteq> 14" using m by linarith
qed

lemma tick_blinked:
  "tick (blinked n p) = (blinked (Suc n) p, if n mod 15 = 14 then Some (if even (Suc n div 15) then fst (snd p) else snd (snd p)) else None)"
proof (cases "n mod 15 = 14")
  case True
  then have m: "Suc n mod 15 = 0" "Suc n div 15 = Suc (n div 15)" by (simp_all add: mod_Suc div_Suc)
  show ?thesis using True m countdown_step [of n] by (cases p) (auto simp: tick_def blinked_def place_struct_def Let_def)
next
  case False
  then have m: "Suc n mod 15 = Suc (n mod 15)" "Suc n div 15 = n div 15" by (simp_all add: mod_Suc div_Suc)
  show ?thesis using False m countdown_step [of n] by (cases p) (auto simp: tick_def blinked_def place_struct_def Let_def)
qed

lemma ticks_blinked: "((\<lambda>b. fst (tick b)) ^^ n) (place_struct p) = blinked n p"
  by (induction n) (simp_all add: blinked_0 tick_blinked)

lemma fold_tick_other: "(\<forall>b \<in> set its. 2 * uint (location b) \<noteq> a) \<Longrightarrow> fold tick_screen its vm a = vm a"
  by (induction its arbitrary: vm) (auto simp: tick_screen_def split: option.split)

lemma fold_tick_at:
  assumes "distinct (map location its)" and "b \<in> set its"
  shows "fold tick_screen its vm (2 * uint (location b)) = (case snd (tick b) of None \<Rightarrow> vm (2 * uint (location b)) | Some c \<Rightarrow> c)"
  using assms
proof (induction its arbitrary: vm)
  case (Cons x its)
  show ?case
  proof (cases "b \<in> set its")
    case True
    then have "location x \<noteq> location b" using Cons.prems(1) by (auto simp: image_iff)
    then have "uint (location x) \<noteq> uint (location b)" by (simp add: word_uint_eq_iff)
    then have "tick_screen x vm (2 * uint (location b)) = vm (2 * uint (location b))" by (simp add: tick_screen_def split: option.split)
    then show ?thesis using Cons.IH [of "tick_screen x vm"] Cons.prems(1) True by (simp split: option.split)
  next
    case False
    then have x: "x = b" using Cons.prems(2) by simp
    then have "\<forall>y \<in> set its. 2 * uint (location y) \<noteq> 2 * uint (location b)" using Cons.prems(1) by (auto simp: image_iff word_uint_eq_iff)
    moreover have "tick_screen b vm (2 * uint (location b)) = (case snd (tick b) of None \<Rightarrow> vm (2 * uint (location b)) | Some c \<Rightarrow> c)"
      by (simp add: tick_screen_def split: option.split)
    ultimately show ?thesis using fold_tick_other [of its "2 * uint (location b)" "tick_screen b vm"] x by simp
  qed
qed simp

text \<open>What the screen shows of the places after \<open>n\<close> ticks.\<close>

definition displays :: "nat \<Rightarrow> place list \<Rightarrow> cells \<Rightarrow> cells \<Rightarrow> bool" where
  "displays n ps vm vm' \<longleftrightarrow> (\<forall>(l, a, b) \<in> set ps. vm' (2 * int l) = (if even (n div 15) then a else b)) \<and>
     (\<forall>x. (\<forall>(l, a, b) \<in> set ps. x \<noteq> 2 * int l) \<longrightarrow> vm' x = vm x)"

lemma place_location: "fits_screen ps \<Longrightarrow> (l, a, b) \<in> set ps \<Longrightarrow> uint (location (blinked n (l, a, b))) = int l"
proof -
  assume "fits_screen ps" "(l, a, b) \<in> set ps"
  then have "l < 80 * 25" by (auto simp: fits_screen_def)
  then have "unat (of_nat l :: u16) = l" by (simp add: unsigned_of_nat take_bit_nat_eq_self)
  moreover have "location (blinked n (l, a, b)) = of_nat l" by (simp add: blinked_def place_struct_def)
  ultimately show "uint (location (blinked n (l, a, b))) = int l" by (simp only: uint_nat)
qed

lemma tick_shows:
  assumes "displays n ps vm vm'" and "fits_screen ps" and "distinct (map fst ps)"
  shows "displays (Suc n) ps vm (fold tick_screen (rev (map (blinked n) ps)) vm')"
proof -
  let ?its = "rev (map (blinked n) ps)"
  have "inj_on (\<lambda>p. location (blinked n p)) (set ps)"
  proof (rule inj_onI)
    fix p q
    assume pq: "p \<in> set ps" "q \<in> set ps" "location (blinked n p) = location (blinked n q)"
    then have "fst p = fst q" using place_location [OF assms(2), of "fst p" "fst (snd p)" "snd (snd p)" n]
        place_location [OF assms(2), of "fst q" "fst (snd q)" "snd (snd q)" n] by simp
    then show "p = q" using assms(3) pq(1,2) by (auto simp: distinct_map inj_on_def)
  qed
  moreover have "distinct ps" using assms(3) by (simp add: distinct_map)
  ultimately have d: "distinct (map location ?its)" by (simp add: rev_map [symmetric] comp_def distinct_map)
  have "fold tick_screen ?its vm' (2 * int l) = (if even (Suc n div 15) then a else b)" if p: "(l, a, b) \<in> set ps" for l a b
  proof -
    have "vm' (2 * int l) = (if even (n div 15) then a else b)" using assms(1) p by (auto simp: displays_def)
    moreover have "blinked n (l, a, b) \<in> set ?its" using p by (auto simp: image_iff)
    moreover have "Suc n div 15 = n div 15" if "n mod 15 \<noteq> 14" using that by (simp add: div_Suc mod_Suc)
    ultimately show ?thesis
      using fold_tick_at [OF d, of "blinked n (l, a, b)" vm'] place_location [OF assms(2) p, of n] by (auto simp: tick_blinked)
  qed
  moreover have "fold tick_screen ?its vm' x = vm x" if x: "\<forall>(l, a, b) \<in> set ps. x \<noteq> 2 * int l" for x
  proof -
    have "\<forall>b \<in> set ?its. 2 * uint (location b) \<noteq> x" using x place_location [OF assms(2)] by fastforce
    then show ?thesis using fold_tick_other [of ?its x vm'] assms(1) x unfolding displays_def by auto
  qed
  ultimately show ?thesis by (auto simp: displays_def)
qed

section \<open>The places of two frames\<close>

definition cell_of :: "byte list \<Rightarrow> nat \<Rightarrow> byte" where
  "cell_of l c = (if c < length l then l ! c else SPC)"

definition row_of :: "byte list list \<Rightarrow> nat \<Rightarrow> byte list" where
  "row_of rs r = (if r < length rs then rs ! r else [])"

text \<open>The character of a frame in row \<open>r\<close> and column \<open>c\<close>, a blank where the frame has none.\<close>

definition char_at :: "byte list \<Rightarrow> nat \<Rightarrow> nat \<Rightarrow> byte" where
  "char_at f r c = cell_of (row_of (text_rows f) r) c"

lemma cell_of_simps [simp]: "cell_of [] c = SPC" "cell_of (a # l) 0 = a" "cell_of (a # l) (Suc c) = cell_of l c"
  by (simp_all add: cell_of_def)

lemma row_of_simps [simp]: "row_of [] r = []" "row_of (l # rs) 0 = l" "row_of (l # rs) (Suc r) = row_of rs r"
  by (simp_all add: row_of_def)

lemma ex_nat_split: "(\<exists>n. P n) \<longleftrightarrow> P 0 \<or> (\<exists>n. P (Suc n))"
  by (metis not0_implies_Suc)

lemma row_places_mem:
  "(l, a, b) \<in> set (row_places row col l0 l1) \<longleftrightarrow>
    (\<exists>c. l = row * 80 + (col + c) + 40 \<and> a = cell_of l0 c \<and> b = cell_of l1 c \<and> \<not> (a = SPC \<and> b = SPC))"
proof (induction row col l0 l1 rule: row_places.induct)
  case (1 row col)
  then show ?case by auto
qed (subst ex_nat_split, (auto simp: place_at_def) [1])+

lemma rows_places_mem:
  "p \<in> set (rows_places row r0 r1) \<longleftrightarrow> (\<exists>r. p \<in> set (row_places (row + r) 0 (row_of r0 r) (row_of r1 r)))"
  by (induction row r0 r1 rule: rows_places.induct) (simp, (subst ex_nat_split, simp) [1], (subst ex_nat_split, simp) [1], (subst ex_nat_split, simp) [1])

lemma frame_places_mem:
  "(l, a, b) \<in> set (frame_places f0 f1) \<longleftrightarrow>
    (\<exists>r c. l = r * 80 + c + 40 \<and> a = char_at f0 r c \<and> b = char_at f1 r c \<and> (char_at f0 r c \<noteq> SPC \<or> char_at f1 r c \<noteq> SPC))"
  unfolding frame_places_def rows_places_mem row_places_mem char_at_def by auto

lemma row_places_facts:
  "distinct (map fst (row_places row col l0 l1)) \<and> length (row_places row col l0 l1) \<le> max (length l0) (length l1) \<and>
    (\<forall>l \<in> fst ` set (row_places row col l0 l1). row * 80 + col + 40 \<le> l \<and> l < row * 80 + col + 40 + max (length l0) (length l1))"
  by (induction row col l0 l1 rule: row_places.induct) (force simp: place_at_def)+

text \<open>A frame that fits to the right of column 40.\<close>

definition fits :: "byte list \<Rightarrow> bool" where
  "fits f \<longleftrightarrow> length (text_rows f) \<le> 25 \<and> (\<forall>l \<in> set (text_rows f). length l \<le> 40)"

lemma rows_places_facts:
  assumes "\<forall>l \<in> set r0 \<union> set r1. length l \<le> 40"
  shows "distinct (map fst (rows_places row r0 r1)) \<and> length (rows_places row r0 r1) \<le> 40 * max (length r0) (length r1) \<and>
    (\<forall>l \<in> fst ` set (rows_places row r0 r1). row * 80 + 40 \<le> l \<and> l < (row + max (length r0) (length r1)) * 80)"
  using assms
proof (induction row r0 r1 rule: rows_places.induct)
  case (2 row l0 r0)
  then show ?case using row_places_facts [of row 0 l0 "[]"] by (fastforce simp: image_Un)
next
  case (3 row l1 r1)
  then show ?case using row_places_facts [of row 0 "[]" l1] by (fastforce simp: image_Un)
next
  case (4 row l0 r0 l1 r1)
  then show ?case using row_places_facts [of row 0 l0 l1] by (fastforce simp: image_Un)
qed simp

lemma frame_places_facts:
  assumes "fits f0" and "fits f1"
  shows "distinct (map fst (frame_places f0 f1))" "fits_screen (frame_places f0 f1)" "length (frame_places f0 f1) \<le> 1000"
proof -
  have m: "max (length (text_rows f0)) (length (text_rows f1)) \<le> 25" "\<forall>l \<in> set (text_rows f0) \<union> set (text_rows f1). length l \<le> 40"
    using assms by (auto simp: fits_def)
  note f = rows_places_facts [OF m(2), of 0]
  show "distinct (map fst (frame_places f0 f1))" "length (frame_places f0 f1) \<le> 1000" using f m(1) by (auto simp: frame_places_def)
  have "40 \<le> l \<and> l < 80 * 25" if "(l, a, b) \<in> set (frame_places f0 f1)" for l a b
    using f m(1) that by (force simp: frame_places_def)
  then show "fits_screen (frame_places f0 f1)" by (fastforce simp: fits_screen_def)
qed

section \<open>The animation\<close>

lemma fold_show_other: "(\<forall>(l, a, b) \<in> set ps. x \<noteq> 2 * int l) \<Longrightarrow> fold show_place ps vm x = vm x"
  by (induction ps arbitrary: vm) (auto simp: show_place_def)

lemma show_places: "distinct (map fst ps) \<Longrightarrow> displays 0 ps vm (fold show_place ps vm)"
proof (induction ps arbitrary: vm)
  case (Cons p ps)
  obtain l a b where p: "p = (l, a, b)" by (cases p)
  define m where "m = show_place (l, a, b) vm"
  have m: "m (2 * int l) = a" "x \<noteq> 2 * int l \<Longrightarrow> m x = vm x" for x by (simp_all add: m_def show_place_def)
  have "\<forall>(l', a', b') \<in> set ps. 2 * int l \<noteq> 2 * int l'" using Cons.prems p by force
  then have "fold show_place ps m (2 * int l) = a" using fold_show_other [of ps "2 * int l" m] m(1) by simp
  then show ?case using Cons.IH [of m] Cons.prems m(2) by (simp add: displays_def p flip: m_def)
qed (simp add: displays_def)

lemma ticks_of_places:
  assumes "x = (rev (map place_struct ps), fold show_place ps vm)"
  shows "fst ((tick_all ^^ n) x) = rev (map (blinked n) ps)"
    "fits_screen ps \<Longrightarrow> distinct (map fst ps) \<Longrightarrow> displays n ps vm (snd ((tick_all ^^ n) x))"
proof -
  show f: "fst ((tick_all ^^ n) x) = rev (map (blinked n) ps)" for n
    unfolding ticks_items assms by (simp add: rev_map ticks_blinked)
  show "displays n ps vm (snd ((tick_all ^^ n) x))" if "fits_screen ps" "distinct (map fst ps)"
  proof (induction n)
    case 0
    then show ?case using show_places [OF that(2)] by (simp add: assms)
  next
    case (Suc n)
    then show ?case using tick_shows [OF Suc that] by (simp add: tick_all_simps f)
  qed
qed

lemma frames_animated:
  fixes s :: "'a kernel_scheme"
  assumes "clock_at k s" and "fd_used s \<subseteq> {k}" and "length (file_name d) = 33" and "frame_files e0 e1 s" and "tank [] vm st s"
    and "f0 = file_content s (inode e0)" and "f1 = file_content s (inode e1)" and "fits f0" and "fits f1"
  obtains st1 s1 where "add_frames d bs (cstr ''frame0.txt'') (cstr ''frame1.txt'') st s = Some (None, st1, s1)" and "clock_at k s1"
    and "tank (rev (map place_struct (frame_places f0 f1))) (fold show_place (frame_places f0 f1) vm) st1 s1"
proof -
  note p = frame_places_facts [OF assms(8,9)]
  obtain st1 s1 where "add_frames d bs (cstr ''frame0.txt'') (cstr ''frame1.txt'') st s = Some (None, st1, s1)" "clock_at k s1"
    "tank (rev (map place_struct (frame_places f0 f1)) @ []) (fold show_place (frame_places f0 f1) vm) st1 s1"
    using add_frames_adds [OF assms(1-5), of "frame_places f0 f1" bs] p(2,3) assms(6,7) by (auto simp: POOL_def)
  then show thesis using that by simp
qed

text \<open>What a screen that displays the places has in the rows and columns of the frames and elsewhere.\<close>

lemma displays_frames:
  assumes "displays n (frame_places f0 f1) vm vm'"
  shows "char_at f0 r c \<noteq> SPC \<or> char_at f1 r c \<noteq> SPC \<Longrightarrow>
      vm' (2 * (80 * int r + int c + 40)) = (if even (n div 15) then char_at f0 r c else char_at f1 r c)"
    and "\<forall>r c. char_at f0 r c \<noteq> SPC \<or> char_at f1 r c \<noteq> SPC \<longrightarrow> x \<noteq> 2 * (80 * int r + int c + 40) \<Longrightarrow> vm' x = vm x"
proof -
  assume "char_at f0 r c \<noteq> SPC \<or> char_at f1 r c \<noteq> SPC"
  then have "(r * 80 + c + 40, char_at f0 r c, char_at f1 r c) \<in> set (frame_places f0 f1)" unfolding frame_places_mem by blast
  then show "vm' (2 * (80 * int r + int c + 40)) = (if even (n div 15) then char_at f0 r c else char_at f1 r c)"
    using assms by (fastforce simp: displays_def algebra_simps)
next
  assume x: "\<forall>r c. char_at f0 r c \<noteq> SPC \<or> char_at f1 r c \<noteq> SPC \<longrightarrow> x \<noteq> 2 * (80 * int r + int c + 40)"
  have "x \<noteq> 2 * int l" if p: "(l, a, b) \<in> set (frame_places f0 f1)" for l a b
  proof -
    obtain r c where "l = r * 80 + c + 40" "char_at f0 r c \<noteq> SPC \<or> char_at f1 r c \<noteq> SPC" using p unfolding frame_places_mem by blast
    then show ?thesis using x by (simp add: algebra_simps)
  qed
  then have "\<forall>(l, a, b) \<in> set (frame_places f0 f1). x \<noteq> 2 * int l" by blast
  then show "vm' x = vm x" using assms unfolding displays_def by blast
qed

lemma map_w_pt_same:
  fixes s :: "'a kernel_scheme"
  defines "t \<equiv> map_w_pt USER_VID_MEM VIDEO s"
  shows "cur_pcb t = cur_pcb s" "user_ok t = user_ok s" "video_mem t = video_mem s" "fd_used t = fd_used s" "rtc_lock t = rtc_lock s"
    "names_rtc e t = names_rtc e s" "frame_files e0 e1 t = frame_files e0 e1 s" "file_content t i = file_content s i"
proof -
  obtain a b n where t: "t = s\<lparr>page_directory := a, user_video_page_table := b, tlb_flushes := n\<rparr>"
    unfolding t_def map_w_pt_def flush_tlb_def by auto
  show c: "cur_pcb t = cur_pcb s" "rtc_lock t = rtc_lock s" by (simp_all add: t cur_pcb_def)
  show "video_mem t = video_mem s" by (simp add: t)
  show "user_ok t = user_ok s"
    by (simp add: user_ok_def c) (simp add: t calls_ok_def procs_ok_def exec_screen_ok_def displayed_def visible_ok_def saved_ok_def exec_ok_def
        get_curr_exec_term_def get_cur_term_def)
  show "fd_used t = fd_used s" by (simp add: fd_used_def c)
  show f: "file_content t i = file_content s i" for i by (rule files_only; simp add: t)
  have "fs_wf t = fs_wf s" by (rule files_only; simp add: t)
  moreover have "dentries t = dentries s" "dentries_wf t = dentries_wf s" "num_inodes t = num_inodes s" by (simp_all add: t dentries_def dentries_wf_def)
  ultimately show "names_rtc e t = names_rtc e s" "frame_files e0 e1 t = frame_files e0 e1 s"
    by (simp_all add: names_rtc_def frame_files_def names_file_def names_entry_def f)
qed

lemma vidmap_maps: "paging_wf s \<Longrightarrow> screen_mapped (map_w_pt USER_VID_MEM VIDEO s)"
  using map_w_pt_hit [of s VIDEO USER_VID_MEM True] by (simp add: screen_mapped_def USER_VID_MEM_def VIDEO_def)

section \<open>The character that comes and goes\<close>

text \<open>Two screens that differ at most in the byte of that character.\<close>

definition same_off :: "int \<Rightarrow> cells \<Rightarrow> cells \<Rightarrow> bool" where
  "same_off a m m' \<longleftrightarrow> (\<forall>x. x \<noteq> a \<longrightarrow> m x = m' x)"

lemma same_off_refl [simp]: "same_off a m m"
  and same_off_upd: "same_off a m m' \<Longrightarrow> same_off a (m(a := c)) m'"
  by (simp_all add: same_off_def)

lemma ticks_off: "same_off a m m' \<Longrightarrow> same_off a (fold tick_screen its m) (fold tick_screen its m')"
  by (induction its arbitrary: m m') (auto simp: same_off_def tick_screen_def split: option.split)

lemma tick_off: "same_off (2 * uint (location x)) m m' \<Longrightarrow> same_off (2 * uint (location x)) (tick_screen x m) m'"
  by (simp add: same_off_def tick_screen_def split: option.split)

lemma add_im:
  assumes "has_items its vm st" and "length its < POOL"
  shows "\<exists>st' x vm'. mp1_ioctl (Struct (im_struct b)) RTC_ADD st = Some (0, st') \<and> has_items (x # its) vm' st' \<and> location x = 540 \<and> same_off 1080 vm' vm"
proof -
  obtain "is" where i: "blink_inv st is" "items st is = its" "length is < POOL" using item_count [OF assms(1)] assms(2) by auto
  have b: "0 < location (im_struct b)" "location (im_struct b) < 80 * 25" "location (im_struct b) = 540" by (simp_all add: im_struct_def)
  have "same_off 1080 ((vmem st)(2 * uint (location (im_struct b)) := c)) vm" for c
    using assms(1) b(3) by (simp add: same_off_def has_items_def)
  then show ?thesis using add_item [OF i(1) b(1,2) i(3)] i(2) b(3) by (fastforce simp: mp1_ioctl_def ioctl_commands has_items_def)
qed

lemma ticks_head:
  assumes "x' = (tick_all ^^ n) (x # its, vm)"
  shows "\<exists>y. fst x' = y # map ((\<lambda>b. fst (tick b)) ^^ n) its \<and> location y = location x"
proof -
  have "location (((\<lambda>b. fst (tick b)) ^^ n) x) = location x" by (induction n) simp_all
  then show ?thesis by (simp add: assms ticks_items)
qed

lemma ticks_with_head:
  assumes "location x = 540" and "same_off 1080 m m'"
  shows "same_off 1080 (snd ((tick_all ^^ n) (x # its, m))) (snd ((tick_all ^^ n) (its, m')))"
proof (induction n)
  case (Suc n)
  obtain y where y: "fst ((tick_all ^^ n) (x # its, m)) = y # map ((\<lambda>b. fst (tick b)) ^^ n) its" "location y = 540"
    using ticks_head [OF refl, of n x its m] assms(1) by auto
  have "same_off 1080 (tick_screen y (snd ((tick_all ^^ n) (x # its, m)))) (snd ((tick_all ^^ n) (its, m')))"
    using tick_off [of y] Suc y(2) by simp
  then show ?case using ticks_off y(1) by (simp add: tick_all_simps ticks_items)
qed (use assms(2) in simp)

lemma ticks_without:
  assumes "same_off a m m'"
  shows "same_off a (snd ((tick_all ^^ n) (its, m))) (snd ((tick_all ^^ n) (its, m')))"
  using assms by (induction n) (simp_all add: tick_all_simps ticks_items ticks_off)

text \<open>Changing a structure in front of the list, but neither its location nor its link.\<close>

lemma update_head:
  assumes "blink_inv st (i # is)" and "location b = location (blink_array st ! i)" and "next_blink b = next_blink (blink_array st ! i)"
  shows "blink_inv (st\<lparr>blink_array := (blink_array st)[i := b], vmem := vm\<rparr>) (i # is)"
    "items (st\<lparr>blink_array := (blink_array st)[i := b], vmem := vm\<rparr>) (i # is) = b\<lparr>next_blink := None\<rparr> # items st is"
proof -
  let ?arr = "blink_array st"
  have inv: "length ?arr = POOL" "chain ?arr (mp1_list_head st) (i # is)" "distinct (i # is)" "\<forall>j < POOL. location (?arr ! j) \<noteq> 0 \<longleftrightarrow> j \<in> set (i # is)"
    using assms(1) by (simp_all add: blink_inv_def)
  have i: "i < POOL" using chain_bound [OF inv(2), of i] inv(1) by simp
  have "chain (?arr[i := b]) (mp1_list_head st) (i # is)" by (rule chain_update [OF inv(2)]) (use assms(3) in simp)
  moreover have "location (?arr[i := b] ! j) = location (?arr ! j)" if "j < POOL" for j
    using that assms(2) i inv(1) by (cases "j = i") simp_all
  ultimately show "blink_inv (st\<lparr>blink_array := ?arr[i := b], vmem := vm\<rparr>) (i # is)" using inv i unfolding blink_inv_def by auto
  show "items (st\<lparr>blink_array := ?arr[i := b], vmem := vm\<rparr>) (i # is) = b\<lparr>next_blink := None\<rparr> # items st is"
    using inv(1,3) i by (auto simp: items_def nth_list_update)
qed

lemma sync_head:
  assumes "has_items (x # its) vm st" and "location x = ucast (v AND 0xFFFF)"
  shows "\<exists>r st' y vm'. mp1_ioctl (Number v) RTC_SYNC st = Some (r, st') \<and> has_items (y # its) vm' st' \<and> location y = location x \<and>
    same_off (2 * uint (location x)) vm' vm"
proof -
  obtain js where js: "blink_inv st js" "items st js = x # its" "vmem st = vm" using assms(1) by (auto simp: has_items_def)
  then obtain i "is" where i: "js = i # is" "blink_inv st (i # is)" "items st is = its" "location (blink_array st ! i) = location x"
    by (cases js) (auto simp: items_def)
  let ?arr = "blink_array st"
  have inv: "length ?arr = POOL" "chain ?arr (mp1_list_head st) (i # is)" using i(2) by (simp_all add: blink_inv_def)
  have run: "mp1_ioctl (Number v) RTC_SYNC st = mp1_ioctl_sync v st" by (simp add: mp1_ioctl_def ioctl_commands)
  have q: "mp1_find_helper ?arr (mp1_list_head st) (ucast (v AND 0xFFFF)) = Some (Some i)"
    using find_helper_chain [OF inv(2)] i(4) assms(2) by simp
  show ?thesis
  proof (cases "List.find (\<lambda>j. location (?arr ! j) = ucast (drop_bit 16 v)) (i # is)")
    case None
    then have "mp1_ioctl_sync v st = Some (-1, st)" using find_helper_chain [OF inv(2)] by (simp only: mp1_ioctl_sync_def) simp
    then have "mp1_ioctl (Number v) RTC_SYNC st = Some (-1, st)" using run by simp
    then show ?thesis using assms(1) same_off_refl by blast
  next
    case (Some j)
    then have "j \<in> set (i # is)" unfolding find_Some_iff using nth_mem by blast
    then have j: "j < POOL" "mp1_find_helper ?arr (mp1_list_head st) (ucast (drop_bit 16 v)) = Some (Some j)"
      using find_helper_chain [OF inv(2)] chain_bound [OF inv(2), of j] inv(1) Some by simp_all
    have ib: "i < POOL" using chain_bound [OF inv(2), of i] inv(1) by simp
    let ?a = "?arr ! j"
    let ?b = "(?arr ! i)\<lparr>on_length := on_length ?a, off_length := off_length ?a, countdown := countdown ?a, status := status ?a\<rparr>"
    let ?vm = "(vmem st)(2 * uint (location ?b) := (if bit (status ?b AND 1) 7 then on_char ?b else off_char ?b))"
    have "mp1_ioctl_sync v st = Some (0, st\<lparr>blink_array := ?arr[i := ?b], vmem := ?vm\<rparr>)"
      using j q ib inv(1) by (simp add: mp1_ioctl_sync_def mp1_poke_def Let_def)
    moreover have "has_items (?b\<lparr>next_blink := None\<rparr> # its) ?vm (st\<lparr>blink_array := ?arr[i := ?b], vmem := ?vm\<rparr>)"
      using update_head [OF i(2), of ?b ?vm] i(3) unfolding has_items_def by auto
    moreover have "location (?b\<lparr>next_blink := None\<rparr>) = location x" using i(4) by simp
    moreover have "same_off (2 * uint (location x)) ?vm vm" using i(4) js(3) by (simp add: same_off_def)
    ultimately show ?thesis using run by metis
  qed
qed

lemma remove_head:
  assumes "has_items (x # its) vm st" and "location x = ucast v"
  shows "\<exists>st'. mp1_ioctl (Number v) RTC_REMOVE st = Some (0, st') \<and> has_items its vm st'"
proof -
  obtain js where js: "blink_inv st js" "items st js = x # its" "vmem st = vm" using assms(1) by (auto simp: has_items_def)
  then obtain i "is" where i: "blink_inv st ([] @ i # is)" "items st is = its" "location (blink_array st ! i) = ucast v"
    using assms(2) by (cases js) (auto simp: items_def)
  have "items st [] = []" by (simp add: items_def)
  then show ?thesis using remove_item [OF i(1,3)] i(2) js(3) by (auto simp: mp1_ioctl_def ioctl_commands has_items_def)
qed

lemma started_fish:
  assumes "length (blink_array st) = POOL" and "mp1_list_head st = None" and "screen_mapped s"
  shows "tank [] (video_mem s) (st\<lparr>blink_array := map (\<lambda>b. zero_blink) (blink_array st)\<rparr>) s"
proof -
  have "blink_inv (st\<lparr>blink_array := map (\<lambda>b. zero_blink) (blink_array st)\<rparr>) []" using assms(1,2) by (simp add: blink_inv_def zero_blink_def)
  then show ?thesis using assms(3) by (auto simp: tank_def items_def)
qed

text \<open>The structures of the frames, with or without the other character in front of them, while the program waits.\<close>

lemma wait_with_head:
  fixes s :: "'a kernel_scheme"
  assumes "clock_at k s" and "tank (x # fst p) vm st s" and "location x = 540" and "same_off 1080 vm (snd p)"
  obtains st' s' x' vm' where "animate n d (int k) garbage st s = Some (st', s')" and "clock_at k s'"
    and "tank (x' # fst ((tick_all ^^ n) p)) vm' st' s'" and "location x' = 540" and "same_off 1080 vm' (snd ((tick_all ^^ n) p))"
proof -
  obtain x' where x': "fst ((tick_all ^^ n) (x # fst p, vm)) = x' # fst ((tick_all ^^ n) p)" "location x' = 540"
    using ticks_head [OF refl, of n x "fst p" vm] assms(3) by (auto simp: ticks_items)
  show thesis using that animate_ticks [OF assms(1,2), of n d garbage] x' ticks_with_head [OF assms(3,4), of n "fst p"] by auto
qed

lemma wait_without:
  fixes s :: "'a kernel_scheme"
  assumes "clock_at k s" and "tank (fst p) vm st s" and "same_off 1080 vm (snd p)"
  obtains st' s' vm' where "animate n d (int k) garbage st s = Some (st', s')" and "clock_at k s'"
    and "tank (fst ((tick_all ^^ n) p)) vm' st' s'" and "same_off 1080 vm' (snd ((tick_all ^^ n) p))"
proof -
  have "fst ((tick_all ^^ n) (fst p, vm)) = fst ((tick_all ^^ n) p)" by (simp add: ticks_items)
  then show thesis using that animate_ticks [OF assms(1,2), of n d garbage] ticks_without [OF assms(3), of n "fst p"] by auto
qed

text \<open>The part of the program after the frames are read: four waits, with the other character in the second and third of them.\<close>

lemma four_waits:
  fixes s :: "'a kernel_scheme"
  assumes "clock_at k s" and "tank (fst p) (snd p) st s" and "length (fst p) < POOL"
  obtains st1 s1 st2 s2 st3 s3 r st4 s4 st5 s5 st6 s6 st7 s7 vm' where
    "animate WAIT d (int k) garbage st s = Some (st1, s1)" "on_screen (mp1_ioctl (Struct (im_struct b)) RTC_ADD) st1 s1 = Some (0, st2, s2)"
    "animate WAIT d (int k) garbage st2 s2 = Some (st3, s3)"
    "on_screen (mp1_ioctl (Number (push_bit 16 40 OR (6 * 80 + 60))) RTC_SYNC) st3 s3 = Some (r, st4, s4)"
    "animate WAIT d (int k) garbage st4 s4 = Some (st5, s5)" "on_screen (mp1_ioctl (Number (6 * 80 + 60)) RTC_REMOVE) st5 s5 = Some (0, st6, s6)"
    "animate WAIT d (int k) garbage st6 s6 = Some (st7, s7)" "clock_at k s7"
    "tank (fst ((tick_all ^^ (4 * WAIT)) p)) vm' st7 s7" "same_off 1080 vm' (snd ((tick_all ^^ (4 * WAIT)) p))"
proof -
  let ?T = "tick_all ^^ WAIT"
  have comp: "?T (?T (?T (?T p))) = (tick_all ^^ (4 * WAIT)) p" by (simp add: numeral_eq_Suc funpow_add)
  obtain st1 s1 vm1 where 1: "animate WAIT d (int k) garbage st s = Some (st1, s1)" "clock_at k s1" "tank (fst (?T p)) vm1 st1 s1" "same_off 1080 vm1 (snd (?T p))"
    by (rule wait_without [OF assms(1,2) same_off_refl])
  have "length (fst (?T p)) < POOL" using assms(3) by (simp add: ticks_items)
  then obtain st2 x vm2 where a: "mp1_ioctl (Struct (im_struct b)) RTC_ADD (st1\<lparr>vmem := vm1\<rparr>) = Some (0, st2)" "has_items (x # fst (?T p)) vm2 st2"
    "location x = 540" "same_off 1080 vm2 vm1"
    using add_im [OF tank_items [OF 1(3)], of b] by blast
  note 2 = on_screen_step [OF 1(3), where f = "mp1_ioctl (Struct (im_struct b)) RTC_ADD", OF a(1,2)]
  have "clock_at k (s1\<lparr>video_mem := vm2\<rparr>)" "same_off 1080 vm2 (snd (?T p))" using 1(2,4) a(4) by (simp_all add: same_off_def)
  then obtain st3 s3 x3 vm3 where 3: "animate WAIT d (int k) garbage st2 (s1\<lparr>video_mem := vm2\<rparr>) = Some (st3, s3)" "clock_at k s3"
    "tank (x3 # fst (?T (?T p))) vm3 st3 s3" "location x3 = 540" "same_off 1080 vm3 (snd (?T (?T p)))"
    using wait_with_head [OF _ 2(2) a(3)] by metis
  have "location x3 = ucast ((push_bit 16 40 OR (6 * 80 + 60) :: u32) AND 0xFFFF)" using 3(4) by simp
  then obtain r st4 x4 vm4 where b: "mp1_ioctl (Number (push_bit 16 40 OR (6 * 80 + 60))) RTC_SYNC (st3\<lparr>vmem := vm3\<rparr>) = Some (r, st4)"
    "has_items (x4 # fst (?T (?T p))) vm4 st4" "location x4 = 540" "same_off 1080 vm4 vm3"
    using sync_head [OF tank_items [OF 3(3)]] 3(4) by fastforce
  note 4 = on_screen_step [OF 3(3), where f = "mp1_ioctl (Number (push_bit 16 40 OR (6 * 80 + 60))) RTC_SYNC", OF b(1,2)]
  have "clock_at k (s3\<lparr>video_mem := vm4\<rparr>)" "same_off 1080 vm4 (snd (?T (?T p)))" using 3(2,5) b(4) by (simp_all add: same_off_def)
  then obtain st5 s5 x5 vm5 where 5: "animate WAIT d (int k) garbage st4 (s3\<lparr>video_mem := vm4\<rparr>) = Some (st5, s5)" "clock_at k s5"
    "tank (x5 # fst (?T (?T (?T p)))) vm5 st5 s5" "location x5 = 540" "same_off 1080 vm5 (snd (?T (?T (?T p))))"
    using wait_with_head [OF _ 4(2) b(3)] by metis
  have "location x5 = ucast (6 * 80 + 60 :: u32)" using 5(4) by simp
  then obtain st6 where c: "mp1_ioctl (Number (6 * 80 + 60)) RTC_REMOVE (st5\<lparr>vmem := vm5\<rparr>) = Some (0, st6)" "has_items (fst (?T (?T (?T p)))) vm5 st6"
    using remove_head [OF tank_items [OF 5(3)]] by blast
  note 6 = on_screen_step [OF 5(3), where f = "mp1_ioctl (Number (6 * 80 + 60)) RTC_REMOVE", OF c(1,2)]
  have "clock_at k (s5\<lparr>video_mem := vm5\<rparr>)" using 5(2) by simp
  then obtain st7 s7 vm7 where 7: "animate WAIT d (int k) garbage st6 (s5\<lparr>video_mem := vm5\<rparr>) = Some (st7, s7)" "clock_at k s7"
    "tank (fst (?T (?T (?T (?T p))))) vm7 st7 s7" "same_off 1080 vm7 (snd (?T (?T (?T (?T p)))))"
    using wait_without [OF _ 6(2) 5(5)] by metis
  show thesis by (rule that [OF 1(1) 2(1) 3(1) 4(1) 5(1) 6(1) 7(1,2) 7(3,4) [unfolded comp]])
qed

lemma rtc_descriptor:
  assumes "user_ok s"
  shows "fd_used (set_cur_pcb (opened_rtc k (cur_pcb s)) s) \<subseteq> insert k (fd_used s)"
proof -
  have "procs_ok s" using assms by (simp add: user_ok_def calls_ok_def)
  then have c: "cur_pcb (set_cur_pcb (opened_rtc k (cur_pcb s)) s) = opened_rtc k (cur_pcb s)" by (rule procs_ok_cur(3))
  show ?thesis unfolding fd_used_def c by (auto simp: opened_rtc_def nth_list_update split: if_splits)
qed

lemma fish_runs:
  fixes s :: "'a kernel_scheme"
  assumes "user_ok s" and "fd_used s = {}" and "rtc_lock s = 0" and "length (file_name d) = 33" and "names_rtc e s" and "frame_files e0 e1 s"
    and "f0 = file_content s (inode e0)" and "f1 = file_content s (inode e1)" and "fits f0" and "fits f1"
    and "0x700000 \<le> addr" and "length (blink_array st) = POOL" and "mp1_list_head st = None" and "paging_wf s"
  shows "\<exists>st' s' vm. fish_main d addr bs bs1 garbage st s = Some (0, st', s') \<and> user_ok s' \<and> tank (rev (map (blinked 400) (frame_places f0 f1))) vm st' s' \<and>
    (\<exists>vm0. displays 400 (frame_places f0 f1) (video_mem s) vm0 \<and> same_off 1080 vm vm0)"
proof -
  let ?v = "map_w_pt USER_VID_MEM VIDEO s"
  let ?st = "st\<lparr>blink_array := map (\<lambda>b. zero_blink) (blink_array st)\<rparr>"
  have "addr \<noteq> 0" using assms(11) by auto
  then have v: "mp1_set_video_mode addr s = (Some USER_VID_MEM, ?v)" using assms(11) by (simp add: mp1_set_video_mode_def vidmap_def not_less)
  note m = map_w_pt_same [where s = s]
  have "user_ok ?v" "names_rtc e ?v" "\<not> {2..<MAX_FILE} \<subseteq> fd_used ?v" using assms(1,2,5) m by (simp_all add: MAX_FILE_def)
  then obtain k where k: "2 \<le> k" "k < MAX_FILE" "sys_open d (cstr ''rtc'') ?v = Some (int k, set_cur_pcb (opened_rtc k (cur_pcb ?v)) ?v)"
    "std_kept (cur_pcb ?v) (opened_rtc k (cur_pcb ?v))"
    using open_rtc [OF _ _ _ assms(4)] by metis
  let ?t = "set_cur_pcb (opened_rtc k (cur_pcb ?v)) ?v"
  have pcb: "pcb_ok (cur_pcb ?v)" using \<open>user_ok ?v\<close> procs_ok_cur(2) by (auto simp: user_ok_def calls_ok_def)
  note u = user_ok_set [OF \<open>user_ok ?v\<close> k(4)]
  have lock: "rtc_lock ?t = 0" using assms(3) m(5) by (simp add: set_cur_pcb_def)
  have t: "clock_at k ?t" using u k(2) lock pcb by (simp add: clock_at_def opened_rtc_def pcb_ok_def)
  have used: "fd_used ?t \<subseteq> {k}" using rtc_descriptor [OF \<open>user_ok ?v\<close>, of k] assms(2) m(4) by simp
  have files: "frame_files e0 e1 ?t" "f0 = file_content ?t (inode e0)" "f1 = file_content ?t (inode e1)"
    using assms(6-8) m(7,8) by simp_all
  have "screen_mapped ?t" "video_mem ?t = video_mem s"
    using vidmap_maps [OF assms(14)] same_screen_set(1) [of ?v "opened_rtc k (cur_pcb ?v)"] m(3) by (simp_all add: same_screen_def)
  then have tank0: "tank [] (video_mem s) ?st ?t" using started_fish [OF assms(12,13), of ?t] by simp
  let ?ps = "frame_places f0 f1"
  let ?p = "(rev (map place_struct ?ps), fold show_place ?ps (video_mem s))"
  obtain st1 s1 where 1: "add_frames d bs1 (cstr ''frame0.txt'') (cstr ''frame1.txt'') ?st ?t = Some (None, st1, s1)" "clock_at k s1"
    "tank (fst ?p) (snd ?p) st1 s1"
    unfolding fst_conv snd_conv by (rule frames_animated [OF t used assms(4) files(1) tank0 files(2,3) assms(9,10)])
  obtain io where w: "sys_write (int k) (Some [32, 0, 0, 0]) 4 s1 = Some (4, hw_set io False (rtc_interrupt s1) s1)"
    using write_rate [OF 1(2), of "[32, 0, 0, 0]" 32] by (auto simp: le32_def)
  let ?u = "hw_set io False (rtc_interrupt s1) s1"
  have uclock: "clock_at k ?u" using 1(2) by (simp add: clock_at_def)
  have small: "length (fst ?p) < POOL" using frame_places_facts(3) [OF assms(9,10)] by (simp add: POOL_def)
  obtain sta sa stb sb stc sc r std sd ste se stf sf stg sg vm where x:
    "animate WAIT d (int k) garbage st1 ?u = Some (sta, sa)" "on_screen (mp1_ioctl (Struct (im_struct bs)) RTC_ADD) sta sa = Some (0, stb, sb)"
    "animate WAIT d (int k) garbage stb sb = Some (stc, sc)" "on_screen (mp1_ioctl (Number (push_bit 16 40 OR (6 * 80 + 60))) RTC_SYNC) stc sc = Some (r, std, sd)"
    "animate WAIT d (int k) garbage std sd = Some (ste, se)" "on_screen (mp1_ioctl (Number (6 * 80 + 60)) RTC_REMOVE) ste se = Some (0, stf, sf)"
    "animate WAIT d (int k) garbage stf sf = Some (stg, sg)" "clock_at k sg"
    "tank (fst ((tick_all ^^ (4 * WAIT)) ?p)) vm stg sg" "same_off 1080 vm (snd ((tick_all ^^ (4 * WAIT)) ?p))"
    by (rule four_waits [OF uclock tank_same [OF 1(3) same_screen_set(2)] small])
  obtain c s' where c: "sys_close (int k) sg = Some (c, s')" "same_but k sg s'" using close_any [of sg k] k(1,2) x(8) by (auto simp: clock_at_def)
  have "fish_main d addr bs bs1 garbage st s = Some (0, stg, s')"
    unfolding fish_main_def using v k(3) 1(1) w x(1-7) c(1) by (simp add: Let_def)
  moreover have "fst ((tick_all ^^ (4 * WAIT)) ?p) = rev (map (blinked 400) ?ps)" "displays 400 ?ps (video_mem s) (snd ((tick_all ^^ (4 * WAIT)) ?p))"
    using ticks_of_places(1) [OF refl, where ps = ?ps and vm = "video_mem s" and n = 400]
      ticks_of_places(2) [OF refl frame_places_facts(2,1) [OF assms(9,10)], where vm = "video_mem s" and n = 400]
    by (simp_all add: WAIT_def)
  moreover have "user_ok s'" "tank its vm stg s'" if "tank its vm stg sg" for its
    using c(2) tank_same [OF that] by (simp_all add: same_but_def)
  ultimately show ?thesis using x(9,10) by metis
qed

lemma blinked_items:
  assumes "fits f0" and "fits f1" and "its = rev (map (blinked 400) (frame_places f0 f1))"
  shows "distinct its"
    "set its = {\<lparr>location = of_nat (r * 80 + c + 40), on_char = char_at f0 r c, off_char = char_at f1 r c, on_length = 15, off_length = 15,
      countdown = 5, status = 1, next_blink = None\<rparr> | r c. char_at f0 r c \<noteq> SPC \<or> char_at f1 r c \<noteq> SPC}" (is "_ = ?S")
proof -
  let ?ps = "frame_places f0 f1"
  note f = frame_places_facts [OF assms(1,2)]
  have "inj_on (blinked 400) (set ?ps)"
  proof (rule inj_onI)
    fix p q
    assume pq: "p \<in> set ?ps" "q \<in> set ?ps" "blinked 400 p = blinked 400 q"
    then have "fst p = fst q" using place_location [OF f(2), of "fst p" "fst (snd p)" "snd (snd p)" 400]
        place_location [OF f(2), of "fst q" "fst (snd q)" "snd (snd q)" 400] by simp
    then show "p = q" using f(1) pq(1,2) by (auto simp: distinct_map inj_on_def)
  qed
  then show "distinct its" using f(1) assms(3) by (simp add: distinct_map)
  have b: "blinked 400 (l, a, b) = \<lparr>location = of_nat l, on_char = a, off_char = b, on_length = 15, off_length = 15,
      countdown = 5, status = 1, next_blink = None\<rparr>" for l a b
    by (simp add: blinked_def place_struct_def)
  have "?S = {blinked 400 (r * 80 + c + 40, char_at f0 r c, char_at f1 r c) | r c. char_at f0 r c \<noteq> SPC \<or> char_at f1 r c \<noteq> SPC}" by (simp only: b)
  also have "\<dots> = blinked 400 ` set ?ps"
  proof (intro set_eqI iffI)
    fix x
    assume "x \<in> blinked 400 ` set ?ps"
    then obtain l a b where "(l, a, b) \<in> set ?ps" "x = blinked 400 (l, a, b)" by auto
    then show "x \<in> {blinked 400 (r * 80 + c + 40, char_at f0 r c, char_at f1 r c) | r c. char_at f0 r c \<noteq> SPC \<or> char_at f1 r c \<noteq> SPC}"
      unfolding frame_places_mem by blast
  qed (use frame_places_mem in blast)
  finally show "set its = ?S" using assms(3) by simp
qed

section \<open>Properties\<close>

text \<open>C26: The two frames alternate on the screen.  In a process whose page at the user video address leads to the video memory, and when both
  frames fit to the right of column 40, \<^verbatim>\<open>add_frames\<close> reads them to their ends, and after \<open>n\<close> ticks of the clock every place of the video memory
  where one of the frames has a character shows the character of the first frame if \<open>n div 15\<close> is even and that of the second if it is odd, a
  blank where that frame has none; no other byte of the video memory has changed.\<close>

theorem frames_alternate:
  fixes s :: "'a kernel_scheme"
  assumes "clock_at k s" and "fd_used s \<subseteq> {k}" and "length (file_name d) = 33" and "frame_files e0 e1 s" and "blink_inv st []" and "screen_mapped s"
    and "f0 = file_content s (inode e0)" and "f1 = file_content s (inode e1)" and "fits f0" and "fits f1"
  shows "\<exists>st1 s1 st2 s2. add_frames d bs (cstr ''frame0.txt'') (cstr ''frame1.txt'') st s = Some (None, st1, s1) \<and>
    animate n d (int k) garbage st1 s1 = Some (st2, s2) \<and>
    (\<forall>r c. char_at f0 r c \<noteq> SPC \<or> char_at f1 r c \<noteq> SPC \<longrightarrow>
      video_mem s2 (2 * (80 * int r + int c + 40)) = (if even (n div 15) then char_at f0 r c else char_at f1 r c)) \<and>
    (\<forall>x. (\<forall>r c. char_at f0 r c \<noteq> SPC \<or> char_at f1 r c \<noteq> SPC \<longrightarrow> x \<noteq> 2 * (80 * int r + int c + 40)) \<longrightarrow> video_mem s2 x = video_mem s x)"
proof -
  let ?ps = "frame_places f0 f1"
  have "tank [] (video_mem s) st s" using assms(5,6) by (auto simp: tank_def items_def)
  then obtain st1 s1 where 1: "add_frames d bs (cstr ''frame0.txt'') (cstr ''frame1.txt'') st s = Some (None, st1, s1)" "clock_at k s1"
    "tank (rev (map place_struct ?ps)) (fold show_place ?ps (video_mem s)) st1 s1"
    by (rule frames_animated [OF assms(1-4) _ assms(7-10)])
  obtain st2 s2 where 2: "animate n d (int k) garbage st1 s1 = Some (st2, s2)"
    "video_mem s2 = snd ((tick_all ^^ n) (rev (map place_struct ?ps), fold show_place ?ps (video_mem s)))"
    using animate_ticks [OF 1(2,3), of n d garbage] by (auto simp: tank_def)
  have "displays n ?ps (video_mem s) (video_mem s2)" unfolding 2(2) by (rule ticks_of_places(2) [OF refl frame_places_facts(2,1) [OF assms(9,10)]])
  note d = displays_frames [OF this]
  show ?thesis using 1(1) 2(1) d by blast
qed

text \<open>C27: The whole program.  On a kernel with a clock and two frames that fit, \<^verbatim>\<open>fish\<close> maps the screen, reads the frames, waits for four
  hundred ticks, during which one more character comes and goes, and ends with status 0.  The video memory of the kernel then shows the first frame:
  every place where one of the frames has a character has that of the first, and no other byte has changed, except for the byte of the place in row 6 and column 60
  of the screen, where the other character was.  The list holds exactly the structures of the frames, one for each place where one of them is not
  blank, all on, with five ticks left.\<close>

theorem fish_ends:
  fixes s :: "'a kernel_scheme"
  assumes "user_ok s" and "fd_used s = {}" and "rtc_lock s = 0" and "length (file_name d) = 33" and "names_rtc e s" and "frame_files e0 e1 s"
    and "f0 = file_content s (inode e0)" and "f1 = file_content s (inode e1)" and "fits f0" and "fits f1"
    and "0x700000 \<le> addr" and "length (blink_array st) = POOL" and "mp1_list_head st = None" and "paging_wf s"
  shows "\<exists>st' s' is. fish_main d addr blink_struct blink_struct1 garbage st s = Some (0, st', s') \<and> user_ok s' \<and> screen_mapped s' \<and>
    (\<forall>r c. char_at f0 r c \<noteq> SPC \<or> char_at f1 r c \<noteq> SPC \<longrightarrow> 80 * int r + int c + 40 \<noteq> 6 * 80 + 60 \<longrightarrow>
      video_mem s' (2 * (80 * int r + int c + 40)) = char_at f0 r c) \<and>
    (\<forall>x. (\<forall>r c. char_at f0 r c \<noteq> SPC \<or> char_at f1 r c \<noteq> SPC \<longrightarrow> x \<noteq> 2 * (80 * int r + int c + 40)) \<longrightarrow> x \<noteq> 2 * (6 * 80 + 60) \<longrightarrow>
      video_mem s' x = video_mem s x) \<and>
    blink_inv st' is \<and> distinct (items st' is) \<and>
    set (items st' is) = {\<lparr>location = of_nat (r * 80 + c + 40), on_char = char_at f0 r c, off_char = char_at f1 r c, on_length = 15, off_length = 15,
      countdown = 5, status = 1, next_blink = None\<rparr> | r c. char_at f0 r c \<noteq> SPC \<or> char_at f1 r c \<noteq> SPC}"
proof -
  let ?ps = "frame_places f0 f1"
  obtain st' s' vm vm0 where r: "fish_main d addr blink_struct blink_struct1 garbage st s = Some (0, st', s')" "user_ok s'"
    "tank (rev (map (blinked 400) ?ps)) vm st' s'" "displays 400 ?ps (video_mem s) vm0" "same_off 1080 vm vm0"
    using fish_runs [OF assms, of blink_struct blink_struct1 garbage] by blast
  then obtain "is" where i: "blink_inv st' is" "items st' is = rev (map (blinked 400) ?ps)" and v: "video_mem s' = vm" "screen_mapped s'"
    by (auto simp: tank_def)
  note d = displays_frames [OF r(4)]
  have off: "x \<noteq> 1080 \<Longrightarrow> video_mem s' x = vm0 x" for x using r(5) v(1) by (simp add: same_off_def)
  have shown: "video_mem s' (2 * (80 * int r + int c + 40)) = char_at f0 r c"
    if "char_at f0 r c \<noteq> SPC \<or> char_at f1 r c \<noteq> SPC" "80 * int r + int c + 40 \<noteq> 6 * 80 + 60" for r c
    using d(1) [OF that(1)] off [of "2 * (80 * int r + int c + 40)"] that(2) by simp
  have kept: "video_mem s' x = video_mem s x"
    if "\<forall>r c. char_at f0 r c \<noteq> SPC \<or> char_at f1 r c \<noteq> SPC \<longrightarrow> x \<noteq> 2 * (80 * int r + int c + 40)" "x \<noteq> 2 * (6 * 80 + 60)" for x
    using d(2) [OF that(1)] off [of x] that(2) by simp
  show ?thesis using r(1,2) v(2) shown kept i(1) blinked_items [OF assms(9,10) i(2)] by blast
qed

lemma tank_example_frames:
  obtains e0 e1 where "frame_files e0 e1 tank_example" and "file_content tank_example (inode e0) = lit ''o<\<newline> x''"
    and "file_content tank_example (inode e1) = lit ''>o\<newline>''"
proof -
  note m = tank_example_mounted [unfolded mounts_def]
  obtain e0 where e0: "List.find (\<lambda>d. chars (file_name d) = ff_name (tank_files ! 2)) (dentries tank_example) = Some e0" "inode e0 = 2"
    "file_type e0 = ff_type (tank_files ! 2)"
    using mounted_lookup [OF tank_example_mounted tank_files_ok, of 2] by (auto simp: tank_files_def)
  obtain e1 where e1: "List.find (\<lambda>d. chars (file_name d) = ff_name (tank_files ! 3)) (dentries tank_example) = Some e1" "inode e1 = 3"
    "file_type e1 = ff_type (tank_files ! 3)"
    using mounted_lookup [OF tank_example_mounted tank_files_ok, of 3] by (auto simp: tank_files_def)
  have f: "file_content tank_example 2 = lit ''o<\<newline> x''" "file_content tank_example 3 = lit ''>o\<newline>''"
    using mounted_content [OF tank_example_mounted, of 2] mounted_content [OF tank_example_mounted, of 3] by (simp_all add: tank_files_def)
  have n4: "2 < num_inodes tank_example" "3 < num_inodes tank_example" using m by (auto simp: tank_files_def dest!: conjunct2 [THEN conjunct2])
  have n: "chars (cstr ''frame0.txt'') = ff_name (tank_files ! 2)" "chars (cstr ''frame1.txt'') = ff_name (tank_files ! 3)"
    by (simp_all add: cstr_chars tank_files_def)
  have "frame_files e0 e1 tank_example"
    unfolding frame_files_def names_file_def names_entry_def n using m n4 e0 e1 f by (simp add: tank_files_def FILETYPE_def BLOCK_SIZE_def)
  then show thesis using that f e0(2) e1(2) by simp
qed

lemma tank_frames_fit: "fits (lit ''o<\<newline> x'')" "fits (lit ''>o\<newline>'')"
  by (simp_all add: fits_def text_rows.simps)

lemma tank_example_pages: "paging_wf tank_example"
proof -
  have "paging_wf tank_example = paging_wf (prog_example [] [])" by (rule tables_only) (simp_all add: tank_example_def)
  then show ?thesis using prog_example_ok(2) [of "[]" "[]"] by (simp add: tasks_ok_def)
qed

lemma tank_frames_rows:
  "text_rows (lit ''o<\<newline> x'') = [lit ''o<'', lit '' x'']" "text_rows (lit ''>o\<newline>'') = [lit ''>o'', []]"
  by (simp_all add: text_rows.simps)

theorem fish_ends_witness:
  "\<exists>st' s' is. fish_main blank_dentry 0x8049000 zero_blink zero_blink [0, 0, 0, 0] fish_example tank_example = Some (0, st', s') \<and> user_ok s' \<and>
    screen_mapped s' \<and> video_mem s' 80 = of_char CHR ''o'' \<and> video_mem s' (2 * (80 * 1 + 1 + 40)) = of_char CHR ''x'' \<and> blink_inv st' is \<and> distinct (items st' is)"
proof -
  obtain e where e: "names_rtc e tank_example" using tank_example_rtc by blast
  obtain e0 e1 where f: "frame_files e0 e1 tank_example" "file_content tank_example (inode e0) = lit ''o<\<newline> x''"
    "file_content tank_example (inode e1) = lit ''>o\<newline>''" by (rule tank_example_frames)
  have ex: "user_ok tank_example" "length (file_name blank_dentry) = 33" "0x700000 \<le> (0x8049000 :: u32)" "length (blink_array fish_example) = POOL" "mp1_list_head fish_example = None"
    using tank_example_ok(1) by (simp_all add: blank_dentry_def fish_example_def)
  obtain st' s' "is" where r: "fish_main blank_dentry 0x8049000 zero_blink zero_blink [0, 0, 0, 0] fish_example tank_example = Some (0, st', s')" "user_ok s'"
    "screen_mapped s'" "\<forall>r c. char_at (lit ''o<\<newline> x'') r c \<noteq> SPC \<or> char_at (lit ''>o\<newline>'') r c \<noteq> SPC \<longrightarrow> 80 * int r + int c + 40 \<noteq> 6 * 80 + 60 \<longrightarrow>
      video_mem s' (2 * (80 * int r + int c + 40)) = char_at (lit ''o<\<newline> x'') r c" "blink_inv st' is" "distinct (items st' is)"
    using fish_ends [OF ex(1) tank_example_ok(2,3) ex(2) e f(1) f(2,3) [symmetric] tank_frames_fit ex(3-5) tank_example_pages, of zero_blink zero_blink "[0, 0, 0, 0]"]
    by (elim exE conjE) (rule that; assumption)
  have "video_mem s' 80 = of_char CHR ''o''" "video_mem s' (2 * (80 * 1 + 1 + 40)) = of_char CHR ''x''"
    using spec [OF spec [OF r(4), of 1], of 1] spec [OF spec [OF r(4), of 0], of 0] by (simp_all add: char_at_def tank_frames_rows [simplified])
  then show ?thesis using r(1-3,5,6) by blast
qed

theorem frames_alternate_witness:
  "\<exists>st1 s1 st2 s2. add_frames blank_dentry zero_blink (cstr ''frame0.txt'') (cstr ''frame1.txt'') fish_example
      (set_cur_pcb (opened_rtc 2 (cur_pcb tank_example)) (map_w_pt USER_VID_MEM VIDEO tank_example)) = Some (None, st1, s1) \<and>
    animate 20 blank_dentry 2 [0, 0, 0, 0] st1 s1 = Some (st2, s2) \<and> video_mem s2 (2 * (80 * 1 + 1 + 40)) = SPC \<and> video_mem s2 80 = of_char CHR ''>''"
proof -
  let ?v = "map_w_pt USER_VID_MEM VIDEO tank_example"
  let ?s = "set_cur_pcb (opened_rtc 2 (cur_pcb ?v)) ?v"
  note m = map_w_pt_same [where s = tank_example]
  obtain e0 e1 where f: "frame_files e0 e1 tank_example" "file_content tank_example (inode e0) = lit ''o<\<newline> x''"
    "file_content tank_example (inode e1) = lit ''>o\<newline>''" by (rule tank_example_frames)
  have u: "user_ok ?v" using tank_example_ok(1) m(2) by simp
  have pcb: "pcb_ok (cur_pcb ?v)" using u procs_ok_cur(2) by (auto simp: user_ok_def calls_ok_def)
  have "std_kept (cur_pcb ?v) (opened_rtc 2 (cur_pcb ?v))"
    using pcb by (auto simp: std_kept_def opened_rtc_def pcb_ok_def MAX_FILE_def flag_defs dest!: set_update_subset_insert [THEN subsetD])
  note s = user_ok_set [OF u this]
  have lock: "rtc_lock ?s = 0" using tank_example_ok(3) m(5) by (simp add: set_cur_pcb_def)
  have clock: "clock_at 2 ?s" using s(1,2) lock pcb by (simp add: clock_at_def opened_rtc_def pcb_ok_def MAX_FILE_def)
  have used: "fd_used ?s \<subseteq> {2}" using rtc_descriptor [OF u, of 2] tank_example_ok(2) m(4) by simp
  have mapped: "screen_mapped ?s" using vidmap_maps [OF tank_example_pages] same_screen_set(1) [of ?v] by (simp add: same_screen_def)
  have d: "length (file_name blank_dentry) = 33" by (simp add: blank_dentry_def)
  have files: "frame_files e0 e1 ?s" "lit ''o<\<newline> x'' = file_content ?s (inode e0)" "lit ''>o\<newline>'' = file_content ?s (inode e1)"
    using f m(7,8) by simp_all
  obtain st1 s1 st2 s2 where r: "add_frames blank_dentry zero_blink (cstr ''frame0.txt'') (cstr ''frame1.txt'') fish_example ?s = Some (None, st1, s1)"
    "animate 20 blank_dentry (int 2) [0, 0, 0, 0] st1 s1 = Some (st2, s2)"
    "\<forall>r c. char_at (lit ''o<\<newline> x'') r c \<noteq> SPC \<or> char_at (lit ''>o\<newline>'') r c \<noteq> SPC \<longrightarrow>
      video_mem s2 (2 * (80 * int r + int c + 40)) = (if even (20 div 15 :: nat) then char_at (lit ''o<\<newline> x'') r c else char_at (lit ''>o\<newline>'') r c)"
    using frames_alternate [OF clock used d files(1) fish_example_inv mapped files(2,3) tank_frames_fit, of zero_blink 20 "[0, 0, 0, 0]"] by (elim exE conjE) (rule that; assumption)
  have "video_mem s2 (2 * (80 * 1 + 1 + 40)) = SPC" "video_mem s2 80 = of_char CHR ''>''"
    using spec [OF spec [OF r(3), of 1], of 1] spec [OF spec [OF r(3), of 0], of 0] by (simp_all add: char_at_def tank_frames_rows [simplified])
  then show ?thesis using r(1,2) m(1) by auto
qed

end
