(* ===== verification/Emulate.thy ===== *)
theory Emulate
  imports Programs
begin

text \<open>
  The emulation of the system calls on Linux, \<^verbatim>\<open>syscalls/ece391emulate.c\<close>, with which a user program can be tried out without this kernel.

  The Linux system is a parameter: the record \<open>linux\<close> has one function for each call the file makes, over a state \<open>'h\<close> of the
  system.  The static variables \<^verbatim>\<open>dir\<close>, \<^verbatim>\<open>dir_fd\<close> and \<^verbatim>\<open>mem_fd\<close> are the record \<open>emu\<close>; the arguments on the initial stack, at \<^verbatim>\<open>start_esp\<close>, are
  the list \<open>argv\<close> of strings.  The arrays \<^verbatim>\<open>buf\<close> and \<^verbatim>\<open>args\<close> of \<^verbatim>\<open>ece391_execute\<close> are lists, and a pointer into \<^verbatim>\<open>buf\<close> is its index.
\<close>

section \<open>The system below\<close>

datatype wait_status = Exited int | Signaled int

text \<open>\<open>lx_run\<close> is the child after \<^verbatim>\<open>fork\<close> up to \<^verbatim>\<open>wait\<close>: the status of the program, or \<open>None\<close> when \<^verbatim>\<open>execv\<close> fails.  The three calls that return a
  word are made with \<^verbatim>\<open>INT $0x80\<close>.\<close>

record 'h linux =
  lx_run :: "byte list \<Rightarrow> byte list list \<Rightarrow> 'h \<Rightarrow> wait_status option \<times> 'h"
  lx_open :: "byte list \<Rightarrow> 'h \<Rightarrow> u32 \<times> 'h"
  lx_read :: "int \<Rightarrow> byte list \<Rightarrow> int \<Rightarrow> 'h \<Rightarrow> u32 \<times> byte list \<times> 'h"
  lx_write :: "int \<Rightarrow> byte list \<Rightarrow> int \<Rightarrow> 'h \<Rightarrow> u32 \<times> 'h"
  lx_close :: "int \<Rightarrow> 'h \<Rightarrow> u32 \<times> 'h"
  lx_opendir :: "byte list \<Rightarrow> 'h \<Rightarrow> nat option \<times> 'h"
  lx_readdir :: "nat \<Rightarrow> 'h \<Rightarrow> byte list option \<times> 'h"
  lx_closedir :: "nat \<Rightarrow> 'h \<Rightarrow> 'h"
  lx_libc_open :: "byte list \<Rightarrow> 'h \<Rightarrow> int \<times> 'h"
  lx_libc_close :: "int \<Rightarrow> 'h \<Rightarrow> 'h"
  lx_mmap :: "int \<Rightarrow> 'h \<Rightarrow> u32 option \<times> 'h"
  lx_perror :: "byte list \<Rightarrow> 'h \<Rightarrow> 'h"
  lx_exit :: "int \<Rightarrow> 'h \<Rightarrow> 'h"

record emu =
  dir_fd :: int
  dir :: "nat option"
  mem_fd :: int

definition emu_start :: emu where
  "emu_start = \<lparr>dir_fd = -1, dir = None, mem_fd = -1\<rparr>"

text \<open>The result of a call through \<^verbatim>\<open>DO_CALL\<close>.\<close>

definition do_call :: "u32 \<Rightarrow> int" where
  "do_call eax = (if eax \<le> 0xFFFFC000 then sint eax else -1)"

text \<open>\<^verbatim>\<open>ece391_halt\<close>, after which the program does not run any more, and \<^verbatim>\<open>_start\<close>, which calls it with the value \<^verbatim>\<open>main\<close> returns.\<close>

definition emu_halt :: "'h linux \<Rightarrow> int \<Rightarrow> 'h \<Rightarrow> 'h" where
  "emu_halt lx code hs = lx_exit lx code hs"

definition emu_enter :: "'h linux \<Rightarrow> ('h \<Rightarrow> int \<times> 'h) \<Rightarrow> 'h \<Rightarrow> 'h" where
  "emu_enter lx main hs = (let (eax, hs) = main hs in emu_halt lx eax hs)"

section \<open>Running a command\<close>

definition ends_word :: "byte \<Rightarrow> bool" where
  "ends_word c \<longleftrightarrow> c = 0 \<or> c = SPC \<or> c = NL"

function scan_word :: "byte list \<Rightarrow> nat \<Rightarrow> nat option" where
  "scan_word buf scan = (if scan < length buf then if ends_word (buf ! scan) then Some scan else scan_word buf (Suc scan) else None)"
  by pat_completeness auto
termination
  by (relation "measure (\<lambda>(buf, scan). length buf - scan)") auto

function scan_spaces :: "byte list \<Rightarrow> nat \<Rightarrow> nat option" where
  "scan_spaces buf scan = (if scan < length buf then if SPC = buf ! scan then scan_spaces buf (Suc scan) else Some scan else None)"
  by pat_completeness auto
termination
  by (relation "measure (\<lambda>(buf, scan). length buf - scan)") auto

declare scan_word.simps [simp del] scan_spaces.simps [simp del]

lemma scan_word_ge: "scan_word buf i = Some j \<Longrightarrow> i \<le> j \<and> j < length buf"
  by (induction buf i rule: scan_word.induct) (subst (asm) (2) scan_word.simps, fastforce split: if_splits)

lemma scan_spaces_ge: "scan_spaces buf i = Some j \<Longrightarrow> i \<le> j \<and> j < length buf"
  by (induction buf i rule: scan_spaces.induct) (subst (asm) (2) scan_spaces.simps, fastforce split: if_splits)

lemma scan_word_later: "\<lbrakk>scan_word buf i = Some j; i < length buf; \<not> ends_word (buf ! i)\<rbrakk> \<Longrightarrow> i < j"
  using scan_word_ge [of buf "Suc i" j] by (subst (asm) scan_word.simps) simp

text \<open>\<^verbatim>\<open>while (1)\<close>: the arguments after the command word.\<close>

function emu_args :: "byte list \<Rightarrow> nat \<Rightarrow> nat list \<Rightarrow> (byte list \<times> nat list) option" where
  "emu_args buf scan args = do {
     scan \<leftarrow> scan_spaces buf scan;
     if buf ! scan = 0 \<or> buf ! scan = NL then Some (buf[scan := 0], args)
     else if length args < 1024 then do {
       let args = args @ [scan];
       scan \<leftarrow> scan_word buf scan;
       if buf ! scan \<noteq> 0 then emu_args (buf[scan := 0]) (Suc scan) args else emu_args buf scan args
     } else None
   }"
  by pat_completeness auto
termination
proof (relation "measure (\<lambda>(buf, scan, args). length buf - scan)")
  fix buf scan args j args' k
  assume j: "scan_spaces buf scan = Some j" "\<not> (buf ! j = 0 \<or> buf ! j = NL)" and k: "scan_word buf j = Some k"
  have "scan \<le> j" "j < length buf" using scan_spaces_ge [OF j(1)] by simp_all
  moreover have "j \<le> k" "k < length buf" using scan_word_ge [OF k] by simp_all
  moreover show "((buf[k := 0], Suc k, args'), (buf, scan, args)) \<in> measure (\<lambda>(buf, scan, args). length buf - scan)"
    using calculation by simp
  have "SPC \<noteq> buf ! j" using j(1) by (induction buf scan rule: scan_spaces.induct) (subst (asm) (2) scan_spaces.simps, simp split: if_splits)
  then have "j < k" using scan_word_later [OF k] j(2) \<open>j < length buf\<close> by (auto simp: ends_word_def)
  then show "((buf, k, args'), (buf, scan, args)) \<in> measure (\<lambda>(buf, scan, args). length buf - scan)" using calculation by simp
qed simp

declare emu_args.simps [simp del]

definition emu_status :: "wait_status option \<Rightarrow> int" where
  "emu_status w =
     (let status = (case w of None \<Rightarrow> Signaled 9 | Some st \<Rightarrow> st) in
      case status of Exited n \<Rightarrow> n | Signaled n \<Rightarrow> if 9 = n then -1 else 256)"

definition emu_execute :: "'h linux \<Rightarrow> byte list \<Rightarrow> byte list \<Rightarrow> 'h \<Rightarrow> (int \<times> 'h) option" where
  "emu_execute lx buf command hs = do {
     n \<leftarrow> ece391_strlen command;
     if 1023 < n then Some (-1, hs)
     else do {
       buf \<leftarrow> aset buf 0 46;
       buf \<leftarrow> aset buf 1 47;
       r \<leftarrow> ece391_strcpy (drop 2 buf) command;
       let buf = take 2 buf @ r;
       scan \<leftarrow> scan_word buf 2;
       (buf, args) \<leftarrow> (if buf ! scan \<noteq> 0 then emu_args (buf[scan := 0]) (Suc scan) [0] else Some (buf, [0]));
       _ \<leftarrow> (if length args < 1024 then Some () else None);
       let (w, hs) = lx_run lx (chars buf) (map (\<lambda>i. chars (drop i buf)) args) hs;
       Some (emu_status w, hs)
     }
   }"

section \<open>The other calls\<close>

definition emu_open :: "'h linux \<Rightarrow> byte list \<Rightarrow> emu \<Rightarrow> 'h \<Rightarrow> (int \<times> emu \<times> 'h) option" where
  "emu_open lx filename st hs = do {
     c \<leftarrow> ece391_strcmp filename (cstr ''.'');
     if 0 = c then do {
       let (d, hs) = lx_opendir lx (cstr ''.'') hs;
       let (fd, hs) = lx_libc_open lx (cstr ''/dev/null'') hs;
       Some (fd, st\<lparr>dir := d, dir_fd := fd\<rparr>, hs)
     } else do {
       let (rval, hs) = lx_open lx filename hs;
       if rval > 0xFFFFC000 then Some (-1, st, hs) else Some (sint rval, st, hs)
     }
   }"

text \<open>The loop of \<^verbatim>\<open>ece391_getargs\<close>; \<open>pos\<close> is how far \<^verbatim>\<open>buf\<close> has been advanced.  \<open>None\<close> in the first result is the \<^verbatim>\<open>return -1\<close>.\<close>

function getargs_loop :: "byte list list \<Rightarrow> nat \<Rightarrow> nat \<Rightarrow> int \<Rightarrow> byte list \<Rightarrow> ((nat \<times> int) option \<times> byte list) option" where
  "getargs_loop argv idx pos nbytes buf =
     (if idx < length argv then do {
        len \<leftarrow> ece391_strlen (argv ! idx);
        if int len > nbytes then Some (None, buf)
        else if pos \<le> length buf then do {
          r \<leftarrow> ece391_strcpy (drop pos buf) (argv ! idx);
          let buf = take pos buf @ r;
          let pos = pos + len;
          let nbytes = nbytes - int len;
          if idx + 1 \<ge> length argv then Some (Some (pos, nbytes), buf)
          else if nbytes < 1 then Some (None, buf)
          else do {
            buf \<leftarrow> aset buf pos SPC;
            getargs_loop argv (idx + 1) (pos + 1) (nbytes - 1) buf
          }
        } else None
      } else Some (Some (pos, nbytes), buf))"
  by pat_completeness auto
termination
  by (relation "measure (\<lambda>(argv, idx, pos, nbytes, buf). length argv - idx)") auto

declare getargs_loop.simps [simp del]

definition emu_getargs :: "byte list list \<Rightarrow> byte list \<Rightarrow> int \<Rightarrow> (int \<times> byte list) option" where
  "emu_getargs argv buf nbytes = do {
     (r, buf) \<leftarrow> getargs_loop argv 1 0 nbytes buf;
     case r of None \<Rightarrow> Some (-1, buf)
     | Some (pos, nbytes) \<Rightarrow>
         if nbytes < 1 then Some (-1, buf)
         else do { buf \<leftarrow> aset buf pos 0; Some (0, buf) }
   }"

text \<open>The second result is what is stored in \<^verbatim>\<open>*screen_start\<close>.\<close>

definition emu_vidmap :: "'h linux \<Rightarrow> emu \<Rightarrow> 'h \<Rightarrow> int \<times> u32 option \<times> emu \<times> 'h" where
  "emu_vidmap lx st hs =
     (let (st, hs) = (if mem_fd st = -1 then let (fd, hs) = lx_libc_open lx (cstr ''/dev/mem'') hs in (st\<lparr>mem_fd := fd\<rparr>, hs) else (st, hs));
          (m, hs) = lx_mmap lx (mem_fd st) hs
      in case m of None \<Rightarrow> (-1, None, st, lx_perror lx (cstr ''mmap low memory'') hs)
         | Some mem_image \<Rightarrow> (0, Some (mem_image + 0xB8000), st, hs))"

text \<open>The copy of a name, and the NULs after it.  \<open>Inl\<close> is a return from inside the first loop.\<close>

fun copy_name :: "byte list \<Rightarrow> byte list \<Rightarrow> nat \<Rightarrow> int \<Rightarrow> ((int + nat) \<times> byte list) option" where
  "copy_name [] to cnt nbytes = None"
| "copy_name (c # from) to cnt nbytes =
     (if 0 \<noteq> c then do {
        to \<leftarrow> aset to cnt c;
        if int (cnt + 1) = nbytes then Some (Inl nbytes, to)
        else if 32 = cnt + 1 then Some (Inl 32, to)
        else copy_name from to (cnt + 1) nbytes
      } else Some (Inr cnt, to))"

function pad_name :: "byte list \<Rightarrow> nat \<Rightarrow> int \<Rightarrow> (int \<times> byte list) option" where
  "pad_name to cnt nbytes =
     (if nbytes > int cnt \<and> 32 > cnt then do { to \<leftarrow> aset to cnt 0; pad_name to (cnt + 1) nbytes } else Some (int cnt, to))"
  by pat_completeness auto
termination
  by (relation "measure (\<lambda>(to, cnt, nbytes). 32 - cnt)") auto

declare pad_name.simps [simp del]

definition emu_read :: "'h linux \<Rightarrow> int \<Rightarrow> byte list \<Rightarrow> int \<Rightarrow> emu \<Rightarrow> 'h \<Rightarrow> (int \<times> byte list \<times> 'h) option" where
  "emu_read lx fd buf nbytes st hs =
     (case dir st of
        Some d \<Rightarrow> if dir_fd st \<noteq> fd then let (r, buf, hs) = lx_read lx fd buf nbytes hs in Some (do_call r, buf, hs)
          else (case lx_readdir lx d hs of
              (None, hs) \<Rightarrow> Some (0, buf, hs)
            | (Some d_name, hs) \<Rightarrow> do {
                (r, buf) \<leftarrow> copy_name d_name buf 0 nbytes;
                case r of Inl n \<Rightarrow> Some (n, buf, hs)
                | Inr cnt \<Rightarrow> do { (n, buf) \<leftarrow> pad_name buf cnt nbytes; Some (n, buf, hs) }
              })
      | None \<Rightarrow> let (r, buf, hs) = lx_read lx fd buf nbytes hs in Some (do_call r, buf, hs))"

definition emu_write :: "'h linux \<Rightarrow> int \<Rightarrow> byte list \<Rightarrow> int \<Rightarrow> emu \<Rightarrow> 'h \<Rightarrow> int \<times> 'h" where
  "emu_write lx fd buf nbytes st hs =
     (if dir st = None \<or> dir_fd st \<noteq> fd then let (r, hs) = lx_write lx fd buf nbytes hs in (do_call r, hs) else (-1, hs))"

definition emu_close :: "'h linux \<Rightarrow> int \<Rightarrow> emu \<Rightarrow> 'h \<Rightarrow> int \<times> emu \<times> 'h" where
  "emu_close lx fd st hs =
     (case dir st of
        Some d \<Rightarrow> if dir_fd st \<noteq> fd then let (r, hs) = lx_close lx fd hs in (do_call r, st, hs)
          else (let hs = lx_closedir lx d hs; st = st\<lparr>dir := None\<rparr>; hs = lx_libc_close lx (dir_fd st) hs in (0, st\<lparr>dir_fd := -1\<rparr>, hs))
      | None \<Rightarrow> let (r, hs) = lx_close lx fd hs in (do_call r, st, hs))"

section \<open>The words of a command\<close>

lemma tl_dropWhile_le: "length (tl (dropWhile P xs)) \<le> length xs"
  using length_dropWhile_le [of P xs] by simp

lemma dropWhile_ConsD:
  assumes "dropWhile P r = c # r'"
  shows "\<not> P c" "length (c # r') \<le> length r"
  using assms length_dropWhile_le [of P r] by (simp_all only: dropWhile_eq_Cons_conv simp_thms, simp)

text \<open>What the scan of \<^verbatim>\<open>ece391_execute\<close> finds: the words after the first one, up to a newline at the start of a word.\<close>

function emu_words :: "byte list \<Rightarrow> byte list list" where
  "emu_words r =
     (case dropWhile (\<lambda>c. c = SPC) r of
        [] \<Rightarrow> []
      | c # r' \<Rightarrow> if c = NL then [] else takeWhile word_char (c # r') # emu_words (tl (dropWhile word_char (c # r'))))"
  by pat_completeness auto
termination
proof (relation "measure length")
  fix r c r'
  assume d: "dropWhile (\<lambda>c. c = SPC) r = c # r'" and "c \<noteq> NL"
  note dropWhile_ConsD [OF d] \<open>c \<noteq> NL\<close>
  moreover have "length (tl (dropWhile word_char r')) \<le> length r'" by (rule tl_dropWhile_le)
  ultimately show "(tl (dropWhile word_char (c # r')), r) \<in> measure length" by (simp add: word_char_def)
qed simp

declare emu_words.simps [simp del]

lemma emu_words_stop:
  assumes "dropWhile (\<lambda>c. c = SPC) r = []"
  shows "emu_words r = []"
  by (subst emu_words.simps) (simp only: assms list.case)

lemma emu_words_Nil [simp]: "emu_words [] = []"
  by (simp add: emu_words_stop)

lemma emu_words_bound: "length (emu_words r) \<le> length r"
proof (induction r rule: emu_words.induct)
  case (1 r)
  show ?case
  proof (cases "dropWhile (\<lambda>c. c = SPC) r")
    case (Cons c r')
    have "length (tl (dropWhile word_char r')) \<le> length r'" by (rule tl_dropWhile_le)
    then show ?thesis using Cons dropWhile_ConsD [OF Cons] 1 [OF Cons] by (auto simp: emu_words.simps [of r] word_char_def)
  qed (simp add: emu_words_stop)
qed

lemma ends_word_iff: "c \<noteq> 0 \<Longrightarrow> ends_word c \<longleftrightarrow> \<not> word_char c"
  by (auto simp: ends_word_def word_char_def)

lemma scan_word_at:
  "\<lbrakk>\<forall>x\<in>set w. \<not> ends_word x; ends_word c\<rbrakk> \<Longrightarrow> scan_word (p @ w @ c # z) (length p) = Some (length p + length w)"
proof (induction w arbitrary: p)
  case (Cons a w)
  then show ?case using Cons.IH [of "p @ [a]"] by (simp add: scan_word.simps [of "p @ a # w @ c # z"])
qed (simp add: scan_word.simps nth_append)

lemma scan_spaces_at:
  "\<lbrakk>\<forall>x\<in>set w. x = SPC; c \<noteq> SPC\<rbrakk> \<Longrightarrow> scan_spaces (p @ w @ c # z) (length p) = Some (length p + length w)"
proof (induction w arbitrary: p)
  case (Cons a w)
  then show ?case using Cons.IH [of "p @ [a]"] by (simp add: scan_spaces.simps [of "p @ SPC # w @ c # z"])
qed (simp add: scan_spaces.simps nth_append)

lemma emu_args_stop:
  assumes "\<forall>x\<in>set sp. x = SPC" and "c = 0 \<or> c = NL"
  shows "emu_args (p @ sp @ c # z) (length p) args = Some (p @ sp @ 0 # z, args)"
proof -
  have "scan_spaces (p @ sp @ c # z) (length p) = Some (length (p @ sp))" using assms scan_spaces_at [of sp c p z] by auto
  then show ?thesis
    using assms(2) nth_append_length [of "p @ sp" c z] list_update_length [of "p @ sp" c z] by (simp add: emu_args.simps)
qed

lemma emu_args_word:
  assumes "\<forall>x\<in>set sp. x = SPC" and "w \<noteq> []" and "\<forall>x\<in>set w. \<not> ends_word x" and "ends_word c" and "length args < 1024"
  shows "emu_args (p @ sp @ w @ c # z) (length p) args =
    emu_args (p @ sp @ w @ 0 # z) (length (p @ sp @ w) + (if c = 0 then 0 else 1)) (args @ [length (p @ sp)])"
proof -
  obtain a w' where w: "w = a # w'" using assms(2) by (cases w) auto
  have a: "a \<noteq> SPC" "a \<noteq> 0" "a \<noteq> NL" using assms(3) w by (auto simp: ends_word_def)
  have "scan_spaces (p @ sp @ w @ c # z) (length p) = Some (length (p @ sp))"
    using scan_spaces_at [of sp a p "w' @ c # z"] assms(1) a w by simp
  moreover have "scan_word (p @ sp @ w @ c # z) (length (p @ sp)) = Some (length (p @ sp @ w))"
    using scan_word_at [OF assms(3,4), of "p @ sp" z] by simp
  moreover have "(p @ sp @ w @ c # z) ! length (p @ sp) = a" using nth_append_length [of "p @ sp" a] w by simp
  moreover have "(p @ sp @ w @ c # z) ! length (p @ sp @ w) = c" using nth_append_length [of "p @ sp @ w" c z] by simp
  moreover have "(p @ sp @ w @ c # z)[length (p @ sp @ w) := 0] = p @ sp @ w @ 0 # z"
    using list_update_length [of "p @ sp @ w" c z] by simp
  ultimately show ?thesis using a assms(5) by (subst emu_args.simps) (simp del: append_assoc length_append)
qed

text \<open>The strings at the recorded indices of the buffer the loop leaves are the words, and what lies before the scan is kept.\<close>

lemma emu_args_at:
  "\<lbrakk>0 \<notin> set r; length args + length (emu_words r) \<le> 1024\<rbrakk> \<Longrightarrow>
   \<exists>z' js. emu_args (p @ r @ 0 # z) (length p) args = Some (p @ z', args @ js) \<and>
     map (\<lambda>i. chars (drop i (p @ z'))) js = emu_words r"
proof (induction r arbitrary: p args rule: emu_words.induct)
  case (1 r)
  let ?sp = "takeWhile (\<lambda>c. c = SPC) r" and ?r = "dropWhile (\<lambda>c. c = SPC) r"
  have sp: "\<forall>x\<in>set ?sp. x = SPC" by (auto dest: set_takeWhileD)
  have r: "r = ?sp @ ?r" by simp
  show ?case
  proof (cases ?r)
    case Nil
    then have "p @ r @ 0 # z = p @ ?sp @ 0 # z" using r by (metis append_Nil2)
    then show ?thesis using emu_args_stop [OF sp, of 0 p z args] emu_words_stop [OF Nil] by auto
  next
    case (Cons a r')
    show ?thesis
    proof (cases "a = NL")
      case True
      have e: "p @ r @ 0 # z = p @ ?sp @ a # r' @ 0 # z" using r Cons by (metis append_Cons append_assoc)
      have "emu_args (p @ r @ 0 # z) (length p) args = Some (p @ ?sp @ 0 # r' @ 0 # z, args)"
        unfolding e using emu_args_stop [OF sp, of a p "r' @ 0 # z" args] True by simp
      moreover have "emu_words r = []" using Cons True by (subst emu_words.simps) simp
      ultimately show ?thesis by simp
    next
      case False
      let ?w = "takeWhile word_char (a # r')" and ?d = "dropWhile word_char (a # r')"
      have a: "a \<noteq> SPC" by (rule dropWhile_ConsD(1) [OF Cons])
      have ws: "emu_words r = ?w # emu_words (tl ?d)" using Cons False by (simp add: emu_words.simps [of r])
      have nz: "0 \<notin> set (a # r')" using 1(2) Cons r by (metis Un_iff set_append)
      have w: "?w \<noteq> []" "\<forall>x\<in>set ?w. \<not> ends_word x"
        using a False nz by (auto simp: ends_word_def word_char_def dest!: set_takeWhileD split: if_splits)
      have r2: "r = ?sp @ ?w @ ?d" using r Cons by simp
      have len: "length args < 1024" using 1(3) ws by simp
      let ?i = "length (p @ ?sp)"
      show ?thesis
      proof (cases ?d)
        case Nil
        have e: "p @ r @ 0 # z = p @ ?sp @ ?w @ 0 # z" using r2 Nil by (metis append_Nil2 append_assoc)
        have "emu_args (p @ ?sp @ ?w @ 0 # z) (length p) args = Some (p @ ?sp @ ?w @ 0 # z, args @ [?i])"
          using emu_args_word [OF sp w, of 0 args p z] len emu_args_stop [of "[]" 0 "p @ ?sp @ ?w" z "args @ [?i]"]
          by (simp add: ends_word_def)
        moreover have "chars (drop ?i (p @ ?sp @ ?w @ 0 # z)) = ?w"
          using chars_terminated [of ?w z] nz by (metis append_eq_conv_conj append_assoc set_takeWhileD)
        ultimately show ?thesis unfolding e ws Nil by (intro exI [of _ "?sp @ ?w @ 0 # z"] exI [of _ "[?i]"]) simp
      next
        case d: (Cons c t)
        have "c \<in> set (a # r')" using d by (metis list.set_intros(1) set_dropWhileD)
        then have c: "c \<noteq> 0" "ends_word c"
          using nz dropWhile_ConsD(1) [OF d] ends_word_iff [of c] by metis+
        let ?p = "p @ ?sp @ ?w @ [0]"
        have e: "p @ r @ 0 # z = p @ ?sp @ ?w @ c # t @ 0 # z" using r2 d by (metis append_Cons append_assoc)
        have t: "0 \<notin> set t" using 1(2) r2 d by (metis Un_iff list.set_intros(2) set_append)
        obtain z' js where ih: "emu_args (?p @ t @ 0 # z) (length ?p) (args @ [?i]) = Some (?p @ z', (args @ [?i]) @ js)"
          "map (\<lambda>i. chars (drop i (?p @ z'))) js = emu_words t"
          using 1(1) [OF Cons False, of "args @ [?i]" ?p] t 1(3) ws d by auto
        have "emu_args (p @ r @ 0 # z) (length p) args = Some (p @ ?sp @ ?w @ 0 # z', args @ ?i # js)"
          using emu_args_word [OF sp w c(2) len, of p "t @ 0 # z"] ih(1) c(1) unfolding e by simp
        moreover have "chars (drop ?i (p @ ?sp @ ?w @ 0 # z')) = ?w"
          using chars_terminated [of ?w z'] nz by (metis append_eq_conv_conj append_assoc set_takeWhileD)
        ultimately show ?thesis
          using ih(2) unfolding ws d by (intro exI [of _ "?sp @ ?w @ 0 # z'"] exI [of _ "?i # js"]) simp
      qed
    qed
  qed
qed

text \<open>The buffer after the copy of the command: \<^verbatim>\<open>./\<close>, the first word, and what follows it.\<close>

lemma command_buffer:
  assumes "length buf = 1026" and "0 \<in> set command" and "length (chars command) \<le> 1023"
  obtains z where "ece391_strcpy (drop 2 (buf[0 := 46, 1 := 47])) command = Some (chars command @ 0 # z)"
    "take 2 (buf[0 := 46, 1 := 47]) = lit ''./''"
proof
  show "ece391_strcpy (drop 2 (buf[0 := 46, 1 := 47])) command =
      Some (chars command @ 0 # drop (Suc (length (chars command))) (drop 2 (buf[0 := 46, 1 := 47])))"
    using strcpy_chars [OF assms(2)] assms(1,3) by (simp add: ece391_strcpy_eq)
  show "take 2 (buf[0 := 46, 1 := 47]) = lit ''./''"
    using assms(1) by (cases buf; cases "tl buf") (auto simp: of_char_def)
qed

lemma first_word:
  assumes "0 \<in> set command"
  shows "\<forall>x\<in>set (cmd_word command). \<not> ends_word x"
    and "cmd_rest command = c # t \<Longrightarrow> ends_word c \<and> c \<noteq> 0 \<and> 0 \<notin> set t"
proof -
  have nz: "0 \<notin> set (chars command)" by simp
  then show "\<forall>x\<in>set (cmd_word command). \<not> ends_word x"
    using ends_word_iff cmd_word_no_nul [of command] by (metis cmd_word_def set_takeWhileD)
  assume c: "cmd_rest command = c # t"
  then have "0 \<notin> set (c # t)" using nz cmd_split [of command] by (metis Un_iff set_append)
  moreover have "\<not> word_char c" using c unfolding cmd_rest_def by (rule dropWhile_ConsD)
  ultimately show "ends_word c \<and> c \<noteq> 0 \<and> 0 \<notin> set t" using ends_word_iff [of c] by auto
qed

lemma emu_execute_words:
  assumes "length buf = 1026" and "0 \<in> set command" and "length (chars command) \<le> 1023"
  shows "emu_execute lx buf command hs =
    (let name = lit ''./'' @ cmd_word command; (w, hs) = lx_run lx name (name # emu_words (tl (cmd_rest command))) hs
     in Some (emu_status w, hs))"
proof -
  obtain z where z: "ece391_strcpy (drop 2 (buf[0 := 46, 1 := 47])) command = Some (chars command @ 0 # z)"
    "take 2 (buf[0 := 46, 1 := 47]) = lit ''./''" using command_buffer [OF assms] .
  let ?w = "cmd_word command" and ?d = "lit ''./''"
  have n: "ece391_strlen command = Some (length (chars command))" using strlen_chars [OF assms(2)] by (simp add: ece391_strlen_eq)
  show ?thesis
  proof (cases "cmd_rest command")
    case Nil
    then have e: "chars command = ?w" using cmd_split [of command] by simp
    have "scan_word (?d @ ?w @ 0 # z) 2 = Some (2 + length ?w)"
      using scan_word_at [OF first_word(1) [OF assms(2)], of 0 ?d z] by (simp add: ends_word_def numeral_2_eq_2)
    moreover have "(?d @ ?w @ 0 # z) ! (2 + length ?w) = 0" using nth_append_length [of "?d @ ?w" 0 z] by simp
    moreover have "chars (?d @ ?w @ 0 # z) = ?d @ ?w" using chars_terminated [of "?d @ ?w" z] by (simp add: of_char_def)
    ultimately show ?thesis
      using n z assms(1,3) e Nil by (simp add: emu_execute_def Let_def split: prod.split del: lit_simps)
  next
    case (Cons c t)
    note c = first_word(2) [OF assms(2) Cons]
    let ?p = "?d @ ?w @ [0]"
    have e: "chars command @ 0 # z = ?w @ c # t @ 0 # z" using cmd_split [of command] Cons by simp
    have len: "length t \<le> 1022" using arg_cong [OF cmd_split [of command], of length] Cons assms(3) by simp
    obtain z' js where a: "emu_args (?p @ t @ 0 # z) (length ?p) [0] = Some (?p @ z', [0] @ js)"
      "map (\<lambda>i. chars (drop i (?p @ z'))) js = emu_words t"
      using emu_args_at [of t "[0]" ?p z] c emu_words_bound [of t] len by auto
    have "length js \<le> 1022" using a(2) emu_words_bound [of t] len by (metis le_trans length_map)
    moreover have "scan_word (?d @ ?w @ c # t @ 0 # z) 2 = Some (2 + length ?w)"
      using scan_word_at [OF first_word(1) [OF assms(2)], of c ?d "t @ 0 # z"] c by (simp add: numeral_2_eq_2)
    moreover have "(?d @ ?w @ c # t @ 0 # z) ! (2 + length ?w) = c" using nth_append_length [of "?d @ ?w" c] by simp
    moreover have "(?d @ ?w @ c # t @ 0 # z)[2 + length ?w := 0] = ?p @ t @ 0 # z" using list_update_length [of "?d @ ?w" c "t @ 0 # z" 0] by simp
    moreover have "chars (?p @ z') = ?d @ ?w" using chars_terminated [of "?d @ ?w" z'] by (simp add: of_char_def)
    moreover have "length ?p = Suc (2 + length ?w)" by simp
    ultimately show ?thesis
      using n z assms(1,3) e Cons a c by (simp add: emu_execute_def Let_def split: prod.split del: lit_simps append_assoc)
  qed
qed

section \<open>Arguments handed over by the emulation and by the kernel\<close>

fun join_words :: "byte list list \<Rightarrow> byte list" where
  "join_words [] = []"
| "join_words [w] = w"
| "join_words (w # v # ws) = w @ SPC # join_words (v # ws)"

definition words_ok :: "byte list list \<Rightarrow> bool" where
  "words_ok ws \<longleftrightarrow> (\<forall>w\<in>set ws. w \<noteq> [] \<and> (\<forall>c\<in>set w. \<not> ends_word c))"

lemma words_ok_simps [simp]:
  "words_ok []" "words_ok (w # ws) \<longleftrightarrow> w \<noteq> [] \<and> (\<forall>c\<in>set w. \<not> ends_word c) \<and> words_ok ws"
  by (auto simp: words_ok_def)

lemma no_end_word: "\<forall>c\<in>set w. \<not> ends_word c \<Longrightarrow> 0 \<notin> set w \<and> (\<forall>c\<in>set w. word_char c) \<and> SPC \<notin> set w \<and> NL \<notin> set w"
  by (auto simp: ends_word_def word_char_def)

lemma join_words_nul: "words_ok ws \<Longrightarrow> 0 \<notin> set (join_words ws)"
  by (induction ws rule: join_words.induct) (auto simp: no_end_word)

lemma join_words_head: "words_ok (w # ws) \<Longrightarrow> \<exists>c r. join_words (w # ws) = c # r \<and> c \<noteq> SPC \<and> c \<noteq> NL"
  by (cases w; cases ws) (auto simp: ends_word_def)

lemma join_words_no_spaces: "words_ok ws \<Longrightarrow> dropWhile (\<lambda>c. c = SPC) (join_words ws) = join_words ws"
  using join_words_head [of "hd ws" "tl ws"] by (cases ws) auto

lemma split_join:
  assumes "words_ok (w # ws)"
  shows "takeWhile word_char (join_words (w # ws)) = w"
    and "dropWhile word_char (join_words (w # ws)) = (if ws = [] then [] else SPC # join_words ws)"
  using assms no_end_word [of w] by (cases ws; simp add: takeWhile_append2 dropWhile_append2 word_char_def)+

lemma emu_words_join: "words_ok ws \<Longrightarrow> emu_words (join_words ws) = ws"
proof (induction ws)
  case (Cons w ws)
  obtain c r where c: "join_words (w # ws) = c # r" "c \<noteq> SPC" "c \<noteq> NL" using join_words_head [OF Cons.prems] by auto
  have "emu_words (c # r) = takeWhile word_char (c # r) # emu_words (tl (dropWhile word_char (c # r)))"
    using c by (subst emu_words.simps) (simp only: dropWhile.simps list.case if_False)
  then have "emu_words (join_words (w # ws)) = w # emu_words (tl (if ws = [] then [] else SPC # join_words ws))"
    unfolding c(1) [symmetric] split_join [OF Cons.prems] .
  then show ?case using Cons by simp
qed simp

lemma joined_command:
  assumes "words_ok (w # ws)"
  shows "cmd_word (join_words (w # ws) @ [0]) = w"
    and "cmd_rest (join_words (w # ws) @ [0]) = (if ws = [] then [] else SPC # join_words ws)"
    and "cmd_args (join_words (w # ws) @ [0]) = join_words ws"
    and "chars (join_words (w # ws) @ [0]) = join_words (w # ws)"
proof -
  show c: "chars (join_words (w # ws) @ [0]) = join_words (w # ws)" using join_words_nul [OF assms] by simp
  show "cmd_word (join_words (w # ws) @ [0]) = w" unfolding cmd_word_def c by (rule split_join(1) [OF assms])
  show r: "cmd_rest (join_words (w # ws) @ [0]) = (if ws = [] then [] else SPC # join_words ws)"
    unfolding cmd_rest_def c by (rule split_join(2) [OF assms])
  show "cmd_args (join_words (w # ws) @ [0]) = join_words ws"
    unfolding cmd_args_def r using join_words_no_spaces [of ws] assms by simp
qed

lemma getargs_loop_joins:
  "\<lbrakk>words_ok ws; drop idx argv = map (\<lambda>w. w @ [0]) ws; length (join_words ws) < n; n \<le> length q\<rbrakk> \<Longrightarrow>
   \<exists>q'. getargs_loop argv idx (length p) (int n) (p @ q) =
       Some (Some (length p + length (join_words ws), int (n - length (join_words ws))), p @ join_words ws @ q') \<and>
     q' \<noteq> [] \<and> tl q' = drop (Suc (length (join_words ws))) q"
proof (induction ws arbitrary: idx p q n)
  case Nil
  then show ?case by (subst getargs_loop.simps) (auto simp: drop_Suc tl_drop)
next
  case (Cons w ws)
  have d: "drop idx argv = (w @ [0]) # map (\<lambda>w. w @ [0]) ws" using Cons.prems(2) by simp
  then have "idx < length argv" by (metis drop_all list.distinct(1) not_less)
  then have idx: "idx < length argv" "argv ! idx = w @ [0]" "drop (Suc idx) argv = map (\<lambda>w. w @ [0]) ws"
    using d Cons_nth_drop_Suc [of idx argv] by auto
  have nz: "0 \<notin> set w" using Cons.prems(1) no_end_word [of w] by simp
  have fits: "length w < n" using Cons.prems(3) by (cases ws) auto
  have len: "ece391_strlen (w @ [0]) = Some (length w)" using strlen_terminated [OF nz, of "[]"] by (simp add: ece391_strlen_eq)
  have cpy: "ece391_strcpy q (w @ [0]) = Some (w @ 0 # drop (Suc (length w)) q)"
    using strcpy_terminated [OF nz, of q "[]"] fits Cons.prems(4) by (simp add: ece391_strcpy_eq)
  show ?case
  proof (cases ws)
    case Nil
    then have "\<not> Suc idx < length argv" using idx(3) by (metis drop_eq_Nil list.map_disc_iff not_less)
    then show ?thesis using Nil idx(1,2) len cpy fits by (subst getargs_loop.simps) (simp add: of_nat_diff)
  next
    case (Cons v vs)
    then have more: "Suc idx < length argv" using idx(3) by (metis drop_all list.map_disc_iff list.distinct(1) not_less)
    have shorter: "length w + Suc (length (join_words ws)) < n" using Cons.prems(3) Cons by simp
    let ?p = "p @ w @ [SPC]" and ?q = "drop (Suc (length w)) q" and ?n = "n - length w - 1"
    have ok: "words_ok ws" using Cons.prems(1) by simp
    have b: "length (join_words ws) < ?n" "?n \<le> length ?q" using shorter Cons.prems(4) by auto
    obtain q' where q': "getargs_loop argv (Suc idx) (length ?p) (int ?n) (?p @ ?q) =
        Some (Some (length ?p + length (join_words ws), int (?n - length (join_words ws))), ?p @ join_words ws @ q')"
      "q' \<noteq> []" "tl q' = drop (Suc (length (join_words ws))) ?q"
      using Cons.IH [OF ok idx(3) b, of ?p] by blast
    have set: "aset (p @ w @ 0 # ?q) (length p + length w) SPC = Some (?p @ ?q)"
      using list_update_length [of "p @ w" 0 ?q SPC] by simp
    have n: "int n - int (length w) - 1 = int ?n" using shorter by (simp add: of_nat_diff)
    have "getargs_loop argv idx (length p) (int n) (p @ q) =
        getargs_loop argv (Suc idx) (length ?p) (int n - int (length w) - 1) (?p @ ?q)"
      using idx(1,2) len cpy fits more set shorter by (subst getargs_loop.simps) (simp add: Let_def)
    then show ?thesis unfolding n q'(1) using q'(2,3) Cons by (simp add: algebra_simps)
  qed
qed

lemma emu_getargs_joins:
  assumes "words_ok ws" and "length (join_words ws) < n" and "n \<le> length buf"
  shows "emu_getargs (name # map (\<lambda>w. w @ [0]) ws) buf (int n) =
    Some (0, join_words ws @ 0 # drop (Suc (length (join_words ws))) buf)"
proof -
  obtain q' where q': "getargs_loop (name # map (\<lambda>w. w @ [0]) ws) 1 0 (int n) buf =
      Some (Some (length (join_words ws), int (n - length (join_words ws))), join_words ws @ q')"
    "q' \<noteq> []" "tl q' = drop (Suc (length (join_words ws))) buf"
    using getargs_loop_joins [OF assms(1) _ assms(2,3), of 1 "name # map (\<lambda>w. w @ [0]) ws" "[]"] by auto
  then show ?thesis
    using assms(2) list_update_length [of "join_words ws" "hd q'" "tl q'" 0] by (cases q') (auto simp: emu_getargs_def)
qed

text \<open>C30: A program sees the same arguments under the emulation as under the kernel.  Take a command of words separated by single spaces
  of less than 128 characters, the size of the kernel's array for it (the kernel overruns it for longer commands, the emulation does not), whose first word names an
  executable.  The kernel's \<^verbatim>\<open>execute\<close> starts the program, and in it \<^verbatim>\<open>getargs\<close> with a buffer that is large enough fills in some bytes \<open>out'\<close>.
  \<^verbatim>\<open>ece391_execute\<close> of the emulation starts the file \<^verbatim>\<open>./\<close> and the first word with exactly the words as its arguments, and returns what its status
  says; in the program started so \<^verbatim>\<open>ece391_getargs\<close> fills in the same bytes \<open>out'\<close>: the words after the first, joined by spaces and
  terminated, with the rest of the buffer left alone.\<close>

theorem emulated_args_agree:
  assumes "words_ok (w # ws)" and "command = join_words (w # ws) @ [0]" and "length (join_words (w # ws)) < BUF_SIZE" and "length buf = 1026"
    and "tasks_ok s" and "frame_ok fr" and "next_slot p s"
    and "program_of command s = Some e" and "inode e < num_inodes s" and "prog = file_content s (inode e)"
    and "28 \<le> length prog" and "length prog \<le> READ_WHOLE_FILE" and "take 4 prog = ELF" and "le32 (take 4 (drop 24 prog)) = Some eip"
    and "length (join_words ws) < n" and "n \<le> length out"
  shows "\<exists>s' out'. execute fr command s = Some (Entered eip, s') \<and> getargs (Some out) (int n) s' = Some (0, Some out') \<and>
    emu_execute lx buf command hs =
      (let (st, hs) = lx_run lx (lit ''./'' @ w) ((lit ''./'' @ w) # ws) hs in Some (emu_status st, hs)) \<and>
    emu_getargs ((lit ''./'' @ w @ [0]) # map (\<lambda>x. x @ [0]) ws) out (int n) = Some (0, out') \<and>
    out' = join_words ws @ 0 # drop (Suc (length (join_words ws))) out"
proof -
  note j = joined_command [OF assms(1), folded assms(2)]
  let ?s' = "started fr p prog (reserved p command s)" and ?out = "join_words ws @ 0 # drop (Suc (length (join_words ws))) out"
  have cmd: "cmd_ok command" using assms(2,3) j(4) by (simp add: cmd_ok_def)
  have p: "p < NUM_PROCESSES" using assms(7) by (simp add: next_slot_def)
  have "execute fr command s = Some (Entered eip, ?s')" by (rule execute_started [OF assms(5,6) cmd assms(7-14)])
  moreover have "getargs (Some out) (int n) ?s' = Some (0, Some ?out)"
    using getargs_returns [OF assms(5) cmd p refl refl, of out "int n" fr prog] assms(15,16) j(3) by simp
  moreover have "emu_words (tl (cmd_rest command)) = ws" using j(2) emu_words_join [of ws] assms(1) by simp
  then have "emu_execute lx buf command hs =
      (let (st, hs) = lx_run lx (lit ''./'' @ w) ((lit ''./'' @ w) # ws) hs in Some (emu_status st, hs))"
    using emu_execute_words [OF assms(4), of command lx hs] assms(2,3) j by (simp add: Let_def BUF_SIZE_def del: lit_simps)
  moreover have "emu_getargs ((lit ''./'' @ w @ [0]) # map (\<lambda>x. x @ [0]) ws) out (int n) = Some (0, ?out)"
    using emu_getargs_joins [of ws n out] assms(1,15,16) by simp
  ultimately show ?thesis by blast
qed

text \<open>A Linux system that runs every program to the number of its arguments.\<close>

definition linux_example :: "unit linux" where
  "linux_example = \<lparr>lx_run = (\<lambda>name args h. (Some (Exited (int (length args))), h)), lx_open = (\<lambda>_ h. (3, h)),
     lx_read = (\<lambda>_ buf _ h. (0, buf, h)), lx_write = (\<lambda>_ _ _ h. (0, h)), lx_close = (\<lambda>_ h. (0, h)), lx_opendir = (\<lambda>_ h. (Some 1, h)),
     lx_readdir = (\<lambda>_ h. (Some (cstr ''frame0.txt''), h)), lx_closedir = (\<lambda>_ h. h), lx_libc_open = (\<lambda>_ h. (4, h)), lx_libc_close = (\<lambda>_ h. h),
     lx_mmap = (\<lambda>_ h. (None, h)), lx_perror = (\<lambda>_ h. h), lx_exit = (\<lambda>_ h. h)\<rparr>"

theorem emulated_args_agree_witness:
  "\<exists>s' out'. execute frame_example (lit ''shell x'' @ [0]) exec_example = Some (Entered 0x8048094, s') \<and>
    getargs (Some (replicate 10 1)) (int 8) s' = Some (0, Some out') \<and>
    emu_execute linux_example (replicate 1026 0) (lit ''shell x'' @ [0]) () =
      (let (st, hs) = lx_run linux_example (lit ''./'' @ lit ''shell'') ((lit ''./'' @ lit ''shell'') # [lit ''x'']) ()
       in Some (emu_status st, hs)) \<and>
    emu_getargs ((lit ''./'' @ lit ''shell'' @ [0]) # map (\<lambda>x. x @ [0]) [lit ''x'']) (replicate 10 1) (int 8) = Some (0, out') \<and>
    out' = join_words [lit ''x''] @ 0 # drop (Suc (length (join_words [lit ''x'']))) (replicate 10 1)"
proof (rule emulated_args_agree [where p = 1 and e = shell_entry and prog = "file_content exec_example 3"])
  show "words_ok [lit ''shell'', lit ''x'']" by (simp add: ends_word_def of_char_def)
  show "lit ''shell x'' @ [0] = join_words [lit ''shell'', lit ''x''] @ [0]" by (simp add: of_char_def)
  show "program_of (lit ''shell x'' @ [0]) exec_example = Some shell_entry" using shell_program by (simp only: cstr_def)
qed (simp_all add: shell_entry_facts(2) READ_WHOLE_FILE_def ELF_def le32_def BUF_SIZE_def)

section \<open>Reading the directory\<close>

lemma pad_name_eq:
  "\<lbrakk>k \<le> min n 32; min n 32 \<le> length to\<rbrakk> \<Longrightarrow>
   pad_name to k (int n) = Some (int (min n 32), take k to @ replicate (min n 32 - k) 0 @ drop (min n 32) to)"
proof (induction to k "int n" rule: pad_name.induct)
  case (1 to k)
  show ?case
  proof (cases "k = min n 32")
    case True
    then show ?thesis by (subst pad_name.simps) (auto simp: min_def)
  next
    case False
    then have k: "k < n" "k < 32" "k < length to" "Suc k \<le> min n 32" using 1(2,3) by auto
    have "pad_name (to[k := 0]) (Suc k) (int n) =
        Some (int (min n 32), take (Suc k) (to[k := 0]) @ replicate (min n 32 - Suc k) 0 @ drop (min n 32) (to[k := 0]))"
      using 1(1) [of "to[k := 0]"] k 1(3) by simp
    moreover have "replicate (min n 32 - k) (0::byte) = 0 # replicate (min n 32 - Suc k) 0"
      using k by (metis Suc_diff_Suc Suc_le_lessD replicate_Suc)
    ultimately show ?thesis using k by (subst pad_name.simps) (simp add: take_Suc_conv_app_nth)
  qed
qed

lemma copy_name_eq:
  "\<lbrakk>0 \<notin> set name; k < n; k < 32; min n 32 \<le> length to; k + length name < min n 32\<rbrakk> \<Longrightarrow>
     copy_name (name @ 0 # r) to k (int n) = Some (Inr (k + length name), take k to @ name @ drop (k + length name) to)"
  "\<lbrakk>0 \<notin> set name; k < n; k < 32; min n 32 \<le> length to; min n 32 \<le> k + length name\<rbrakk> \<Longrightarrow>
     copy_name (name @ 0 # r) to k (int n) =
       Some (Inl (int (min n 32)), take k to @ take (min n 32 - k) name @ drop (min n 32) to)"
proof (induction name arbitrary: to k)
  case (Cons a name)
  note cons = Cons
  {
    case 1
    then have "copy_name (name @ 0 # r) (to[k := a]) (Suc k) (int n) =
        Some (Inr (Suc k + length name), take (Suc k) (to[k := a]) @ name @ drop (Suc k + length name) (to[k := a]))"
      using cons(1) [of "Suc k" "to[k := a]"] by simp
    moreover have "k < length to" using 1(4,5) by linarith
    moreover from this have set: "aset to k a = Some (to[k := a])" by (rule aset_in)
    ultimately show ?case using 1(1,5) by (simp add: set take_Suc_conv_app_nth)
  next
    case 2
    show ?case
    proof (cases "Suc k = min n 32")
      case True
      then have "take (min n 32 - k) (a # name) = [a]" "int (k + 1) = int n \<or> k + 1 = 32" by (auto simp: min_def split: if_splits)
      moreover have "to[k := a] = take k to @ a # drop (Suc k) to" using 2(4) True by (simp add: upd_conv_take_nth_drop)
      ultimately show ?thesis using 2 True by (auto simp: min_def split: if_splits)
    next
      case False
      then have "copy_name (name @ 0 # r) (to[k := a]) (Suc k) (int n) =
          Some (Inl (int (min n 32)), take (Suc k) (to[k := a]) @ take (min n 32 - Suc k) name @ drop (min n 32) (to[k := a]))"
        using cons(2) [of "Suc k" "to[k := a]"] 2 by simp
      moreover have "take (min n 32 - k) (a # name) = a # take (min n 32 - Suc k) name"
        using 2(2,3) Suc_diff_Suc [of k "min n 32"] by (simp flip: Suc_diff_Suc)
      ultimately show ?thesis using 2 False by (auto simp: take_Suc_conv_app_nth)
    qed
  }
qed simp_all

text \<open>A read of the directory under the emulation.  As long as the directory has an entry, \<^verbatim>\<open>ece391_read\<close> on the descriptor that
  \<^verbatim>\<open>ece391_open\<close> returned for \<^verbatim>\<open>.\<close> writes the first \<^verbatim>\<open>nbytes\<close>, at most 32, characters of its name, filled up with NULs, returns how many
  bytes these are, and leaves the rest of the buffer alone; once there is none it returns 0.  Writes there fail, and closing it makes the
  number an ordinary descriptor again.\<close>

theorem emu_directory:
  assumes "emu_open lx (cstr ''.'') st hs = Some (fd, st', hs')" and "dir st' = Some d"
    and "0 < n" and "min n 32 \<le> length buf" and "lx_readdir lx d h1 = (de, h2)" and "\<forall>e. de = Some e \<longrightarrow> 0 \<in> set e"
  shows "emu_read lx fd buf (int n) st' h1 =
      (case de of None \<Rightarrow> Some (0, buf, h2)
       | Some e \<Rightarrow> Some (int (min n 32), take (min n 32) (chars e @ replicate 32 0) @ drop (min n 32) buf, h2)) \<and>
    emu_write lx fd out m st' h1 = (-1, h1) \<and>
    emu_close lx fd st' h1 = (0, st'\<lparr>dir := None, dir_fd := -1\<rparr>, lx_libc_close lx fd (lx_closedir lx d h1))"
proof -
  have fd: "dir_fd st' = fd"
    using assms(1) by (auto simp: emu_open_def cstr_def of_char_def split: prod.splits)
  have "emu_read lx fd buf (int n) st' h1 =
      Some (int (min n 32), take (min n 32) (chars e @ replicate 32 0) @ drop (min n 32) buf, h2)" if e: "de = Some e" for e
  proof -
    obtain r where r: "e = chars e @ 0 # r" using assms(6) e by (metis terminatedE)
    have nz: "0 \<notin> set (chars e)" by simp
    show ?thesis
    proof (cases "length (chars e) < min n 32")
      case True
      have "copy_name (chars e @ 0 # r) buf 0 (int n) = Some (Inr (length (chars e)), chars e @ drop (length (chars e)) buf)"
        using copy_name_eq(1) [OF nz assms(3) _ assms(4)] True by simp
      moreover have "pad_name (chars e @ drop (length (chars e)) buf) (length (chars e)) (int n) =
          Some (int (min n 32), chars e @ replicate (min n 32 - length (chars e)) 0 @ drop (min n 32) buf)"
        using pad_name_eq [of "length (chars e)" n "chars e @ drop (length (chars e)) buf"] True assms(4) by simp
      moreover have "take (min n 32) (chars e @ replicate 32 0) = chars e @ replicate (min n 32 - length (chars e)) 0"
        using True by (auto simp: min_def)
      ultimately show ?thesis using r fd assms(2,5) e by (simp add: emu_read_def)
    next
      case False
      have "copy_name (chars e @ 0 # r) buf 0 (int n) = Some (Inl (int (min n 32)), take (min n 32) (chars e) @ drop (min n 32) buf)"
        using copy_name_eq(2) [OF nz assms(3) _ assms(4)] False by simp
      moreover have "take (min n 32) (chars e @ replicate 32 0) = take (min n 32) (chars e)" using False by (simp add: min_def)
      ultimately show ?thesis using r fd assms(2,5) e by (simp add: emu_read_def)
    qed
  qed
  then show ?thesis
    using fd assms(2,5) by (cases de) (auto simp: emu_read_def emu_write_def emu_close_def)
qed

theorem emu_directory_witness:
  "emu_open linux_example (cstr ''.'') emu_start () = Some (4, \<lparr>dir_fd = 4, dir = Some 1, mem_fd = -1\<rparr>, ()) \<and>
   emu_read linux_example 4 ([9, 9, 9, 9, 9, 9, 9]) 5 \<lparr>dir_fd = 4, dir = Some 1, mem_fd = -1\<rparr> () =
     Some (5, lit ''frame'' @ [9, 9], ())"
proof -
  have o: "emu_open linux_example (cstr ''.'') emu_start () = Some (4, \<lparr>dir_fd = 4, dir = Some 1, mem_fd = -1\<rparr>, ())"
    by (simp add: emu_open_def linux_example_def emu_start_def cstr_def)
  show ?thesis
    using o emu_directory [OF o, of 1 5 "[9, 9, 9, 9, 9, 9, 9]" "()" "Some (cstr ''frame0.txt'')" "()" "[]" 0]
    by (simp add: linux_example_def cstr_def chars_def of_char_def)
qed

end
