(* ===== verification/Spec2Isabelle.thy ===== *)
theory Spec2Isabelle
  imports Prelude CString AsmMem Machine Devices Paging FileSys FsImage Console Printf Keyboard Process Exec Switching Interrupts Exceptions
    Invariant Boot Userland Programs Grep Syserr Blink Clock Sigtest Fish Emulate
begin

text \<open>
  A small Unix-like kernel for one x86 processor, its user library and its user programs.

  \<^bold>\<open>The program.\<close>  The boot loader enters \<^verbatim>\<open>entry\<close> (\<^verbatim>\<open>student-distrib/kernel.c\<close>), which prints what it was given, sets up the
  descriptors, the interrupt table, the interrupt controllers, keyboard, clock, timer and paging, mounts the file system image that was loaded
  with the kernel and executes the shell.  From then on the kernel is entered by system calls (\<^verbatim>\<open>syscall_link.S\<close> into \<^verbatim>\<open>syscall.c\<close>),
  by exceptions (\<^verbatim>\<open>idt.c\<close>) and by the interrupts of the keyboard (\<^verbatim>\<open>keyboard.c\<close>), the clock (\<^verbatim>\<open>rtc.c\<close>) and the timer (\<^verbatim>\<open>pit.c\<close>, which
  lets \<^verbatim>\<open>scheduler.c\<close> go on with the next terminal).  Three terminals (\<^verbatim>\<open>terminal.c\<close>) share the screen (\<^verbatim>\<open>lib.c\<close>); each runs a shell and the
  programs that it executes; six processes share the memory.

  \<^bold>\<open>Theories and sources.\<close>  Each theory models the named files and proves the properties of its component; the names are those of the source.

  \<^item> \<open>Prelude\<close>: C integers, string literals, checked array accesses, and lemmas that all theories share.
  \<^item> \<open>CString\<close>: the string functions of \<^verbatim>\<open>lib.c\<close>, over lists of bytes; \<open>AsmMem\<close>: its memory functions in inline
    assembly, instruction by instruction over a 32-bit memory with a direction flag.
  \<^item> \<open>Machine\<close>: ports, flags, the interrupt table and \<^verbatim>\<open>i8259.c\<close>; \<open>Devices\<close>: \<^verbatim>\<open>rtc.c\<close> and \<^verbatim>\<open>pit.c\<close>.  What a device answers is a
    function of the log of port events.  The locale \<open>indexed_ports\<close> is the contract of a pair of index and data ports.
  \<^item> \<open>Paging\<close>: \<^verbatim>\<open>paging.c\<close>, with the page walk of the processor as the meaning of the tables and the locale \<open>page_mapper\<close> as the contract of
    the mapping functions.
  \<^item> \<open>FileSys\<close>: \<^verbatim>\<open>files.c\<close> over the bytes of the image, the abstract contents of a file, and the locale \<open>chunk_store\<close> of what
    reading promises; \<open>FsImage\<close>: when an image holds a list of files (\<open>disk_holds\<close>, for any
    numbers of inodes and any blocks), and that mounting it gives back these files.
  \<^item> \<open>Console\<close>: the screen of \<^verbatim>\<open>lib.c\<close> and \<^verbatim>\<open>terminal.c\<close>; the locale \<open>text_screen\<close> is the abstract terminal that both the visible and the
    saved screens implement; \<open>Printf\<close>: \<^verbatim>\<open>printf\<close>.
  \<^item> \<open>Keyboard\<close>, \<open>Interrupts\<close>: \<^verbatim>\<open>keyboard.c\<close>, its line buffer and its whole interrupt handler.
  \<^item> \<open>Process\<close>, \<open>Exec\<close>: \<^verbatim>\<open>syscall.c\<close>: the process table and the descriptors, both instances of the locale \<open>slot_table\<close>, and the
    system calls; \<open>Switching\<close>: the rest of \<^verbatim>\<open>terminal.c\<close> and \<^verbatim>\<open>scheduler.c\<close>; \<open>Exceptions\<close>: the handlers of \<^verbatim>\<open>idt.c\<close>.
  \<^item> \<open>Invariant\<close>: the step relation of all kernel entries, the invariant \<open>kernel_ok\<close> that every run of them keeps, and what the calls on
    descriptors do in every state of a run.
  \<^item> \<open>Boot\<close>: \<^verbatim>\<open>kernel.c\<close> and \<^verbatim>\<open>multiboot.h\<close>.
  \<^item> \<open>Userland\<close>: \<^verbatim>\<open>syscalls/ece391support.c\<close>, the gate of \<^verbatim>\<open>syscall_link.S\<close>, and the programs \<^verbatim>\<open>cat\<close>, \<^verbatim>\<open>ls\<close>, \<^verbatim>\<open>hello\<close>,
    \<^verbatim>\<open>counter\<close>, \<^verbatim>\<open>testprint\<close> and \<^verbatim>\<open>shell\<close>; \<open>Grep\<close>: \<^verbatim>\<open>grep\<close>; \<open>Syserr\<close>: the tests of \<^verbatim>\<open>ece391syserr.c\<close>; \<open>Programs\<close>: what these programs
    do on the kernel.
  \<^item> \<open>Clock\<close>: the programs that run at the pace of the clock, \<^verbatim>\<open>test_rtc\<close> of \<^verbatim>\<open>rtc.c\<close> and \<^verbatim>\<open>ece391pingpong.c\<close>; \<open>Sigtest\<close>: \<^verbatim>\<open>ece391sigtest.c\<close>.
  \<^item> \<open>Blink\<close>: the blinking characters of the animation program, the pool of \<^verbatim>\<open>fish/fish.c\<close> and the linked list of \<^verbatim>\<open>fish/blink.S\<close>; \<open>Fish\<close>: the
    rest of \<^verbatim>\<open>fish/fish.c\<close>, on the kernel, its video memory and the list.
  \<^item> \<open>Emulate\<close>: \<^verbatim>\<open>ece391emulate.c\<close>, the system calls emulated on Linux; the calls of Linux are the parameter \<open>linux\<close>.

  \<^bold>\<open>State.\<close>  The kernel's global variables are one record, built by extension in the order of the theories: \<open>hw\<close>, \<open>pic\<close>, \<open>rtc\<close>, \<open>pit\<close>,
  \<open>paging\<close>, \<open>files\<close>, \<open>console\<close>, \<open>keyboard\<close>, \<open>kernel\<close>, \<open>booting\<close>.  An operation takes the state and returns the new one; it is polymorphic in the
  fields it does not know, so it leaves them alone by its type.  Undefined behaviour (an access outside an array, an unmapped address) and waiting for ever
  are the result \<open>None\<close>; every theorem that concludes \<open>Some\<close> says that the code is safe and returns.  Addresses that the linker chooses, uninitialised stack arrays
  and saved stack pointers are parameters.  A control transfer (entering a program, resuming a parent) is a value of the type
  \<open>outcome\<close>.  Machine integers are words where they wrap or are used as bits, and \<open>int\<close> or \<open>nat\<close> where the code
  stays in range.

  \<^bold>\<open>What is shown.\<close>
  Files: reading returns the bytes of the file at every offset but 4096, where the code returns the first block again; every image in the format of the file system, such as the one that
  the repository ships, gives back its files by name.
  Memory: the pages of two processes never meet; the control block and the kernel stack of a process that \<^verbatim>\<open>execute\<close> has started do not meet, nor those of the others; the memory functions copy and fill
  exactly their regions.
  Screen: the code implements an abstract terminal with scrolling, on the visible and on the saved screens; switching the terminals there and back
  restores screen, cursor and line; \<^verbatim>\<open>printf\<close> prints the text its format denotes.
  Keyboard: the interrupts implement a line editor, and \<^verbatim>\<open>keyboard_read\<close> returns its line; a line of 128 characters makes it read the byte
  behind the buffer.
  Processes: \<^verbatim>\<open>execute\<close> loads and enters the named program in the first free process, \<^verbatim>\<open>halt\<close> resumes the parent with the status, both together give the
  caller back what it had; the last shell of a terminal is started again; the least free descriptor is allocated; the scheduler ends exactly when a
  terminal is active and takes the next one in order; a process that is switched away resumes with its own stack and
  memory; an exception ends the process that caused it, and its parent goes on, with its files closed.
  The whole kernel: starting it on an image with a shell runs the shell with every device ready; every sequence of system calls, exceptions and interrupts
  keeps the invariant, and in every state it leads to no descriptor takes \<^verbatim>\<open>read\<close>, \<^verbatim>\<open>write\<close> or \<^verbatim>\<open>close\<close> out of the tables.
  Programs: the shell runs the typed command, \<^verbatim>\<open>cat\<close>, \<^verbatim>\<open>ls\<close>, \<^verbatim>\<open>grep\<close> and \<^verbatim>\<open>counter\<close> print what they should, and the eight error
  tests of \<^verbatim>\<open>syserr\<close> pass; the linked list of the blinking characters implements a sequence, as long as none of them is at location 0; \<^verbatim>\<open>fish\<close> shows its two
  frames in the video memory in turns of 15 ticks and ends; \<^verbatim>\<open>pingpong\<close> goes on for ever; \<^verbatim>\<open>sigtest\<close> is killed, because the kernel has no signals.
  Emulation: the same command makes the kernel's \<^verbatim>\<open>getargs\<close> and that of the emulation return the same bytes, and the directory is read in padded names.

  \<^bold>\<open>Loops and bounds.\<close>  Loops that count are functions with a termination proof.  Loops that may not end are partial functions with
  value \<open>None\<close> for not ending: the scheduler's search, the walk over the memory map, the reading of a string of the boot loader, and the read loops of \<^verbatim>\<open>cat\<close>,
  \<^verbatim>\<open>ls\<close>, \<^verbatim>\<open>grep\<close> and \<^verbatim>\<open>fish\<close>; that they return is part of the theorems about them.  The loops that never end, of \<^verbatim>\<open>test_rtc\<close> and \<^verbatim>\<open>pingpong\<close>, have the number of
  turns as a parameter, and the theorems hold for every number.  The only fuel is that of the listing of a directory in
  \<open>FsImage\<close>, where one more than the number of entries is enough.  A program may be as long as the constant \<^verbatim>\<open>READ_WHOLE_FILE\<close>, an image as long as
  its 32-bit addresses allow.

  \<^bold>\<open>Not modelled.\<close>  The instructions of the linkage routines, \<^verbatim>\<open>boot.S\<close> and \<^verbatim>\<open>x86_desc.S\<close> (register saving and static tables); the
  macros of \<^verbatim>\<open>debug.h\<close> and the wide port and flag macros of \<^verbatim>\<open>lib.h\<close>, which nothing uses; interrupts that arrive in the middle of an operation (each entry is one step, and a wait for the clock
  is released by one interrupt of the clock); \<^verbatim>\<open>fish\<close> on a terminal in the background, whose page of the screen is not the video memory.
\<close>

end
